(* ===== verification/Prelude.thy ===== *)
theory Prelude
  imports Main "HOL-Library.Word"
begin

text \<open>
  The vocabulary the component theories share: the C integer types, the ways a C
  computation can fail to return, the sequencing of fallible computations, and the
  arithmetic of single bits in a machine word.

  A computation that can fail is a value of type \<open>cerror + 'a\<close>: \<open>Inl\<close> names the reason
  it has no result, \<open>Inr\<close> carries the result. State is passed explicitly.
\<close>

unbundle bit_operations_syntax

subsection \<open>Integer types\<close>

type_synonym uint8 = "8 word"
type_synonym uint16 = "16 word"
type_synonym uint32 = "32 word"
type_synonym uint64 = "64 word"

text \<open>The value of a C \<open>int\<close> after an operation that may overflow; PostgreSQL is compiled with \<open>-fwrapv\<close>.\<close>

definition c_int :: "int \<Rightarrow> int" where
  "c_int x = (x + 2 ^ 31) mod 2 ^ 32 - 2 ^ 31"

lemma c_int_in_range: "- (2 ^ 31) \<le> x \<Longrightarrow> x < 2 ^ 31 \<Longrightarrow> c_int x = x"
  by (simp add: c_int_def)

subsection \<open>Failure\<close>

text \<open>
  \<^item> \<open>NullDeref\<close>: a null pointer is dereferenced (the backend dies with a signal);
  \<^item> \<open>BadAddr\<close>: an address that is not, or no longer, allocated is used;
  \<^item> \<open>WrongTag\<close>: a union or node is read as a type it does not hold;
  \<^item> \<open>OutOfBounds\<close>: an array is indexed outside its extent;
  \<^item> \<open>AssertFail\<close>: an \<open>Assert\<close> of a build with assertions enabled fails;
  \<^item> \<open>OutOfMemory\<close>: \<open>palloc\<close> reports that no memory is left;
  \<^item> \<open>Diverges\<close>: a loop does not end;
  \<^item> \<open>Blocked\<close>: the process waits for another one that does nothing any more;
  \<^item> \<open>Ereport m\<close>: \<open>elog\<close> or \<open>ereport\<close> at level ERROR or FATAL, with message \<open>m\<close>;
  \<^item> \<open>Panic m\<close>: the same at level PANIC.
\<close>

datatype cerror =
    NullDeref
  | BadAddr
  | WrongTag
  | OutOfBounds
  | AssertFail
  | OutOfMemory
  | Diverges
  | Blocked
  | Ereport string
  | Panic string

type_synonym 'a result = "cerror + 'a"

named_theorems res_simps \<open>evaluation of sequenced computations\<close>

definition bind_res :: "'a result \<Rightarrow> ('a \<Rightarrow> 'b result) \<Rightarrow> 'b result" where
  "bind_res m f = (case m of Inl e \<Rightarrow> Inl e | Inr x \<Rightarrow> f x)"

definition Assert :: "bool \<Rightarrow> unit result" where
  "Assert b = (if b then Inr () else Inl AssertFail)"

lemma bind_res_simps [simp, res_simps]:
  "bind_res (Inr x) f = f x"
  "bind_res (Inl e) f = Inl e"
  by (simp_all add: bind_res_def)

lemma bind_res_eq_Inr [res_simps]:
  "bind_res m f = Inr y \<longleftrightarrow> (\<exists>x. m = Inr x \<and> f x = Inr y)"
  by (cases m) auto

lemma bind_res_InrE:
  assumes "bind_res m f = Inr y"
  obtains x where "m = Inr x" and "f x = Inr y"
  using assms by (auto simp: bind_res_eq_Inr)

lemma bind_res_assoc:
  "bind_res (bind_res m f) g = bind_res m (\<lambda>x. bind_res (f x) g)"
  by (cases m) simp_all

lemma Assert_simps [simp, res_simps]:
  "Assert True = Inr ()"
  "Assert False = Inl AssertFail"
  by (simp_all add: Assert_def)

lemma Assert_eq_Inr [simp, res_simps]: "Assert b = Inr u \<longleftrightarrow> b"
  by (cases b) simp_all

text \<open>
  A \<open>foreach\<close> loop whose body may fail: the body runs on each element in turn and the state
  is threaded through; the first failure ends the loop.
\<close>

fun each_res :: "('a \<Rightarrow> 's \<Rightarrow> 's result) \<Rightarrow> 'a list \<Rightarrow> 's \<Rightarrow> 's result" where
  "each_res f [] s = Inr s"
| "each_res f (x # xs) s = bind_res (f x s) (each_res f xs)"

lemma each_res_append:
  "each_res f (xs @ ys) s = bind_res (each_res f xs s) (each_res f ys)"
  by (induction xs arbitrary: s) (simp_all add: bind_res_def split: sum.split)

lemma each_res_invariant:
  assumes "each_res f xs s = Inr t" and "P s"
    and "\<And>x s t. x \<in> set xs \<Longrightarrow> f x s = Inr t \<Longrightarrow> P s \<Longrightarrow> P t"
  shows "P t"
  using assms
proof (induction xs arbitrary: s)
  case Nil
  then show ?case by simp
next
  case (Cons x xs)
  then obtain u where "f x s = Inr u" and "each_res f xs u = Inr t"
    by (auto simp: bind_res_eq_Inr)
  with Cons show ?case by (meson list.set_intros)
qed

lemma each_res_total:
  assumes "P s" and "\<And>x s. x \<in> set xs \<Longrightarrow> P s \<Longrightarrow> \<exists>t. f x s = Inr t \<and> P t"
  shows "\<exists>t. each_res f xs s = Inr t \<and> P t"
  using assms
proof (induction xs arbitrary: s)
  case Nil
  then show ?case by simp
next
  case (Cons x xs)
  then obtain u where "f x s = Inr u" and "P u" by (meson list.set_intros(1))
  with Cons show ?case by simp
qed

subsection \<open>Arrays of machine words\<close>

text \<open>
  An array is the list of its elements. A read or a write outside it has no defined
  meaning in C and is the error \<open>OutOfBounds\<close> here.
\<close>

definition aload :: "'a list \<Rightarrow> nat \<Rightarrow> 'a result" where
  "aload a i = (if i < length a then Inr (a ! i) else Inl OutOfBounds)"

definition astore :: "'a list \<Rightarrow> nat \<Rightarrow> 'a \<Rightarrow> 'a list result" where
  "astore a i v = (if i < length a then Inr (a[i := v]) else Inl OutOfBounds)"

lemma aload_in [simp]: "i < length a \<Longrightarrow> aload a i = Inr (a ! i)"
  by (simp add: aload_def)

lemma astore_in [simp]: "i < length a \<Longrightarrow> astore a i v = Inr (a[i := v])"
  by (simp add: astore_def)

lemma aload_eq_Inr: "aload a i = Inr v \<longleftrightarrow> i < length a \<and> v = a ! i"
  by (auto simp: aload_def)

lemma astore_eq_Inr: "astore a i v = Inr a' \<longleftrightarrow> i < length a \<and> a' = a[i := v]"
  by (auto simp: astore_def)

subsection \<open>Single bits\<close>

text \<open>Masks stay in the form the code has them, \<open>1 << k\<close>.\<close>

declare push_bit_of_1 [simp del]

named_theorems bit_laws \<open>one bit of a word after setting or clearing another\<close>

lemma bit_push_one [bit_laws]:
  "bit (push_bit k (1::'a::len word)) i \<longleftrightarrow> i = k \<and> i < LENGTH('a)"
  by (auto simp: bit_simps)

lemma and_push_one_nonzero:
  fixes w :: "'a::len word"
  shows "w AND push_bit k 1 \<noteq> 0 \<longleftrightarrow> bit w k"
  by (simp add: bit_iff_and_push_bit_not_eq_0)

lemma bit_set_one [bit_laws]:
  fixes w :: "'a::len word"
  assumes "k < LENGTH('a)"
  shows "bit (w OR push_bit k 1) i \<longleftrightarrow> i = k \<or> bit w i"
  using assms by (auto simp: bit_simps)

lemma bit_clear_one [bit_laws]:
  fixes w :: "'a::len word"
  shows "bit (w AND NOT (push_bit k 1)) i \<longleftrightarrow> i \<noteq> k \<and> bit w i"
  by (auto simp: bit_simps dest: bit_imp_le_length)

end
