(* ===== verification/PgList.thy ===== *)
theory PgList
  imports Prelude
begin

text \<open>
  The list package: \<open>src/include/nodes/pg_list.h\<close> and \<open>src/backend/nodes/list.c\<close>, with the
  \<open>malloc\<close>-based variants (\<open>pg_lappend_int\<close>, \<open>pg_list_delete_cell\<close>, \<open>pg_list_free\<close>) that the
  migration code uses for the lists that outlive a memory context.

  The code mutates list headers and cells through pointers, so the model has an explicit
  store: a map from addresses to headers, one from addresses to cells, and the set of live
  opaque objects that cells may point to. Address 0 is the null pointer. An allocation takes
  the next unused address; \<open>room\<close> counts the allocations that can still succeed (storage that
  is given back does not count again). \<open>palloc\<close> raises an error when there is no room, \<open>malloc\<close> returns the null pointer. Every chunk
  remembers its allocator, and giving it back to the other one is an error.

  The field \<open>length\<close> is a C \<open>int\<close> and wraps around.

  A loop over cells gets as many iterations as there are addresses, one more than any chain
  without a cycle needs; using them up is the error \<open>Diverges\<close>.
\<close>

subsection \<open>The store\<close>

datatype allocator = Palloc | Malloc

datatype NodeTag = T_List | T_IntList | T_OidList

text \<open>The \<open>data\<close> union of a cell, tagged by the member last written.\<close>

datatype cell_data = Undef | PtrValue nat | IntValue uint32 | OidValue uint32

record ListCell =
  cell_data :: cell_data
  cell_next :: "nat option"
  cell_origin :: allocator

record List =
  list_type :: NodeTag
  length_of :: int
  head_of :: nat
  tail_of :: nat
  list_origin :: allocator

record store =
  hdrs :: "nat \<Rightarrow> List option"
  cells :: "nat \<Rightarrow> ListCell option"
  objs :: "nat \<Rightarrow> bool"
  brk :: nat
  room :: nat

abbreviation (input) NIL :: nat where "NIL \<equiv> 0"

definition loop_bound :: "store \<Rightarrow> nat" where
  "loop_bound h = Suc (brk h)"

text \<open>Reading and writing through a pointer.\<close>

definition list_at :: "nat \<Rightarrow> store \<Rightarrow> List result" where
  "list_at l h = (if l = 0 then Inl NullDeref
     else case hdrs h l of None \<Rightarrow> Inl BadAddr | Some L \<Rightarrow> Inr L)"

definition cell_at :: "nat \<Rightarrow> store \<Rightarrow> ListCell result" where
  "cell_at c h = (if c = 0 then Inl NullDeref
     else case cells h c of None \<Rightarrow> Inl BadAddr | Some x \<Rightarrow> Inr x)"

definition put_list :: "nat \<Rightarrow> List \<Rightarrow> store \<Rightarrow> store" where
  "put_list l L h = h\<lparr>hdrs := (hdrs h)(l \<mapsto> L)\<rparr>"

definition put_cell :: "nat \<Rightarrow> ListCell \<Rightarrow> store \<Rightarrow> store" where
  "put_cell c x h = h\<lparr>cells := (cells h)(c \<mapsto> x)\<rparr>"

definition upd_list :: "nat \<Rightarrow> (List \<Rightarrow> List) \<Rightarrow> store \<Rightarrow> store result" where
  "upd_list l f h = bind_res (list_at l h) (\<lambda>L. Inr (put_list l (f L) h))"

definition upd_cell :: "nat \<Rightarrow> (ListCell \<Rightarrow> ListCell) \<Rightarrow> store \<Rightarrow> store result" where
  "upd_cell c f h = bind_res (cell_at c h) (\<lambda>x. Inr (put_cell c (f x) h))"

definition set_next :: "nat \<Rightarrow> nat \<Rightarrow> store \<Rightarrow> store result" where
  "set_next c n = upd_cell c (\<lambda>x. x\<lparr>cell_next := Some n\<rparr>)"

definition set_data :: "nat \<Rightarrow> cell_data \<Rightarrow> store \<Rightarrow> store result" where
  "set_data c d = upd_cell c (\<lambda>x. x\<lparr>cell_data := d\<rparr>)"

text \<open>Allocation and release.\<close>

definition fresh_cell :: "allocator \<Rightarrow> ListCell" where
  "fresh_cell org = \<lparr>cell_data = Undef, cell_next = None, cell_origin = org\<rparr>"

definition fresh_list :: "allocator \<Rightarrow> List" where
  "fresh_list org =
     \<lparr>list_type = T_List, length_of = 0, head_of = 0, tail_of = 0, list_origin = org\<rparr>"

definition alloc_cell :: "allocator \<Rightarrow> store \<Rightarrow> nat \<times> store" where
  "alloc_cell org h =
     (brk h, (put_cell (brk h) (fresh_cell org) h)\<lparr>brk := Suc (brk h), room := room h - 1\<rparr>)"

definition alloc_list :: "allocator \<Rightarrow> store \<Rightarrow> nat \<times> store" where
  "alloc_list org h =
     (brk h, (put_list (brk h) (fresh_list org) h)\<lparr>brk := Suc (brk h), room := room h - 1\<rparr>)"

definition palloc_cell :: "store \<Rightarrow> (nat \<times> store) result" where
  "palloc_cell h = (if room h = 0 then Inl OutOfMemory else Inr (alloc_cell Palloc h))"

definition palloc_list :: "store \<Rightarrow> (nat \<times> store) result" where
  "palloc_list h = (if room h = 0 then Inl OutOfMemory else Inr (alloc_list Palloc h))"

definition malloc_cell :: "store \<Rightarrow> nat \<times> store" where
  "malloc_cell h = (if room h = 0 then (0, h) else alloc_cell Malloc h)"

definition malloc_list :: "store \<Rightarrow> nat \<times> store" where
  "malloc_list h = (if room h = 0 then (0, h) else alloc_list Malloc h)"

definition release_cell :: "allocator \<Rightarrow> nat \<Rightarrow> store \<Rightarrow> store result" where
  "release_cell org c h =
     bind_res (cell_at c h) (\<lambda>x.
     if cell_origin x = org then Inr (h\<lparr>cells := (cells h)(c := None)\<rparr>) else Inl BadAddr)"

definition release_list :: "allocator \<Rightarrow> nat \<Rightarrow> store \<Rightarrow> store result" where
  "release_list org l h =
     bind_res (list_at l h) (\<lambda>L.
     if list_origin L = org then Inr (h\<lparr>hdrs := (hdrs h)(l := None)\<rparr>) else Inl BadAddr)"

definition release_obj :: "nat \<Rightarrow> store \<Rightarrow> store result" where
  "release_obj p h =
     (if objs h p then Inr (h\<lparr>objs := (objs h)(p := False)\<rparr>) else Inl BadAddr)"

subsection \<open>Accessors of \<open>pg_list.h\<close>\<close>

definition list_head :: "nat \<Rightarrow> store \<Rightarrow> nat result" where
  "list_head l h = (if l = NIL then Inr 0 else bind_res (list_at l h) (\<lambda>L. Inr (head_of L)))"

definition list_tail :: "nat \<Rightarrow> store \<Rightarrow> nat result" where
  "list_tail l h = (if l = NIL then Inr 0 else bind_res (list_at l h) (\<lambda>L. Inr (tail_of L)))"

definition list_length :: "nat \<Rightarrow> store \<Rightarrow> int result" where
  "list_length l h = (if l = NIL then Inr 0 else bind_res (list_at l h) (\<lambda>L. Inr (length_of L)))"

definition lnext :: "nat \<Rightarrow> store \<Rightarrow> nat result" where
  "lnext lc h = bind_res (cell_at lc h) (\<lambda>x.
     case cell_next x of None \<Rightarrow> Inl BadAddr | Some n \<Rightarrow> Inr n)"

definition lfirst :: "nat \<Rightarrow> store \<Rightarrow> nat result" where
  "lfirst lc h = bind_res (cell_at lc h) (\<lambda>x.
     case cell_data x of PtrValue p \<Rightarrow> Inr p | _ \<Rightarrow> Inl WrongTag)"

definition lfirst_int :: "nat \<Rightarrow> store \<Rightarrow> uint32 result" where
  "lfirst_int lc h = bind_res (cell_at lc h) (\<lambda>x.
     case cell_data x of IntValue i \<Rightarrow> Inr i | _ \<Rightarrow> Inl WrongTag)"

definition lfirst_oid :: "nat \<Rightarrow> store \<Rightarrow> uint32 result" where
  "lfirst_oid lc h = bind_res (cell_at lc h) (\<lambda>x.
     case cell_data x of OidValue i \<Rightarrow> Inr i | _ \<Rightarrow> Inl WrongTag)"

subsection \<open>Validity checks\<close>

definition IsA :: "nat \<Rightarrow> NodeTag \<Rightarrow> store \<Rightarrow> bool result" where
  "IsA l ty h = bind_res (list_at l h) (\<lambda>L. Inr (list_type L = ty))"

definition IsListOf :: "NodeTag \<Rightarrow> nat \<Rightarrow> store \<Rightarrow> bool result" where
  "IsListOf ty l h = (if l = NIL then Inr True else IsA l ty h)"

definition IsPointerList :: "nat \<Rightarrow> store \<Rightarrow> bool result" where
  "IsPointerList = IsListOf T_List"

definition IsIntegerList :: "nat \<Rightarrow> store \<Rightarrow> bool result" where
  "IsIntegerList = IsListOf T_IntList"

definition IsOidList :: "nat \<Rightarrow> store \<Rightarrow> bool result" where
  "IsOidList = IsListOf T_OidList"

definition check_list_invariants :: "nat \<Rightarrow> store \<Rightarrow> unit result" where
  "check_list_invariants l h =
     (if l = NIL then Inr ()
      else
        bind_res (list_at l h) (\<lambda>L.
        bind_res (Assert (length_of L > 0)) (\<lambda>_.
        bind_res (Assert (head_of L \<noteq> 0)) (\<lambda>_.
        bind_res (Assert (tail_of L \<noteq> 0)) (\<lambda>_.
        bind_res (Assert (list_type L = T_List \<or> list_type L = T_IntList \<or>
                          list_type L = T_OidList)) (\<lambda>_.
        bind_res (if length_of L = 1 then Assert (head_of L = tail_of L) else Inr ()) (\<lambda>_.
        bind_res (if length_of L = 2
                  then bind_res (lnext (head_of L) h) (\<lambda>n. Assert (n = tail_of L))
                  else Inr ()) (\<lambda>_.
        bind_res (lnext (tail_of L) h) (\<lambda>n. Assert (n = 0))))))))))"

definition Assert_res :: "bool result \<Rightarrow> unit result" where
  "Assert_res b = bind_res b Assert"

subsection \<open>Loops over cells\<close>

text \<open>
  \<open>foreach (cell, list) body\<close>: \<open>for (cell = list_head(list); cell != NULL; cell = lnext(cell))\<close>.
  The body may change the store and a loop variable of type \<open>'s\<close>; the link to the next cell
  is read after the body ran.
\<close>

fun foreach_from ::
  "nat \<Rightarrow> (nat \<Rightarrow> 's \<Rightarrow> store \<Rightarrow> ('s \<times> store) result) \<Rightarrow> nat \<Rightarrow> 's \<Rightarrow> store \<Rightarrow> ('s \<times> store) result"
where
  "foreach_from 0 body cell s h = Inl Diverges"
| "foreach_from (Suc n) body cell s h =
     (if cell = 0 then Inr (s, h)
      else bind_res (body cell s h) (\<lambda>(s, h).
           bind_res (lnext cell h) (\<lambda>nx.
           foreach_from n body nx s h)))"

definition foreach ::
  "(nat \<Rightarrow> 's \<Rightarrow> store \<Rightarrow> ('s \<times> store) result) \<Rightarrow> nat \<Rightarrow> 's \<Rightarrow> store \<Rightarrow> ('s \<times> store) result"
where
  "foreach body l s h =
     bind_res (list_head l h) (\<lambda>c. foreach_from (loop_bound h) body c s h)"

text \<open>
  A \<open>foreach\<close> that leaves the loop at the first cell that satisfies a condition, with the cell
  before it at hand (null at the head). The result is the pair of both; a null cell says that
  the loop ran to its end.
\<close>

fun find_from ::
  "nat \<Rightarrow> (nat \<Rightarrow> store \<Rightarrow> bool result) \<Rightarrow> nat \<Rightarrow> nat \<Rightarrow> store \<Rightarrow> (nat \<times> nat) result"
where
  "find_from 0 test prev cell h = Inl Diverges"
| "find_from (Suc n) test prev cell h =
     (if cell = 0 then Inr (prev, 0)
      else bind_res (test cell h) (\<lambda>b.
           if b then Inr (prev, cell)
           else bind_res (lnext cell h) (\<lambda>nx. find_from n test cell nx h)))"

definition find_cell ::
  "(nat \<Rightarrow> store \<Rightarrow> bool result) \<Rightarrow> nat \<Rightarrow> store \<Rightarrow> (nat \<times> nat) result"
where
  "find_cell test l h =
     bind_res (list_head l h) (\<lambda>c. find_from (loop_bound h) test 0 c h)"

subsection \<open>New lists and cells\<close>

definition new_list :: "NodeTag \<Rightarrow> store \<Rightarrow> (nat \<times> store) result" where
  "new_list type h =
     bind_res (palloc_cell h) (\<lambda>(new_head, h).
     bind_res (set_next new_head 0 h) (\<lambda>h.
     bind_res (palloc_list h) (\<lambda>(new_list, h).
     bind_res (upd_list new_list
                 (\<lambda>L. L\<lparr>list_type := type, length_of := 1, head_of := new_head,
                        tail_of := new_head\<rparr>) h) (\<lambda>h.
     Inr (new_list, h)))))"

definition pg_new_list :: "NodeTag \<Rightarrow> store \<Rightarrow> (nat \<times> store) result" where
  "pg_new_list type h =
     (let (new_head, h) = malloc_cell h in
      bind_res (set_next new_head 0 h) (\<lambda>h.
      let (new_list, h) = malloc_list h in
      bind_res (upd_list new_list
                  (\<lambda>L. L\<lparr>list_type := type, length_of := 1, head_of := new_head,
                         tail_of := new_head\<rparr>) h) (\<lambda>h.
      Inr (new_list, h))))"

definition new_head_cell :: "nat \<Rightarrow> store \<Rightarrow> store result" where
  "new_head_cell l h =
     bind_res (palloc_cell h) (\<lambda>(new_head, h).
     bind_res (list_at l h) (\<lambda>L.
     bind_res (set_next new_head (head_of L) h) (\<lambda>h.
     upd_list l (\<lambda>L. L\<lparr>head_of := new_head, length_of := c_int (length_of L + 1)\<rparr>) h)))"

definition new_tail_cell :: "nat \<Rightarrow> store \<Rightarrow> store result" where
  "new_tail_cell l h =
     bind_res (palloc_cell h) (\<lambda>(new_tail, h).
     bind_res (set_next new_tail 0 h) (\<lambda>h.
     bind_res (list_at l h) (\<lambda>L.
     bind_res (set_next (tail_of L) new_tail h) (\<lambda>h.
     upd_list l (\<lambda>L. L\<lparr>tail_of := new_tail, length_of := c_int (length_of L + 1)\<rparr>) h))))"

definition pg_new_tail_cell :: "nat \<Rightarrow> store \<Rightarrow> store result" where
  "pg_new_tail_cell l h =
     (let (new_tail, h) = malloc_cell h in
      bind_res (set_next new_tail 0 h) (\<lambda>h.
      bind_res (list_at l h) (\<lambda>L.
      bind_res (set_next (tail_of L) new_tail h) (\<lambda>h.
      upd_list l (\<lambda>L. L\<lparr>tail_of := new_tail, length_of := c_int (length_of L + 1)\<rparr>) h))))"

definition add_new_cell :: "nat \<Rightarrow> nat \<Rightarrow> store \<Rightarrow> (nat \<times> store) result" where
  "add_new_cell l prev_cell h =
     bind_res (palloc_cell h) (\<lambda>(new_cell, h).
     bind_res (lnext prev_cell h) (\<lambda>nx.
     bind_res (set_next new_cell nx h) (\<lambda>h.
     bind_res (set_next prev_cell new_cell h) (\<lambda>h.
     bind_res (list_at l h) (\<lambda>L.
     bind_res (if tail_of L = prev_cell
               then upd_list l (\<lambda>L. L\<lparr>tail_of := new_cell\<rparr>) h else Inr h) (\<lambda>h.
     bind_res (upd_list l (\<lambda>L. L\<lparr>length_of := c_int (length_of L + 1)\<rparr>) h) (\<lambda>h.
     Inr (new_cell, h))))))))"

subsection \<open>Appending\<close>

definition lappend :: "nat \<Rightarrow> nat \<Rightarrow> store \<Rightarrow> (nat \<times> store) result" where
  "lappend l datum h =
     bind_res (Assert_res (IsPointerList l h)) (\<lambda>_.
     bind_res (if l = NIL then new_list T_List h
               else bind_res (new_tail_cell l h) (\<lambda>h. Inr (l, h))) (\<lambda>(l, h).
     bind_res (list_at l h) (\<lambda>L.
     bind_res (set_data (tail_of L) (PtrValue datum) h) (\<lambda>h.
     bind_res (check_list_invariants l h) (\<lambda>_.
     Inr (l, h))))))"

definition lappend_int :: "nat \<Rightarrow> uint32 \<Rightarrow> store \<Rightarrow> (nat \<times> store) result" where
  "lappend_int l datum h =
     bind_res (Assert_res (IsIntegerList l h)) (\<lambda>_.
     bind_res (if l = NIL then new_list T_IntList h
               else bind_res (new_tail_cell l h) (\<lambda>h. Inr (l, h))) (\<lambda>(l, h).
     bind_res (list_at l h) (\<lambda>L.
     bind_res (set_data (tail_of L) (IntValue datum) h) (\<lambda>h.
     bind_res (check_list_invariants l h) (\<lambda>_.
     Inr (l, h))))))"

definition pg_lappend_int :: "nat \<Rightarrow> uint32 \<Rightarrow> store \<Rightarrow> (nat \<times> store) result" where
  "pg_lappend_int l datum h =
     bind_res (Assert_res (IsIntegerList l h)) (\<lambda>_.
     bind_res (if l = NIL then pg_new_list T_IntList h
               else bind_res (pg_new_tail_cell l h) (\<lambda>h. Inr (l, h))) (\<lambda>(l, h).
     bind_res (list_at l h) (\<lambda>L.
     bind_res (set_data (tail_of L) (IntValue datum) h) (\<lambda>h.
     bind_res (check_list_invariants l h) (\<lambda>_.
     Inr (l, h))))))"

definition lappend_oid :: "nat \<Rightarrow> uint32 \<Rightarrow> store \<Rightarrow> (nat \<times> store) result" where
  "lappend_oid l datum h =
     bind_res (Assert_res (IsOidList l h)) (\<lambda>_.
     bind_res (if l = NIL then new_list T_OidList h
               else bind_res (new_tail_cell l h) (\<lambda>h. Inr (l, h))) (\<lambda>(l, h).
     bind_res (list_at l h) (\<lambda>L.
     bind_res (set_data (tail_of L) (OidValue datum) h) (\<lambda>h.
     bind_res (check_list_invariants l h) (\<lambda>_.
     Inr (l, h))))))"

definition lappend_cell :: "nat \<Rightarrow> nat \<Rightarrow> nat \<Rightarrow> store \<Rightarrow> (nat \<times> store) result" where
  "lappend_cell l prev datum h =
     bind_res (Assert_res (IsPointerList l h)) (\<lambda>_.
     bind_res (add_new_cell l prev h) (\<lambda>(new_cell, h).
     bind_res (set_data new_cell (PtrValue datum) h) (\<lambda>h.
     bind_res (check_list_invariants l h) (\<lambda>_.
     Inr (new_cell, h)))))"

definition lappend_cell_int :: "nat \<Rightarrow> nat \<Rightarrow> uint32 \<Rightarrow> store \<Rightarrow> (nat \<times> store) result" where
  "lappend_cell_int l prev datum h =
     bind_res (Assert_res (IsIntegerList l h)) (\<lambda>_.
     bind_res (add_new_cell l prev h) (\<lambda>(new_cell, h).
     bind_res (set_data new_cell (IntValue datum) h) (\<lambda>h.
     bind_res (check_list_invariants l h) (\<lambda>_.
     Inr (new_cell, h)))))"

definition lappend_cell_oid :: "nat \<Rightarrow> nat \<Rightarrow> uint32 \<Rightarrow> store \<Rightarrow> (nat \<times> store) result" where
  "lappend_cell_oid l prev datum h =
     bind_res (Assert_res (IsOidList l h)) (\<lambda>_.
     bind_res (add_new_cell l prev h) (\<lambda>(new_cell, h).
     bind_res (set_data new_cell (OidValue datum) h) (\<lambda>h.
     bind_res (check_list_invariants l h) (\<lambda>_.
     Inr (new_cell, h)))))"

definition lcons :: "nat \<Rightarrow> nat \<Rightarrow> store \<Rightarrow> (nat \<times> store) result" where
  "lcons datum l h =
     bind_res (Assert_res (IsPointerList l h)) (\<lambda>_.
     bind_res (if l = NIL then new_list T_List h
               else bind_res (new_head_cell l h) (\<lambda>h. Inr (l, h))) (\<lambda>(l, h).
     bind_res (list_at l h) (\<lambda>L.
     bind_res (set_data (head_of L) (PtrValue datum) h) (\<lambda>h.
     bind_res (check_list_invariants l h) (\<lambda>_.
     Inr (l, h))))))"

definition lcons_int :: "uint32 \<Rightarrow> nat \<Rightarrow> store \<Rightarrow> (nat \<times> store) result" where
  "lcons_int datum l h =
     bind_res (Assert_res (IsIntegerList l h)) (\<lambda>_.
     bind_res (if l = NIL then new_list T_IntList h
               else bind_res (new_head_cell l h) (\<lambda>h. Inr (l, h))) (\<lambda>(l, h).
     bind_res (list_at l h) (\<lambda>L.
     bind_res (set_data (head_of L) (IntValue datum) h) (\<lambda>h.
     bind_res (check_list_invariants l h) (\<lambda>_.
     Inr (l, h))))))"

definition lcons_oid :: "uint32 \<Rightarrow> nat \<Rightarrow> store \<Rightarrow> (nat \<times> store) result" where
  "lcons_oid datum l h =
     bind_res (Assert_res (IsOidList l h)) (\<lambda>_.
     bind_res (if l = NIL then new_list T_OidList h
               else bind_res (new_head_cell l h) (\<lambda>h. Inr (l, h))) (\<lambda>(l, h).
     bind_res (list_at l h) (\<lambda>L.
     bind_res (set_data (head_of L) (OidValue datum) h) (\<lambda>h.
     bind_res (check_list_invariants l h) (\<lambda>_.
     Inr (l, h))))))"

definition list_concat :: "nat \<Rightarrow> nat \<Rightarrow> store \<Rightarrow> (nat \<times> store) result" where
  "list_concat list1 list2 h =
     (if list1 = NIL then Inr (list2, h)
      else if list2 = NIL then Inr (list1, h)
      else if list1 = list2 then Inl (Ereport ''cannot list_concat() a list to itself'')
      else
        bind_res (list_at list1 h) (\<lambda>L1.
        bind_res (list_at list2 h) (\<lambda>L2.
        bind_res (Assert (list_type L1 = list_type L2)) (\<lambda>_.
        bind_res (upd_list list1 (\<lambda>L. L\<lparr>length_of := c_int (length_of L + length_of L2)\<rparr>) h) (\<lambda>h.
        bind_res (set_next (tail_of L1) (head_of L2) h) (\<lambda>h.
        bind_res (upd_list list1 (\<lambda>L. L\<lparr>tail_of := tail_of L2\<rparr>) h) (\<lambda>h.
        bind_res (check_list_invariants list1 h) (\<lambda>_.
        Inr (list1, h)))))))))"

subsection \<open>Truncation and indexing\<close>

fun truncate_from :: "nat \<Rightarrow> nat \<Rightarrow> int \<Rightarrow> nat \<Rightarrow> int \<Rightarrow> store \<Rightarrow> (nat \<times> store) result" where
  "truncate_from 0 l new_size cell n h = Inl Diverges"
| "truncate_from (Suc k) l new_size cell n h =
     (if cell = 0 then Inl AssertFail
      else if n = new_size then
        bind_res (set_next cell 0 h) (\<lambda>h.
        bind_res (upd_list l (\<lambda>L. L\<lparr>tail_of := cell, length_of := new_size\<rparr>) h) (\<lambda>h.
        bind_res (check_list_invariants l h) (\<lambda>_.
        Inr (l, h))))
      else bind_res (lnext cell h) (\<lambda>nx. truncate_from k l new_size nx (n + 1) h))"

definition list_truncate :: "nat \<Rightarrow> int \<Rightarrow> store \<Rightarrow> (nat \<times> store) result" where
  "list_truncate l new_size h =
     (if new_size \<le> 0 then Inr (NIL, h)
      else
        bind_res (list_length l h) (\<lambda>len.
        if new_size \<ge> len then Inr (l, h)
        else
          bind_res (list_head l h) (\<lambda>cell.
          truncate_from (loop_bound h) l new_size cell 1 h)))"

fun nth_from :: "nat \<Rightarrow> nat \<Rightarrow> store \<Rightarrow> nat result" where
  "nth_from 0 match h = Inr match"
| "nth_from (Suc n) match h = bind_res (lnext match h) (\<lambda>match. nth_from n match h)"

definition list_nth_cell :: "nat \<Rightarrow> int \<Rightarrow> store \<Rightarrow> nat result" where
  "list_nth_cell l n h =
     bind_res (Assert (l \<noteq> NIL)) (\<lambda>_.
     bind_res (Assert (n \<ge> 0)) (\<lambda>_.
     bind_res (list_at l h) (\<lambda>L.
     bind_res (Assert (n < length_of L)) (\<lambda>_.
     bind_res (check_list_invariants l h) (\<lambda>_.
     if n = length_of L - 1 then Inr (tail_of L)
     else nth_from (nat n) (head_of L) h)))))"

definition list_nth :: "nat \<Rightarrow> int \<Rightarrow> store \<Rightarrow> nat result" where
  "list_nth l n h =
     bind_res (Assert_res (IsPointerList l h)) (\<lambda>_.
     bind_res (list_nth_cell l n h) (\<lambda>c. lfirst c h))"

definition list_nth_int :: "nat \<Rightarrow> int \<Rightarrow> store \<Rightarrow> uint32 result" where
  "list_nth_int l n h =
     bind_res (Assert_res (IsIntegerList l h)) (\<lambda>_.
     bind_res (list_nth_cell l n h) (\<lambda>c. lfirst_int c h))"

definition list_nth_oid :: "nat \<Rightarrow> int \<Rightarrow> store \<Rightarrow> uint32 result" where
  "list_nth_oid l n h =
     bind_res (Assert_res (IsOidList l h)) (\<lambda>_.
     bind_res (list_nth_cell l n h) (\<lambda>c. lfirst_oid c h))"

subsection \<open>Membership\<close>

text \<open>
  \<open>equal\<close> stands for the node comparison \<open>equal()\<close> of \<open>src/backend/nodes/equalfuncs.c\<close>, on the
  nodes two pointers refer to. The node types are no part of this model, so it is an
  argument of every operation that compares nodes.
\<close>

definition list_member :: "(nat \<Rightarrow> nat \<Rightarrow> bool) \<Rightarrow> nat \<Rightarrow> nat \<Rightarrow> store \<Rightarrow> bool result" where
  "list_member equal l datum h =
     bind_res (Assert_res (IsPointerList l h)) (\<lambda>_.
     bind_res (check_list_invariants l h) (\<lambda>_.
     bind_res (find_cell (\<lambda>cell h. bind_res (lfirst cell h) (\<lambda>x. Inr (equal x datum))) l h)
       (\<lambda>(_, cell). Inr (cell \<noteq> 0))))"

definition list_member_ptr :: "nat \<Rightarrow> nat \<Rightarrow> store \<Rightarrow> bool result" where
  "list_member_ptr l datum h =
     bind_res (Assert_res (IsPointerList l h)) (\<lambda>_.
     bind_res (check_list_invariants l h) (\<lambda>_.
     bind_res (find_cell (\<lambda>cell h. bind_res (lfirst cell h) (\<lambda>x. Inr (x = datum))) l h)
       (\<lambda>(_, cell). Inr (cell \<noteq> 0))))"

definition list_member_int :: "nat \<Rightarrow> uint32 \<Rightarrow> store \<Rightarrow> bool result" where
  "list_member_int l datum h =
     bind_res (Assert_res (IsIntegerList l h)) (\<lambda>_.
     bind_res (check_list_invariants l h) (\<lambda>_.
     bind_res (find_cell (\<lambda>cell h. bind_res (lfirst_int cell h) (\<lambda>x. Inr (x = datum))) l h)
       (\<lambda>(_, cell). Inr (cell \<noteq> 0))))"

definition list_member_oid :: "nat \<Rightarrow> uint32 \<Rightarrow> store \<Rightarrow> bool result" where
  "list_member_oid l datum h =
     bind_res (Assert_res (IsOidList l h)) (\<lambda>_.
     bind_res (check_list_invariants l h) (\<lambda>_.
     bind_res (find_cell (\<lambda>cell h. bind_res (lfirst_oid cell h) (\<lambda>x. Inr (x = datum))) l h)
       (\<lambda>(_, cell). Inr (cell \<noteq> 0))))"

subsection \<open>Freeing\<close>

fun free_from :: "nat \<Rightarrow> allocator \<Rightarrow> bool \<Rightarrow> nat \<Rightarrow> store \<Rightarrow> store result" where
  "free_from 0 org deep cell h = Inl Diverges"
| "free_from (Suc n) org deep cell h =
     (if cell = 0 then Inr h
      else
        let tmp = cell in
        bind_res (lnext cell h) (\<lambda>cell.
        bind_res (if deep then bind_res (lfirst tmp h) (\<lambda>p. release_obj p h) else Inr h) (\<lambda>h.
        bind_res (release_cell org tmp h) (\<lambda>h.
        free_from n org deep cell h))))"

definition list_free_private :: "nat \<Rightarrow> bool \<Rightarrow> store \<Rightarrow> store result" where
  "list_free_private l deep h =
     bind_res (check_list_invariants l h) (\<lambda>_.
     bind_res (list_head l h) (\<lambda>cell.
     bind_res (free_from (loop_bound h) Palloc deep cell h) (\<lambda>h.
     if l \<noteq> NIL then release_list Palloc l h else Inr h)))"

definition pg_list_free :: "nat \<Rightarrow> bool \<Rightarrow> store \<Rightarrow> store result" where
  "pg_list_free l deep h =
     bind_res (check_list_invariants l h) (\<lambda>_.
     bind_res (list_head l h) (\<lambda>cell.
     bind_res (free_from (loop_bound h) Malloc deep cell h) (\<lambda>h.
     if l \<noteq> NIL then release_list Malloc l h else Inr h)))"

definition list_free :: "nat \<Rightarrow> store \<Rightarrow> store result" where
  "list_free l h = list_free_private l False h"

definition list_free_deep :: "nat \<Rightarrow> store \<Rightarrow> store result" where
  "list_free_deep l h =
     bind_res (Assert_res (IsPointerList l h)) (\<lambda>_. list_free_private l True h)"

subsection \<open>Deleting\<close>

definition list_delete_cell :: "nat \<Rightarrow> nat \<Rightarrow> nat \<Rightarrow> store \<Rightarrow> (nat \<times> store) result" where
  "list_delete_cell l cell prev h =
     bind_res (check_list_invariants l h) (\<lambda>_.
     bind_res (if prev \<noteq> 0 then lnext prev h else list_head l h) (\<lambda>c.
     bind_res (Assert (c = cell)) (\<lambda>_.
     bind_res (list_at l h) (\<lambda>L.
     if length_of L = 1 then
       bind_res (list_free l h) (\<lambda>h. Inr (NIL, h))
     else
       bind_res (upd_list l (\<lambda>L. L\<lparr>length_of := c_int (length_of L - 1)\<rparr>) h) (\<lambda>h.
       bind_res (lnext cell h) (\<lambda>nx.
       bind_res (if prev \<noteq> 0 then set_next prev nx h
                 else upd_list l (\<lambda>L. L\<lparr>head_of := nx\<rparr>) h) (\<lambda>h.
       bind_res (if tail_of L = cell then upd_list l (\<lambda>L. L\<lparr>tail_of := prev\<rparr>) h
                 else Inr h) (\<lambda>h.
       bind_res (release_cell Palloc cell h) (\<lambda>h.
       Inr (l, h))))))))))"

definition pg_list_delete_cell :: "nat \<Rightarrow> nat \<Rightarrow> nat \<Rightarrow> store \<Rightarrow> (nat \<times> store) result" where
  "pg_list_delete_cell l cell prev h =
     bind_res (check_list_invariants l h) (\<lambda>_.
     bind_res (if prev \<noteq> 0 then lnext prev h else list_head l h) (\<lambda>c.
     bind_res (Assert (c = cell)) (\<lambda>_.
     bind_res (list_at l h) (\<lambda>L.
     if length_of L = 1 then
       bind_res (pg_list_free l False h) (\<lambda>h. Inr (NIL, h))
     else
       bind_res (upd_list l (\<lambda>L. L\<lparr>length_of := c_int (length_of L - 1)\<rparr>) h) (\<lambda>h.
       bind_res (lnext cell h) (\<lambda>nx.
       bind_res (if prev \<noteq> 0 then set_next prev nx h
                 else upd_list l (\<lambda>L. L\<lparr>head_of := nx\<rparr>) h) (\<lambda>h.
       bind_res (if tail_of L = cell then upd_list l (\<lambda>L. L\<lparr>tail_of := prev\<rparr>) h
                 else Inr h) (\<lambda>h.
       bind_res (release_cell Malloc cell h) (\<lambda>h.
       Inr (l, h))))))))))"

definition list_delete :: "(nat \<Rightarrow> nat \<Rightarrow> bool) \<Rightarrow> nat \<Rightarrow> nat \<Rightarrow> store \<Rightarrow> (nat \<times> store) result" where
  "list_delete equal l datum h =
     bind_res (Assert_res (IsPointerList l h)) (\<lambda>_.
     bind_res (check_list_invariants l h) (\<lambda>_.
     bind_res (find_cell (\<lambda>cell h. bind_res (lfirst cell h) (\<lambda>x. Inr (equal x datum))) l h)
       (\<lambda>(prev, cell).
     if cell \<noteq> 0 then list_delete_cell l cell prev h else Inr (l, h))))"

definition list_delete_ptr :: "nat \<Rightarrow> nat \<Rightarrow> store \<Rightarrow> (nat \<times> store) result" where
  "list_delete_ptr l datum h =
     bind_res (Assert_res (IsPointerList l h)) (\<lambda>_.
     bind_res (check_list_invariants l h) (\<lambda>_.
     bind_res (find_cell (\<lambda>cell h. bind_res (lfirst cell h) (\<lambda>x. Inr (x = datum))) l h)
       (\<lambda>(prev, cell).
     if cell \<noteq> 0 then list_delete_cell l cell prev h else Inr (l, h))))"

definition list_delete_int :: "nat \<Rightarrow> uint32 \<Rightarrow> store \<Rightarrow> (nat \<times> store) result" where
  "list_delete_int l datum h =
     bind_res (Assert_res (IsIntegerList l h)) (\<lambda>_.
     bind_res (check_list_invariants l h) (\<lambda>_.
     bind_res (find_cell (\<lambda>cell h. bind_res (lfirst_int cell h) (\<lambda>x. Inr (x = datum))) l h)
       (\<lambda>(prev, cell).
     if cell \<noteq> 0 then list_delete_cell l cell prev h else Inr (l, h))))"

definition list_delete_oid :: "nat \<Rightarrow> uint32 \<Rightarrow> store \<Rightarrow> (nat \<times> store) result" where
  "list_delete_oid l datum h =
     bind_res (Assert_res (IsOidList l h)) (\<lambda>_.
     bind_res (check_list_invariants l h) (\<lambda>_.
     bind_res (find_cell (\<lambda>cell h. bind_res (lfirst_oid cell h) (\<lambda>x. Inr (x = datum))) l h)
       (\<lambda>(prev, cell).
     if cell \<noteq> 0 then list_delete_cell l cell prev h else Inr (l, h))))"

definition list_delete_first :: "nat \<Rightarrow> store \<Rightarrow> (nat \<times> store) result" where
  "list_delete_first l h =
     bind_res (check_list_invariants l h) (\<lambda>_.
     if l = NIL then Inr (NIL, h)
     else bind_res (list_head l h) (\<lambda>c. list_delete_cell l c 0 h))"

subsection \<open>Copying\<close>

text \<open>The loop of \<open>list_copy\<close> and \<open>list_copy_tail\<close>: copy the cells from \<open>oldlist_cur\<close> on, each
  linked behind the one before; the result is the last cell of the copy.\<close>

fun copy_from :: "nat \<Rightarrow> nat \<Rightarrow> nat \<Rightarrow> store \<Rightarrow> (nat \<times> store) result" where
  "copy_from 0 oldlist_cur newlist_prev h = Inl Diverges"
| "copy_from (Suc n) oldlist_cur newlist_prev h =
     (if oldlist_cur = 0 then Inr (newlist_prev, h)
      else
        bind_res (palloc_cell h) (\<lambda>(newlist_cur, h).
        bind_res (cell_at oldlist_cur h) (\<lambda>x.
        bind_res (set_data newlist_cur (cell_data x) h) (\<lambda>h.
        bind_res (set_next newlist_prev newlist_cur h) (\<lambda>h.
        bind_res (lnext oldlist_cur h) (\<lambda>nx.
        copy_from n nx newlist_cur h))))))"

definition list_copy :: "nat \<Rightarrow> store \<Rightarrow> (nat \<times> store) result" where
  "list_copy oldlist h =
     (if oldlist = NIL then Inr (NIL, h)
      else
        bind_res (list_at oldlist h) (\<lambda>Old.
        bind_res (new_list (list_type Old) h) (\<lambda>(newlist, h).
        bind_res (upd_list newlist (\<lambda>L. L\<lparr>length_of := length_of Old\<rparr>) h) (\<lambda>h.
        bind_res (list_head newlist h) (\<lambda>newhead.
        bind_res (cell_at (head_of Old) h) (\<lambda>x.
        bind_res (set_data newhead (cell_data x) h) (\<lambda>h.
        bind_res (lnext (head_of Old) h) (\<lambda>oldlist_cur.
        bind_res (copy_from (loop_bound h) oldlist_cur newhead h) (\<lambda>(newlist_prev, h).
        bind_res (set_next newlist_prev 0 h) (\<lambda>h.
        bind_res (upd_list newlist (\<lambda>L. L\<lparr>tail_of := newlist_prev\<rparr>) h) (\<lambda>h.
        bind_res (check_list_invariants newlist h) (\<lambda>_.
        Inr (newlist, h)))))))))))))"

definition list_copy_tail :: "nat \<Rightarrow> int \<Rightarrow> store \<Rightarrow> (nat \<times> store) result" where
  "list_copy_tail oldlist nskip h =
     (let nskip = (if nskip < 0 then 0 else nskip) in
      if oldlist = NIL then Inr (NIL, h)
      else
        bind_res (list_at oldlist h) (\<lambda>Old.
        if nskip \<ge> length_of Old then Inr (NIL, h)
        else
          bind_res (new_list (list_type Old) h) (\<lambda>(newlist, h).
          bind_res (upd_list newlist (\<lambda>L. L\<lparr>length_of := c_int (length_of Old - nskip)\<rparr>) h) (\<lambda>h.
          bind_res (nth_from (nat nskip) (head_of Old) h) (\<lambda>oldlist_cur.
          bind_res (list_head newlist h) (\<lambda>newhead.
          bind_res (cell_at oldlist_cur h) (\<lambda>x.
          bind_res (set_data newhead (cell_data x) h) (\<lambda>h.
          bind_res (lnext oldlist_cur h) (\<lambda>oldlist_cur.
          bind_res (copy_from (loop_bound h) oldlist_cur newhead h) (\<lambda>(newlist_prev, h).
          bind_res (set_next newlist_prev 0 h) (\<lambda>h.
          bind_res (upd_list newlist (\<lambda>L. L\<lparr>tail_of := newlist_prev\<rparr>) h) (\<lambda>h.
          bind_res (check_list_invariants newlist h) (\<lambda>_.
          Inr (newlist, h))))))))))))))"

subsection \<open>Sorting\<close>

text \<open>
  \<open>qsort\<close> stands for the library sort, applied to the array of cell pointers with the
  caller's comparator; it is an argument. The workspace array takes one allocation.
\<close>

fun array_from :: "nat \<Rightarrow> nat \<Rightarrow> store \<Rightarrow> nat list result" where
  "array_from 0 cell h = Inl Diverges"
| "array_from (Suc n) cell h =
     (if cell = 0 then Inr []
      else bind_res (lnext cell h) (\<lambda>nx.
           bind_res (array_from n nx h) (\<lambda>cs. Inr (cell # cs))))"

fun build_from :: "nat list \<Rightarrow> nat \<Rightarrow> store \<Rightarrow> (nat \<times> store) result" where
  "build_from [] newlist_prev h = Inr (newlist_prev, h)"
| "build_from (c # cs) newlist_prev h =
     bind_res (palloc_cell h) (\<lambda>(newlist_cur, h).
     bind_res (cell_at c h) (\<lambda>x.
     bind_res (set_data newlist_cur (cell_data x) h) (\<lambda>h.
     bind_res (set_next newlist_prev newlist_cur h) (\<lambda>h.
     build_from cs newlist_cur h))))"

definition list_qsort :: "(nat list \<Rightarrow> nat list) \<Rightarrow> nat \<Rightarrow> store \<Rightarrow> (nat \<times> store) result" where
  "list_qsort qsort l h =
     bind_res (list_length l h) (\<lambda>len.
     if len = 0 then Inr (NIL, h)
     else
       bind_res (if room h = 0 then Inl OutOfMemory else Inr (h\<lparr>room := room h - 1\<rparr>)) (\<lambda>h.
       bind_res (list_head l h) (\<lambda>cell.
       bind_res (array_from (loop_bound h) cell h) (\<lambda>list_arr.
       let list_arr = qsort list_arr in
       bind_res (list_at l h) (\<lambda>L.
       bind_res (new_list (list_type L) h) (\<lambda>(newlist, h).
       bind_res (upd_list newlist (\<lambda>L. L\<lparr>length_of := len\<rparr>) h) (\<lambda>h.
       bind_res (list_head newlist h) (\<lambda>newhead.
       bind_res (cell_at (hd list_arr) h) (\<lambda>x.
       bind_res (set_data newhead (cell_data x) h) (\<lambda>h.
       bind_res (build_from (tl list_arr) newhead h) (\<lambda>(newlist_prev, h).
       bind_res (set_next newlist_prev 0 h) (\<lambda>h.
       bind_res (upd_list newlist (\<lambda>L. L\<lparr>tail_of := newlist_prev\<rparr>) h) (\<lambda>h.
       bind_res (check_list_invariants newlist h) (\<lambda>_.
       Inr (newlist, h)))))))))))))))"

subsection \<open>Sets as lists\<close>

definition list_union :: "(nat \<Rightarrow> nat \<Rightarrow> bool) \<Rightarrow> nat \<Rightarrow> nat \<Rightarrow> store \<Rightarrow> (nat \<times> store) result" where
  "list_union equal list1 list2 h =
     bind_res (Assert_res (IsPointerList list1 h)) (\<lambda>_.
     bind_res (Assert_res (IsPointerList list2 h)) (\<lambda>_.
     bind_res (list_copy list1 h) (\<lambda>(res, h).
     bind_res (foreach (\<lambda>cell res h.
                  bind_res (lfirst cell h) (\<lambda>x.
                  bind_res (list_member equal res x h) (\<lambda>b.
                  if \<not> b then lappend res x h else Inr (res, h)))) list2 res h) (\<lambda>(res, h).
     bind_res (check_list_invariants res h) (\<lambda>_.
     Inr (res, h))))))"

definition list_union_ptr :: "nat \<Rightarrow> nat \<Rightarrow> store \<Rightarrow> (nat \<times> store) result" where
  "list_union_ptr list1 list2 h =
     bind_res (Assert_res (IsPointerList list1 h)) (\<lambda>_.
     bind_res (Assert_res (IsPointerList list2 h)) (\<lambda>_.
     bind_res (list_copy list1 h) (\<lambda>(res, h).
     bind_res (foreach (\<lambda>cell res h.
                  bind_res (lfirst cell h) (\<lambda>x.
                  bind_res (list_member_ptr res x h) (\<lambda>b.
                  if \<not> b then lappend res x h else Inr (res, h)))) list2 res h) (\<lambda>(res, h).
     bind_res (check_list_invariants res h) (\<lambda>_.
     Inr (res, h))))))"

definition list_union_int :: "nat \<Rightarrow> nat \<Rightarrow> store \<Rightarrow> (nat \<times> store) result" where
  "list_union_int list1 list2 h =
     bind_res (Assert_res (IsIntegerList list1 h)) (\<lambda>_.
     bind_res (Assert_res (IsIntegerList list2 h)) (\<lambda>_.
     bind_res (list_copy list1 h) (\<lambda>(res, h).
     bind_res (foreach (\<lambda>cell res h.
                  bind_res (lfirst_int cell h) (\<lambda>x.
                  bind_res (list_member_int res x h) (\<lambda>b.
                  if \<not> b then lappend_int res x h else Inr (res, h)))) list2 res h) (\<lambda>(res, h).
     bind_res (check_list_invariants res h) (\<lambda>_.
     Inr (res, h))))))"

definition list_union_oid :: "nat \<Rightarrow> nat \<Rightarrow> store \<Rightarrow> (nat \<times> store) result" where
  "list_union_oid list1 list2 h =
     bind_res (Assert_res (IsOidList list1 h)) (\<lambda>_.
     bind_res (Assert_res (IsOidList list2 h)) (\<lambda>_.
     bind_res (list_copy list1 h) (\<lambda>(res, h).
     bind_res (foreach (\<lambda>cell res h.
                  bind_res (lfirst_oid cell h) (\<lambda>x.
                  bind_res (list_member_oid res x h) (\<lambda>b.
                  if \<not> b then lappend_oid res x h else Inr (res, h)))) list2 res h) (\<lambda>(res, h).
     bind_res (check_list_invariants res h) (\<lambda>_.
     Inr (res, h))))))"

definition list_intersection :: "(nat \<Rightarrow> nat \<Rightarrow> bool) \<Rightarrow> nat \<Rightarrow> nat \<Rightarrow> store \<Rightarrow> (nat \<times> store) result" where
  "list_intersection equal list1 list2 h =
     (if list1 = NIL \<or> list2 = NIL then Inr (NIL, h)
      else
        bind_res (Assert_res (IsPointerList list1 h)) (\<lambda>_.
        bind_res (Assert_res (IsPointerList list2 h)) (\<lambda>_.
        bind_res (foreach (\<lambda>cell res h.
                     bind_res (lfirst cell h) (\<lambda>x.
                     bind_res (list_member equal list2 x h) (\<lambda>b.
                     if b then lappend res x h else Inr (res, h)))) list1 NIL h) (\<lambda>(res, h).
        bind_res (check_list_invariants res h) (\<lambda>_.
        Inr (res, h))))))"

definition list_intersection_int :: "nat \<Rightarrow> nat \<Rightarrow> store \<Rightarrow> (nat \<times> store) result" where
  "list_intersection_int list1 list2 h =
     (if list1 = NIL \<or> list2 = NIL then Inr (NIL, h)
      else
        bind_res (Assert_res (IsIntegerList list1 h)) (\<lambda>_.
        bind_res (Assert_res (IsIntegerList list2 h)) (\<lambda>_.
        bind_res (foreach (\<lambda>cell res h.
                     bind_res (lfirst_int cell h) (\<lambda>x.
                     bind_res (list_member_int list2 x h) (\<lambda>b.
                     if b then lappend_int res x h else Inr (res, h)))) list1 NIL h) (\<lambda>(res, h).
        bind_res (check_list_invariants res h) (\<lambda>_.
        Inr (res, h))))))"

definition list_difference :: "(nat \<Rightarrow> nat \<Rightarrow> bool) \<Rightarrow> nat \<Rightarrow> nat \<Rightarrow> store \<Rightarrow> (nat \<times> store) result" where
  "list_difference equal list1 list2 h =
     bind_res (Assert_res (IsPointerList list1 h)) (\<lambda>_.
     bind_res (Assert_res (IsPointerList list2 h)) (\<lambda>_.
     if list2 = NIL then list_copy list1 h
     else
       bind_res (foreach (\<lambda>cell res h.
                    bind_res (lfirst cell h) (\<lambda>x.
                    bind_res (list_member equal list2 x h) (\<lambda>b.
                    if \<not> b then lappend res x h else Inr (res, h)))) list1 NIL h) (\<lambda>(res, h).
       bind_res (check_list_invariants res h) (\<lambda>_.
       Inr (res, h)))))"

definition list_difference_ptr :: "nat \<Rightarrow> nat \<Rightarrow> store \<Rightarrow> (nat \<times> store) result" where
  "list_difference_ptr list1 list2 h =
     bind_res (Assert_res (IsPointerList list1 h)) (\<lambda>_.
     bind_res (Assert_res (IsPointerList list2 h)) (\<lambda>_.
     if list2 = NIL then list_copy list1 h
     else
       bind_res (foreach (\<lambda>cell res h.
                    bind_res (lfirst cell h) (\<lambda>x.
                    bind_res (list_member_ptr list2 x h) (\<lambda>b.
                    if \<not> b then lappend res x h else Inr (res, h)))) list1 NIL h) (\<lambda>(res, h).
       bind_res (check_list_invariants res h) (\<lambda>_.
       Inr (res, h)))))"

definition list_difference_int :: "nat \<Rightarrow> nat \<Rightarrow> store \<Rightarrow> (nat \<times> store) result" where
  "list_difference_int list1 list2 h =
     bind_res (Assert_res (IsIntegerList list1 h)) (\<lambda>_.
     bind_res (Assert_res (IsIntegerList list2 h)) (\<lambda>_.
     if list2 = NIL then list_copy list1 h
     else
       bind_res (foreach (\<lambda>cell res h.
                    bind_res (lfirst_int cell h) (\<lambda>x.
                    bind_res (list_member_int list2 x h) (\<lambda>b.
                    if \<not> b then lappend_int res x h else Inr (res, h)))) list1 NIL h) (\<lambda>(res, h).
       bind_res (check_list_invariants res h) (\<lambda>_.
       Inr (res, h)))))"

definition list_difference_oid :: "nat \<Rightarrow> nat \<Rightarrow> store \<Rightarrow> (nat \<times> store) result" where
  "list_difference_oid list1 list2 h =
     bind_res (Assert_res (IsOidList list1 h)) (\<lambda>_.
     bind_res (Assert_res (IsOidList list2 h)) (\<lambda>_.
     if list2 = NIL then list_copy list1 h
     else
       bind_res (foreach (\<lambda>cell res h.
                    bind_res (lfirst_oid cell h) (\<lambda>x.
                    bind_res (list_member_oid list2 x h) (\<lambda>b.
                    if \<not> b then lappend_oid res x h else Inr (res, h)))) list1 NIL h) (\<lambda>(res, h).
       bind_res (check_list_invariants res h) (\<lambda>_.
       Inr (res, h)))))"

definition list_append_unique :: "(nat \<Rightarrow> nat \<Rightarrow> bool) \<Rightarrow> nat \<Rightarrow> nat \<Rightarrow> store \<Rightarrow> (nat \<times> store) result" where
  "list_append_unique equal l datum h =
     bind_res (list_member equal l datum h) (\<lambda>b.
     if b then Inr (l, h) else lappend l datum h)"

definition list_append_unique_ptr :: "nat \<Rightarrow> nat \<Rightarrow> store \<Rightarrow> (nat \<times> store) result" where
  "list_append_unique_ptr l datum h =
     bind_res (list_member_ptr l datum h) (\<lambda>b.
     if b then Inr (l, h) else lappend l datum h)"

definition list_append_unique_int :: "nat \<Rightarrow> uint32 \<Rightarrow> store \<Rightarrow> (nat \<times> store) result" where
  "list_append_unique_int l datum h =
     bind_res (list_member_int l datum h) (\<lambda>b.
     if b then Inr (l, h) else lappend_int l datum h)"

definition list_append_unique_oid :: "nat \<Rightarrow> uint32 \<Rightarrow> store \<Rightarrow> (nat \<times> store) result" where
  "list_append_unique_oid l datum h =
     bind_res (list_member_oid l datum h) (\<lambda>b.
     if b then Inr (l, h) else lappend_oid l datum h)"

definition list_concat_unique :: "(nat \<Rightarrow> nat \<Rightarrow> bool) \<Rightarrow> nat \<Rightarrow> nat \<Rightarrow> store \<Rightarrow> (nat \<times> store) result" where
  "list_concat_unique equal list1 list2 h =
     bind_res (Assert_res (IsPointerList list1 h)) (\<lambda>_.
     bind_res (Assert_res (IsPointerList list2 h)) (\<lambda>_.
     bind_res (foreach (\<lambda>cell list1 h.
                  bind_res (lfirst cell h) (\<lambda>x.
                  bind_res (list_member equal list1 x h) (\<lambda>b.
                  if \<not> b then lappend list1 x h else Inr (list1, h)))) list2 list1 h) (\<lambda>(list1, h).
     bind_res (check_list_invariants list1 h) (\<lambda>_.
     Inr (list1, h)))))"

definition list_concat_unique_ptr :: "nat \<Rightarrow> nat \<Rightarrow> store \<Rightarrow> (nat \<times> store) result" where
  "list_concat_unique_ptr list1 list2 h =
     bind_res (Assert_res (IsPointerList list1 h)) (\<lambda>_.
     bind_res (Assert_res (IsPointerList list2 h)) (\<lambda>_.
     bind_res (foreach (\<lambda>cell list1 h.
                  bind_res (lfirst cell h) (\<lambda>x.
                  bind_res (list_member_ptr list1 x h) (\<lambda>b.
                  if \<not> b then lappend list1 x h else Inr (list1, h)))) list2 list1 h) (\<lambda>(list1, h).
     bind_res (check_list_invariants list1 h) (\<lambda>_.
     Inr (list1, h)))))"

definition list_concat_unique_int :: "nat \<Rightarrow> nat \<Rightarrow> store \<Rightarrow> (nat \<times> store) result" where
  "list_concat_unique_int list1 list2 h =
     bind_res (Assert_res (IsIntegerList list1 h)) (\<lambda>_.
     bind_res (Assert_res (IsIntegerList list2 h)) (\<lambda>_.
     bind_res (foreach (\<lambda>cell list1 h.
                  bind_res (lfirst_int cell h) (\<lambda>x.
                  bind_res (list_member_int list1 x h) (\<lambda>b.
                  if \<not> b then lappend_int list1 x h else Inr (list1, h)))) list2 list1 h) (\<lambda>(list1, h).
     bind_res (check_list_invariants list1 h) (\<lambda>_.
     Inr (list1, h)))))"

definition list_concat_unique_oid :: "nat \<Rightarrow> nat \<Rightarrow> store \<Rightarrow> (nat \<times> store) result" where
  "list_concat_unique_oid list1 list2 h =
     bind_res (Assert_res (IsOidList list1 h)) (\<lambda>_.
     bind_res (Assert_res (IsOidList list2 h)) (\<lambda>_.
     bind_res (foreach (\<lambda>cell list1 h.
                  bind_res (lfirst_oid cell h) (\<lambda>x.
                  bind_res (list_member_oid list1 x h) (\<lambda>b.
                  if \<not> b then lappend_oid list1 x h else Inr (list1, h)))) list2 list1 h) (\<lambda>(list1, h).
     bind_res (check_list_invariants list1 h) (\<lambda>_.
     Inr (list1, h)))))"

end
