(* ===== verification/PgListRep.thy ===== *)
theory PgListRep
  imports PgList
begin

text \<open>
  What a list in the store represents, and how the operations of the list package act on it.
  A list is abstracted to the sequence of its cells' addresses and contents. Every lemma says
  that the operation returns, what it does to the sequence, and that everything else in the
  store stays as it was.
\<close>

subsection \<open>Chains of cells\<close>

type_synonym lseq = "(nat \<times> cell_data) list"

abbreviation addrs :: "lseq \<Rightarrow> nat set" where
  "addrs xs \<equiv> fst ` set xs"

abbreviation mk_cell :: "cell_data \<Rightarrow> nat \<Rightarrow> allocator \<Rightarrow> ListCell" where
  "mk_cell d n org \<equiv> \<lparr>cell_data = d, cell_next = Some n, cell_origin = org\<rparr>"

fun first_addr :: "lseq \<Rightarrow> nat \<Rightarrow> nat" where
  "first_addr [] q = q"
| "first_addr ((a, d) # xs) q = a"

fun seg :: "store \<Rightarrow> allocator \<Rightarrow> lseq \<Rightarrow> nat \<Rightarrow> bool" where
  "seg h org [] q \<longleftrightarrow> True"
| "seg h org ((a, d) # xs) q \<longleftrightarrow>
     a \<noteq> 0 \<and> cells h a = Some (mk_cell d (first_addr xs q) org) \<and> seg h org xs q"

text \<open>
  A store is well-formed when what is allocated lies below \<open>brk\<close>, and when it never has as many chunks as would make the length of a
  list overflow.
\<close>

definition wf_store :: "store \<Rightarrow> bool" where
  "wf_store h \<longleftrightarrow> 0 < brk h \<and> brk h + room h \<le> 2 ^ 31 \<and>
     (\<forall>a. hdrs h a \<noteq> None \<longrightarrow> 0 < a \<and> a < brk h) \<and>
     (\<forall>a. cells h a \<noteq> None \<longrightarrow> 0 < a \<and> a < brk h)"

definition rep :: "store \<Rightarrow> allocator \<Rightarrow> NodeTag \<Rightarrow> nat \<Rightarrow> lseq \<Rightarrow> bool" where
  "rep h org ty l xs \<longleftrightarrow>
     (if xs = [] then l = 0
      else l \<noteq> 0 \<and>
        hdrs h l = Some \<lparr>list_type = ty, length_of = int (length xs), head_of = fst (hd xs),
                         tail_of = fst (last xs), list_origin = org\<rparr> \<and>
        seg h org xs 0 \<and> distinct (map fst xs))"

text \<open>What lies outside a set of headers and a set of cells is left alone.\<close>

definition unchanged :: "store \<Rightarrow> store \<Rightarrow> nat set \<Rightarrow> nat set \<Rightarrow> bool" where
  "unchanged h h' Ls Cs \<longleftrightarrow> brk h \<le> brk h' \<and> objs h' = objs h \<and>
     (\<forall>a < brk h. a \<notin> Ls \<longrightarrow> hdrs h' a = hdrs h a) \<and>
     (\<forall>a < brk h. a \<notin> Cs \<longrightarrow> cells h' a = cells h a)"

lemma first_addr_append:
  "first_addr (xs @ ys) q = first_addr xs (first_addr ys q)"
  by (cases xs) auto

lemma first_addr_ne: "xs \<noteq> [] \<Longrightarrow> first_addr xs q = fst (hd xs)"
  by (cases xs) auto

lemma seg_append:
  "seg h org (xs @ ys) q \<longleftrightarrow> seg h org xs (first_addr ys q) \<and> seg h org ys q"
  by (induction xs) (auto simp: first_addr_append)

lemma seg_cong:
  "(\<And>a. a \<in> addrs xs \<Longrightarrow> cells h' a = cells h a) \<Longrightarrow> seg h' org xs q = seg h org xs q"
proof (induction xs)
  case Nil
  then show ?case by simp
next
  case (Cons x xs)
  then have "seg h' org xs q = seg h org xs q" by simp
  with Cons.prems show ?case by (cases x) auto
qed

lemma seg_in: "seg h org xs q \<Longrightarrow> a \<in> addrs xs \<Longrightarrow> a \<noteq> 0 \<and> cells h a \<noteq> None"
  by (induction xs) (fastforce)+

lemma seg_addr_lt: "wf_store h \<Longrightarrow> seg h org xs q \<Longrightarrow> a \<in> addrs xs \<Longrightarrow> a < brk h"
  using seg_in by (metis wf_store_def)

lemma rep_addr_lt: "wf_store h \<Longrightarrow> rep h org ty l xs \<Longrightarrow> a \<in> addrs xs \<Longrightarrow> a < brk h"
  by (cases xs) (auto simp: rep_def intro: seg_addr_lt)

lemma rep_hdr_lt: "wf_store h \<Longrightarrow> rep h org ty l xs \<Longrightarrow> l \<noteq> 0 \<Longrightarrow> l < brk h"
  unfolding rep_def wf_store_def by (metis option.distinct(1))

lemma rep_Nil [simp]: "rep h org ty 0 []" "rep h org ty l [] \<longleftrightarrow> l = 0"
  by (simp_all add: rep_def)

lemma rep_NIL [simp]: "rep h org ty 0 xs \<longleftrightarrow> xs = []"
  by (simp add: rep_def)

lemma rep_NIL_iff: "rep h org ty l xs \<Longrightarrow> l = 0 \<longleftrightarrow> xs = []"
  by (auto simp: rep_def split: if_splits)

lemma fresh_None:
  assumes "wf_store h"
  shows "cells h (brk h) = None" and "hdrs h (brk h) = None" and "brk h \<noteq> 0"
  using assms by (auto simp: wf_store_def)

lemma rep_unchanged:
  assumes "wf_store h" and "rep h org ty l xs" and "unchanged h h' Ls Cs"
    and "l \<notin> Ls" and "addrs xs \<inter> Cs = {}"
  shows "rep h' org ty l xs"
proof (cases "xs = []")
  case True
  with assms show ?thesis by simp
next
  case False
  with assms(2) have l: "l \<noteq> 0" and s: "seg h org xs 0" by (simp_all add: rep_def)
  have "hdrs h' l = hdrs h l"
    using assms(3,4) rep_hdr_lt [OF assms(1,2) l] by (simp add: unchanged_def)
  moreover have "seg h' org xs 0 = seg h org xs 0"
  proof (rule seg_cong)
    fix a assume a: "a \<in> addrs xs"
    then show "cells h' a = cells h a"
      using assms(3,5) seg_addr_lt [OF assms(1) s a] by (auto simp: unchanged_def)
  qed
  ultimately show ?thesis using assms(2) False by (simp add: rep_def)
qed

lemma unchanged_refl [simp]: "unchanged h h Ls Cs"
  by (simp add: unchanged_def)

lemma unchanged_trans:
  assumes "unchanged h h1 Ls Cs" and "unchanged h1 h2 Ms Ds"
    and "\<And>a. a \<in> Ms \<Longrightarrow> a < brk h \<Longrightarrow> a \<in> Ls" and "\<And>a. a \<in> Ds \<Longrightarrow> a < brk h \<Longrightarrow> a \<in> Cs"
  shows "unchanged h h2 Ls Cs"
proof -
  have lt: "a < brk h1" if "a < brk h" for a
    using that assms(1) by (simp add: unchanged_def)
  show ?thesis
    unfolding unchanged_def
  proof (intro conjI allI impI)
    from assms(1,2) show "brk h \<le> brk h2" "objs h2 = objs h" by (auto simp: unchanged_def)
  next
    fix a assume a: "a < brk h" "a \<notin> Ls"
    then have "a \<notin> Ms" using assms(3) by blast
    with a show "hdrs h2 a = hdrs h a"
      using assms(1,2) lt [OF a(1)] by (simp add: unchanged_def)
  next
    fix a assume a: "a < brk h" "a \<notin> Cs"
    then have "a \<notin> Ds" using assms(4) by blast
    with a show "cells h2 a = cells h a"
      using assms(1,2) lt [OF a(1)] by (simp add: unchanged_def)
  qed
qed

subsection \<open>Reading a represented list\<close>

lemma list_at_Some [simp]: "l \<noteq> 0 \<Longrightarrow> hdrs h l = Some L \<Longrightarrow> list_at l h = Inr L"
  by (simp add: list_at_def)

lemma cell_at_Some [simp]: "c \<noteq> 0 \<Longrightarrow> cells h c = Some x \<Longrightarrow> cell_at c h = Inr x"
  by (simp add: cell_at_def)

lemma lnext_Some [simp]:
  "c \<noteq> 0 \<Longrightarrow> cells h c = Some x \<Longrightarrow> cell_next x = Some n \<Longrightarrow> lnext c h = Inr n"
  by (simp add: lnext_def)

lemma upd_list_Some [simp]:
  "l \<noteq> 0 \<Longrightarrow> hdrs h l = Some L \<Longrightarrow> upd_list l f h = Inr (put_list l (f L) h)"
  by (simp add: upd_list_def)

lemma upd_cell_Some [simp]:
  "c \<noteq> 0 \<Longrightarrow> cells h c = Some x \<Longrightarrow> upd_cell c f h = Inr (put_cell c (f x) h)"
  by (simp add: upd_cell_def)

lemma put_simps [simp]:
  "hdrs (put_list l L h) = (hdrs h)(l \<mapsto> L)" "cells (put_list l L h) = cells h"
  "brk (put_list l L h) = brk h" "room (put_list l L h) = room h" "objs (put_list l L h) = objs h"
  "cells (put_cell c x h) = (cells h)(c \<mapsto> x)" "hdrs (put_cell c x h) = hdrs h"
  "brk (put_cell c x h) = brk h" "room (put_cell c x h) = room h" "objs (put_cell c x h) = objs h"
  by (simp_all add: put_list_def put_cell_def)

lemma rep_list_at:
  "rep h org ty l xs \<Longrightarrow> xs \<noteq> [] \<Longrightarrow>
     list_at l h = Inr \<lparr>list_type = ty, length_of = int (length xs), head_of = fst (hd xs),
                        tail_of = fst (last xs), list_origin = org\<rparr>"
  by (simp add: rep_def)

lemma rep_list_head: "rep h org ty l xs \<Longrightarrow> list_head l h = Inr (first_addr xs 0)"
  by (cases "xs = []") (auto simp: list_head_def rep_list_at first_addr_ne rep_def)

lemma rep_list_length: "rep h org ty l xs \<Longrightarrow> list_length l h = Inr (int (length xs))"
  by (cases "xs = []") (auto simp: list_length_def rep_list_at rep_def)

lemma rep_IsListOf: "rep h org ty l xs \<Longrightarrow> IsListOf ty l h = Inr True"
  by (cases "xs = []") (auto simp: IsListOf_def IsA_def rep_list_at rep_def)

lemma rep_Assert_type [simp]: "rep h org ty l xs \<Longrightarrow> Assert_res (IsListOf ty l h) = Inr ()"
  by (simp add: Assert_res_def rep_IsListOf)

lemmas IsList_defs = IsPointerList_def IsIntegerList_def IsOidList_def

lemma seg_lnext:
  "seg h org (xs @ (a, d) # ys) q \<Longrightarrow> lnext a h = Inr (first_addr ys q)"
  by (simp add: seg_append)

lemma seg_cell_at:
  "seg h org (xs @ (a, d) # ys) q \<Longrightarrow> cell_at a h = Inr (mk_cell d (first_addr ys q) org)"
  by (simp add: seg_append)

lemma rep_check [simp]: "rep h org ty l xs \<Longrightarrow> check_list_invariants l h = Inr ()"
proof (cases "xs = []")
  case True
  then show "rep h org ty l xs \<Longrightarrow> ?thesis" by (simp add: check_list_invariants_def)
next
  case False
  assume r: "rep h org ty l xs"
  from False have x: "xs = butlast xs @ [last xs]" by simp
  obtain t d where t: "last xs = (t, d)" by (cases "last xs")
  from r False have s: "seg h org xs 0" and l: "l \<noteq> 0" by (simp_all add: rep_def)
  from s x t have tl: "lnext t h = Inr 0" and t0: "t \<noteq> 0"
    by (metis first_addr.simps(1) seg_lnext, metis seg.simps(2) seg_append)
  have hd0: "fst (hd xs) \<noteq> 0" using s False by (cases xs) auto
  have two: "lnext (fst (hd xs)) h = Inr t" if "length xs = 2"
  proof -
    from that obtain a e where "xs = [(a, e), (t, d)]"
      using t by (auto simp: numeral_2_eq_2 length_Suc_conv)
    with s show ?thesis by simp
  qed
  have one: "fst (hd xs) = t" if "length xs = 1"
    using that t by (cases xs) auto
  show ?thesis
    using r False l t0 tl hd0 two one t
    by (cases ty) (auto simp: check_list_invariants_def rep_list_at)
qed

subsection \<open>Lengths\<close>

lemma seg_length_lt:
  assumes "wf_store h" and "seg h org xs q" and "distinct (map fst xs)"
  shows "length xs < brk h"
proof -
  have "addrs xs \<subseteq> {1..<brk h}"
    using seg_addr_lt [OF assms(1,2)] seg_in [OF assms(2)] by fastforce
  then have "card (addrs xs) \<le> brk h - 1"
    by (metis card_atLeastLessThan card_mono finite_atLeastLessThan)
  moreover have "card (addrs xs) = length xs"
    using assms(3) distinct_card by fastforce
  moreover have "0 < brk h" using assms(1) by (simp add: wf_store_def)
  ultimately show ?thesis by linarith
qed

lemma shorter_in_range: "wf_store h \<Longrightarrow> seg h org xs q \<Longrightarrow> distinct (map fst xs) \<Longrightarrow> n \<le> length xs \<Longrightarrow> c_int (int n) = int n"
  using seg_length_lt [of h org xs q] by (auto simp: wf_store_def intro!: c_int_in_range)

lemma length_in_range:
  assumes "wf_store h" and "seg h org xs q" and "distinct (map fst xs)"
  shows "0 < room h \<Longrightarrow> c_int (int (length xs) + 1) = int (length xs) + 1"
  using seg_length_lt [OF assms] assms(1) by (auto simp: wf_store_def intro!: c_int_in_range)

subsection \<open>Appending\<close>

text \<open>The stores that a new list and a new tail cell leave behind.\<close>

definition new_store :: "allocator \<Rightarrow> NodeTag \<Rightarrow> store \<Rightarrow> store" where
  "new_store org ty h =
     h\<lparr>cells := (cells h)(brk h \<mapsto> mk_cell Undef 0 org),
       hdrs := (hdrs h)(Suc (brk h) \<mapsto>
         \<lparr>list_type = ty, length_of = 1, head_of = brk h, tail_of = brk h, list_origin = org\<rparr>),
       brk := Suc (Suc (brk h)), room := room h - 2\<rparr>"

definition tail_store :: "allocator \<Rightarrow> nat \<Rightarrow> List \<Rightarrow> ListCell \<Rightarrow> store \<Rightarrow> store" where
  "tail_store org l L x h =
     h\<lparr>cells := (cells h)(brk h \<mapsto> mk_cell Undef 0 org,
                          tail_of L \<mapsto> x\<lparr>cell_next := Some (brk h)\<rparr>),
       hdrs := (hdrs h)(l \<mapsto> L\<lparr>tail_of := brk h, length_of := c_int (length_of L + 1)\<rparr>),
       brk := Suc (brk h), room := room h - 1\<rparr>"

lemmas alloc_defs = palloc_cell_def palloc_list_def malloc_cell_def malloc_list_def
  alloc_cell_def alloc_list_def fresh_cell_def fresh_list_def put_cell_def put_list_def

lemma new_list_eq:
  assumes "brk h \<noteq> 0" and "2 \<le> room h"
  shows "new_list ty h = Inr (Suc (brk h), new_store Palloc ty h)"
    and "pg_new_list ty h = Inr (Suc (brk h), new_store Malloc ty h)"
  using assms
  by (simp_all add: new_list_def pg_new_list_def new_store_def alloc_defs set_next_def upd_cell_def
      upd_list_def cell_at_def list_at_def)

lemma new_tail_cell_eq:
  assumes "brk h \<noteq> 0" and "0 < room h" and "l \<noteq> 0" and "hdrs h l = Some L"
    and "tail_of L \<noteq> 0" and "cells h (tail_of L) = Some x" and "cells h (brk h) = None"
  shows "new_tail_cell l h = Inr (tail_store Palloc l L x h)"
    and "pg_new_tail_cell l h = Inr (tail_store Malloc l L x h)"
proof -
  have ne: "tail_of L \<noteq> brk h" using assms by auto
  show "new_tail_cell l h = Inr (tail_store Palloc l L x h)"
    using assms ne
    by (simp add: new_tail_cell_def tail_store_def alloc_defs set_next_def upd_cell_def
        upd_list_def cell_at_def list_at_def)
  show "pg_new_tail_cell l h = Inr (tail_store Malloc l L x h)"
    using assms ne
    by (simp add: pg_new_tail_cell_def tail_store_def alloc_defs set_next_def upd_cell_def
        upd_list_def cell_at_def list_at_def)
qed

text \<open>
  The outcome of an append: one cell more at the end, a header that is new only when the list
  was empty, and nothing else changed.
\<close>

definition appended ::
  "store \<Rightarrow> store \<Rightarrow> allocator \<Rightarrow> NodeTag \<Rightarrow> nat \<Rightarrow> nat \<Rightarrow> lseq \<Rightarrow> cell_data \<Rightarrow> bool"
where
  "appended h h' org ty l l' xs d \<longleftrightarrow>
     (\<exists>a. brk h \<le> a \<and> rep h' org ty l' (xs @ [(a, d)])) \<and>
     wf_store h' \<and> unchanged h h' {l} (addrs xs) \<and>
     (if l = 0 then brk h \<le> l' else l' = l) \<and> room h \<le> room h' + 2"

text \<open>The common shape of \<open>lappend\<close>, \<open>lappend_int\<close>, \<open>lappend_oid\<close> and \<open>pg_lappend_int\<close>.\<close>

definition append_with ::
  "(NodeTag \<Rightarrow> store \<Rightarrow> (nat \<times> store) result) \<Rightarrow> (nat \<Rightarrow> store \<Rightarrow> store result) \<Rightarrow> NodeTag \<Rightarrow>
     cell_data \<Rightarrow> nat \<Rightarrow> store \<Rightarrow> (nat \<times> store) result"
where
  "append_with mk_list mk_tail ty d l h =
     bind_res (Assert_res (IsListOf ty l h)) (\<lambda>_.
     bind_res (if l = NIL then mk_list ty h
               else bind_res (mk_tail l h) (\<lambda>h. Inr (l, h))) (\<lambda>(l, h).
     bind_res (list_at l h) (\<lambda>L.
     bind_res (set_data (tail_of L) d h) (\<lambda>h.
     bind_res (check_list_invariants l h) (\<lambda>_.
     Inr (l, h))))))"

lemma append_shapes:
  "lappend l p = append_with new_list new_tail_cell T_List (PtrValue p) l"
  "lappend_int l i = append_with new_list new_tail_cell T_IntList (IntValue i) l"
  "lappend_oid l i = append_with new_list new_tail_cell T_OidList (OidValue i) l"
  "pg_lappend_int l i = append_with pg_new_list pg_new_tail_cell T_IntList (IntValue i) l"
  by (simp_all add: fun_eq_iff append_with_def lappend_def lappend_int_def lappend_oid_def
      pg_lappend_int_def IsList_defs)

lemma append_new:
  assumes wf: "wf_store h" and room: "2 \<le> room h"
    and mk: "mk_list ty h = Inr (Suc (brk h), new_store org ty h)"
  shows "\<exists>l' h'. append_with mk_list mk_tail ty d 0 h = Inr (l', h') \<and>
           appended h h' org ty 0 l' [] d"
proof -
  let ?h = "new_store org ty h"
  let ?h' = "put_cell (brk h) (mk_cell d 0 org) ?h"
  have b: "brk h \<noteq> 0" using fresh_None [OF wf] by simp
  have r: "rep ?h' org ty (Suc (brk h)) [(brk h, d)]"
    using b by (simp add: rep_def new_store_def)
  have "append_with mk_list mk_tail ty d 0 h = Inr (Suc (brk h), ?h')"
    using b mk rep_check [OF r]
    by (simp add: append_with_def Assert_res_def IsListOf_def set_data_def new_store_def)
  moreover have "wf_store ?h'" using wf room by (auto simp: wf_store_def new_store_def)
  moreover have "unchanged h ?h' {0} {}" by (simp add: unchanged_def new_store_def)
  ultimately show ?thesis using r room by (auto simp: appended_def new_store_def)
qed

lemma append_more:
  assumes wf: "wf_store h" and room: "0 < room h" and r: "rep h org ty l (ys @ [(t, e)])"
    and mk: "\<And>L x. hdrs h l = Some L \<Longrightarrow> tail_of L \<noteq> 0 \<Longrightarrow> cells h (tail_of L) = Some x \<Longrightarrow>
               mk_tail l h = Inr (tail_store org l L x h)"
  shows "\<exists>l' h'. append_with mk_list mk_tail ty d l h = Inr (l', h') \<and>
           appended h h' org ty l l' (ys @ [(t, e)]) d"
proof -
  let ?xs = "ys @ [(t, e)]"
  define L where "L = \<lparr>list_type = ty, length_of = int (length ?xs), head_of = fst (hd ?xs),
                        tail_of = t, list_origin = org\<rparr>"
  let ?x = "mk_cell e 0 org"
  let ?h = "tail_store org l L ?x h"
  let ?h' = "put_cell (brk h) (mk_cell d 0 org) ?h"
  have b: "brk h \<noteq> 0" "cells h (brk h) = None" using fresh_None [OF wf] by simp_all
  from r have l: "l \<noteq> 0" and hdr: "hdrs h l = Some L" and s: "seg h org ?xs 0"
    and dist: "distinct (map fst ?xs)"
    by (simp_all add: rep_def L_def)
  from s have t: "t \<noteq> 0" "cells h t = Some ?x" and sy: "seg h org ys t"
    by (simp_all add: seg_append)
  have tb: "t \<noteq> brk h" using t b by auto
  have tl: "mk_tail l h = Inr ?h"
    using mk [OF hdr] t by (simp add: L_def)
  have other: "cells ?h' a = cells h a" if "a \<in> addrs ys" for a
  proof -
    have "a < brk h" using seg_addr_lt [OF wf sy that] .
    moreover have "a \<noteq> t" using dist that by auto
    ultimately show ?thesis by (simp add: tail_store_def L_def)
  qed
  have "seg ?h' org ys t" using seg_cong [OF other] sy by blast
  then have "seg ?h' org (ys @ [(t, e), (brk h, d)]) 0"
    using t tb b by (simp add: seg_append tail_store_def L_def)
  moreover have "brk h \<notin> addrs ?xs"
    using seg_addr_lt [OF wf s] by blast
  moreover have "hd (ys @ [(t, e), (brk h, d)]) = hd ?xs" by (cases ys) simp_all
  ultimately have r': "rep ?h' org ty l (?xs @ [(brk h, d)])"
    using l dist length_in_range [OF wf s dist room] by (simp add: rep_def tail_store_def L_def)
  have "append_with mk_list mk_tail ty d l h = Inr (l, ?h')"
    using l tl b rep_check [OF r'] rep_Assert_type [OF r]
    by (simp add: append_with_def set_data_def tail_store_def tb [symmetric] L_def)
  moreover have "wf_store ?h'"
    using wf t hdr room by (auto simp: wf_store_def tail_store_def L_def)
  moreover have "unchanged h ?h' {l} (addrs ?xs)"
    using l by (auto simp: unchanged_def tail_store_def L_def)
  ultimately show ?thesis using r' l room by (auto simp: appended_def tail_store_def)
qed

text \<open>Every append returns and adds its datum at the end.\<close>

lemma append_with_rep:
  assumes wf: "wf_store h" and room: "2 \<le> room h" and r: "rep h org ty l xs"
    and mkl: "\<And>h. brk h \<noteq> 0 \<Longrightarrow> 2 \<le> room h \<Longrightarrow> mk_list ty h = Inr (Suc (brk h), new_store org ty h)"
    and mkt: "\<And>h L x. brk h \<noteq> 0 \<Longrightarrow> 0 < room h \<Longrightarrow> l \<noteq> 0 \<Longrightarrow> hdrs h l = Some L \<Longrightarrow>
        tail_of L \<noteq> 0 \<Longrightarrow> cells h (tail_of L) = Some x \<Longrightarrow> cells h (brk h) = None \<Longrightarrow>
        mk_tail l h = Inr (tail_store org l L x h)"
  shows "\<exists>l' h'. append_with mk_list mk_tail ty d l h = Inr (l', h') \<and>
           appended h h' org ty l l' xs d"
proof (cases xs rule: rev_cases)
  case Nil
  with r have "l = 0" by simp
  moreover have "mk_list ty h = Inr (Suc (brk h), new_store org ty h)"
    using mkl fresh_None [OF wf] room by simp
  ultimately show ?thesis using append_new [OF wf room] Nil by simp
next
  case (snoc ys y)
  obtain t e where y: "y = (t, e)" by (cases y)
  have "l \<noteq> 0" using r snoc by (auto simp: rep_def)
  then show ?thesis
    using append_more [OF wf _ r [unfolded snoc y], of mk_tail] mkt fresh_None [OF wf] room snoc y
    by simp
qed

lemma lappend_rep:
  assumes "wf_store h" and "2 \<le> room h" and "rep h Palloc T_List l xs"
  shows "\<exists>l' h'. lappend l p h = Inr (l', h') \<and> appended h h' Palloc T_List l l' xs (PtrValue p)"
  unfolding append_shapes by (rule append_with_rep [OF assms]) (rule new_list_eq(1) new_tail_cell_eq(1); assumption)+

lemma lappend_int_rep:
  assumes "wf_store h" and "2 \<le> room h" and "rep h Palloc T_IntList l xs"
  shows "\<exists>l' h'. lappend_int l i h = Inr (l', h') \<and>
           appended h h' Palloc T_IntList l l' xs (IntValue i)"
  unfolding append_shapes by (rule append_with_rep [OF assms]) (rule new_list_eq(1) new_tail_cell_eq(1); assumption)+

lemma lappend_oid_rep:
  assumes "wf_store h" and "2 \<le> room h" and "rep h Palloc T_OidList l xs"
  shows "\<exists>l' h'. lappend_oid l i h = Inr (l', h') \<and>
           appended h h' Palloc T_OidList l l' xs (OidValue i)"
  unfolding append_shapes by (rule append_with_rep [OF assms]) (rule new_list_eq(1) new_tail_cell_eq(1); assumption)+

lemma pg_lappend_int_rep:
  assumes "wf_store h" and "2 \<le> room h" and "rep h Malloc T_IntList l xs"
  shows "\<exists>l' h'. pg_lappend_int l i h = Inr (l', h') \<and>
           appended h h' Malloc T_IntList l l' xs (IntValue i)"
  unfolding append_shapes by (rule append_with_rep [OF assms]) (rule new_list_eq(2) new_tail_cell_eq(2); assumption)+

subsection \<open>Loops end\<close>

lemma rep_length_lt: "wf_store h \<Longrightarrow> rep h org ty l xs \<Longrightarrow> length xs < loop_bound h"
  by (cases "xs = []") (auto simp: rep_def loop_bound_def dest!: seg_length_lt)

subsection \<open>Searching\<close>

lemma find_from_seg:
  assumes "seg h org xs 0" and "length xs < n"
    and "\<And>a d. (a, d) \<in> set xs \<Longrightarrow> test a h = Inr (P d)"
  shows "find_from n test prev (first_addr xs 0) h =
     Inr (last (prev # map fst (takeWhile (\<lambda>x. \<not> P (snd x)) xs)),
          first_addr (dropWhile (\<lambda>x. \<not> P (snd x)) xs) 0)"
  using assms
proof (induction xs arbitrary: n prev)
  case Nil
  then show ?case by (cases n) auto
next
  case (Cons x xs)
  obtain a d where x: "x = (a, d)" by (cases x)
  from Cons.prems obtain m where n: "n = Suc m" and m: "length xs < m" by (cases n) auto
  from Cons.prems(1) x have a: "a \<noteq> 0" "lnext a h = Inr (first_addr xs 0)" by simp_all
  have t: "test a h = Inr (P d)" using Cons.prems(3) x by simp
  have "find_from m test a (first_addr xs 0) h =
     Inr (last (a # map fst (takeWhile (\<lambda>x. \<not> P (snd x)) xs)),
          first_addr (dropWhile (\<lambda>x. \<not> P (snd x)) xs) 0)"
    using Cons.IH [OF _ m] Cons.prems(1,3) x by simp
  with n a t x show ?case by simp
qed

lemma find_cell_rep:
  assumes "wf_store h" and "rep h org ty l xs"
    and "\<And>a d. (a, d) \<in> set xs \<Longrightarrow> test a h = Inr (P d)"
  shows "find_cell test l h =
     Inr (last (0 # map fst (takeWhile (\<lambda>x. \<not> P (snd x)) xs)),
          first_addr (dropWhile (\<lambda>x. \<not> P (snd x)) xs) 0)"
proof -
  have s: "seg h org xs 0" using assms(2) by (cases "xs = []") (auto simp: rep_def)
  show ?thesis
    using find_from_seg [where test = test and P = P, OF s rep_length_lt [OF assms(1,2)] assms(3)]
    by (simp add: find_cell_def rep_list_head [OF assms(2)])
qed

lemma rep_seg: "rep h org ty l xs \<Longrightarrow> seg h org xs 0"
  by (cases "xs = []") (auto simp: rep_def)

lemma seg_nonzero_first:
  "seg h org xs q \<Longrightarrow> first_addr xs 0 \<noteq> 0 \<longleftrightarrow> xs \<noteq> []"
  by (cases xs) auto

lemma seg_suffix: "seg h org (xs @ ys) q \<Longrightarrow> seg h org ys q"
  by (simp add: seg_append)

lemma seg_dropWhile: "seg h org xs q \<Longrightarrow> seg h org (dropWhile P xs) q"
  using seg_suffix [of h org "takeWhile P xs" "dropWhile P xs" q] by simp

lemma find_hit:
  assumes "seg h org xs 0"
  shows "first_addr (dropWhile (\<lambda>x. \<not> P (snd x)) xs) 0 \<noteq> 0 \<longleftrightarrow> (\<exists>x \<in> set xs. P (snd x))"
  using seg_nonzero_first [OF seg_dropWhile [OF assms]] by (simp add: dropWhile_eq_Nil_conv)

lemma seg_data:
  assumes "seg h org xs q" and "(a, d) \<in> set xs"
  shows "\<exists>n. cell_at a h = Inr (mk_cell d n org)"
proof -
  obtain us vs where "xs = us @ (a, d) # vs" using split_list [OF assms(2)] by blast
  then show ?thesis using seg_cell_at assms(1) by blast
qed

subsection \<open>Freeing\<close>

definition without_cells :: "nat set \<Rightarrow> store \<Rightarrow> store" where
  "without_cells A h = h\<lparr>cells := (\<lambda>a. if a \<in> A then None else cells h a)\<rparr>"

lemma without_cells_simps [simp]:
  "cells (without_cells A h) a = (if a \<in> A then None else cells h a)"
  "hdrs (without_cells A h) = hdrs h" "brk (without_cells A h) = brk h"
  "room (without_cells A h) = room h" "objs (without_cells A h) = objs h"
  by (simp_all add: without_cells_def)

lemma free_from_seg:
  assumes "seg h org xs 0" and "distinct (map fst xs)" and "length xs < n"
  shows "free_from n org False (first_addr xs 0) h = Inr (without_cells (addrs xs) h)"
  using assms
proof (induction xs arbitrary: n h)
  case Nil
  then show ?case by (cases n) (simp_all add: without_cells_def)
next
  case (Cons x xs)
  obtain a d where x: "x = (a, d)" by (cases x)
  from Cons.prems obtain m where n: "n = Suc m" and m: "length xs < m" by (cases n) auto
  let ?h = "h\<lparr>cells := (cells h)(a := None)\<rparr>"
  from Cons.prems x have a: "a \<noteq> 0" "lnext a h = Inr (first_addr xs 0)" "a \<notin> addrs xs"
    by simp_all
  have rel: "release_cell org a h = Inr ?h"
    using Cons.prems(1) x by (simp add: release_cell_def)
  have "seg ?h org xs 0 = seg h org xs 0"
    by (rule seg_cong) (use a in auto)
  then have "free_from m org False (first_addr xs 0) ?h = Inr (without_cells (addrs xs) ?h)"
    using Cons.IH [OF _ _ m, of ?h] Cons.prems x by simp
  moreover have "without_cells (addrs xs) ?h = without_cells (addrs (x # xs)) h"
    by (auto simp: without_cells_def x fun_eq_iff)
  ultimately show ?case using n a rel x by simp
qed

lemma free_rep:
  assumes "wf_store h" and "rep h org ty l xs"
  shows "free_from (loop_bound h) org False (first_addr xs 0) h = Inr (without_cells (addrs xs) h)"
proof (rule free_from_seg)
  show "seg h org xs 0" by (rule rep_seg [OF assms(2)])
  show "distinct (map fst xs)" using assms(2) by (cases "xs = []") (auto simp: rep_def)
  show "length xs < loop_bound h" by (rule rep_length_lt [OF assms])
qed

definition without_list :: "nat \<Rightarrow> lseq \<Rightarrow> store \<Rightarrow> store" where
  "without_list l xs h =
     (without_cells (addrs xs) h)\<lparr>hdrs := (\<lambda>a. if a = l \<and> l \<noteq> 0 then None else hdrs h a)\<rparr>"

lemma release_rep:
  assumes "rep h org ty l xs" and "l \<noteq> 0"
  shows "release_list org l (without_cells A h) =
           Inr ((without_cells A h)\<lparr>hdrs := (hdrs h)(l := None)\<rparr>)"
  using assms by (simp add: release_list_def rep_def split: if_splits)

lemma freed_store:
  "l \<noteq> 0 \<Longrightarrow> (without_cells (addrs xs) h)\<lparr>hdrs := (hdrs h)(l := None)\<rparr> = without_list l xs h"
  "without_cells (addrs []) h = without_list 0 [] h"
  by (auto simp: without_list_def without_cells_def fun_eq_iff)

lemma pg_list_free_rep:
  assumes "wf_store h" and "rep h Malloc ty l xs"
  shows "pg_list_free l False h = Inr (without_list l xs h)"
  using assms free_rep [OF assms] release_rep [OF assms(2)] freed_store(1) freed_store(2)
  by (auto simp: pg_list_free_def rep_list_head [OF assms(2)])

lemma list_free_rep:
  assumes "wf_store h" and "rep h Palloc ty l xs"
  shows "list_free l h = Inr (without_list l xs h)"
  using assms free_rep [OF assms] release_rep [OF assms(2)] freed_store(1) freed_store(2)
  by (auto simp: list_free_def list_free_private_def rep_list_head [OF assms(2)])

lemma without_list_wf: "wf_store h \<Longrightarrow> wf_store (without_list l xs h)"
  by (auto simp: wf_store_def without_list_def)

lemma without_list_unchanged: "unchanged h (without_list l xs h) {l} (addrs xs)"
  by (auto simp: unchanged_def without_list_def)

subsection \<open>Deleting a cell\<close>

text \<open>The common shape of \<open>list_delete_cell\<close> and \<open>pg_list_delete_cell\<close>.\<close>

definition delete_with ::
  "allocator \<Rightarrow> (nat \<Rightarrow> store \<Rightarrow> store result) \<Rightarrow> nat \<Rightarrow> nat \<Rightarrow> nat \<Rightarrow> store \<Rightarrow> (nat \<times> store) result"
where
  "delete_with org free_all l cell prev h =
     bind_res (check_list_invariants l h) (\<lambda>_.
     bind_res (if prev \<noteq> 0 then lnext prev h else list_head l h) (\<lambda>c.
     bind_res (Assert (c = cell)) (\<lambda>_.
     bind_res (list_at l h) (\<lambda>L.
     if length_of L = 1 then
       bind_res (free_all l h) (\<lambda>h. Inr (NIL, h))
     else
       bind_res (upd_list l (\<lambda>L. L\<lparr>length_of := c_int (length_of L - 1)\<rparr>) h) (\<lambda>h.
       bind_res (lnext cell h) (\<lambda>nx.
       bind_res (if prev \<noteq> 0 then set_next prev nx h
                 else upd_list l (\<lambda>L. L\<lparr>head_of := nx\<rparr>) h) (\<lambda>h.
       bind_res (if tail_of L = cell then upd_list l (\<lambda>L. L\<lparr>tail_of := prev\<rparr>) h
                 else Inr h) (\<lambda>h.
       bind_res (release_cell org cell h) (\<lambda>h.
       Inr (l, h))))))))))"

lemma delete_shapes:
  "list_delete_cell = delete_with Palloc list_free"
  "pg_list_delete_cell = delete_with Malloc (\<lambda>l. pg_list_free l False)"
  by (simp_all add: fun_eq_iff delete_with_def list_delete_cell_def pg_list_delete_cell_def)

text \<open>The outcome of deleting the cell \<open>a\<close> from \<open>ys @ (a, d) # zs\<close>.\<close>

definition deleted ::
  "store \<Rightarrow> store \<Rightarrow> allocator \<Rightarrow> NodeTag \<Rightarrow> nat \<Rightarrow> nat \<Rightarrow> lseq \<Rightarrow> nat \<Rightarrow> lseq \<Rightarrow> bool"
where
  "deleted h h' org ty l l' ys a zs \<longleftrightarrow>
     rep h' org ty l' (ys @ zs) \<and> l' = (if ys @ zs = [] then 0 else l) \<and> cells h' a = None \<and>
     wf_store h' \<and> unchanged h h' {l} (insert a (addrs (ys @ zs))) \<and>
     room h' = room h \<and> brk h' = brk h"

lemma delete_only:
  assumes "wf_store h" and "rep h org ty l [(a, d)]"
    and "free_all l h = Inr (without_list l [(a, d)] h)"
  shows "\<exists>l' h'. delete_with org free_all l a 0 h = Inr (l', h') \<and>
           deleted h h' org ty l l' [] a []"
proof -
  have "delete_with org free_all l a 0 h = Inr (0, without_list l [(a, d)] h)"
    using assms by (simp add: delete_with_def rep_list_head [OF assms(2)] rep_list_at [OF assms(2)])
  then show ?thesis
    using without_list_wf [OF assms(1), of l "[(a, d)]"] without_list_unchanged [of h l "[(a, d)]"]
    by (auto simp: deleted_def without_list_def)
qed

lemma delete_head:
  assumes wf: "wf_store h" and r: "rep h org ty l ((a, d) # zs)" and zs: "zs \<noteq> []"
  shows "\<exists>l' h'. delete_with org free_all l a 0 h = Inr (l', h') \<and>
           deleted h h' org ty l l' [] a zs"
proof -
  let ?L = "\<lparr>list_type = ty, length_of = int (length zs), head_of = fst (hd zs),
             tail_of = fst (last zs), list_origin = org\<rparr>"
  let ?h' = "h\<lparr>cells := (cells h)(a := None), hdrs := (hdrs h)(l \<mapsto> ?L)\<rparr>"
  from r have l: "l \<noteq> 0" and hdr: "hdrs h l = Some \<lparr>list_type = ty,
      length_of = int (length ((a, d) # zs)), head_of = a, tail_of = fst (last zs),
      list_origin = org\<rparr>" and s: "seg h org ((a, d) # zs) 0" and dist: "distinct (map fst zs)"
    and a: "a \<notin> addrs zs"
    using zs by (simp_all add: rep_def)
  have ta: "fst (last zs) \<noteq> a" using a zs by (metis image_eqI last_in_set)
  have nx: "first_addr zs 0 = fst (hd zs)" using zs by (rule first_addr_ne)
  have "seg ?h' org zs 0 = seg h org zs 0"
    by (rule seg_cong) (use a in auto)
  then have r': "rep ?h' org ty l zs" using l s dist zs by (simp add: rep_def)
  have c: "c_int (int (length zs)) = int (length zs)" by (rule shorter_in_range [OF wf s]) (use dist a in auto)
  have "delete_with org free_all l a 0 h = Inr (l, ?h')"
    using l hdr s ta zs nx c rep_check [OF r]
    by (simp add: delete_with_def list_head_def release_cell_def put_list_def)
  moreover have "wf_store ?h'" using wf hdr by (auto simp: wf_store_def)
  moreover have "unchanged h ?h' {l} (insert a (addrs zs))" by (auto simp: unchanged_def)
  ultimately show ?thesis using r' zs by (auto simp: deleted_def)
qed

lemma delete_inner:
  assumes wf: "wf_store h" and r: "rep h org ty l (us @ (p, e) # (a, d) # zs)"
  shows "\<exists>l' h'. delete_with org free_all l a p h = Inr (l', h') \<and>
           deleted h h' org ty l l' (us @ [(p, e)]) a zs"
proof -
  let ?xs = "us @ (p, e) # (a, d) # zs"
  let ?rest = "us @ (p, e) # zs"
  let ?L = "\<lparr>list_type = ty, length_of = int (length ?rest), head_of = fst (hd ?rest),
             tail_of = fst (last ?rest), list_origin = org\<rparr>"
  let ?h' = "h\<lparr>cells := (cells h)(p \<mapsto> mk_cell e (first_addr zs 0) org, a := None),
              hdrs := (hdrs h)(l \<mapsto> ?L)\<rparr>"
  have hdeq: "hd ?xs = hd ?rest" by (cases us) simp_all
  from r have l: "l \<noteq> 0" and hdr: "hdrs h l = Some \<lparr>list_type = ty,
      length_of = int (length ?xs), head_of = fst (hd ?rest), tail_of = fst (last ?xs),
      list_origin = org\<rparr>" and s: "seg h org ?xs 0" and dist: "distinct (map fst ?xs)"
    using hdeq by (simp_all add: rep_def)
  from dist have pa: "p \<noteq> a" "a \<notin> addrs us" "a \<notin> addrs zs" "p \<notin> addrs us" "p \<notin> addrs zs"
    and dist': "distinct (map fst ?rest)"
    by auto
  from s have p: "p \<noteq> 0" "cells h p = Some (mk_cell e a org)"
    and ca: "a \<noteq> 0" "cells h a = Some (mk_cell d (first_addr zs 0) org)"
    and su: "seg h org us p" and sz: "seg h org zs 0"
    by (simp_all add: seg_append)
  have "seg ?h' org us p = seg h org us p" by (rule seg_cong) (use pa in auto)
  moreover have "seg ?h' org zs 0 = seg h org zs 0" by (rule seg_cong) (use pa in auto)
  ultimately have "seg ?h' org ?rest 0" using su sz p pa by (simp add: seg_append)
  then have r': "rep ?h' org ty l ?rest" using l dist' by (simp add: rep_def)
  have ta: "fst (last ?xs) = a \<longleftrightarrow> zs = []"
    using pa by (cases zs rule: rev_cases) auto
  have tl: "fst (last ?rest) = (if zs = [] then p else fst (last ?xs))" by simp
  have c: "c_int (int (length ?xs) - 1) = int (length ?rest)"
    using shorter_in_range [OF wf s dist, of "length ?rest"] by simp
  have "delete_with org free_all l a p h = Inr (l, ?h')"
    using l hdr p ca pa ta tl c rep_check [OF r]
    by (auto simp: delete_with_def release_cell_def put_list_def put_cell_def set_next_def
        fun_upd_twist)
  moreover have "wf_store ?h'" using wf hdr p by (auto simp: wf_store_def)
  moreover have "unchanged h ?h' {l} (insert a (addrs ?rest))" by (auto simp: unchanged_def)
  ultimately show ?thesis using r' by (auto simp: deleted_def)
qed

lemma delete_with_rep:
  assumes wf: "wf_store h" and r: "rep h org ty l (ys @ (a, d) # zs)"
    and fr: "\<And>xs. rep h org ty l xs \<Longrightarrow> free_all l h = Inr (without_list l xs h)"
  shows "\<exists>l' h'. delete_with org free_all l a (last (0 # map fst ys)) h = Inr (l', h') \<and>
           deleted h h' org ty l l' ys a zs"
proof (cases ys rule: rev_cases)
  case Nil
  show ?thesis
  proof (cases "zs = []")
    case True
    with Nil r have r1: "rep h org ty l [(a, d)]" by simp
    from delete_only [where free_all = free_all, OF wf r1 fr [OF r1]] Nil True show ?thesis by simp
  next
    case False
    with delete_head [OF wf _ False] Nil r show ?thesis by simp
  qed
next
  case (snoc us y)
  obtain p e where y: "y = (p, e)" by (cases y)
  from r snoc y have "rep h org ty l (us @ (p, e) # (a, d) # zs)" by simp
  from delete_inner [OF wf this] snoc y show ?thesis by simp
qed

lemma list_delete_cell_rep:
  assumes "wf_store h" and "rep h Palloc ty l (ys @ (a, d) # zs)"
  shows "\<exists>l' h'. list_delete_cell l a (last (0 # map fst ys)) h = Inr (l', h') \<and>
           deleted h h' Palloc ty l l' ys a zs"
  unfolding delete_shapes
  by (rule delete_with_rep [OF assms]) (rule list_free_rep [OF assms(1)])

lemma pg_list_delete_cell_rep:
  assumes "wf_store h" and "rep h Malloc ty l (ys @ (a, d) # zs)"
  shows "\<exists>l' h'. pg_list_delete_cell l a (last (0 # map fst ys)) h = Inr (l', h') \<and>
           deleted h h' Malloc ty l l' ys a zs"
  unfolding delete_shapes
  by (rule delete_with_rep [OF assms]) (rule pg_list_free_rep [OF assms(1)])

subsection \<open>Walking a list\<close>

text \<open>
  The rule for a \<open>foreach\<close> loop that leaves the cells of the list it walks alone: an invariant
  over the part already visited carries the loop to its end.
\<close>

lemma foreach_from_rule:
  assumes "length zs < n" and "xs = ys @ zs" and "Inv ys s h"
    and seg: "\<And>ys s h. Inv ys s h \<Longrightarrow> seg h org xs 0"
    and step: "\<And>ys a d zs s h. xs = ys @ (a, d) # zs \<Longrightarrow> Inv ys s h \<Longrightarrow>
         \<exists>s' h'. body a s h = Inr (s', h') \<and> Inv (ys @ [(a, d)]) s' h'"
  shows "\<exists>s' h'. foreach_from n body (first_addr zs 0) s h = Inr (s', h') \<and> Inv xs s' h'"
  using assms(1-3)
proof (induction zs arbitrary: n ys s h)
  case Nil
  then show ?case by (cases n) auto
next
  case (Cons z zs)
  obtain a d where z: "z = (a, d)" by (cases z)
  from Cons.prems obtain m where n: "n = Suc m" and m: "length zs < m" by (cases n) auto
  from Cons.prems z obtain s' h' where body: "body a s h = Inr (s', h')"
    and inv: "Inv (ys @ [(a, d)]) s' h'"
    using step by blast
  have "seg h' org (ys @ (a, d) # zs) 0" using seg [OF inv] Cons.prems z by simp
  then have a: "a \<noteq> 0" "lnext a h' = Inr (first_addr zs 0)" by (simp_all add: seg_append)
  from Cons.IH [OF m _ inv] Cons.prems z
  obtain s'' h'' where "foreach_from m body (first_addr zs 0) s' h' = Inr (s'', h'')"
    and "Inv xs s'' h''" by auto
  with n a z body show ?case by auto
qed

lemma foreach_rule:
  assumes "wf_store h" and "rep h org ty l xs" and "Inv [] s h"
    and "\<And>ys s h. Inv ys s h \<Longrightarrow> seg h org xs 0"
    and "\<And>ys a d zs s h. xs = ys @ (a, d) # zs \<Longrightarrow> Inv ys s h \<Longrightarrow>
         \<exists>s' h'. body a s h = Inr (s', h') \<and> Inv (ys @ [(a, d)]) s' h'"
  shows "\<exists>s' h'. foreach body l s h = Inr (s', h') \<and> Inv xs s' h'"
proof -
  have "\<exists>s' h'. foreach_from (loop_bound h) body (first_addr xs 0) s h = Inr (s', h') \<and> Inv xs s' h'"
    by (rule foreach_from_rule [where ys = "[]" and org = org, OF rep_length_lt [OF assms(1,2)]])
      (use assms(3-5) in auto)
  then show ?thesis by (simp add: foreach_def rep_list_head [OF assms(2)])
qed

subsection \<open>Copying\<close>

text \<open>A chain whose last cell has no link yet.\<close>

definition open_seg :: "store \<Rightarrow> allocator \<Rightarrow> lseq \<Rightarrow> nat \<Rightarrow> cell_data \<Rightarrow> bool" where
  "open_seg h org ys p e \<longleftrightarrow> p \<noteq> 0 \<and> seg h org ys p \<and> p \<notin> addrs ys \<and>
     (\<exists>x. cells h p = Some x \<and> cell_data x = e \<and> cell_origin x = org)"

lemma open_seg_close:
  assumes "open_seg h org ys p e"
  shows "\<exists>h'. set_next p 0 h = Inr h' \<and> seg h' org (ys @ [(p, e)]) 0 \<and>
           hdrs h' = hdrs h \<and> brk h' = brk h \<and> room h' = room h \<and> objs h' = objs h \<and>
           (\<forall>a. a \<noteq> p \<longrightarrow> cells h' a = cells h a) \<and> cells h' p \<noteq> None"
proof -
  from assms obtain x where p: "p \<noteq> 0" "cells h p = Some x" "cell_data x = e" "cell_origin x = org"
    and ys: "seg h org ys p" "p \<notin> addrs ys" by (auto simp: open_seg_def)
  let ?h = "put_cell p (x\<lparr>cell_next := Some 0\<rparr>) h"
  have "seg ?h org ys p = seg h org ys p" by (rule seg_cong) (use ys in auto)
  with p ys show ?thesis by (cases x) (auto simp: set_next_def seg_append)
qed

text \<open>Copying one cell behind an open chain.\<close>

definition copied_cell :: "nat \<Rightarrow> ListCell \<Rightarrow> cell_data \<Rightarrow> store \<Rightarrow> store" where
  "copied_cell p y d h =
     h\<lparr>brk := Suc (brk h), room := room h - 1,
       cells := (cells h)(brk h \<mapsto> \<lparr>cell_data = d, cell_next = None, cell_origin = Palloc\<rparr>,
                          p \<mapsto> y\<lparr>cell_next := Some (brk h)\<rparr>)\<rparr>"

lemma copy_step:
  assumes "wf_store h" and "0 < room h" and "p \<noteq> 0" and "cells h p = Some y"
    and "c \<noteq> 0" and "cells h c = Some x"
  shows "bind_res (palloc_cell h) (\<lambda>(new, h).
         bind_res (cell_at c h) (\<lambda>x.
         bind_res (set_data new (cell_data x) h) (\<lambda>h.
         bind_res (set_next p new h) (\<lambda>h. k new h)))) =
           k (brk h) (copied_cell p y (cell_data x) h)"
proof -
  have "brk h \<noteq> 0" "cells h (brk h) = None" using fresh_None [OF assms(1)] by simp_all
  with assms have "c \<noteq> brk h" "p \<noteq> brk h" by auto
  with assms \<open>brk h \<noteq> 0\<close> show ?thesis
    by (simp add: alloc_defs set_data_def set_next_def upd_cell_def cell_at_def copied_cell_def)
qed

lemma copied_cell_props:
  assumes wf: "wf_store h" and o: "open_seg h Palloc ys p e" and y: "cells h p = Some y" and room: "0 < room h"
  shows "wf_store (copied_cell p y d h)"
    and "open_seg (copied_cell p y d h) Palloc (ys @ [(p, e)]) (brk h) d"
    and "unchanged h (copied_cell p y d h) {} {p}"
    and "a \<noteq> p \<Longrightarrow> a < brk h \<Longrightarrow> cells (copied_cell p y d h) a = cells h a"
proof -
  let ?h = "copied_cell p y d h"
  have b: "brk h \<noteq> 0" "cells h (brk h) = None" using fresh_None [OF wf] by simp_all
  with y have pb: "p \<noteq> brk h" by auto
  from o y have p: "p \<noteq> 0" "cell_data y = e" "cell_origin y = Palloc" and ys: "seg h Palloc ys p"
    "p \<notin> addrs ys" by (auto simp: open_seg_def)
  have lt: "a < brk h" if "a \<in> addrs ys" for a using seg_addr_lt [OF wf ys(1) that] .
  show "wf_store ?h" using wf y room by (auto simp: wf_store_def copied_cell_def)
  show "unchanged h ?h {} {p}" by (auto simp: unchanged_def copied_cell_def)
  show "a \<noteq> p \<Longrightarrow> a < brk h \<Longrightarrow> cells ?h a = cells h a" by (simp add: copied_cell_def)
  have same: "cells ?h a = cells h a" if "a \<in> addrs ys" for a
  proof -
    have "a \<noteq> p" "a \<noteq> brk h" using ys(2) that lt [OF that] by auto
    then show ?thesis by (simp add: copied_cell_def)
  qed
  have "seg ?h Palloc ys p = seg h Palloc ys p" by (rule seg_cong) (rule same)
  then show "open_seg ?h Palloc (ys @ [(p, e)]) (brk h) d"
    using ys p pb b lt [of "brk h"]
    by (cases y) (auto simp: open_seg_def seg_append copied_cell_def)
qed

text \<open>
  The outcome of the copying loops: the chain grows by new cells with the given contents.
\<close>

definition copied ::
  "store \<Rightarrow> store \<Rightarrow> lseq \<Rightarrow> nat \<Rightarrow> cell_data \<Rightarrow> nat \<Rightarrow> cell_data list \<Rightarrow> bool"
where
  "copied h h' ys p e q ds \<longleftrightarrow>
     (\<exists>ms ws f. open_seg h' Palloc ws q f \<and> ws @ [(q, f)] = ys @ (p, e) # ms \<and> map snd ms = ds \<and>
        (\<forall>a \<in> addrs ms. brk h \<le> a) \<and> distinct (map fst ms)) \<and>
     wf_store h' \<and> unchanged h h' {} {p} \<and> room h' = room h - length ds \<and> hdrs h' = hdrs h"

lemma copied_Nil:
  "wf_store h \<Longrightarrow> open_seg h Palloc ys p e \<Longrightarrow> copied h h ys p e p []"
  by (auto simp: copied_def)

lemma copied_Cons:
  assumes wf: "wf_store h" and o: "open_seg h Palloc ys p e" and y: "cells h p = Some y" and room: "0 < room h"
    and c: "copied (copied_cell p y d h) h' (ys @ [(p, e)]) (brk h) d q ds"
  shows "copied h h' ys p e q (d # ds)"
proof -
  let ?h = "copied_cell p y d h"
  have br: "brk ?h = Suc (brk h)" by (simp add: copied_cell_def)
  from c obtain ms ws f where *: "open_seg h' Palloc ws q f"
    "ws @ [(q, f)] = (ys @ [(p, e)]) @ (brk h, d) # ms" "map snd ms = ds"
    "\<forall>a \<in> addrs ms. Suc (brk h) \<le> a" "distinct (map fst ms)" and wf': "wf_store h'"
    and u: "unchanged ?h h' {} {brk h}" and r: "room h' = room ?h - length ds" "hdrs h' = hdrs ?h"
    by (auto simp: copied_def br)
  have "unchanged h h' {} {p}"
    by (rule unchanged_trans [OF copied_cell_props(3) [OF wf o y room] u]) auto
  moreover from *(4) have "brk h \<notin> addrs ms" "\<forall>a \<in> addrs ms. brk h \<le> a" by force+
  moreover have "room h' = room h - length (d # ds)" "hdrs h' = hdrs h"
    using r by (simp_all add: copied_cell_def)
  ultimately show ?thesis
    using * wf' unfolding copied_def
    by (intro conjI exI [of _ "(brk h, d) # ms"] exI [of _ ws] exI [of _ f]) auto
qed

lemma copy_from_rep:
  assumes "seg h org zs 0" and "length zs < n" and "wf_store h" and "open_seg h Palloc ys p e"
    and "length zs \<le> room h" and "p \<notin> addrs zs"
  shows "\<exists>q h'. copy_from n (first_addr zs 0) p h = Inr (q, h') \<and>
           copied h h' ys p e q (map snd zs)"
  using assms
proof (induction zs arbitrary: n h ys p e)
  case Nil
  then show ?case using copied_Nil by (cases n) auto
next
  case (Cons z zs)
  obtain a d where z: "z = (a, d)" by (cases z)
  from Cons.prems obtain m where n: "n = Suc m" and m: "length zs < m" by (cases n) auto
  from Cons.prems(4) obtain y where p: "p \<noteq> 0" "cells h p = Some y" by (auto simp: open_seg_def)
  from Cons.prems(1) z have a: "a \<noteq> 0" "cells h a = Some (mk_cell d (first_addr zs 0) org)"
    and szs: "seg h org zs 0" by simp_all
  let ?h = "copied_cell p y d h"
  have room: "0 < room h" using Cons.prems(5) by simp
  note props = copied_cell_props [where d = d, OF Cons.prems(3,4) p(2) room]
  have ap: "a \<noteq> p" "p \<notin> addrs zs" using Cons.prems(6) z by auto
  have lt: "x < brk h" if "x \<in> addrs (z # zs)" for x
    using seg_addr_lt [OF Cons.prems(3,1) that] .
  have "lnext a ?h = Inr (first_addr zs 0)"
    using props(4) [of a] ap lt [of a] a z by (simp add: lnext_def cell_at_def)
  then have eq: "copy_from n (first_addr (z # zs) 0) p h = copy_from m (first_addr zs 0) (brk h) ?h"
    using copy_step [OF Cons.prems(3) _ p a, of "\<lambda>new h. bind_res (lnext a h) (\<lambda>nx. copy_from m nx new h)"]
      Cons.prems(5) n a(1) z by simp
  have "seg ?h org zs 0 = seg h org zs 0"
  proof (rule seg_cong)
    fix x assume "x \<in> addrs zs"
    then have "x \<noteq> p" "x < brk h" using ap lt [of x] by auto
    then show "cells ?h x = cells h x" by (rule props(4))
  qed
  then have "seg ?h org zs 0" using szs by simp
  moreover have "length zs \<le> room ?h" using Cons.prems(5) by (simp add: copied_cell_def)
  moreover have "brk h \<notin> addrs zs" using lt by fastforce
  ultimately obtain q h' where "copy_from m (first_addr zs 0) (brk h) ?h = Inr (q, h')"
    and "copied ?h h' (ys @ [(p, e)]) (brk h) d q (map snd zs)"
    using Cons.IH [OF _ m props(1,2)] by blast
  with eq copied_Cons [OF Cons.prems(3,4) p(2) room] z show ?case by auto
qed

text \<open>
  Closing a copy: the last cell gets its null link and the header its tail, and the header
  then describes a list.
\<close>

lemma finish_copy:
  assumes wf: "wf_store h3" and c: "copied h3 h4 [] b d q ds" and l: "l \<noteq> 0"
    and hdr: "hdrs h3 l = Some \<lparr>list_type = ty, length_of = int (Suc (length ds)), head_of = b,
                tail_of = t, list_origin = Palloc\<rparr>"
    and b: "b < brk h3"
  shows "\<exists>h'. bind_res (set_next q 0 h4) (\<lambda>h.
              bind_res (upd_list l (\<lambda>L. L\<lparr>tail_of := q\<rparr>) h) (\<lambda>h.
              bind_res (check_list_invariants l h) (\<lambda>_. Inr (l, h)))) = Inr (l, h') \<and>
           (\<exists>ms. rep h' Palloc ty l ((b, d) # ms) \<and> map snd ms = ds \<and> (\<forall>a \<in> addrs ms. brk h3 \<le> a)) \<and>
           wf_store h' \<and> unchanged h3 h' {l} {b} \<and> room h' = room h3 - length ds"
proof -
  from c obtain ms ws f where o: "open_seg h4 Palloc ws q f" and w: "ws @ [(q, f)] = (b, d) # ms"
    and ms: "map snd ms = ds" "\<forall>a \<in> addrs ms. brk h3 \<le> a" "distinct (map fst ms)"
    and wf4: "wf_store h4" and u: "unchanged h3 h4 {} {b}"
    and r: "room h4 = room h3 - length ds" "hdrs h4 = hdrs h3"
    by (auto simp: copied_def)
  from open_seg_close [OF o] obtain h5 where h5: "set_next q 0 h4 = Inr h5"
    and s: "seg h5 Palloc (ws @ [(q, f)]) 0"
    and eqs: "hdrs h5 = hdrs h4" "brk h5 = brk h4" "room h5 = room h4" "objs h5 = objs h4"
      "\<forall>a. a \<noteq> q \<longrightarrow> cells h5 a = cells h4 a" "cells h5 q \<noteq> None"
    by blast
  let ?L = "\<lparr>list_type = ty, length_of = int (Suc (length ds)), head_of = b, tail_of = q,
             list_origin = Palloc\<rparr>"
  let ?h = "put_list l ?L h5"
  have q: "q = b \<or> brk h3 \<le> q"
  proof -
    have "(q, f) \<in> set ((b, d) # ms)" unfolding w [symmetric] by simp
    then show ?thesis using ms(2) by force
  qed
  have qlast: "fst (last ((b, d) # ms)) = q" unfolding w [symmetric] by simp
  have len: "length ds = length ms" using ms(1) by auto
  have "seg ?h Palloc ((b, d) # ms) 0"
    using s [unfolded w] by (rule seg_cong [THEN iffD2, rotated]) simp
  moreover have "b \<notin> addrs ms" using ms(2) b by force
  ultimately have rp: "rep ?h Palloc ty l ((b, d) # ms)"
    using l ms(3) qlast len by (simp add: rep_def)
  have hl: "hdrs h5 l = Some \<lparr>list_type = ty, length_of = int (Suc (length ds)), head_of = b,
                tail_of = t, list_origin = Palloc\<rparr>" using eqs(1) r(2) hdr by simp
  have run: "bind_res (set_next q 0 h4) (\<lambda>h.
              bind_res (upd_list l (\<lambda>L. L\<lparr>tail_of := q\<rparr>) h) (\<lambda>h.
              bind_res (check_list_invariants l h) (\<lambda>_. Inr (l, h)))) = Inr (l, ?h)"
    using h5 hl l rep_check [OF rp] by simp
  have u5: "unchanged h4 h5 {} {q}" using eqs by (simp add: unchanged_def)
  have "unchanged h3 h5 {} {b}"
    by (rule unchanged_trans [OF u u5]) (use q in auto)
  then have un: "unchanged h3 ?h {l} {b}" by (auto simp: unchanged_def)
  have "wf_store h5"
    using wf4 eqs o unfolding wf_store_def open_seg_def by (metis option.distinct(1))
  then have "wf_store ?h" using hl by (auto simp: wf_store_def)
  with run rp ms un r eqs show ?thesis by auto
qed

lemma list_copy_rep:
  assumes wf: "wf_store h" and r: "rep h org ty l xs" and room: "length xs + 1 \<le> room h"
  shows "\<exists>l' h' ms. list_copy l h = Inr (l', h') \<and> rep h' Palloc ty l' ms \<and> map snd ms = map snd xs \<and>
           (\<forall>a \<in> addrs ms. brk h \<le> a) \<and> (l' = 0 \<or> brk h \<le> l') \<and> wf_store h' \<and>
           unchanged h h' {} {} \<and> room h \<le> room h' + length xs + 1"
proof (cases xs)
  case Nil
  with r wf show ?thesis by (auto simp: list_copy_def)
next
  case (Cons x zs)
  obtain a d where x: "x = (a, d)" by (cases x)
  let ?b = "brk h" and ?l = "Suc (brk h)"
  let ?L = "\<lparr>list_type = ty, length_of = int (Suc (length zs)), head_of = ?b, tail_of = ?b,
             list_origin = Palloc\<rparr>"
  let ?h2 = "put_list ?l ?L (new_store Palloc ty h)"
  let ?h3 = "put_cell ?b (mk_cell d 0 Palloc) ?h2"
  have b: "?b \<noteq> 0" "cells h ?b = None" using fresh_None [OF wf] by simp_all
  from r Cons x have s: "seg h org ((a, d) # zs) 0" and l: "l \<noteq> 0" by (simp_all add: rep_def)
  have lt: "y < ?b" if "y \<in> addrs ((a, d) # zs)" for y using seg_addr_lt [OF wf s that] .
  then have ab: "a \<noteq> ?b" by force
  have other: "cells ?h3 y = cells h y" if "y \<noteq> ?b" for y
    using that by (simp add: new_store_def)
  have wf3: "wf_store ?h3" using wf room Cons by (auto simp: wf_store_def new_store_def)
  have s3: "seg ?h3 org ((a, d) # zs) 0"
    using s seg_cong [of "(a, d) # zs" ?h3 h] other lt by (metis nat_neq_iff)
  have o3: "open_seg ?h3 Palloc [] ?b d" using b by (simp add: open_seg_def)
  have at: "list_at l h = Inr \<lparr>list_type = ty, length_of = int (Suc (length zs)), head_of = a,
              tail_of = fst (last xs), list_origin = org\<rparr>"
    using rep_list_at [OF r] Cons x by simp
  have room': "2 \<le> room h" "length zs \<le> room ?h3" using room Cons by (simp_all add: new_store_def)
  have nb: "?b \<notin> addrs zs" using lt [of ?b] by auto
  have lzs: "length zs < loop_bound ?h3"
    using seg_length_lt [OF wf s] r Cons x by (simp add: rep_def loop_bound_def new_store_def)
  obtain q h4 where cp: "copy_from (loop_bound ?h3) (first_addr zs 0) ?b ?h3 = Inr (q, h4)"
    and c: "copied ?h3 h4 [] ?b d q (map snd zs)"
    using copy_from_rep [OF _ lzs wf3 o3 room'(2) nb] s3 unfolding seg.simps by blast
  have run: "list_copy l h = bind_res (set_next q 0 h4) (\<lambda>h.
              bind_res (upd_list ?l (\<lambda>L. L\<lparr>tail_of := q\<rparr>) h) (\<lambda>h.
              bind_res (check_list_invariants ?l h) (\<lambda>_. Inr (?l, h))))"
    using l at room'(1) b s s3 ab cp
    by (simp add: list_copy_def new_list_eq(1) list_head_def set_data_def new_store_def)
  from finish_copy [OF wf3 c, of ?l ty ?b]
  obtain h' ms where fin: "list_copy l h = Inr (?l, h')" "rep h' Palloc ty ?l ((?b, d) # ms)"
    "map snd ms = map snd zs" "\<forall>a \<in> addrs ms. brk ?h3 \<le> a" "wf_store h'"
    "unchanged ?h3 h' {?l} {?b}" "room h' = room ?h3 - length zs"
    unfolding run by (auto simp: new_store_def)
  have u3: "unchanged h ?h3 {} {}" by (auto simp: unchanged_def new_store_def)
  have "unchanged h h' {} {}"
    by (rule unchanged_trans [OF u3 fin(6)]) auto
  moreover have "\<forall>a \<in> addrs ((?b, d) # ms). brk h \<le> a"
    using fin(4) by (auto simp: new_store_def)
  ultimately show ?thesis
    using fin Cons x room
    by (intro exI [of _ ?l] exI [of _ h'] exI [of _ "(?b, d) # ms"]) (auto simp: new_store_def)
qed

end
