(* ===== verification/PgListOps.thy ===== *)
theory PgListOps
  imports PgListRep
begin

text \<open>
  The operations of \<open>src/backend/nodes/list.c\<close> that compare elements. Each exists for pointer,
  integer and OID lists, and the three versions differ only in the tag, the member of the data
  union and the comparison. The locale \<open>list_kind\<close> states what the versions have in common; the
  lemmas are proved there once and reach the code's functions through its interpretations.
\<close>

subsection \<open>Shapes\<close>

text \<open>The functions of the code, with the parts in which their versions differ as arguments.\<close>

definition member_with ::
  "NodeTag \<Rightarrow> (nat \<Rightarrow> store \<Rightarrow> 'v result) \<Rightarrow> ('v \<Rightarrow> 'v \<Rightarrow> bool) \<Rightarrow> nat \<Rightarrow> 'v \<Rightarrow> store \<Rightarrow> bool result"
where
  "member_with ty first eq l datum h =
     bind_res (Assert_res (IsListOf ty l h)) (\<lambda>_.
     bind_res (check_list_invariants l h) (\<lambda>_.
     bind_res (find_cell (\<lambda>cell h. bind_res (first cell h) (\<lambda>x. Inr (eq x datum))) l h)
       (\<lambda>(_, cell). Inr (cell \<noteq> 0))))"

definition remove_with ::
  "NodeTag \<Rightarrow> (nat \<Rightarrow> store \<Rightarrow> 'v result) \<Rightarrow> ('v \<Rightarrow> 'v \<Rightarrow> bool) \<Rightarrow> nat \<Rightarrow> 'v \<Rightarrow> store \<Rightarrow>
     (nat \<times> store) result"
where
  "remove_with ty first eq l datum h =
     bind_res (Assert_res (IsListOf ty l h)) (\<lambda>_.
     bind_res (check_list_invariants l h) (\<lambda>_.
     bind_res (find_cell (\<lambda>cell h. bind_res (first cell h) (\<lambda>x. Inr (eq x datum))) l h)
       (\<lambda>(prev, cell).
     if cell \<noteq> 0 then list_delete_cell l cell prev h else Inr (l, h))))"

text \<open>Walk a list and append to another one the elements that pass a test.\<close>

definition collect_with ::
  "(nat \<Rightarrow> store \<Rightarrow> 'v result) \<Rightarrow> (nat \<Rightarrow> 'v \<Rightarrow> store \<Rightarrow> (nat \<times> store) result) \<Rightarrow>
     (nat \<Rightarrow> 'v \<Rightarrow> store \<Rightarrow> bool result) \<Rightarrow> nat \<Rightarrow> nat \<Rightarrow> store \<Rightarrow> (nat \<times> store) result"
where
  "collect_with first app test l res h =
     foreach (\<lambda>cell res h.
       bind_res (first cell h) (\<lambda>x.
       bind_res (test res x h) (\<lambda>b.
       if b then app res x h else Inr (res, h)))) l res h"

definition union_with ::
  "NodeTag \<Rightarrow> (nat \<Rightarrow> store \<Rightarrow> 'v result) \<Rightarrow> (nat \<Rightarrow> 'v \<Rightarrow> store \<Rightarrow> (nat \<times> store) result) \<Rightarrow>
     ('v \<Rightarrow> 'v \<Rightarrow> bool) \<Rightarrow> nat \<Rightarrow> nat \<Rightarrow> store \<Rightarrow> (nat \<times> store) result"
where
  "union_with ty first app eq list1 list2 h =
     bind_res (Assert_res (IsListOf ty list1 h)) (\<lambda>_.
     bind_res (Assert_res (IsListOf ty list2 h)) (\<lambda>_.
     bind_res (list_copy list1 h) (\<lambda>(res, h).
     bind_res (collect_with first app
         (\<lambda>res x h. bind_res (member_with ty first eq res x h) (\<lambda>b. Inr (\<not> b))) list2 res h)
       (\<lambda>(res, h).
     bind_res (check_list_invariants res h) (\<lambda>_.
     Inr (res, h))))))"

definition intersection_with ::
  "NodeTag \<Rightarrow> (nat \<Rightarrow> store \<Rightarrow> 'v result) \<Rightarrow> (nat \<Rightarrow> 'v \<Rightarrow> store \<Rightarrow> (nat \<times> store) result) \<Rightarrow>
     ('v \<Rightarrow> 'v \<Rightarrow> bool) \<Rightarrow> nat \<Rightarrow> nat \<Rightarrow> store \<Rightarrow> (nat \<times> store) result"
where
  "intersection_with ty first app eq list1 list2 h =
     (if list1 = NIL \<or> list2 = NIL then Inr (NIL, h)
      else
        bind_res (Assert_res (IsListOf ty list1 h)) (\<lambda>_.
        bind_res (Assert_res (IsListOf ty list2 h)) (\<lambda>_.
        bind_res (collect_with first app (\<lambda>res x h. member_with ty first eq list2 x h) list1 NIL h)
          (\<lambda>(res, h).
        bind_res (check_list_invariants res h) (\<lambda>_.
        Inr (res, h))))))"

definition difference_with ::
  "NodeTag \<Rightarrow> (nat \<Rightarrow> store \<Rightarrow> 'v result) \<Rightarrow> (nat \<Rightarrow> 'v \<Rightarrow> store \<Rightarrow> (nat \<times> store) result) \<Rightarrow>
     ('v \<Rightarrow> 'v \<Rightarrow> bool) \<Rightarrow> nat \<Rightarrow> nat \<Rightarrow> store \<Rightarrow> (nat \<times> store) result"
where
  "difference_with ty first app eq list1 list2 h =
     bind_res (Assert_res (IsListOf ty list1 h)) (\<lambda>_.
     bind_res (Assert_res (IsListOf ty list2 h)) (\<lambda>_.
     if list2 = NIL then list_copy list1 h
     else
       bind_res (collect_with first app
           (\<lambda>res x h. bind_res (member_with ty first eq list2 x h) (\<lambda>b. Inr (\<not> b))) list1 NIL h)
         (\<lambda>(res, h).
       bind_res (check_list_invariants res h) (\<lambda>_.
       Inr (res, h)))))"

definition append_unique_with ::
  "NodeTag \<Rightarrow> (nat \<Rightarrow> store \<Rightarrow> 'v result) \<Rightarrow> (nat \<Rightarrow> 'v \<Rightarrow> store \<Rightarrow> (nat \<times> store) result) \<Rightarrow>
     ('v \<Rightarrow> 'v \<Rightarrow> bool) \<Rightarrow> nat \<Rightarrow> 'v \<Rightarrow> store \<Rightarrow> (nat \<times> store) result"
where
  "append_unique_with ty first app eq l datum h =
     bind_res (member_with ty first eq l datum h) (\<lambda>b.
     if b then Inr (l, h) else app l datum h)"

definition concat_unique_with ::
  "NodeTag \<Rightarrow> (nat \<Rightarrow> store \<Rightarrow> 'v result) \<Rightarrow> (nat \<Rightarrow> 'v \<Rightarrow> store \<Rightarrow> (nat \<times> store) result) \<Rightarrow>
     ('v \<Rightarrow> 'v \<Rightarrow> bool) \<Rightarrow> nat \<Rightarrow> nat \<Rightarrow> store \<Rightarrow> (nat \<times> store) result"
where
  "concat_unique_with ty first app eq list1 list2 h =
     bind_res (Assert_res (IsListOf ty list1 h)) (\<lambda>_.
     bind_res (Assert_res (IsListOf ty list2 h)) (\<lambda>_.
     bind_res (collect_with first app
         (\<lambda>res x h. bind_res (member_with ty first eq res x h) (\<lambda>b. Inr (\<not> b))) list2 list1 h)
       (\<lambda>(list1, h).
     bind_res (check_list_invariants list1 h) (\<lambda>_.
     Inr (list1, h)))))"

lemma member_shapes:
  "list_member equal = member_with T_List lfirst equal"
  "list_member_ptr = member_with T_List lfirst (=)"
  "list_member_int = member_with T_IntList lfirst_int (=)"
  "list_member_oid = member_with T_OidList lfirst_oid (=)"
  by (simp_all add: fun_eq_iff IsList_defs member_with_def list_member_def list_member_ptr_def
      list_member_int_def list_member_oid_def)

lemma remove_shapes:
  "list_delete equal = remove_with T_List lfirst equal"
  "list_delete_ptr = remove_with T_List lfirst (=)"
  "list_delete_int = remove_with T_IntList lfirst_int (=)"
  "list_delete_oid = remove_with T_OidList lfirst_oid (=)"
  by (simp_all add: fun_eq_iff IsList_defs remove_with_def list_delete_def list_delete_ptr_def
      list_delete_int_def list_delete_oid_def)

lemma negated_bind:
  "bind_res (bind_res m (\<lambda>b. Inr (\<not> b))) (\<lambda>b. if b then f else g) =
   bind_res m (\<lambda>b. if \<not> b then f else g)"
  by (cases m) simp_all

lemma union_shapes:
  "list_union equal = union_with T_List lfirst lappend equal"
  "list_union_ptr = union_with T_List lfirst lappend (=)"
  "list_union_int = union_with T_IntList lfirst_int lappend_int (=)"
  "list_union_oid = union_with T_OidList lfirst_oid lappend_oid (=)"
  by (simp_all add: fun_eq_iff IsList_defs union_with_def collect_with_def negated_bind
      member_shapes list_union_def list_union_ptr_def list_union_int_def list_union_oid_def
      del: if_not_P not_not)

lemma intersection_shapes:
  "list_intersection equal = intersection_with T_List lfirst lappend equal"
  "list_intersection_int = intersection_with T_IntList lfirst_int lappend_int (=)"
  by (simp_all add: fun_eq_iff IsList_defs intersection_with_def collect_with_def
      member_shapes list_intersection_def list_intersection_int_def)

lemma difference_shapes:
  "list_difference equal = difference_with T_List lfirst lappend equal"
  "list_difference_ptr = difference_with T_List lfirst lappend (=)"
  "list_difference_int = difference_with T_IntList lfirst_int lappend_int (=)"
  "list_difference_oid = difference_with T_OidList lfirst_oid lappend_oid (=)"
  by (simp_all add: fun_eq_iff IsList_defs difference_with_def collect_with_def negated_bind
      member_shapes list_difference_def list_difference_ptr_def list_difference_int_def
      list_difference_oid_def)

lemma append_unique_shapes:
  "list_append_unique equal = append_unique_with T_List lfirst lappend equal"
  "list_append_unique_ptr = append_unique_with T_List lfirst lappend (=)"
  "list_append_unique_int = append_unique_with T_IntList lfirst_int lappend_int (=)"
  "list_append_unique_oid = append_unique_with T_OidList lfirst_oid lappend_oid (=)"
  by (simp_all add: fun_eq_iff append_unique_with_def member_shapes list_append_unique_def
      list_append_unique_ptr_def list_append_unique_int_def list_append_unique_oid_def)

lemma concat_unique_shapes:
  "list_concat_unique equal = concat_unique_with T_List lfirst lappend equal"
  "list_concat_unique_ptr = concat_unique_with T_List lfirst lappend (=)"
  "list_concat_unique_int = concat_unique_with T_IntList lfirst_int lappend_int (=)"
  "list_concat_unique_oid = concat_unique_with T_OidList lfirst_oid lappend_oid (=)"
  by (simp_all add: fun_eq_iff IsList_defs concat_unique_with_def collect_with_def negated_bind
      member_shapes list_concat_unique_def list_concat_unique_ptr_def list_concat_unique_int_def
      list_concat_unique_oid_def)

subsection \<open>What the operations compute\<close>

definition mem_by :: "('v \<Rightarrow> 'v \<Rightarrow> bool) \<Rightarrow> 'v \<Rightarrow> 'v list \<Rightarrow> bool" where
  "mem_by eq v vs \<longleftrightarrow> (\<exists>x \<in> set vs. eq x v)"

fun remove_by :: "('v \<Rightarrow> bool) \<Rightarrow> 'v list \<Rightarrow> 'v list" where
  "remove_by p [] = []"
| "remove_by p (v # vs) = (if p v then vs else v # remove_by p vs)"

fun gather :: "('v list \<Rightarrow> 'v \<Rightarrow> bool) \<Rightarrow> 'v list \<Rightarrow> 'v list \<Rightarrow> 'v list" where
  "gather keep acc [] = acc"
| "gather keep acc (v # vs) = gather keep (if keep acc v then acc @ [v] else acc) vs"

lemma mem_by_eq [simp]: "mem_by (=) v vs \<longleftrightarrow> v \<in> set vs"
  by (auto simp: mem_by_def)

lemma remove_by_eq: "remove_by (\<lambda>x. x = v) vs = remove1 v vs"
  by (induction vs) auto

lemma remove_by_split: "\<forall>x \<in> set us. \<not> p x \<Longrightarrow> p v \<Longrightarrow> remove_by p (us @ v # ws) = us @ ws"
  by (induction us) auto

lemma remove_by_none: "\<forall>x \<in> set us. \<not> p x \<Longrightarrow> remove_by p us = us"
  by (induction us) auto

lemma gather_snoc:
  "gather keep acc (vs @ [v]) =
     (let r = gather keep acc vs in if keep r v then r @ [v] else r)"
  by (induction vs arbitrary: acc) (auto simp: Let_def)

lemma gather_filter: "gather (\<lambda>_. p) acc vs = acc @ filter p vs"
  by (induction vs arbitrary: acc) auto

lemma set_gather_new:
  "set (gather (\<lambda>acc v. v \<notin> set acc) acc vs) = set acc \<union> set vs"
  by (induction vs arbitrary: acc) auto

text \<open>The values that are new, each where it occurs first.\<close>

lemma gather_new:
  "gather (\<lambda>acc v. v \<notin> set acc) acc vs = acc @ rev (remdups (rev (filter (\<lambda>v. v \<notin> set acc) vs)))"
proof (induction vs rule: rev_induct)
  case (snoc v vs)
  then show ?case using set_gather_new [of acc vs] by (simp add: gather_snoc Let_def)
qed simp

text \<open>The list at \<open>l\<close> has the cells \<open>xs\<close>, and these hold the values \<open>vs\<close>.\<close>

definition holds ::
  "NodeTag \<Rightarrow> ('v \<Rightarrow> cell_data) \<Rightarrow> store \<Rightarrow> allocator \<Rightarrow> nat \<Rightarrow> 'v list \<Rightarrow> lseq \<Rightarrow> bool"
where
  "holds ty con h org l vs xs \<longleftrightarrow> rep h org ty l xs \<and> map snd xs = map con vs"

lemma holds_rep: "holds ty con h org l vs xs \<Longrightarrow> rep h org ty l xs"
  by (simp add: holds_def)

lemma holds_unchanged:
  "wf_store h \<Longrightarrow> holds ty con h org l vs xs \<Longrightarrow> unchanged h h' Ls Cs \<Longrightarrow> l \<notin> Ls \<Longrightarrow>
     addrs xs \<inter> Cs = {} \<Longrightarrow> holds ty con h' org l vs xs"
  by (simp add: holds_def rep_unchanged [of h org ty l xs h' Ls Cs])

lemma unchanged_NIL:
  assumes "wf_store h" and "wf_store h'" and "unchanged h h' {0} Cs"
  shows "unchanged h h' {} Cs"
  using assms unfolding unchanged_def wf_store_def by (metis empty_iff less_irrefl singletonD)

lemma holds_Nil [simp]: "holds ty con h org 0 vs xs \<longleftrightarrow> vs = [] \<and> xs = []"
  by (auto simp: holds_def)

subsection \<open>One proof for the three versions\<close>

text \<open>
  \<open>con\<close> wraps a value in the member of the data union that the version uses, \<open>first\<close> reads it
  back, \<open>app\<close> is the version's append, and \<open>eq\<close> its comparison.
\<close>

locale list_kind =
  fixes ty :: NodeTag and con :: "'v \<Rightarrow> cell_data" and first :: "nat \<Rightarrow> store \<Rightarrow> 'v result"
    and app :: "nat \<Rightarrow> 'v \<Rightarrow> store \<Rightarrow> (nat \<times> store) result" and eq :: "'v \<Rightarrow> 'v \<Rightarrow> bool"
  assumes first_con: "cell_at a h = Inr (mk_cell (con v) n org) \<Longrightarrow> first a h = Inr v"
    and app_rep: "wf_store h \<Longrightarrow> 2 \<le> room h \<Longrightarrow> rep h Palloc ty l xs \<Longrightarrow>
      \<exists>l' h'. app l v h = Inr (l', h') \<and> appended h h' Palloc ty l l' xs (con v)"
begin

lemma first_in:
  assumes "seg h org xs 0" and "map snd xs = map con vs" and "xs = ys @ (a, d) # zs"
  shows "first a h = Inr (vs ! length ys)" and "length ys < length vs"
proof -
  have len: "length xs = length vs" using arg_cong [OF assms(2), of length] by simp
  then show lt: "length ys < length vs" using assms(3) by simp
  have "d = map snd xs ! length ys" using assms(3) by (simp add: nth_append)
  then have "d = con (vs ! length ys)" using assms(2) lt by simp
  then show "first a h = Inr (vs ! length ys)"
    using first_con seg_cell_at assms(1,3) by blast
qed

lemma con_inj:
  assumes "con v = con w"
  shows "v = w"
proof -
  let ?h = "\<lparr>hdrs = \<lambda>_. None, cells = \<lambda>_. Some (mk_cell (con v) 0 Palloc), objs = \<lambda>_. False,
             brk = 2, room = 0\<rparr>"
  have "first 1 ?h = Inr v" by (rule first_con) (simp add: cell_at_def)
  moreover have "first 1 ?h = Inr w" by (rule first_con) (simp add: cell_at_def assms)
  ultimately show ?thesis by simp
qed

lemma con_pred: "(\<exists>w. con v = con w \<and> P w) \<longleftrightarrow> P v"
  using con_inj by blast

lemma find_rep:
  assumes wf: "wf_store h" and hl: "holds ty con h org l vs xs"
  shows "find_cell (\<lambda>cell h. bind_res (first cell h) (\<lambda>x. Inr (p x))) l h =
     Inr (last (0 # map fst (takeWhile (\<lambda>x. \<not> (\<exists>v. snd x = con v \<and> p v)) xs)),
          first_addr (dropWhile (\<lambda>x. \<not> (\<exists>v. snd x = con v \<and> p v)) xs) 0)"
proof (rule find_cell_rep [OF wf holds_rep [OF hl], where P = "\<lambda>d. \<exists>v. d = con v \<and> p v"])
  fix a d
  assume "(a, d) \<in> set xs"
  then obtain ys zs where xs: "xs = ys @ (a, d) # zs" by (meson split_list)
  have eq: "map snd xs = map con vs" using hl by (simp add: holds_def)
  note f = first_in [OF rep_seg [OF holds_rep [OF hl]] eq xs]
  have "d = con (vs ! length ys)"
    using eq f(2) xs by (metis length_map nth_append_length nth_map snd_conv length_append
        list.size(4) map_append list.map(2))
  then show "bind_res (first a h) (\<lambda>x. Inr (p x)) = Inr (\<exists>v. d = con v \<and> p v)"
    using f(1) con_pred by simp
qed

lemma ex_data:
  assumes "map snd xs = map con vs"
  shows "(\<exists>x \<in> set xs. \<exists>v. snd x = con v \<and> p v) \<longleftrightarrow> (\<exists>v \<in> set vs. p v)"
proof -
  have "(\<exists>x \<in> set xs. \<exists>v. snd x = con v \<and> p v) \<longleftrightarrow> (\<exists>d \<in> set (map snd xs). \<exists>v. d = con v \<and> p v)"
    by auto
  also have "\<dots> \<longleftrightarrow> (\<exists>v \<in> set vs. p v)" unfolding assms using con_pred by auto
  finally show ?thesis .
qed

lemma member_rep:
  assumes wf: "wf_store h" and hl: "holds ty con h org l vs xs"
  shows "member_with ty first eq l v h = Inr (mem_by eq v vs)"
proof -
  have "map snd xs = map con vs" using hl by (simp add: holds_def)
  from ex_data [OF this, of "\<lambda>x. eq x v"]
    find_hit [OF rep_seg [OF holds_rep [OF hl]], of "\<lambda>d. \<exists>x. d = con x \<and> eq x v"]
  show ?thesis
    using holds_rep [OF hl] find_rep [OF wf hl, of "\<lambda>x. eq x v"]
    by (simp add: member_with_def mem_by_def)
qed

lemma split_holds:
  assumes "xs = ys @ (a, d) # zs" and "map snd xs = map con vs"
  obtains us w ws where "vs = us @ w # ws" "map snd ys = map con us" "d = con w"
    "map snd zs = map con ws"
proof -
  have "map con vs = map snd ys @ d # map snd zs" using assms by simp
  then show thesis using that by (auto simp: map_eq_append_conv map_eq_Cons_conv)
qed

lemma remove_rep:
  assumes wf: "wf_store h" and hl: "holds ty con h Palloc l vs xs"
  shows "\<exists>l' h' xs'. remove_with ty first eq l v h = Inr (l', h') \<and>
           holds ty con h' Palloc l' (remove_by (\<lambda>x. eq x v) vs) xs' \<and> addrs xs' \<subseteq> addrs xs \<and>
           wf_store h' \<and> unchanged h h' {l} (addrs xs) \<and> room h' = room h"
proof -
  define no where "no = (\<lambda>x :: nat \<times> cell_data. \<not> (\<exists>w. snd x = con w \<and> eq w v))"
  let ?ys = "takeWhile no xs"
  have r: "rep h Palloc ty l xs" and vs: "map snd xs = map con vs" using hl by (simp_all add: holds_def)
  note found = find_rep [OF wf hl, of "\<lambda>x. eq x v", folded no_def]
  show ?thesis
  proof (cases "dropWhile no xs")
    case Nil
    then have "\<not> (\<exists>x \<in> set xs. \<exists>w. snd x = con w \<and> eq w v)"
      by (auto simp: dropWhile_eq_Nil_conv no_def)
    then have "\<forall>x \<in> set vs. \<not> eq x v" using ex_data [OF vs, of "\<lambda>x. eq x v"] by blast
    then have "remove_by (\<lambda>x. eq x v) vs = vs" by (rule remove_by_none)
    moreover have "remove_with ty first eq l v h = Inr (l, h)"
      using found Nil r by (simp add: remove_with_def)
    ultimately show ?thesis using wf hl by auto
  next
    case (Cons y zs)
    obtain a d where y: "y = (a, d)" by (cases y)
    have xs: "xs = ?ys @ (a, d) # zs" using takeWhile_dropWhile_id [of no xs] Cons y by simp
    then obtain us w ws where sp: "vs = us @ w # ws" "map snd ?ys = map con us" "d = con w"
        "map snd zs = map con ws"
      using vs by (rule split_holds)
    have "\<not> no (a, d)" using hd_dropWhile [of no xs] Cons y by simp
    then have hit: "eq w v"
      using sp(3) con_pred [of w "\<lambda>x. eq x v"] by (simp add: no_def)
    have "\<not> (\<exists>x \<in> set ?ys. \<exists>w. snd x = con w \<and> eq w v)"
      using set_takeWhileD [of _ no xs] by (auto simp: no_def)
    then have miss: "\<forall>x \<in> set us. \<not> eq x v" using ex_data [OF sp(2), of "\<lambda>x. eq x v"] by blast
    have a0: "a \<noteq> 0" using seg_dropWhile [OF rep_seg [OF r], of no] Cons y by simp
    have "rep h Palloc ty l (?ys @ (a, d) # zs)" using r xs by simp
    from list_delete_cell_rep [OF wf this]
    obtain l' h' where del: "list_delete_cell l a (last (0 # map fst ?ys)) h = Inr (l', h')"
      and post: "deleted h h' Palloc ty l l' ?ys a zs"
      by blast
    have "remove_with ty first eq l v h = Inr (l', h')"
      using found Cons y a0 r del by (simp add: remove_with_def)
    moreover have "holds ty con h' Palloc l' (remove_by (\<lambda>x. eq x v) vs) (?ys @ zs)"
      using post [unfolded deleted_def] sp remove_by_split [of us "\<lambda>x. eq x v", OF miss hit]
      by (auto simp: holds_def)
    moreover have "insert a (addrs (?ys @ zs)) = addrs xs" by (subst (2) xs) auto
    ultimately show ?thesis
      using post unfolding deleted_def by (metis subset_insertI)
  qed
qed

lemma app_holds:
  assumes "wf_store h" and "2 \<le> room h" and "holds ty con h Palloc l vs xs"
  shows "\<exists>l' h' xs'. app l v h = Inr (l', h') \<and> holds ty con h' Palloc l' (vs @ [v]) xs' \<and>
           (\<forall>a \<in> addrs xs'. a \<in> addrs xs \<or> brk h \<le> a) \<and> (l' = l \<or> l = 0 \<and> brk h \<le> l') \<and> wf_store h' \<and>
           unchanged h h' {l} (addrs xs) \<and> room h \<le> room h' + 2"
proof -
  from app_rep [OF assms(1,2) holds_rep [OF assms(3)], of v] obtain l' h' a
    where "app l v h = Inr (l', h')" "brk h \<le> a" "rep h' Palloc ty l' (xs @ [(a, con v)])"
      "wf_store h'" "unchanged h h' {l} (addrs xs)" "if l = 0 then brk h \<le> l' else l' = l"
      "room h \<le> room h' + 2"
    by (auto simp: appended_def)
  moreover have "holds ty con h' Palloc l' (vs @ [v]) (xs @ [(a, con v)])"
    using assms(3) calculation(3) by (simp add: holds_def)
  moreover have "\<forall>b \<in> addrs (xs @ [(a, con v)]). b \<in> addrs xs \<or> brk h \<le> b"
    using calculation(2) by simp
  moreover have "l' = l \<or> l = 0 \<and> brk h \<le> l'" using calculation(6) by (simp split: if_splits)
  ultimately show ?thesis by blast
qed

lemma append_unique_rep:
  assumes wf: "wf_store h" and room: "2 \<le> room h" and hl: "holds ty con h Palloc l vs xs"
  shows "\<exists>l' h' xs'. append_unique_with ty first app eq l v h = Inr (l', h') \<and>
           holds ty con h' Palloc l' (if mem_by eq v vs then vs else vs @ [v]) xs' \<and> wf_store h' \<and>
           unchanged h h' {l} (addrs xs)"
proof (cases "mem_by eq v vs")
  case True
  then show ?thesis using wf hl by (auto simp: append_unique_with_def member_rep [OF wf hl])
next
  case False
  then have "append_unique_with ty first app eq l v h = app l v h"
    by (simp add: append_unique_with_def member_rep [OF wf hl])
  with False app_holds [OF assms, of v] show ?thesis by auto
qed

text \<open>What a walk over \<open>xs\<close> has done when it has visited \<open>ys\<close>.\<close>

definition walked ::
  "store \<Rightarrow> ('v list \<Rightarrow> 'v \<Rightarrow> bool) \<Rightarrow> nat \<Rightarrow> lseq \<Rightarrow> 'v list \<Rightarrow> 'v list \<Rightarrow> nat \<Rightarrow> nat \<Rightarrow> store \<Rightarrow> bool"
where
  "walked h0 keep res rs us vs k s h \<longleftrightarrow>
     (\<exists>rs'. holds ty con h Palloc s (gather keep us (take k vs)) rs' \<and>
       (\<forall>a \<in> addrs rs'. a \<in> addrs rs \<or> brk h0 \<le> a)) \<and>
     (s = res \<or> brk h0 \<le> s) \<and> wf_store h \<and> unchanged h0 h {res} (addrs rs) \<and>
     room h0 \<le> room h + 2 * k"

lemma walked_step:
  assumes w: "walked h0 keep res rs us vs k s h" and k: "k < length vs" and room: "2 * length vs \<le> room h0"
    and test: "test s (vs ! k) h = Inr (keep (gather keep us (take k vs)) (vs ! k))"
  shows "\<exists>s' h'. bind_res (test s (vs ! k) h) (\<lambda>b. if b then app s (vs ! k) h else Inr (s, h)) =
             Inr (s', h') \<and> walked h0 keep res rs us vs (Suc k) s' h'"
proof -
  let ?g = "gather keep us (take k vs)"
  from w obtain rs' where hl: "holds ty con h Palloc s ?g rs'"
    and fresh: "\<forall>a \<in> addrs rs'. a \<in> addrs rs \<or> brk h0 \<le> a"
    and rest: "s = res \<or> brk h0 \<le> s" "wf_store h" "unchanged h0 h {res} (addrs rs)"
      "room h0 \<le> room h + 2 * k"
    by (auto simp: walked_def)
  have next_g: "gather keep us (take (Suc k) vs) = (if keep ?g (vs ! k) then ?g @ [vs ! k] else ?g)"
    using k by (simp add: take_Suc_conv_app_nth gather_snoc Let_def)
  show ?thesis
  proof (cases "keep ?g (vs ! k)")
    case False
    then show ?thesis using test w next_g rest by (simp add: walked_def)
  next
    case True
    have "2 \<le> room h" using rest(4) k room by simp
    from app_holds [OF rest(2) this hl, of "vs ! k"] obtain s' h' ts
      where a: "app s (vs ! k) h = Inr (s', h')" "holds ty con h' Palloc s' (?g @ [vs ! k]) ts"
        "\<forall>a \<in> addrs ts. a \<in> addrs rs' \<or> brk h \<le> a" "s' = s \<or> s = 0 \<and> brk h \<le> s'" "wf_store h'"
        "unchanged h h' {s} (addrs rs')" "room h \<le> room h' + 2"
      by blast
    have le: "brk h0 \<le> brk h" using rest(3) by (simp add: unchanged_def)
    have "unchanged h0 h' {res} (addrs rs)"
      by (rule unchanged_trans [OF rest(3) a(6)]) (use rest(1) fresh in auto)
    moreover have "\<forall>a \<in> addrs ts. a \<in> addrs rs \<or> brk h0 \<le> a" using a(3) fresh le by force
    moreover have "s' = res \<or> brk h0 \<le> s'" using a(4) rest(1) le by auto
    moreover have "room h0 \<le> room h' + 2 * Suc k" using rest(4) a(7) by simp
    ultimately have "walked h0 keep res rs us vs (Suc k) s' h'"
      unfolding walked_def next_g using True a(2,5) by auto
    then show ?thesis using True test a(1) by simp
  qed
qed

lemma collect_rep:
  assumes wf: "wf_store h" and hx: "holds ty con h org l vs xs" and hr: "holds ty con h Palloc res us rs"
    and room: "2 * length vs \<le> room h" and disj: "addrs xs \<inter> addrs rs = {}"
    and test: "\<And>k s h' v. k < length vs \<Longrightarrow> walked h keep res rs us vs k s h' \<Longrightarrow>
       test s v h' = Inr (keep (gather keep us (take k vs)) v)"
  shows "\<exists>s' h'. collect_with first app test l res h = Inr (s', h') \<and>
           walked h keep res rs us vs (length vs) s' h'"
proof -
  note seg = rep_seg [OF holds_rep [OF hx]]
  have eq: "map snd xs = map con vs" using hx by (simp add: holds_def)
  then have len: "length xs = length vs" by (metis length_map)
  have seg': "seg h' org xs 0" if "walked h keep res rs us vs k s h'" for k s h'
  proof -
    have "cells h' a = cells h a" if "a \<in> addrs xs" for a
      using \<open>walked h keep res rs us vs k s h'\<close> disj that seg_addr_lt [OF wf seg that]
      by (auto simp: walked_def unchanged_def)
    then show ?thesis using seg seg_cong by metis
  qed
  have "\<exists>s' h'. foreach (\<lambda>cell res h. bind_res (first cell h) (\<lambda>x. bind_res (test res x h) (\<lambda>b.
            if b then app res x h else Inr (res, h)))) l res h = Inr (s', h') \<and>
          walked h keep res rs us vs (length xs) s' h'"
  proof (rule foreach_rule [OF wf holds_rep [OF hx],
        where Inv = "\<lambda>ys s h'. walked h keep res rs us vs (length ys) s h'"])
    show "walked h keep res rs us vs (length []) res h"
      using hr wf by (auto simp: walked_def)
  next
    fix ys a d zs s h'
    assume xs: "xs = ys @ (a, d) # zs" and w: "walked h keep res rs us vs (length ys) s h'"
    note f = first_in [OF seg' [OF w] eq xs]
    from walked_step [where test = test, OF w f(2) room test [OF f(2) w]] f(1)
    show "\<exists>s' h''. bind_res (first a h') (\<lambda>x. bind_res (test s x h') (\<lambda>b.
            if b then app s x h' else Inr (s, h'))) = Inr (s', h'') \<and>
          walked h keep res rs us vs (length (ys @ [(a, d)])) s' h''"
      by simp
  qed (rule seg')
  then show ?thesis by (simp add: collect_with_def len)
qed

lemma walked_holds:
  assumes "wf_store h0" and "walked h0 keep 0 [] us vs k s h"
  shows "\<exists>rs'. holds ty con h Palloc s (gather keep us (take k vs)) rs'" and "wf_store h"
    and "unchanged h0 h {} {}"
  using assms unchanged_NIL [of h0 h "{}"] by (auto simp: walked_def)

lemma select_rep:
  assumes wf: "wf_store h" and h1: "holds ty con h org l vs xs" and room: "2 * length vs \<le> room h"
    and test: "\<And>s v h'. wf_store h' \<Longrightarrow> unchanged h h' {} {} \<Longrightarrow> test s v h' = Inr (p v)"
  shows "\<exists>s h' rs. collect_with first app test l 0 h = Inr (s, h') \<and>
           holds ty con h' Palloc s (filter p vs) rs \<and> wf_store h' \<and> unchanged h h' {} {}"
proof -
  have t: "test s v h' = Inr (p v)" if "walked h (\<lambda>_. p) 0 [] [] vs k s h'" for k s h' v
    using test walked_holds(2,3) [OF wf that] by simp
  have "\<exists>s h'. collect_with first app test l 0 h = Inr (s, h') \<and>
          walked h (\<lambda>_. p) 0 [] [] vs (length vs) s h'"
    by (rule collect_rep [OF wf h1 _ room]) (auto intro: t)
  then obtain s h' where run: "collect_with first app test l 0 h = Inr (s, h')"
    and w: "walked h (\<lambda>_. p) 0 [] [] vs (length vs) s h'" by blast
  from walked_holds [OF wf w] run show ?thesis by (auto simp: gather_filter)
qed

lemma kept_members:
  assumes "wf_store h" and "holds ty con h org2 list2 ws ys" and "wf_store h'"
    and "unchanged h h' {} {}"
  shows "member_with ty first eq list2 v h' = Inr (mem_by eq v ws)"
  using member_rep [OF assms(3) holds_unchanged [OF assms(1,2,4)]] by simp

lemma intersection_rep:
  assumes wf: "wf_store h" and h1: "holds ty con h org1 list1 vs xs" and h2: "holds ty con h org2 list2 ws ys"
    and room: "2 * length vs \<le> room h"
  shows "\<exists>l' h' xs'. intersection_with ty first app eq list1 list2 h = Inr (l', h') \<and>
           holds ty con h' Palloc l' (filter (\<lambda>v. mem_by eq v ws) vs) xs' \<and> wf_store h' \<and>
           unchanged h h' {} {}"
proof (cases "list1 = 0 \<or> list2 = 0")
  case True
  then have "vs = [] \<or> ws = []" using h1 h2 by auto
  then have "filter (\<lambda>v. mem_by eq v ws) vs = []" by (auto simp: mem_by_def)
  then show ?thesis using True wf by (auto simp: intersection_with_def)
next
  case False
  let ?test = "\<lambda>res x h. member_with ty first eq list2 x h"
  have "\<exists>s h' rs. collect_with first app ?test list1 0 h = Inr (s, h') \<and>
          holds ty con h' Palloc s (filter (\<lambda>v. mem_by eq v ws) vs) rs \<and> wf_store h' \<and>
          unchanged h h' {} {}"
    by (rule select_rep [OF wf h1 room]) (rule kept_members [OF wf h2])
  then show ?thesis
    using False holds_rep [OF h1] holds_rep [OF h2] holds_rep
    by (fastforce simp: intersection_with_def)
qed

lemma copy_holds:
  assumes "wf_store h" and "holds ty con h org l vs xs" and "length vs + 1 \<le> room h"
  shows "\<exists>l' h' ms. list_copy l h = Inr (l', h') \<and> holds ty con h' Palloc l' vs ms \<and>
           (\<forall>a \<in> addrs ms. brk h \<le> a) \<and> (l' = 0 \<or> brk h \<le> l') \<and> wf_store h' \<and>
           unchanged h h' {} {} \<and> room h \<le> room h' + length vs + 1"
proof -
  have "length xs = length vs" using assms(2) unfolding holds_def by (metis length_map)
  then show ?thesis
    using list_copy_rep [OF assms(1) holds_rep [OF assms(2)]] assms(2,3) unfolding holds_def by metis
qed

lemma difference_rep:
  assumes wf: "wf_store h" and h1: "holds ty con h org1 list1 vs xs" and h2: "holds ty con h org2 list2 ws ys"
    and room: "2 * length vs + 1 \<le> room h"
  shows "\<exists>l' h' xs'. difference_with ty first app eq list1 list2 h = Inr (l', h') \<and>
           holds ty con h' Palloc l' (filter (\<lambda>v. \<not> mem_by eq v ws) vs) xs' \<and> wf_store h' \<and>
           unchanged h h' {} {}"
proof (cases "list2 = 0")
  case True
  then have "ws = []" using h2 by auto
  then have all: "filter (\<lambda>v. \<not> mem_by eq v ws) vs = vs" by (auto simp: mem_by_def)
  have "difference_with ty first app eq list1 list2 h = list_copy list1 h"
    using True holds_rep [OF h1] holds_rep [OF h2] by (simp add: difference_with_def)
  then show ?thesis using copy_holds [OF wf h1] room all by auto
next
  case False
  let ?test = "\<lambda>res x h. bind_res (member_with ty first eq list2 x h) (\<lambda>b. Inr (\<not> b))"
  have "\<exists>s h' rs. collect_with first app ?test list1 0 h = Inr (s, h') \<and>
          holds ty con h' Palloc s (filter (\<lambda>v. \<not> mem_by eq v ws) vs) rs \<and> wf_store h' \<and>
          unchanged h h' {} {}"
    by (rule select_rep [OF wf h1]) (use room kept_members [OF wf h2] in auto)
  then show ?thesis
    using False holds_rep [OF h1] holds_rep [OF h2] holds_rep
    by (fastforce simp: difference_with_def)
qed

text \<open>Append to \<open>res\<close> the elements of a list that \<open>res\<close> does not have yet.\<close>

lemma extend_rep:
  assumes wf: "wf_store h" and hx: "holds ty con h org l vs xs" and hr: "holds ty con h Palloc res us rs"
    and room: "2 * length vs \<le> room h" and disj: "addrs xs \<inter> addrs rs = {}"
  shows "\<exists>s h' ts. collect_with first app
           (\<lambda>res x h. bind_res (member_with ty first eq res x h) (\<lambda>b. Inr (\<not> b))) l res h = Inr (s, h') \<and>
           holds ty con h' Palloc s (gather (\<lambda>acc v. \<not> mem_by eq v acc) us vs) ts \<and>
           wf_store h' \<and> unchanged h h' {res} (addrs rs)"
proof -
  let ?keep = "\<lambda>acc v. \<not> mem_by eq v acc"
  let ?test = "\<lambda>res x h. bind_res (member_with ty first eq res x h) (\<lambda>b. Inr (\<not> b))"
  have t: "?test s v h' = Inr (?keep (gather ?keep us (take k vs)) v)"
    if "walked h ?keep res rs us vs k s h'" for k s h' v
    using that member_rep by (auto simp: walked_def)
  have "\<exists>s h'. collect_with first app ?test l res h = Inr (s, h') \<and>
          walked h ?keep res rs us vs (length vs) s h'"
    by (rule collect_rep [OF wf hx hr room disj]) (rule t)
  then show ?thesis by (auto simp: walked_def)
qed

lemma concat_unique_rep:
  assumes wf: "wf_store h" and h1: "holds ty con h Palloc list1 vs xs" and h2: "holds ty con h org list2 ws ys"
    and room: "2 * length ws \<le> room h" and disj: "addrs ys \<inter> addrs xs = {}"
  shows "\<exists>l' h' xs'. concat_unique_with ty first app eq list1 list2 h = Inr (l', h') \<and>
           holds ty con h' Palloc l' (gather (\<lambda>acc v. \<not> mem_by eq v acc) vs ws) xs' \<and>
           wf_store h' \<and> unchanged h h' {list1} (addrs xs)"
  using extend_rep [OF wf h2 h1 room disj] holds_rep [OF h1] holds_rep [OF h2] holds_rep
  by (fastforce simp: concat_unique_with_def)

lemma union_rep:
  assumes wf: "wf_store h" and h1: "holds ty con h org1 list1 vs xs" and h2: "holds ty con h org2 list2 ws ys"
    and room: "length vs + 1 + 2 * length ws \<le> room h"
  shows "\<exists>l' h' xs'. union_with ty first app eq list1 list2 h = Inr (l', h') \<and>
           holds ty con h' Palloc l' (gather (\<lambda>acc v. \<not> mem_by eq v acc) vs ws) xs' \<and>
           wf_store h' \<and> unchanged h h' {} {}"
proof -
  from copy_holds [OF wf h1] room obtain res h1' rs
    where copy: "list_copy list1 h = Inr (res, h1')" and hr: "holds ty con h1' Palloc res vs rs"
      and fresh: "\<forall>a \<in> addrs rs. brk h \<le> a" "res = 0 \<or> brk h \<le> res" and wf1: "wf_store h1'"
      and un: "unchanged h h1' {} {}" and room1: "room h \<le> room h1' + length vs + 1"
    by auto
  have h2': "holds ty con h1' org2 list2 ws ys" by (rule holds_unchanged [OF wf h2 un]) auto
  have disj: "addrs ys \<inter> addrs rs = {}"
    using rep_addr_lt [OF wf holds_rep [OF h2]] fresh(1) by fastforce
  have "2 * length ws \<le> room h1'" using room room1 by simp
  from extend_rep [OF wf1 h2' hr this disj] obtain s h' ts
    where run: "collect_with first app
        (\<lambda>res x h. bind_res (member_with ty first eq res x h) (\<lambda>b. Inr (\<not> b))) list2 res h1' = Inr (s, h')"
      and hs: "holds ty con h' Palloc s (gather (\<lambda>acc v. \<not> mem_by eq v acc) vs ws) ts"
      and wf': "wf_store h'" and un': "unchanged h1' h' {res} (addrs rs)"
    by blast
  have "unchanged h h' {0} {}"
  proof (rule unchanged_trans)
    show "unchanged h h1' {0} {}" using un by (auto simp: unchanged_def)
  qed (use un' fresh in auto)
  then have "unchanged h h' {} {}" by (rule unchanged_NIL [OF wf wf'])
  moreover have "union_with ty first app eq list1 list2 h = Inr (s, h')"
    using holds_rep [OF h1] holds_rep [OF h2] copy run holds_rep [OF hs] by (simp add: union_with_def)
  ultimately show ?thesis using hs wf' by blast
qed

end

subsection \<open>The versions\<close>

lemma first_laws:
  "cell_at a h = Inr (mk_cell (PtrValue p) n org) \<Longrightarrow> lfirst a h = Inr p"
  "cell_at a h = Inr (mk_cell (IntValue i) n org) \<Longrightarrow> lfirst_int a h = Inr i"
  "cell_at a h = Inr (mk_cell (OidValue i) n org) \<Longrightarrow> lfirst_oid a h = Inr i"
  by (simp_all add: lfirst_def lfirst_int_def lfirst_oid_def)

text \<open>Lists of nodes, for any comparison \<open>equal\<close>; the versions for bare pointers are the instance
  with pointer equality.\<close>

interpretation node_list: list_kind T_List PtrValue lfirst lappend equal for equal
  by unfold_locales (rule first_laws, assumption, rule lappend_rep)

interpretation int_list: list_kind T_IntList IntValue lfirst_int lappend_int "(=)"
  by unfold_locales (rule first_laws, assumption, rule lappend_int_rep)

interpretation oid_list: list_kind T_OidList OidValue lfirst_oid lappend_oid "(=)"
  by unfold_locales (rule first_laws, assumption, rule lappend_oid_rep)

end
