(* ===== verification/ListProps.thy ===== *)
theory ListProps
  imports PgListOps
begin

text \<open>
  The properties of the list package: the operations on a store compute the corresponding functions
  on the sequences of values that the lists hold, and leave alone what they do not own.
\<close>

subsection \<open>A store with two integer lists\<close>

text \<open>The list at 3 holds 5 and 7 in the cells 1 and 2, the list at 5 holds 7 in the cell 4.\<close>

definition int_header :: "nat \<Rightarrow> nat \<Rightarrow> nat \<Rightarrow> allocator \<Rightarrow> List" where
  "int_header n front back org = \<lparr>list_type = T_IntList, length_of = int n, head_of = front, tail_of = back, list_origin = org\<rparr>"

definition two_lists :: "allocator \<Rightarrow> store" where
  "two_lists org = \<lparr>hdrs = [3 \<mapsto> int_header 2 1 2 org, 5 \<mapsto> int_header 1 4 4 org],
     cells = [1 \<mapsto> mk_cell (IntValue 5) 2 org, 2 \<mapsto> mk_cell (IntValue 7) 0 org, 4 \<mapsto> mk_cell (IntValue 7) 0 org],
     objs = (\<lambda>_. False), brk = 6, room = 20\<rparr>"

lemma two_lists_hold:
  "wf_store (two_lists org)" "room (two_lists org) = 20"
  "holds T_IntList IntValue (two_lists org) org 3 [5, 7] [(1, IntValue 5), (2, IntValue 7)]"
  "holds T_IntList IntValue (two_lists org) org 5 [7] [(4, IntValue 7)]"
  by (auto simp: wf_store_def two_lists_def int_header_def holds_def rep_def split: if_splits)

subsection \<open>Properties\<close>

text \<open>
  C26: appending to a list that lives in \<open>malloc\<close> storage. If two more chunks can be allocated, and the store cannot have so many
  that the length of a list overflows (which is part of \<open>wf_store\<close>), \<open>pg_lappend_int\<close> succeeds, the result holds the old values and the new one at the end, the header stays
  the same unless the list was empty, and every other list that shares no cell with it is unchanged.
\<close>

theorem pg_lappend_int_appends:
  assumes "wf_store h" and "2 \<le> room h" and "holds T_IntList IntValue h Malloc l vs xs"
    and "holds ty con h org m ws ys" and "m \<noteq> l \<or> m = 0" and "addrs ys \<inter> addrs xs = {}"
  shows "\<exists>l' h' xs'. pg_lappend_int l v h = Inr (l', h') \<and> wf_store h' \<and>
           holds T_IntList IntValue h' Malloc l' (vs @ [v]) xs' \<and> (l \<noteq> 0 \<longrightarrow> l' = l) \<and>
           holds ty con h' org m ws ys"
proof -
  from pg_lappend_int_rep [OF assms(1,2) holds_rep [OF assms(3)], of v] obtain l' h' c
    where run: "pg_lappend_int l v h = Inr (l', h')"
      and r: "rep h' Malloc T_IntList l' (xs @ [(c, IntValue v)])" and wf': "wf_store h'"
      and u: "unchanged h h' {l} (addrs xs)" and l': "if l = 0 then brk h \<le> l' else l' = l"
    by (auto simp: appended_def)
  have "holds ty con h' org m ws ys"
  proof (cases "m = 0")
    case True
    with assms(4) show ?thesis by simp
  next
    case False
    with assms(5) have "m \<notin> {l}" by simp
    from holds_unchanged [OF assms(1,4) u this assms(6)] show ?thesis .
  qed
  moreover have "holds T_IntList IntValue h' Malloc l' (vs @ [v]) (xs @ [(c, IntValue v)])"
    using r assms(3) by (simp add: holds_def)
  ultimately show ?thesis using run wf' l' by auto
qed

theorem pg_lappend_int_appends_witness:
  "\<exists>l' h' xs'. pg_lappend_int 3 9 (two_lists Malloc) = Inr (l', h') \<and> wf_store h' \<and>
     holds T_IntList IntValue h' Malloc l' [5, 7, 9] xs' \<and> l' = 3 \<and>
     holds T_IntList IntValue h' Malloc 5 [7] [(4, IntValue 7)]"
  using pg_lappend_int_appends [OF two_lists_hold(1) _ two_lists_hold(3,4), of 9] by (simp add: two_lists_hold)

text \<open>
  C38: appending when no storage is left. \<open>pg_new_list\<close> and \<open>pg_new_tail_cell\<close> use what \<open>malloc\<close> returns
  without looking at it, so \<open>pg_lappend_int\<close> dereferences the null pointer.
\<close>

theorem pg_lappend_int_out_of_memory:
  assumes "wf_store h" and "room h = 0" and "holds T_IntList IntValue h Malloc l vs xs"
  shows "pg_lappend_int l v h = Inl NullDeref"
proof (cases "l = 0")
  case True
  with assms(2) show ?thesis
    by (simp add: pg_lappend_int_def pg_new_list_def malloc_cell_def malloc_list_def IsIntegerList_def IsListOf_def
        Assert_res_def upd_cell_def set_next_def cell_at_def)
next
  case False
  with assms(3) have "xs \<noteq> []" by (auto simp: holds_def rep_def split: if_splits)
  with assms False show ?thesis
    by (simp add: holds_def rep_def pg_lappend_int_def pg_new_tail_cell_def malloc_cell_def IsIntegerList_def IsListOf_def
        IsA_def list_at_def Assert_res_def upd_cell_def set_next_def cell_at_def)
qed

theorem pg_lappend_int_out_of_memory_witness:
  "pg_lappend_int 3 9 ((two_lists Malloc)\<lparr>room := 0\<rparr>) = Inl NullDeref"
proof (rule pg_lappend_int_out_of_memory)
  show "wf_store ((two_lists Malloc)\<lparr>room := 0\<rparr>)" using two_lists_hold(1) [of Malloc] by (simp add: wf_store_def)
  show "holds T_IntList IntValue ((two_lists Malloc)\<lparr>room := 0\<rparr>) Malloc 3 [5, 7] [(1, IntValue 5), (2, IntValue 7)]"
    using two_lists_hold(3) [of Malloc] by (simp add: holds_def rep_def)
qed simp

text \<open>
  C27: deleting a cell of a list in \<open>malloc\<close> storage. Given the cell and the cell before it (or the null pointer
  for the first one), \<open>pg_list_delete_cell\<close> succeeds, the result holds the other values in their order,
  the cell has been given back, and a list that becomes empty is the null pointer.
\<close>

theorem pg_list_delete_cell_deletes:
  assumes "wf_store h" and "holds T_IntList IntValue h Malloc l (us @ v # vs) (ys @ (a, d) # zs)" and "length us = length ys"
  shows "\<exists>l' h'. pg_list_delete_cell l a (last (0 # map fst ys)) h = Inr (l', h') \<and> wf_store h' \<and>
           holds T_IntList IntValue h' Malloc l' (us @ vs) (ys @ zs) \<and> cells h' a = None \<and>
           (l' = 0 \<longleftrightarrow> us @ vs = [])"
proof -
  have "map snd ys = map IntValue us" "map snd zs = map IntValue vs"
    using assms(2,3) by (auto simp: holds_def append_eq_append_conv)
  moreover from this have "us @ vs = [] \<longleftrightarrow> ys @ zs = []" by auto
  moreover have "l \<noteq> 0" using assms(2) by (auto simp: holds_def rep_def)
  ultimately show ?thesis
    using pg_list_delete_cell_rep [OF assms(1) holds_rep [OF assms(2)]] by (auto simp: deleted_def holds_def)
qed

theorem pg_list_delete_cell_deletes_witness:
  "\<exists>l' h'. pg_list_delete_cell 3 2 1 (two_lists Malloc) = Inr (l', h') \<and> wf_store h' \<and>
     holds T_IntList IntValue h' Malloc l' [5] [(1, IntValue 5)] \<and> cells h' 2 = None"
  using pg_list_delete_cell_deletes [OF two_lists_hold(1), of Malloc 3 "[5]" 7 "[]" "[(1, IntValue 5)]" 2 "IntValue 7" "[]"]
    two_lists_hold(3) [of Malloc] by auto

text \<open>
  Giving a whole list back. \<open>pg_list_free\<close> on a well-formed list succeeds, and afterwards neither
  its header nor any of its cells is allocated while every other chunk is as before.
\<close>

lemma pg_list_free_frees:
  assumes "wf_store h" and "holds T_IntList IntValue h Malloc l vs xs"
  shows "\<exists>h'. pg_list_free l False h = Inr h' \<and> wf_store h' \<and> (l \<noteq> 0 \<longrightarrow> hdrs h' l = None) \<and>
           (\<forall>a \<in> addrs xs. cells h' a = None) \<and> unchanged h h' {l} (addrs xs)"
  using pg_list_free_rep [OF assms(1) holds_rep [OF assms(2)]] without_list_wf [OF assms(1)] without_list_unchanged [of h l xs]
  by (auto simp: without_list_def without_cells_def)

text \<open>
  C25: the set operations on integer lists. \<open>list_union_int\<close> builds a new list of the values of the first list followed by the values of
  the second that do not occur in the first, each once, where it occurs first;
  \<open>list_difference_int\<close> builds the list of the values of the first that are not in the second, in
  their order; \<open>list_intersection_int\<close> the list of those that are. None of them changes an existing list.
\<close>

theorem int_list_set_operations:
  assumes "wf_store h" and "holds T_IntList IntValue h org1 l1 vs xs" and "holds T_IntList IntValue h org2 l2 ws ys"
    and "2 * (length vs + length ws) + 1 \<le> room h"
  shows "(\<exists>l h' zs. list_union_int l1 l2 h = Inr (l, h') \<and>
            holds T_IntList IntValue h' Palloc l (vs @ rev (remdups (rev (filter (\<lambda>v. v \<notin> set vs) ws)))) zs \<and> wf_store h' \<and> unchanged h h' {} {}) \<and>
         (\<exists>l h' zs. list_difference_int l1 l2 h = Inr (l, h') \<and>
            holds T_IntList IntValue h' Palloc l (filter (\<lambda>v. v \<notin> set ws) vs) zs \<and> wf_store h' \<and> unchanged h h' {} {}) \<and>
         (\<exists>l h' zs. list_intersection_int l1 l2 h = Inr (l, h') \<and>
            holds T_IntList IntValue h' Palloc l (filter (\<lambda>v. v \<in> set ws) vs) zs \<and> wf_store h' \<and> unchanged h h' {} {})"
proof (intro conjI)
  have room: "length vs + 1 + 2 * length ws \<le> room h" "2 * length vs + 1 \<le> room h" "2 * length vs \<le> room h"
    using assms(4) by simp_all
  show "\<exists>l h' zs. list_union_int l1 l2 h = Inr (l, h') \<and>
           holds T_IntList IntValue h' Palloc l (vs @ rev (remdups (rev (filter (\<lambda>v. v \<notin> set vs) ws)))) zs \<and> wf_store h' \<and> unchanged h h' {} {}"
    using int_list.union_rep [OF assms(1-3) room(1)] by (simp add: union_shapes gather_new)
  show "\<exists>l h' zs. list_difference_int l1 l2 h = Inr (l, h') \<and>
           holds T_IntList IntValue h' Palloc l (filter (\<lambda>v. v \<notin> set ws) vs) zs \<and> wf_store h' \<and> unchanged h h' {} {}"
    using int_list.difference_rep [OF assms(1-3) room(2)] by (simp add: difference_shapes)
  show "\<exists>l h' zs. list_intersection_int l1 l2 h = Inr (l, h') \<and>
           holds T_IntList IntValue h' Palloc l (filter (\<lambda>v. v \<in> set ws) vs) zs \<and> wf_store h' \<and> unchanged h h' {} {}"
    using int_list.intersection_rep [OF assms(1-3) room(3)] by (simp add: intersection_shapes)
qed

theorem int_list_set_operations_witness:
  "(\<exists>l h' zs. list_union_int 5 3 (two_lists Palloc) = Inr (l, h') \<and> holds T_IntList IntValue h' Palloc l [7, 5] zs) \<and>
   (\<exists>l h' zs. list_difference_int 5 3 (two_lists Palloc) = Inr (l, h') \<and> holds T_IntList IntValue h' Palloc l [] zs) \<and>
   (\<exists>l h' zs. list_intersection_int 5 3 (two_lists Palloc) = Inr (l, h') \<and> holds T_IntList IntValue h' Palloc l [7] zs)"
proof -
  have "2 * (length [7 :: uint32] + length [5, 7 :: uint32]) + 1 \<le> room (two_lists Palloc)" by (simp add: two_lists_hold)
  from int_list_set_operations [OF two_lists_hold(1,4,3) this] show ?thesis by auto
qed

text \<open>
  Deleting a value. \<open>list_delete_int\<close> removes the first occurrence of the value, gives its cell back
  and leaves the list as it is when the value does not occur.
\<close>

lemma list_delete_int_removes:
  assumes "wf_store h" and "holds T_IntList IntValue h Palloc l vs xs"
  shows "\<exists>l' h' xs'. list_delete_int l v h = Inr (l', h') \<and> wf_store h' \<and>
           holds T_IntList IntValue h' Palloc l' (remove1 v vs) xs' \<and> addrs xs' \<subseteq> addrs xs \<and> unchanged h h' {l} (addrs xs)"
  using int_list.remove_rep [OF assms, of v] by (auto simp: remove_shapes remove_by_eq)

text \<open>
  Copying. \<open>list_copy\<close> builds a list with the same values in new cells, whatever allocator the original
  came from, and changes no existing chunk, so that the copy and the original are independent.
\<close>

lemma list_copy_copies:
  assumes "wf_store h" and "holds T_IntList IntValue h org l vs xs" and "length vs + 1 \<le> room h"
  shows "\<exists>l' h' ys. list_copy l h = Inr (l', h') \<and> wf_store h' \<and> holds T_IntList IntValue h' Palloc l' vs ys \<and>
           holds T_IntList IntValue h' org l vs xs \<and> addrs ys \<inter> addrs xs = {} \<and> (l' = l \<longrightarrow> l = 0)"
proof -
  have len: "length xs = length vs" using assms(2) unfolding holds_def by (metis length_map)
  from list_copy_rep [OF assms(1) holds_rep [OF assms(2)]] assms(3) len obtain l' h' ms where
    c: "list_copy l h = Inr (l', h')" "rep h' Palloc T_IntList l' ms" "map snd ms = map snd xs" "\<forall>a \<in> addrs ms. brk h \<le> a"
      "l' = 0 \<or> brk h \<le> l'" "wf_store h'" "unchanged h h' {} {}"
    by auto
  moreover have "holds T_IntList IntValue h' Palloc l' vs ms" using c assms(2) by (simp add: holds_def)
  moreover have "holds T_IntList IntValue h' org l vs xs" by (rule holds_unchanged [OF assms(1,2) c(7)]) simp_all
  moreover have "addrs ms \<inter> addrs xs = {}" using c(4) rep_addr_lt [OF assms(1) holds_rep [OF assms(2)]] by force
  moreover have "l' = l \<longrightarrow> l = 0"
    using c(5) rep_hdr_lt [OF assms(1) holds_rep [OF assms(2)]] by (cases "l = 0") auto
  ultimately show ?thesis by blast
qed

end
