(* ===== verification/ItemPtr.thy ===== *)
theory ItemPtr
  imports Prelude
begin

text \<open>
  Tuple identifiers: \<open>src/include/storage/block.h\<close>, \<open>off.h\<close>, \<open>itemptr.h\<close> and
  \<open>src/backend/storage/page/itemptr.c\<close>. A disk item pointer is a block number, stored as two
  16-bit halves, and a 1-based line-pointer number. The macros that set a field return the
  changed structure; a pointer argument that the code requires to be non-null is the
  structure it points to.
\<close>

type_synonym BlockNumber = uint32
type_synonym OffsetNumber = uint16

definition InvalidBlockNumber :: BlockNumber where
  "InvalidBlockNumber = 0xFFFFFFFF"

definition MaxBlockNumber :: BlockNumber where
  "MaxBlockNumber = 0xFFFFFFFE"

definition InvalidOffsetNumber :: OffsetNumber where
  "InvalidOffsetNumber = 0"

record BlockIdData =
  bi_hi :: uint16
  bi_lo :: uint16

definition BlockIdSet :: "BlockNumber \<Rightarrow> BlockIdData" where
  "BlockIdSet blockNumber =
     \<lparr>bi_hi = ucast (drop_bit 16 blockNumber), bi_lo = ucast (blockNumber AND 0xffff)\<rparr>"

definition BlockIdGetBlockNumber :: "BlockIdData \<Rightarrow> BlockNumber" where
  "BlockIdGetBlockNumber blockId = push_bit 16 (ucast (bi_hi blockId)) OR ucast (bi_lo blockId)"

definition BlockIdEquals :: "BlockIdData \<Rightarrow> BlockIdData \<Rightarrow> bool" where
  "BlockIdEquals blockId1 blockId2 \<longleftrightarrow>
     bi_hi blockId1 = bi_hi blockId2 \<and> bi_lo blockId1 = bi_lo blockId2"

record ItemPointerData =
  ip_blkid :: BlockIdData
  ip_posid :: OffsetNumber

definition ItemPointerIsValid :: "ItemPointerData \<Rightarrow> bool" where
  "ItemPointerIsValid pointer \<longleftrightarrow> ip_posid pointer \<noteq> 0"

definition ItemPointerGetBlockNumberNoCheck :: "ItemPointerData \<Rightarrow> BlockNumber" where
  "ItemPointerGetBlockNumberNoCheck pointer = BlockIdGetBlockNumber (ip_blkid pointer)"

definition ItemPointerGetBlockNumber :: "ItemPointerData \<Rightarrow> BlockNumber result" where
  "ItemPointerGetBlockNumber pointer =
     bind_res (Assert (ItemPointerIsValid pointer)) (\<lambda>_.
     Inr (ItemPointerGetBlockNumberNoCheck pointer))"

definition ItemPointerGetOffsetNumberNoCheck :: "ItemPointerData \<Rightarrow> OffsetNumber" where
  "ItemPointerGetOffsetNumberNoCheck pointer = ip_posid pointer"

definition ItemPointerGetOffsetNumber :: "ItemPointerData \<Rightarrow> OffsetNumber result" where
  "ItemPointerGetOffsetNumber pointer =
     bind_res (Assert (ItemPointerIsValid pointer)) (\<lambda>_.
     Inr (ItemPointerGetOffsetNumberNoCheck pointer))"

definition ItemPointerSet :: "BlockNumber \<Rightarrow> OffsetNumber \<Rightarrow> ItemPointerData" where
  "ItemPointerSet blockNumber offNum =
     \<lparr>ip_blkid = BlockIdSet blockNumber, ip_posid = offNum\<rparr>"

definition ItemPointerSetInvalid :: "ItemPointerData" where
  "ItemPointerSetInvalid =
     \<lparr>ip_blkid = BlockIdSet InvalidBlockNumber, ip_posid = InvalidOffsetNumber\<rparr>"

definition ItemPointerEquals :: "ItemPointerData \<Rightarrow> ItemPointerData \<Rightarrow> bool result" where
  "ItemPointerEquals pointer1 pointer2 =
     bind_res (ItemPointerGetBlockNumber pointer1) (\<lambda>b1.
     bind_res (ItemPointerGetBlockNumber pointer2) (\<lambda>b2.
     if b1 = b2 then
       bind_res (ItemPointerGetOffsetNumber pointer1) (\<lambda>o1.
       bind_res (ItemPointerGetOffsetNumber pointer2) (\<lambda>o2.
       Inr (o1 = o2)))
     else Inr False))"

definition ItemPointerCompare :: "ItemPointerData \<Rightarrow> ItemPointerData \<Rightarrow> int" where
  "ItemPointerCompare arg1 arg2 =
     (let b1 = ItemPointerGetBlockNumberNoCheck arg1;
          b2 = ItemPointerGetBlockNumberNoCheck arg2
      in if b1 < b2 then -1
         else if b1 > b2 then 1
         else if ItemPointerGetOffsetNumberNoCheck arg1 < ItemPointerGetOffsetNumberNoCheck arg2
           then -1
         else if ItemPointerGetOffsetNumberNoCheck arg1 > ItemPointerGetOffsetNumberNoCheck arg2
           then 1
         else 0)"

subsection \<open>Round trip of the block number\<close>

lemma low_half: "ucast (b AND (0xffff :: uint32)) = (ucast b :: uint16)"
proof -
  have m: "(0xffff :: uint32) = mask 16" by (simp add: mask_eq_exp_minus_1)
  show ?thesis unfolding m by (rule bit_word_eqI) (simp add: bit_simps)
qed

lemma BlockIdGet_Set [simp]: "BlockIdGetBlockNumber (BlockIdSet b) = b"
proof (rule bit_word_eqI)
  fix n assume "n < LENGTH(32)"
  then have n: "n < 32" by simp
  show "bit (BlockIdGetBlockNumber (BlockIdSet b)) n = bit b n"
    using n by (auto simp: BlockIdGetBlockNumber_def BlockIdSet_def low_half bit_simps)
qed

lemma BlockIdSet_Get [simp]: "BlockIdSet (BlockIdGetBlockNumber i) = i"
proof -
  have hi: "bi_hi (BlockIdSet (BlockIdGetBlockNumber i)) = bi_hi i"
    by (rule bit_word_eqI) (auto simp: BlockIdGetBlockNumber_def BlockIdSet_def bit_simps
        dest: bit_imp_le_length)
  have lo: "bi_lo (BlockIdSet (BlockIdGetBlockNumber i)) = bi_lo i"
    by (rule bit_word_eqI) (auto simp: BlockIdGetBlockNumber_def BlockIdSet_def low_half bit_simps)
  from hi lo show ?thesis by (cases i) (simp add: BlockIdSet_def)
qed

lemma BlockIdGet_inj: "BlockIdGetBlockNumber i = BlockIdGetBlockNumber j \<longleftrightarrow> i = j"
  by (metis BlockIdSet_Get)

lemma ItemPointerSet_fields [simp]:
  "ItemPointerGetBlockNumberNoCheck (ItemPointerSet b p) = b"
  "ItemPointerGetOffsetNumberNoCheck (ItemPointerSet b p) = p"
  "ItemPointerIsValid (ItemPointerSet b p) \<longleftrightarrow> p \<noteq> 0"
  by (simp_all add: ItemPointerGetBlockNumberNoCheck_def ItemPointerSet_def
      ItemPointerGetOffsetNumberNoCheck_def ItemPointerIsValid_def)

lemma ItemPointer_eq_iff:
  "p = (q :: ItemPointerData) \<longleftrightarrow>
     ItemPointerGetBlockNumberNoCheck p = ItemPointerGetBlockNumberNoCheck q \<and>
     ItemPointerGetOffsetNumberNoCheck p = ItemPointerGetOffsetNumberNoCheck q"
  by (cases p; cases q) (simp add: ItemPointerGetBlockNumberNoCheck_def
      ItemPointerGetOffsetNumberNoCheck_def BlockIdGet_inj)

lemma ItemPointerEquals_iff:
  "ItemPointerIsValid p \<Longrightarrow> ItemPointerIsValid q \<Longrightarrow> ItemPointerEquals p q = Inr (p = q)"
  by (auto simp: ItemPointerEquals_def ItemPointerGetBlockNumber_def
      ItemPointerGetOffsetNumber_def ItemPointer_eq_iff)

subsection \<open>A three-way comparison\<close>

text \<open>
  What a btree-style comparison function promises. The order it induces is linear, and its
  sign decides equality.
\<close>

locale three_way =
  fixes cmp :: "'a \<Rightarrow> 'a \<Rightarrow> int"
  assumes cmp_zero: "cmp x y = 0 \<longleftrightarrow> x = y"
    and cmp_anti: "cmp x y < 0 \<longleftrightarrow> 0 < cmp y x"
    and cmp_trans: "cmp x y < 0 \<Longrightarrow> cmp y z < 0 \<Longrightarrow> cmp x z < 0"
begin

lemma le_refl: "cmp x x \<le> 0"
  by (simp add: cmp_zero [THEN iffD2])

lemma le_total: "cmp x y \<le> 0 \<or> cmp y x \<le> 0"
  using cmp_anti by (metis linorder_le_less_linear order_less_imp_le)

lemma le_antisym: "cmp x y \<le> 0 \<Longrightarrow> cmp y x \<le> 0 \<Longrightarrow> x = y"
  using cmp_anti cmp_zero by (metis linorder_not_le order_le_less)

lemma le_trans: "cmp x y \<le> 0 \<Longrightarrow> cmp y z \<le> 0 \<Longrightarrow> cmp x z \<le> 0"
  using cmp_trans cmp_zero by (metis order_le_less)

end

lemma ItemPointerCompare_less:
  "ItemPointerCompare p q < 0 \<longleftrightarrow>
     ItemPointerGetBlockNumberNoCheck p < ItemPointerGetBlockNumberNoCheck q \<or>
     ItemPointerGetBlockNumberNoCheck p = ItemPointerGetBlockNumberNoCheck q \<and>
     ItemPointerGetOffsetNumberNoCheck p < ItemPointerGetOffsetNumberNoCheck q"
  by (auto simp: ItemPointerCompare_def Let_def)

interpretation tid_order: three_way ItemPointerCompare
proof unfold_locales
  fix x y :: ItemPointerData
  show "ItemPointerCompare x y = 0 \<longleftrightarrow> x = y"
    by (auto simp: ItemPointerCompare_def ItemPointer_eq_iff Let_def)
  show "ItemPointerCompare x y < 0 \<longleftrightarrow> 0 < ItemPointerCompare y x"
    by (auto simp: ItemPointerCompare_def Let_def)
next
  fix x y z :: ItemPointerData
  assume "ItemPointerCompare x y < 0" and "ItemPointerCompare y z < 0"
  then show "ItemPointerCompare x z < 0"
    unfolding ItemPointerCompare_less by auto
qed

end
