(* ===== verification/MigrateBitmap.thy ===== *)
theory MigrateBitmap
  imports Prelude
begin

text \<open>
  The migration bitmap: \<open>src/include/utils/migrate_schema.h\<close> and
  \<open>src/backend/utils/migrate_schema.c\<close>. Every tuple of the table being migrated has an element
  number and, in the word of the bitmap that covers it, a lock bit and a migrate bit.

  The bitmap lives in shared memory: one array of 64-bit words that holds two bitmaps of
  \<open>BITMAPSIZE\<close> words each. A C pointer \<open>uint64 *bitmap\<close> into it is the index of the word it
  points to, so that \<open>bitmap[wordid]\<close> is the word at \<open>bitmap + wordid\<close>; a function that
  writes through the pointer returns the changed array.
\<close>

subsection \<open>Sizes\<close>

definition LOCKBITPOS :: uint32 where "LOCKBITPOS = 0"
definition MIGRATEBITPOS :: uint32 where "MIGRATEBITPOS = 1"
definition SIZEOFWORD :: nat where "SIZEOFWORD = 8 * 8"
definition ELEMCOUNTINWORD :: nat where "ELEMCOUNTINWORD = SIZEOFWORD div 2"
definition NUMPAGES :: nat where "NUMPAGES = 113505"
definition NUMTUPLESPERPAGE :: nat where "NUMTUPLESPERPAGE = 15"
definition NUMTUPLES :: nat where "NUMTUPLES = 2000000"

definition BITMAPSIZE :: nat where
  "BITMAPSIZE = (NUMTUPLES * 2 + (SIZEOFWORD - 1)) div SIZEOFWORD"

lemmas size_defs = SIZEOFWORD_def ELEMCOUNTINWORD_def NUMPAGES_def NUMTUPLESPERPAGE_def
  NUMTUPLES_def BITMAPSIZE_def

subsection \<open>Positions\<close>

definition getwordid :: "uint32 \<Rightarrow> uint32" where
  "getwordid eid = eid div of_nat ELEMCOUNTINWORD"

definition getlockbitid :: "uint32 \<Rightarrow> uint32" where
  "getlockbitid eid =
     (let posinbyte = eid mod of_nat ELEMCOUNTINWORD
      in posinbyte * 2 + LOCKBITPOS)"

definition getmigratebitid :: "uint32 \<Rightarrow> uint32" where
  "getmigratebitid eid =
     (let posinbyte = eid mod of_nat ELEMCOUNTINWORD
      in posinbyte * 2 + MIGRATEBITPOS)"

definition getkthbit :: "uint64 \<Rightarrow> uint32 \<Rightarrow> bool" where
  "getkthbit w k \<longleftrightarrow> w AND push_bit (unat k) 1 \<noteq> 0"

subsection \<open>Lock bits, migrate bits, in-progress bits\<close>

definition getlockbit :: "uint64 list \<Rightarrow> nat \<Rightarrow> uint32 \<Rightarrow> bool result" where
  "getlockbit mem bitmap eid =
     (let wordid = getwordid eid; lockbitid = getlockbitid eid
      in bind_res (aload mem (bitmap + unat wordid)) (\<lambda>w.
         Inr (getkthbit w lockbitid)))"

definition setlockbit :: "uint64 list \<Rightarrow> nat \<Rightarrow> uint32 \<Rightarrow> uint64 list result" where
  "setlockbit mem bitmap eid =
     (let wordid = getwordid eid; lockbitid = getlockbitid eid
      in bind_res (aload mem (bitmap + unat wordid)) (\<lambda>w.
         astore mem (bitmap + unat wordid) (w OR push_bit (unat lockbitid) 1)))"

definition resetlockbit :: "uint64 list \<Rightarrow> nat \<Rightarrow> uint32 \<Rightarrow> uint64 list result" where
  "resetlockbit mem bitmap eid =
     (let wordid = getwordid eid; lockbitid = getlockbitid eid
      in bind_res (aload mem (bitmap + unat wordid)) (\<lambda>w.
         astore mem (bitmap + unat wordid) (w AND NOT (push_bit (unat lockbitid) 1))))"

definition setmigratebit :: "uint64 list \<Rightarrow> nat \<Rightarrow> uint32 \<Rightarrow> uint64 list result" where
  "setmigratebit mem bitmap eid =
     (let wordid = getwordid eid; migratebitid = getmigratebitid eid
      in bind_res (aload mem (bitmap + unat wordid)) (\<lambda>w.
         astore mem (bitmap + unat wordid) (w OR push_bit (unat migratebitid) 1)))"

definition getmigratebit :: "uint64 list \<Rightarrow> nat \<Rightarrow> uint32 \<Rightarrow> bool result" where
  "getmigratebit mem bitmap eid =
     (let wordid = getwordid eid; migratebitid = getmigratebitid eid
      in bind_res (aload mem (bitmap + unat wordid)) (\<lambda>w.
         Inr (getkthbit w migratebitid)))"

definition getinprogbit :: "uint64 list \<Rightarrow> nat \<Rightarrow> uint32 \<Rightarrow> bool result" where
  "getinprogbit mem bitmap eid =
     (let wordid = eid div of_nat SIZEOFWORD; bitid = eid mod of_nat SIZEOFWORD
      in bind_res (aload mem (bitmap + unat wordid)) (\<lambda>w.
         Inr (getkthbit w bitid)))"

definition setinprogbit :: "uint64 list \<Rightarrow> nat \<Rightarrow> uint32 \<Rightarrow> uint64 list result" where
  "setinprogbit mem bitmap eid =
     (let wordid = eid div of_nat SIZEOFWORD; bitid = eid mod of_nat SIZEOFWORD
      in bind_res (aload mem (bitmap + unat wordid)) (\<lambda>w.
         astore mem (bitmap + unat wordid) (w OR push_bit (unat bitid) 1)))"

definition resetinprogbit :: "uint64 list \<Rightarrow> nat \<Rightarrow> uint32 \<Rightarrow> uint64 list result" where
  "resetinprogbit mem bitmap eid =
     (let wordid = eid div of_nat SIZEOFWORD; bitid = eid mod of_nat SIZEOFWORD
      in bind_res (aload mem (bitmap + unat wordid)) (\<lambda>w.
         astore mem (bitmap + unat wordid) (w AND NOT (push_bit (unat bitid) 1))))"

subsection \<open>Creating the bitmap\<close>

text \<open>
  \<open>shmem\<close> is what the shared-memory index holds under the name ''Global Bitmap'': nothing
  before the first call, the array afterwards. \<open>ShmemInitStruct\<close> returns the existing
  structure or allocates a new one of the size asked for; only a new one is cleared.
\<close>

definition InitGlobalBitmap :: "uint64 list option \<Rightarrow> uint64 list" where
  "InitGlobalBitmap shmem =
     (case shmem of
        Some mem \<Rightarrow> mem
      | None \<Rightarrow> replicate (2 * BITMAPSIZE) 0)"

subsection \<open>The lock that guards an element\<close>

definition NUM_MIGRATE_BITMAP_LOCKS :: nat where
  "NUM_MIGRATE_BITMAP_LOCKS = 256"

definition MigrateBitmapPartition :: "uint32 \<Rightarrow> nat" where
  "MigrateBitmapPartition hashcode = unat hashcode mod NUM_MIGRATE_BITMAP_LOCKS"

subsection \<open>Positions as numbers\<close>

lemma unat_getwordid: "unat (getwordid e) = unat e div 32"
  by (simp add: getwordid_def size_defs unat_div)

lemma unat_bitids:
  "unat (getlockbitid e) = 2 * (unat e mod 32)"
  "unat (getmigratebitid e) = 2 * (unat e mod 32) + 1"
proof -
  have m: "unat (e mod 32) = unat e mod 32" by (simp add: unat_mod)
  have l: "unat e mod 32 < 32" by simp
  have d: "unat ((e mod 32) * 2) = 2 * (unat e mod 32)"
    using l by (simp add: unat_word_ariths m)
  from d show "unat (getlockbitid e) = 2 * (unat e mod 32)"
    by (simp add: getlockbitid_def LOCKBITPOS_def size_defs)
  from d l show "unat (getmigratebitid e) = 2 * (unat e mod 32) + 1"
    by (simp add: getmigratebitid_def MIGRATEBITPOS_def size_defs unat_word_ariths)
qed

lemma bitids_lt_64: "unat (getlockbitid e) < 64" "unat (getmigratebitid e) < 64"
proof -
  have "unat e mod 32 < 32" by simp
  then show "unat (getlockbitid e) < 64" "unat (getmigratebitid e) < 64"
    unfolding unat_bitids by linarith+
qed

lemma unat_inprog:
  "unat (e div of_nat SIZEOFWORD :: uint32) = unat e div 64"
  "unat (e mod of_nat SIZEOFWORD :: uint32) = unat e mod 64"
  by (simp_all add: size_defs unat_div unat_mod)

lemma getkthbit_bit [simp]: "getkthbit w k = bit w (unat k)"
  unfolding getkthbit_def by (rule and_push_one_nonzero)

lemma unat_div_mod_inj:
  fixes e e' :: uint32
  assumes d: "unat e div n = unat e' div n" and m: "unat e mod n = unat e' mod n"
  shows "e = e'"
proof -
  have "unat e = unat e div n * n + unat e mod n" by simp
  also have "\<dots> = unat e' div n * n + unat e' mod n" by (simp only: d m)
  also have "\<dots> = unat e'" by simp
  finally show ?thesis by (simp add: word_unat_eq_iff)
qed

lemma lock_pos_inj:
  "getwordid e = getwordid e' \<Longrightarrow> unat (getlockbitid e) = unat (getlockbitid e') \<Longrightarrow> e = e'"
proof -
  assume w: "getwordid e = getwordid e'" and l: "unat (getlockbitid e) = unat (getlockbitid e')"
  from w have d: "unat e div 32 = unat e' div 32" unfolding unat_getwordid [symmetric] by simp
  from l have m: "unat e mod 32 = unat e' mod 32" by (simp add: unat_bitids)
  from d m show "e = e'" by (rule unat_div_mod_inj)
qed

lemma migrate_pos_inj:
  "getwordid e = getwordid e' \<Longrightarrow> unat (getmigratebitid e) = unat (getmigratebitid e') \<Longrightarrow> e = e'"
  by (rule lock_pos_inj) (simp_all add: unat_bitids)

lemma lock_ne_migrate: "unat (getlockbitid e) \<noteq> unat (getmigratebitid e')"
  unfolding unat_bitids Suc_eq_plus1 [symmetric] by (rule double_not_eq_Suc_double)

subsection \<open>Arrays of flags\<close>

text \<open>
  What the scan and the end of a query rely on: each element has a flag of its own, setting
  it makes it true and touches no other element's flag, and the array keeps its size. \<open>ok\<close>
  says that the element lies inside the memory.
\<close>

locale flag_array =
  fixes ok :: "uint64 list \<Rightarrow> nat \<Rightarrow> uint32 \<Rightarrow> bool"
    and get :: "uint64 list \<Rightarrow> nat \<Rightarrow> uint32 \<Rightarrow> bool result"
    and put :: "uint64 list \<Rightarrow> nat \<Rightarrow> uint32 \<Rightarrow> uint64 list result"
  assumes get_total: "ok m b e \<Longrightarrow> \<exists>v. get m b e = Inr v"
    and put_total: "ok m b e \<Longrightarrow> \<exists>m'. put m b e = Inr m'"
    and put_ok: "put m b e = Inr m' \<Longrightarrow> ok m b e"
    and put_length: "put m b e = Inr m' \<Longrightarrow> length m' = length m"
    and ok_length: "length m' = length m \<Longrightarrow> ok m' b e = ok m b e"
    and get_put: "put m b e = Inr m' \<Longrightarrow> get m' b e' = (if e' = e then Inr True else get m b e')"
begin

lemma put_keeps_ok: "put m b e = Inr m' \<Longrightarrow> ok m' b e' = ok m b e'"
  by (rule ok_length) (rule put_length)

text \<open>Setting the flags of a whole list of elements.\<close>

lemma each_put_length:
  "each_res (\<lambda>e m. put m b e) es m = Inr m' \<Longrightarrow> length m' = length m"
  by (rule each_res_invariant [where P = "\<lambda>x. length x = length m"]) (auto dest: put_length)

lemma each_put_total:
  assumes "\<And>e. e \<in> set es \<Longrightarrow> ok m b e"
  shows "\<exists>m'. each_res (\<lambda>e m. put m b e) es m = Inr m'"
proof -
  have "\<exists>m'. each_res (\<lambda>e m. put m b e) es m = Inr m' \<and> length m' = length m"
  proof (rule each_res_total)
    fix e and s :: "uint64 list" assume "e \<in> set es" and l: "length s = length m"
    then have "ok s b e" using assms ok_length by blast
    then obtain t where "put s b e = Inr t" using put_total by blast
    with l show "\<exists>t. put s b e = Inr t \<and> length t = length m" by (auto dest: put_length)
  qed simp
  then show ?thesis by blast
qed

lemma get_each_put:
  "each_res (\<lambda>e m. put m b e) es m = Inr m' \<Longrightarrow>
     get m' b e' = (if e' \<in> set es then Inr True else get m b e')"
proof (induction es arbitrary: m)
  case Nil
  then show ?case by simp
next
  case (Cons e es)
  then obtain u where "put m b e = Inr u" and "each_res (\<lambda>e m. put m b e) es u = Inr m'"
    by (auto simp: bind_res_eq_Inr)
  with Cons.IH [of u] show ?case by (auto simp: get_put)
qed

end

text \<open>An array whose flags can be cleared again.\<close>

locale flag_array_clear = flag_array +
  fixes clear :: "uint64 list \<Rightarrow> nat \<Rightarrow> uint32 \<Rightarrow> uint64 list result"
  assumes clear_total: "ok m b e \<Longrightarrow> \<exists>m'. clear m b e = Inr m'"
    and clear_length: "clear m b e = Inr m' \<Longrightarrow> length m' = length m"
    and get_clear: "clear m b e = Inr m' \<Longrightarrow> get m' b e' = (if e' = e then Inr False else get m b e')"
begin

lemma each_clear_total:
  assumes "\<And>e. e \<in> set es \<Longrightarrow> ok m b e"
  shows "\<exists>m'. each_res (\<lambda>e m. clear m b e) es m = Inr m' \<and> length m' = length m"
proof (rule each_res_total)
  fix e and s :: "uint64 list" assume "e \<in> set es" and l: "length s = length m"
  then have "ok s b e" using assms ok_length by blast
  then obtain t where "clear s b e = Inr t" using clear_total by blast
  with l show "\<exists>t. clear s b e = Inr t \<and> length t = length m" by (auto dest: clear_length)
qed simp

lemma get_each_clear:
  "each_res (\<lambda>e m. clear m b e) es m = Inr m' \<Longrightarrow>
     get m' b e' = (if e' \<in> set es then Inr False else get m b e')"
proof (induction es arbitrary: m)
  case Nil
  then show ?case by simp
next
  case (Cons e es)
  then obtain u where "clear m b e = Inr u" and "each_res (\<lambda>e m. clear m b e) es u = Inr m'"
    by (auto simp: bind_res_eq_Inr)
  with Cons.IH [of u] show ?case by (auto simp: get_clear)
qed

lemma clear_after_put:
  assumes "put m b e = Inr m1" and "clear m1 b e = Inr m2" and "get m b e = Inr False"
  shows "get m2 b e' = get m b e'"
  using assms by (auto simp: get_put get_clear)

end

subsection \<open>The bitmap is three arrays of flags\<close>

definition elem_ok :: "uint64 list \<Rightarrow> nat \<Rightarrow> uint32 \<Rightarrow> bool" where
  "elem_ok m b e \<longleftrightarrow> b + unat (getwordid e) < length m"

definition inprog_ok :: "uint64 list \<Rightarrow> nat \<Rightarrow> uint32 \<Rightarrow> bool" where
  "inprog_ok m b e \<longleftrightarrow> b + unat (e div of_nat SIZEOFWORD) < length m"

lemmas bitmap_get_defs = getlockbit_def getmigratebit_def getinprogbit_def
lemmas bitmap_put_defs = setlockbit_def resetlockbit_def setmigratebit_def
  setinprogbit_def resetinprogbit_def

text \<open>One word of the array after an update of one of its bits.\<close>

lemma bit_after_set:
  fixes m :: "uint64 list"
  assumes "i < length m" and "k < 64"
  shows "bit (m[i := m ! i OR push_bit k 1] ! j) n \<longleftrightarrow> j = i \<and> n = k \<or> bit (m ! j) n"
  using assms by (cases "j = i") (auto simp: bit_set_one simp del: push_bit_of_1)

lemma bit_after_clear:
  fixes m :: "uint64 list"
  assumes "i < length m"
  shows "bit (m[i := m ! i AND NOT (push_bit k 1)] ! j) n \<longleftrightarrow> \<not> (j = i \<and> n = k) \<and> bit (m ! j) n"
  using assms by (cases "j = i") (auto simp: bit_clear_one simp del: push_bit_of_1)

lemma getlockbit_eq:
  "getlockbit m b e =
     (if elem_ok m b e then Inr (bit (m ! (b + unat (getwordid e))) (unat (getlockbitid e)))
      else Inl OutOfBounds)"
  by (simp add: getlockbit_def elem_ok_def aload_def)

lemma getmigratebit_eq:
  "getmigratebit m b e =
     (if elem_ok m b e then Inr (bit (m ! (b + unat (getwordid e))) (unat (getmigratebitid e)))
      else Inl OutOfBounds)"
  by (simp add: getmigratebit_def elem_ok_def aload_def)

lemma getinprogbit_eq:
  "getinprogbit m b e =
     (if inprog_ok m b e
      then Inr (bit (m ! (b + unat (e div of_nat SIZEOFWORD))) (unat (e mod of_nat SIZEOFWORD)))
      else Inl OutOfBounds)"
  by (simp add: getinprogbit_def inprog_ok_def aload_def)

lemmas bitmap_get_eqs = getlockbit_eq getmigratebit_eq getinprogbit_eq


lemma elem_ok_length: "length m' = length m \<Longrightarrow> elem_ok m' b e = elem_ok m b e"
  by (simp add: elem_ok_def)

lemma inprog_ok_length: "length m' = length m \<Longrightarrow> inprog_ok m' b e = inprog_ok m b e"
  by (simp add: inprog_ok_def)

lemma setlockbit_eq_Inr:
  "setlockbit m b e = Inr m' \<longleftrightarrow> elem_ok m b e \<and>
     m' = m[b + unat (getwordid e) :=
            m ! (b + unat (getwordid e)) OR push_bit (unat (getlockbitid e)) 1]"
  by (auto simp: setlockbit_def elem_ok_def bind_res_eq_Inr aload_eq_Inr astore_eq_Inr Let_def
      simp del: push_bit_of_1)

lemma resetlockbit_eq_Inr:
  "resetlockbit m b e = Inr m' \<longleftrightarrow> elem_ok m b e \<and>
     m' = m[b + unat (getwordid e) :=
            m ! (b + unat (getwordid e)) AND NOT (push_bit (unat (getlockbitid e)) 1)]"
  by (auto simp: resetlockbit_def elem_ok_def bind_res_eq_Inr aload_eq_Inr astore_eq_Inr Let_def
      simp del: push_bit_of_1)

lemma setmigratebit_eq_Inr:
  "setmigratebit m b e = Inr m' \<longleftrightarrow> elem_ok m b e \<and>
     m' = m[b + unat (getwordid e) :=
            m ! (b + unat (getwordid e)) OR push_bit (unat (getmigratebitid e)) 1]"
  by (auto simp: setmigratebit_def elem_ok_def bind_res_eq_Inr aload_eq_Inr astore_eq_Inr Let_def
      simp del: push_bit_of_1)

lemma setinprogbit_eq_Inr:
  "setinprogbit m b e = Inr m' \<longleftrightarrow> inprog_ok m b e \<and>
     m' = m[b + unat (e div of_nat SIZEOFWORD) :=
            m ! (b + unat (e div of_nat SIZEOFWORD)) OR push_bit (unat (e mod of_nat SIZEOFWORD)) 1]"
  by (auto simp: setinprogbit_def inprog_ok_def bind_res_eq_Inr aload_eq_Inr astore_eq_Inr Let_def
      simp del: push_bit_of_1)

lemma resetinprogbit_eq_Inr:
  "resetinprogbit m b e = Inr m' \<longleftrightarrow> inprog_ok m b e \<and>
     m' = m[b + unat (e div of_nat SIZEOFWORD) :=
            m ! (b + unat (e div of_nat SIZEOFWORD))
              AND NOT (push_bit (unat (e mod of_nat SIZEOFWORD)) 1)]"
  by (auto simp: resetinprogbit_def inprog_ok_def bind_res_eq_Inr aload_eq_Inr astore_eq_Inr Let_def
      simp del: push_bit_of_1)

lemmas bitmap_put_eqs = setlockbit_eq_Inr resetlockbit_eq_Inr setmigratebit_eq_Inr
  setinprogbit_eq_Inr resetinprogbit_eq_Inr

lemma inprog_pos_inj:
  "(e :: uint32) div of_nat SIZEOFWORD = e' div of_nat SIZEOFWORD \<Longrightarrow>
     unat (e mod of_nat SIZEOFWORD) = unat (e' mod of_nat SIZEOFWORD) \<Longrightarrow> e = e'"
  by (metis unat_div_mod_inj unat_inprog)

lemma inprog_lt_64: "unat (e mod of_nat SIZEOFWORD :: uint32) < 64"
  by (simp add: unat_inprog)

lemma pos_iffs:
  "unat (getwordid x) = unat (getwordid y) \<and> unat (getlockbitid x) = unat (getlockbitid y) \<longleftrightarrow> x = y"
  "unat (getwordid x) = unat (getwordid y) \<and> unat (getmigratebitid x) = unat (getmigratebitid y)
     \<longleftrightarrow> x = y"
  "unat (u div of_nat SIZEOFWORD) = unat (v div of_nat SIZEOFWORD) \<and>
     unat (u mod of_nat SIZEOFWORD) = unat (v mod of_nat SIZEOFWORD) \<longleftrightarrow> u = (v :: uint32)"
  by (auto intro: lock_pos_inj migrate_pos_inj inprog_pos_inj
      simp: word_unat_eq_iff [of "getwordid _", symmetric]
        word_unat_eq_iff [of "_ div of_nat SIZEOFWORD", symmetric])

lemmas flag_law_simps = bitmap_get_eqs bitmap_put_eqs elem_ok_def inprog_ok_def
  bit_after_set bit_after_clear bitids_lt_64 inprog_lt_64 pos_iffs lock_ne_migrate
  lock_ne_migrate [symmetric]

interpretation lock_bits: flag_array_clear elem_ok getlockbit setlockbit resetlockbit
proof unfold_locales
  fix m m' :: "uint64 list" and b :: nat and e e' :: uint32
  show "elem_ok m b e \<Longrightarrow> \<exists>v. getlockbit m b e = Inr v" by (simp add: getlockbit_eq)
  show "elem_ok m b e \<Longrightarrow> \<exists>m'. setlockbit m b e = Inr m'" by (simp add: setlockbit_eq_Inr)
  show "elem_ok m b e \<Longrightarrow> \<exists>m'. resetlockbit m b e = Inr m'" by (simp add: resetlockbit_eq_Inr)
  show "setlockbit m b e = Inr m' \<Longrightarrow> elem_ok m b e" by (simp add: setlockbit_eq_Inr)
  show "setlockbit m b e = Inr m' \<Longrightarrow> length m' = length m" by (auto simp: setlockbit_eq_Inr)
  show "resetlockbit m b e = Inr m' \<Longrightarrow> length m' = length m" by (auto simp: resetlockbit_eq_Inr)
  show "length m' = length m \<Longrightarrow> elem_ok m' b e = elem_ok m b e" by (rule elem_ok_length)
  show "setlockbit m b e = Inr m' \<Longrightarrow>
      getlockbit m' b e' = (if e' = e then Inr True else getlockbit m b e')"
    by (auto simp: flag_law_simps simp del: nth_list_update_eq)
  show "resetlockbit m b e = Inr m' \<Longrightarrow>
      getlockbit m' b e' = (if e' = e then Inr False else getlockbit m b e')"
    by (auto simp: flag_law_simps simp del: nth_list_update_eq)
qed


interpretation migrate_bits: flag_array elem_ok getmigratebit setmigratebit
proof unfold_locales
  fix m m' :: "uint64 list" and b :: nat and e e' :: uint32
  show "elem_ok m b e \<Longrightarrow> \<exists>v. getmigratebit m b e = Inr v" by (simp add: getmigratebit_eq)
  show "elem_ok m b e \<Longrightarrow> \<exists>m'. setmigratebit m b e = Inr m'" by (simp add: setmigratebit_eq_Inr)
  show "setmigratebit m b e = Inr m' \<Longrightarrow> elem_ok m b e" by (simp add: setmigratebit_eq_Inr)
  show "setmigratebit m b e = Inr m' \<Longrightarrow> length m' = length m"
    by (auto simp: setmigratebit_eq_Inr)
  show "length m' = length m \<Longrightarrow> elem_ok m' b e = elem_ok m b e" by (rule elem_ok_length)
  show "setmigratebit m b e = Inr m' \<Longrightarrow>
      getmigratebit m' b e' = (if e' = e then Inr True else getmigratebit m b e')"
    by (auto simp: flag_law_simps simp del: nth_list_update_eq)
qed

interpretation inprog_bits: flag_array_clear inprog_ok getinprogbit setinprogbit resetinprogbit
proof unfold_locales
  fix m m' :: "uint64 list" and b :: nat and e e' :: uint32
  show "inprog_ok m b e \<Longrightarrow> \<exists>v. getinprogbit m b e = Inr v" by (simp add: getinprogbit_eq)
  show "inprog_ok m b e \<Longrightarrow> \<exists>m'. setinprogbit m b e = Inr m'" by (simp add: setinprogbit_eq_Inr)
  show "inprog_ok m b e \<Longrightarrow> \<exists>m'. resetinprogbit m b e = Inr m'"
    by (simp add: resetinprogbit_eq_Inr)
  show "setinprogbit m b e = Inr m' \<Longrightarrow> inprog_ok m b e" by (simp add: setinprogbit_eq_Inr)
  show "setinprogbit m b e = Inr m' \<Longrightarrow> length m' = length m"
    by (auto simp: setinprogbit_eq_Inr)
  show "resetinprogbit m b e = Inr m' \<Longrightarrow> length m' = length m"
    by (auto simp: resetinprogbit_eq_Inr)
  show "length m' = length m \<Longrightarrow> inprog_ok m' b e = inprog_ok m b e" by (rule inprog_ok_length)
  show "setinprogbit m b e = Inr m' \<Longrightarrow>
      getinprogbit m' b e' = (if e' = e then Inr True else getinprogbit m b e')"
    by (auto simp: flag_law_simps simp del: nth_list_update_eq)
  show "resetinprogbit m b e = Inr m' \<Longrightarrow>
      getinprogbit m' b e' = (if e' = e then Inr False else getinprogbit m b e')"
    by (auto simp: flag_law_simps simp del: nth_list_update_eq)
qed

subsection \<open>Lock bits and migrate bits do not interfere\<close>

lemma migrate_after_setlock:
  "setlockbit m b e = Inr m' \<Longrightarrow> getmigratebit m' b e' = getmigratebit m b e'"
  by (auto simp: flag_law_simps simp del: nth_list_update_eq)

lemma migrate_after_resetlock:
  "resetlockbit m b e = Inr m' \<Longrightarrow> getmigratebit m' b e' = getmigratebit m b e'"
  by (auto simp: flag_law_simps simp del: nth_list_update_eq)

lemma lock_after_setmigrate:
  "setmigratebit m b e = Inr m' \<Longrightarrow> getlockbit m' b e' = getlockbit m b e'"
  by (auto simp: flag_law_simps simp del: nth_list_update_eq)

subsection \<open>Two bitmaps in one array\<close>

lemma BITMAPSIZE_eq: "BITMAPSIZE = 62500"
  by (simp add: size_defs)

lemma getwordid_lt_BITMAPSIZE: "unat e < NUMTUPLES \<Longrightarrow> unat (getwordid e) < BITMAPSIZE"
  by (simp add: unat_getwordid BITMAPSIZE_eq NUMTUPLES_def)

lemma elem_ok_both:
  assumes "length m = 2 * BITMAPSIZE" and "unat e < NUMTUPLES"
  shows "elem_ok m 0 e" and "elem_ok m BITMAPSIZE e"
  using assms getwordid_lt_BITMAPSIZE [OF assms(2)] by (simp_all add: elem_ok_def)

text \<open>An update through one bitmap leaves every element of the other as it was.\<close>

lemma other_bitmap_word:
  assumes "unat e < NUMTUPLES" and "unat e' < NUMTUPLES"
    and "b = 0 \<and> b' = BITMAPSIZE \<or> b = BITMAPSIZE \<and> b' = 0"
  shows "b' + unat (getwordid e') \<noteq> b + unat (getwordid e)"
  using assms(3) getwordid_lt_BITMAPSIZE [OF assms(1)] getwordid_lt_BITMAPSIZE [OF assms(2)]
  by auto

end
