(* ===== verification/Prog.thy ===== *)
theory Prog
  imports Prelude
begin

text \<open>
  Programs over a state. C code that runs into \<open>ereport(ERROR)\<close> or a failed assertion leaves the
  state as it is at that point, and the error recovery of the caller goes on from there. A program is
  therefore a function from a state to an outcome, which is a value or an error, and a state that is
  there in both cases. \<open>wp\<close> is the weakest precondition for a postcondition on values and one
  on errors; its equations, collected in \<open>wp_simps\<close>, reduce a statement on a program to one on states.
\<close>

type_synonym ('s, 'a) prog = "'s \<Rightarrow> 'a result \<times> 's"

named_theorems wp_simps \<open>weakest preconditions of the program constructs\<close>

definition ret :: "'a \<Rightarrow> ('s, 'a) prog" where
  "ret x s = (Inr x, s)"

definition throw :: "cerror \<Rightarrow> ('s, 'a) prog" where
  "throw e s = (Inl e, s)"

definition gets :: "('s \<Rightarrow> 'a) \<Rightarrow> ('s, 'a) prog" where
  "gets f s = (Inr (f s), s)"

definition modify :: "('s \<Rightarrow> 's) \<Rightarrow> ('s, unit) prog" where
  "modify f s = (Inr (), f s)"

definition bindp :: "('s, 'a) prog \<Rightarrow> ('a \<Rightarrow> ('s, 'b) prog) \<Rightarrow> ('s, 'b) prog" where
  "bindp m f s = (case m s of (Inl e, t) \<Rightarrow> (Inl e, t) | (Inr x, t) \<Rightarrow> f x t)"

definition thenp :: "('s, 'a) prog \<Rightarrow> ('s, 'b) prog \<Rightarrow> ('s, 'b) prog" where
  "thenp m n = bindp m (\<lambda>_. n)"

definition assertp :: "bool \<Rightarrow> ('s, unit) prog" where
  "assertp b = (if b then ret () else throw AssertFail)"

definition whenp :: "bool \<Rightarrow> ('s, unit) prog \<Rightarrow> ('s, unit) prog" where
  "whenp b m = (if b then m else ret ())"

text \<open>A computation that needs no state.\<close>

definition liftp :: "'a result \<Rightarrow> ('s, 'a) prog" where
  "liftp r s = (r, s)"

fun eachp :: "('a \<Rightarrow> ('s, unit) prog) \<Rightarrow> 'a list \<Rightarrow> ('s, unit) prog" where
  "eachp f [] = ret ()"
| "eachp f (x # xs) = thenp (f x) (eachp f xs)"

text \<open>\<open>timesp n m\<close> runs \<open>m\<close> \<open>n\<close> times.\<close>

fun timesp :: "nat \<Rightarrow> ('s, unit) prog \<Rightarrow> ('s, unit) prog" where
  "timesp 0 m = ret ()"
| "timesp (Suc n) m = thenp m (timesp n m)"

definition wp ::
  "('s, 'a) prog \<Rightarrow> ('a \<Rightarrow> 's \<Rightarrow> bool) \<Rightarrow> (cerror \<Rightarrow> 's \<Rightarrow> bool) \<Rightarrow> 's \<Rightarrow> bool"
where
  "wp m Q E s = (case m s of (Inr x, t) \<Rightarrow> Q x t | (Inl e, t) \<Rightarrow> E e t)"

lemma wp_ret [wp_simps]: "wp (ret x) Q E s = Q x s"
  by (simp add: wp_def ret_def)

lemma wp_throw [wp_simps]: "wp (throw e) Q E s = E e s"
  by (simp add: wp_def throw_def)

lemma wp_gets [wp_simps]: "wp (gets f) Q E s = Q (f s) s"
  by (simp add: wp_def gets_def)

lemma wp_modify [wp_simps]: "wp (modify f) Q E s = Q () (f s)"
  by (simp add: wp_def modify_def)

lemma wp_bindp [wp_simps]: "wp (bindp m f) Q E = wp m (\<lambda>x. wp (f x) Q E) E"
  by (auto simp: wp_def bindp_def fun_eq_iff split: prod.splits sum.splits)

lemma wp_thenp [wp_simps]: "wp (thenp m n) Q E = wp m (\<lambda>_. wp n Q E) E"
  by (simp add: thenp_def wp_bindp)

lemma wp_assertp [wp_simps]: "wp (assertp b) Q E s = (if b then Q () s else E AssertFail s)"
  by (simp add: assertp_def wp_simps)

lemma wp_whenp [wp_simps]: "wp (whenp b m) Q E s = (if b then wp m Q E s else Q () s)"
  by (simp add: whenp_def wp_simps)

lemma wp_if [wp_simps]: "wp (if b then m else n) Q E s = (if b then wp m Q E s else wp n Q E s)"
  by simp

lemma wp_liftp [wp_simps]:
  "wp (liftp r) Q E s = (case r of Inl e \<Rightarrow> E e s | Inr x \<Rightarrow> Q x s)"
  by (auto simp: wp_def liftp_def split: sum.splits)

lemma wp_case_option [wp_simps]:
  "wp (case v of None \<Rightarrow> m | Some x \<Rightarrow> n x) Q E s =
     (case v of None \<Rightarrow> wp m Q E s | Some x \<Rightarrow> wp (n x) Q E s)"
  by (cases v) simp_all

lemma wp_case_prod [wp_simps]:
  "wp (case p of (x, y) \<Rightarrow> m x y) Q E s = (case p of (x, y) \<Rightarrow> wp (m x y) Q E s)"
  by (cases p) simp

lemma wp_let [wp_simps]: "wp (Let x m) Q E s = (let y = x in wp (m y) Q E s)"
  by simp

lemma wp_mono:
  "wp m Q E s \<Longrightarrow> (\<And>x t. Q x t \<Longrightarrow> Q' x t) \<Longrightarrow> (\<And>e t. E e t \<Longrightarrow> E' e t) \<Longrightarrow> wp m Q' E' s"
  by (auto simp: wp_def split: prod.splits sum.splits)

lemma wp_conj:
  "wp m Q E s \<Longrightarrow> wp m Q' E' s \<Longrightarrow> wp m (\<lambda>x t. Q x t \<and> Q' x t) (\<lambda>e t. E e t \<and> E' e t) s"
  by (auto simp: wp_def split: prod.splits sum.splits)

lemma wp_result:
  "wp m Q E s \<longleftrightarrow> (\<exists>x t. m s = (Inr x, t) \<and> Q x t) \<or> (\<exists>e t. m s = (Inl e, t) \<and> E e t)"
  by (cases "m s"; cases "fst (m s)") (auto simp: wp_def)

lemma wp_total: "wp m Q (\<lambda>_ _. False) s \<longleftrightarrow> (\<exists>x t. m s = (Inr x, t) \<and> Q x t)"
  by (simp add: wp_result)

lemma wp_Inr: "m s = (Inr x, t) \<longleftrightarrow> wp m (\<lambda>y u. y = x \<and> u = t) (\<lambda>_ _. False) s"
  by (auto simp: wp_total)

lemma wp_Inl: "m s = (Inl e, t) \<longleftrightarrow> wp m (\<lambda>_ _. False) (\<lambda>d u. d = e \<and> u = t) s"
  by (auto simp: wp_result)

lemma wp_eachp:
  assumes "I [] s"
    and "\<And>ys x zs t. xs = ys @ x # zs \<Longrightarrow> I ys t \<Longrightarrow> wp (f x) (\<lambda>_. I (ys @ [x])) E t"
  shows "wp (eachp f xs) (\<lambda>_. I xs) E s"
proof -
  have "wp (eachp f zs) (\<lambda>_. I xs) E t" if "xs = ys @ zs" and "I ys t" for ys zs t
    using that
  proof (induction zs arbitrary: ys t)
    case Nil
    then show ?case by (simp add: wp_simps)
  next
    case (Cons z zs)
    have "wp (f z) (\<lambda>_. I (ys @ [z])) E t" using assms(2) Cons.prems by blast
    then show ?case
      using Cons.IH [of "ys @ [z]"] Cons.prems by (auto simp: wp_simps elim: wp_mono)
  qed
  from this [of "[]" xs s] assms(1) show ?thesis by simp
qed

lemma wp_timesp:
  assumes "I 0 s" and "\<And>k t. k < n \<Longrightarrow> I k t \<Longrightarrow> wp m (\<lambda>_. I (Suc k)) E t"
  shows "wp (timesp n m) (\<lambda>_. I n) E s"
proof -
  have "wp (timesp j m) (\<lambda>_. I n) E t" if "I k t" and "k + j = n" for j k t
    using that
  proof (induction j arbitrary: k t)
    case 0
    then show ?case by (simp add: wp_simps)
  next
    case (Suc j)
    then have "wp m (\<lambda>_. I (Suc k)) E t" using assms(2) by simp
    then show ?case using Suc by (auto simp: wp_simps elim: wp_mono)
  qed
  from this [of 0 s n] assms(1) show ?thesis by simp
qed

end
