(* ===== verification/PredicateData.thy ===== *)
theory PredicateData
  imports Prog
begin

unbundle bit_operations_syntax

text \<open>
  The shared data of serializable transactions: \<open>src/include/storage/predicate_internals.h\<close>, the flag tests
  of \<open>src/backend/storage/lmgr/predicate.c\<close>, and the comparison of transaction ids of
  \<open>src/backend/access/transam/transam.c\<close>.

  A pointer to a transaction or to a conflict is its index in the array it is allocated from. A conflict has
  two links, and a queue (\<open>SHM_QUEUE\<close>) is the sequence of the links in it, from head to tail; that the
  pointers of \<open>src/backend/storage/ipc/shmqueue.c\<close> keep such sequences is shown in the theory \<open>ShmQueue\<close>.
\<close>

subsection \<open>Transaction ids\<close>

type_synonym TransactionId = uint32
type_synonym SerCommitSeqNo = uint64

definition InvalidTransactionId :: TransactionId where "InvalidTransactionId = 0"
definition FirstNormalTransactionId :: TransactionId where "FirstNormalTransactionId = 3"

definition TransactionIdIsValid :: "TransactionId \<Rightarrow> bool" where
  "TransactionIdIsValid xid \<longleftrightarrow> xid \<noteq> InvalidTransactionId"

definition TransactionIdIsNormal :: "TransactionId \<Rightarrow> bool" where
  "TransactionIdIsNormal xid \<longleftrightarrow> FirstNormalTransactionId \<le> xid"

definition TransactionIdPrecedes :: "TransactionId \<Rightarrow> TransactionId \<Rightarrow> bool" where
  "TransactionIdPrecedes id1 id2 \<longleftrightarrow>
     (if \<not> TransactionIdIsNormal id1 \<or> \<not> TransactionIdIsNormal id2 then id1 < id2
      else sint (id1 - id2) < 0)"

definition TransactionIdPrecedesOrEquals :: "TransactionId \<Rightarrow> TransactionId \<Rightarrow> bool" where
  "TransactionIdPrecedesOrEquals id1 id2 \<longleftrightarrow>
     (if \<not> TransactionIdIsNormal id1 \<or> \<not> TransactionIdIsNormal id2 then id1 \<le> id2
      else sint (id1 - id2) \<le> 0)"

definition TransactionIdFollows :: "TransactionId \<Rightarrow> TransactionId \<Rightarrow> bool" where
  "TransactionIdFollows id1 id2 \<longleftrightarrow>
     (if \<not> TransactionIdIsNormal id1 \<or> \<not> TransactionIdIsNormal id2 then id2 < id1
      else 0 < sint (id1 - id2))"

definition TransactionIdFollowsOrEquals :: "TransactionId \<Rightarrow> TransactionId \<Rightarrow> bool" where
  "TransactionIdFollowsOrEquals id1 id2 \<longleftrightarrow>
     (if \<not> TransactionIdIsNormal id1 \<or> \<not> TransactionIdIsNormal id2 then id2 \<le> id1
      else 0 \<le> sint (id1 - id2))"

definition InvalidSerCommitSeqNo :: SerCommitSeqNo where "InvalidSerCommitSeqNo = 0xFFFFFFFFFFFFFFFF"
definition FirstNormalSerCommitSeqNo :: SerCommitSeqNo where "FirstNormalSerCommitSeqNo = 2"

subsection \<open>Transactions and conflicts\<close>

datatype rwlink = OutLink nat | InLink nat

text \<open>
  \<open>SeqNo\<close> is the union of \<open>earliestOutConflictCommit\<close> and \<open>lastCommitBeforeSnapshot\<close>: both names read and write
  the same memory.
\<close>

record SERIALIZABLEXACT =
  prepareSeqNo :: SerCommitSeqNo
  commitSeqNo :: SerCommitSeqNo
  SeqNo :: SerCommitSeqNo
  outConflicts :: "rwlink list"
  inConflicts :: "rwlink list"
  possibleUnsafeConflicts :: "rwlink list"
  topXid :: TransactionId
  finishedBefore :: TransactionId
  xmin :: TransactionId
  flags :: uint32
  pid :: int

record RWConflictData =
  sxactOut :: nat
  sxactIn :: nat

definition SXACT_FLAG_COMMITTED :: uint32 where "SXACT_FLAG_COMMITTED = 0x00000001"
definition SXACT_FLAG_PREPARED :: uint32 where "SXACT_FLAG_PREPARED = 0x00000002"
definition SXACT_FLAG_ROLLED_BACK :: uint32 where "SXACT_FLAG_ROLLED_BACK = 0x00000004"
definition SXACT_FLAG_DOOMED :: uint32 where "SXACT_FLAG_DOOMED = 0x00000008"
definition SXACT_FLAG_CONFLICT_OUT :: uint32 where "SXACT_FLAG_CONFLICT_OUT = 0x00000010"
definition SXACT_FLAG_READ_ONLY :: uint32 where "SXACT_FLAG_READ_ONLY = 0x00000020"
definition SXACT_FLAG_DEFERRABLE_WAITING :: uint32 where "SXACT_FLAG_DEFERRABLE_WAITING = 0x00000040"
definition SXACT_FLAG_RO_SAFE :: uint32 where "SXACT_FLAG_RO_SAFE = 0x00000080"
definition SXACT_FLAG_RO_UNSAFE :: uint32 where "SXACT_FLAG_RO_UNSAFE = 0x00000100"
definition SXACT_FLAG_SUMMARY_CONFLICT_IN :: uint32 where "SXACT_FLAG_SUMMARY_CONFLICT_IN = 0x00000200"
definition SXACT_FLAG_SUMMARY_CONFLICT_OUT :: uint32 where "SXACT_FLAG_SUMMARY_CONFLICT_OUT = 0x00000400"

definition SxactIsCommitted :: "SERIALIZABLEXACT \<Rightarrow> bool" where
  "SxactIsCommitted sxact \<longleftrightarrow> flags sxact AND SXACT_FLAG_COMMITTED \<noteq> 0"

definition SxactIsPrepared :: "SERIALIZABLEXACT \<Rightarrow> bool" where
  "SxactIsPrepared sxact \<longleftrightarrow> flags sxact AND SXACT_FLAG_PREPARED \<noteq> 0"

definition SxactIsRolledBack :: "SERIALIZABLEXACT \<Rightarrow> bool" where
  "SxactIsRolledBack sxact \<longleftrightarrow> flags sxact AND SXACT_FLAG_ROLLED_BACK \<noteq> 0"

definition SxactIsDoomed :: "SERIALIZABLEXACT \<Rightarrow> bool" where
  "SxactIsDoomed sxact \<longleftrightarrow> flags sxact AND SXACT_FLAG_DOOMED \<noteq> 0"

definition SxactIsReadOnly :: "SERIALIZABLEXACT \<Rightarrow> bool" where
  "SxactIsReadOnly sxact \<longleftrightarrow> flags sxact AND SXACT_FLAG_READ_ONLY \<noteq> 0"

definition SxactHasSummaryConflictIn :: "SERIALIZABLEXACT \<Rightarrow> bool" where
  "SxactHasSummaryConflictIn sxact \<longleftrightarrow> flags sxact AND SXACT_FLAG_SUMMARY_CONFLICT_IN \<noteq> 0"

definition SxactHasSummaryConflictOut :: "SERIALIZABLEXACT \<Rightarrow> bool" where
  "SxactHasSummaryConflictOut sxact \<longleftrightarrow> flags sxact AND SXACT_FLAG_SUMMARY_CONFLICT_OUT \<noteq> 0"

definition SxactHasConflictOut :: "SERIALIZABLEXACT \<Rightarrow> bool" where
  "SxactHasConflictOut sxact \<longleftrightarrow> flags sxact AND SXACT_FLAG_CONFLICT_OUT \<noteq> 0"

definition SxactIsDeferrableWaiting :: "SERIALIZABLEXACT \<Rightarrow> bool" where
  "SxactIsDeferrableWaiting sxact \<longleftrightarrow> flags sxact AND SXACT_FLAG_DEFERRABLE_WAITING \<noteq> 0"

definition SxactIsROSafe :: "SERIALIZABLEXACT \<Rightarrow> bool" where
  "SxactIsROSafe sxact \<longleftrightarrow> flags sxact AND SXACT_FLAG_RO_SAFE \<noteq> 0"

definition SxactIsROUnsafe :: "SERIALIZABLEXACT \<Rightarrow> bool" where
  "SxactIsROUnsafe sxact \<longleftrightarrow> flags sxact AND SXACT_FLAG_RO_UNSAFE \<noteq> 0"

subsection \<open>The shared state\<close>

text \<open>
  \<open>PredXactListData\<close> with its array of transactions, the pool of conflicts, the list of finished transactions, the hash
  table from transaction ids to transactions, and the bounds of the summary storage (\<open>oldSerXidControl\<close>). \<open>signals\<close> is the sequence of process
  ids that \<open>ProcSendSignal\<close> has been called for. \<open>nextXid\<close> is \<open>ShmemVariableCache->nextXid\<close>.
\<close>

record ssi =
  element :: "SERIALIZABLEXACT list"
  availableList :: "nat list"
  activeList :: "nat list"
  SxactGlobalXmin :: TransactionId
  SxactGlobalXminCount :: int
  WritableSxactCount :: int
  LastSxactCommitSeqNo :: SerCommitSeqNo
  CanPartialClearThrough :: SerCommitSeqNo
  HavePartialClearedThrough :: SerCommitSeqNo
  OldCommittedSxact :: nat
  pool :: "RWConflictData list"
  poolAvailable :: "rwlink list"
  FinishedSerializableTransactions :: "nat list"
  SerializableXidHash :: "TransactionId \<Rightarrow> nat option"
  headPage :: int
  tailXid :: TransactionId
  headXid :: TransactionId
  nextXid :: TransactionId
  signals :: "int list"

end
