(* ===== verification/PredLockData.thy ===== *)
theory PredLockData
  imports ItemPtr PredicateData
begin

text \<open>
  Predicate locks, the record of what serializable transactions have read: the structures of
  \<open>src/include/storage/predicate_internals.h\<close> and the tables of \<open>src/backend/storage/lmgr/predicate.c\<close>.

  A lock is on a tuple, a page or a relation; its target is identified by a tag. A pointer to a target is its tag, and a
  lock is identified by its hash key, the target and the transaction.
\<close>

subsection \<open>Targets\<close>

record PREDICATELOCKTARGETTAG =
  locktag_field1 :: uint32
  locktag_field2 :: uint32
  locktag_field3 :: uint32
  locktag_field4 :: uint32

datatype PredicateLockTargetType = PREDLOCKTAG_RELATION | PREDLOCKTAG_PAGE | PREDLOCKTAG_TUPLE

definition SET_PREDICATELOCKTARGETTAG_RELATION :: "uint32 \<Rightarrow> uint32 \<Rightarrow> PREDICATELOCKTARGETTAG" where
  "SET_PREDICATELOCKTARGETTAG_RELATION dboid reloid =
     \<lparr>locktag_field1 = dboid, locktag_field2 = reloid, locktag_field3 = InvalidBlockNumber, locktag_field4 = ucast InvalidOffsetNumber\<rparr>"

definition SET_PREDICATELOCKTARGETTAG_PAGE :: "uint32 \<Rightarrow> uint32 \<Rightarrow> BlockNumber \<Rightarrow> PREDICATELOCKTARGETTAG" where
  "SET_PREDICATELOCKTARGETTAG_PAGE dboid reloid blocknum =
     \<lparr>locktag_field1 = dboid, locktag_field2 = reloid, locktag_field3 = blocknum, locktag_field4 = ucast InvalidOffsetNumber\<rparr>"

definition SET_PREDICATELOCKTARGETTAG_TUPLE :: "uint32 \<Rightarrow> uint32 \<Rightarrow> BlockNumber \<Rightarrow> OffsetNumber \<Rightarrow> PREDICATELOCKTARGETTAG" where
  "SET_PREDICATELOCKTARGETTAG_TUPLE dboid reloid blocknum offnum =
     \<lparr>locktag_field1 = dboid, locktag_field2 = reloid, locktag_field3 = blocknum, locktag_field4 = ucast offnum\<rparr>"

definition GET_PREDICATELOCKTARGETTAG_DB :: "PREDICATELOCKTARGETTAG \<Rightarrow> uint32" where
  "GET_PREDICATELOCKTARGETTAG_DB tag = locktag_field1 tag"

definition GET_PREDICATELOCKTARGETTAG_RELATION :: "PREDICATELOCKTARGETTAG \<Rightarrow> uint32" where
  "GET_PREDICATELOCKTARGETTAG_RELATION tag = locktag_field2 tag"

definition GET_PREDICATELOCKTARGETTAG_PAGE :: "PREDICATELOCKTARGETTAG \<Rightarrow> BlockNumber" where
  "GET_PREDICATELOCKTARGETTAG_PAGE tag = locktag_field3 tag"

definition GET_PREDICATELOCKTARGETTAG_OFFSET :: "PREDICATELOCKTARGETTAG \<Rightarrow> OffsetNumber" where
  "GET_PREDICATELOCKTARGETTAG_OFFSET tag = ucast (locktag_field4 tag)"

definition GET_PREDICATELOCKTARGETTAG_TYPE :: "PREDICATELOCKTARGETTAG \<Rightarrow> PredicateLockTargetType" where
  "GET_PREDICATELOCKTARGETTAG_TYPE tag =
     (if locktag_field4 tag \<noteq> ucast InvalidOffsetNumber then PREDLOCKTAG_TUPLE
      else if locktag_field3 tag \<noteq> InvalidBlockNumber then PREDLOCKTAG_PAGE
      else PREDLOCKTAG_RELATION)"

subsection \<open>Tables\<close>

text \<open>The entry of a backend's own table; the field \<open>held\<close> of the code is \<open>lock_held\<close>.\<close>

record LOCALPREDICATELOCK =
  lock_held :: bool
  childLocks :: int

text \<open>
  \<open>PredicateLockTargetHash\<close> has for each target the queue of its locks, as the transactions that hold them.
  \<open>PredicateLockHash\<close> has the \<open>commitSeqNo\<close> of each lock. \<open>predicateLocks\<close> is the queue of that name in the structure of a transaction. \<open>target_room\<close> and
  \<open>lock_room\<close> are the numbers of entries that the two tables of fixed size have left.
\<close>

record predlocks =
  PredicateLockTargetHash :: "PREDICATELOCKTARGETTAG \<Rightarrow> nat list option"
  PredicateLockHash :: "PREDICATELOCKTARGETTAG \<times> nat \<Rightarrow> SerCommitSeqNo option"
  predicateLocks :: "nat \<Rightarrow> PREDICATELOCKTARGETTAG list"
  target_room :: nat
  lock_room :: nat

definition ScratchTargetTag :: PREDICATELOCKTARGETTAG where
  "ScratchTargetTag = \<lparr>locktag_field1 = 0, locktag_field2 = 0, locktag_field3 = 0, locktag_field4 = 0\<rparr>"

text \<open>The part of \<open>InitPredicateLocks\<close> that creates the two tables; \<open>n\<close> is \<open>NPREDICATELOCKTARGETENTS()\<close>.\<close>

definition InitPredicateLockTables :: "nat \<Rightarrow> predlocks" where
  "InitPredicateLockTables n =
     \<lparr>PredicateLockTargetHash = (\<lambda>_. None)(ScratchTargetTag \<mapsto> []), PredicateLockHash = (\<lambda>_. None), predicateLocks = (\<lambda>_. []),
      target_room = n - 1, lock_room = n * 2\<rparr>"

end
