(* ===== verification/Backend.thy ===== *)
theory Backend
  imports PgList MigrateBitmap PredLockData
begin

text \<open>
  The state a backend works on: the shared memory, the backend's own variables, and the other
  backends. Shared memory holds the array of lightweight locks, the process table and the
  migration bitmap, the data of serializable transactions and the tables of predicate locks. The globals of \<open>src/backend/utils/migrate_schema.c\<close> and of
  \<open>src/backend/storage/lmgr/lwlock.c\<close> are per process, except the two arrays they point to.

  The other backends are a list of moves, functions on the shared memory. Before every access
  to shared memory one of them is made, so a program is run against any interference that is put
  into the list; the empty list is a backend that runs alone. When the list is used up the others do
  nothing any more, and a backend that then waits for them is \<open>Blocked\<close>.
\<close>

subsection \<open>Shared memory\<close>

datatype LWLockMode = LW_EXCLUSIVE | LW_SHARED | LW_WAIT_UNTIL_FREE

text \<open>
  \<open>waiters\<close> is the list of process numbers that the \<open>proclist_head\<close> of the lock heads.
\<close>

record LWLock =
  tranche :: uint16
  state :: uint32
  waiters :: "nat list"

record PGPROC =
  lwWaiting :: bool
  lwWaitMode :: LWLockMode
  sem :: nat

record shmem =
  MainLWLockArray :: "LWLock list"
  allProcs :: "PGPROC list"
  lwvars :: "uint64 list"
  GlobalBitmap :: "uint64 list"
  PredXact :: ssi
  PredLocks :: predlocks

subsection \<open>A backend\<close>

record backend =
  shm :: shmem
  env :: "(shmem \<Rightarrow> shmem) list"
  IsUnderPostmaster :: bool
  MyProc :: "nat option"
  held_lwlocks :: "(nat \<times> LWLockMode) list"
  InterruptHoldoffCount :: uint32
  heap :: store
  migrateflag :: bool
  tuplemigratecount :: uint64
  BitmapNum :: uint8
  PartialBitmap :: "nat option"
  InProgLocalList0 :: nat
  InProgLocalList1 :: nat
  XactIsoLevel :: nat
  MySerializableXact :: "nat option"
  MyXactDidWrite :: bool
  RecoveryInProgress :: bool
  LocalPredicateLockHash :: "(PREDICATELOCKTARGETTAG \<Rightarrow> LOCALPREDICATELOCK option) option"

subsection \<open>The other backends\<close>

definition others :: "backend \<Rightarrow> backend" where
  "others s = (case env s of [] \<Rightarrow> s | f # fs \<Rightarrow> s\<lparr>shm := f (shm s), env := fs\<rparr>)"

definition interfere :: "(backend, unit) prog" where
  "interfere = modify others"

text \<open>Reading shared memory, and updating it in one indivisible step.\<close>

definition peek :: "(shmem \<Rightarrow> 'a) \<Rightarrow> (backend, 'a) prog" where
  "peek f = thenp interfere (gets (f \<circ> shm))"

definition poke :: "(shmem \<Rightarrow> shmem) \<Rightarrow> (backend, unit) prog" where
  "poke f = thenp interfere (modify (\<lambda>s. s\<lparr>shm := f (shm s)\<rparr>))"

lemma others_alone [simp]: "env s = [] \<Longrightarrow> others s = s"
  by (simp add: others_def)

lemma others_pow_alone [simp]: "env s = [] \<Longrightarrow> (others ^^ k) s = s"
  by (induction k) simp_all

lemma others_Cons [simp]: "env s = f # fs \<Longrightarrow> others s = s\<lparr>shm := f (shm s), env := fs\<rparr>"
  by (simp add: others_def)

lemma env_others [simp]: "env (others s) = tl (env s)"
  by (cases "env s") (simp_all add: others_def)

lemma others_private [simp]:
  "IsUnderPostmaster (others s) = IsUnderPostmaster s" "MyProc (others s) = MyProc s"
  "held_lwlocks (others s) = held_lwlocks s"
  "InterruptHoldoffCount (others s) = InterruptHoldoffCount s" "heap (others s) = heap s"
  "migrateflag (others s) = migrateflag s" "tuplemigratecount (others s) = tuplemigratecount s"
  "BitmapNum (others s) = BitmapNum s" "PartialBitmap (others s) = PartialBitmap s"
  "InProgLocalList0 (others s) = InProgLocalList0 s" "InProgLocalList1 (others s) = InProgLocalList1 s"
  "XactIsoLevel (others s) = XactIsoLevel s" "MySerializableXact (others s) = MySerializableXact s"
  "MyXactDidWrite (others s) = MyXactDidWrite s" "RecoveryInProgress (others s) = RecoveryInProgress s"
  "LocalPredicateLockHash (others s) = LocalPredicateLockHash s"
  by (simp_all add: others_def split: list.splits)

lemma wp_interfere [wp_simps]: "wp interfere Q E s = Q () (others s)"
  by (simp add: interfere_def wp_simps)

lemma wp_peek [wp_simps]: "wp (peek f) Q E s = Q (f (shm (others s))) (others s)"
  by (simp add: peek_def wp_simps)

lemma wp_poke [wp_simps]:
  "wp (poke f) Q E s = Q () ((others s)\<lparr>shm := f (shm (others s))\<rparr>)"
  by (simp add: poke_def wp_simps)

text \<open>
  A relation on shared memory that every move of the others respects, as long as they last; the
  rely condition of a proof about a backend.
\<close>

definition rely :: "(shmem \<Rightarrow> shmem \<Rightarrow> bool) \<Rightarrow> backend \<Rightarrow> bool" where
  "rely R s \<longleftrightarrow> (\<forall>f \<in> set (env s). \<forall>m. R m (f m))"

lemma rely_others: "rely R s \<Longrightarrow> rely R (others s)"
  by (cases "env s") (auto simp: rely_def)

lemma rely_step: "rely R s \<Longrightarrow> (\<And>m. R m m) \<Longrightarrow> R (shm s) (shm (others s))"
  by (cases "env s") (auto simp: rely_def)

lemma rely_env: "env s' = env s \<Longrightarrow> rely R s' = rely R s"
  by (simp add: rely_def)

end
