(* ===== verification/LWLock.thy ===== *)
theory LWLock
  imports Backend
begin

unbundle bit_operations_syntax

text \<open>
  Lightweight locks: \<open>src/backend/storage/lmgr/lwlock.c\<close> and \<open>src/include/storage/lwlock.h\<close>. A
  \<open>LWLock *\<close> is the index of the lock in \<open>MainLWLockArray\<close>. Every atomic access to a lock's
  state word and every access to the process table lets the other backends move first.

  The compare-and-exchange loops and the spin loop get as many iterations as the others have
  moves left, and one more: an iteration fails only because of a move.
\<close>

subsection \<open>Flags and masks\<close>

definition LW_FLAG_HAS_WAITERS :: uint32 where "LW_FLAG_HAS_WAITERS = push_bit 30 1"
definition LW_FLAG_RELEASE_OK :: uint32 where "LW_FLAG_RELEASE_OK = push_bit 29 1"
definition LW_FLAG_LOCKED :: uint32 where "LW_FLAG_LOCKED = push_bit 28 1"
definition LW_VAL_EXCLUSIVE :: uint32 where "LW_VAL_EXCLUSIVE = push_bit 24 1"
definition LW_VAL_SHARED :: uint32 where "LW_VAL_SHARED = 1"
definition LW_LOCK_MASK :: uint32 where "LW_LOCK_MASK = push_bit 25 1 - 1"
definition MAX_SIMUL_LWLOCKS :: nat where "MAX_SIMUL_LWLOCKS = 200"

subsection \<open>Atomic access to a lock's state\<close>

definition lock_at :: "nat \<Rightarrow> (backend, LWLock) prog" where
  "lock_at i = bindp (gets (MainLWLockArray \<circ> shm)) (\<lambda>ls.
     if i < length ls then ret (ls ! i) else throw OutOfBounds)"

definition put_lock :: "nat \<Rightarrow> LWLock \<Rightarrow> (backend, unit) prog" where
  "put_lock i L = modify (\<lambda>s. s\<lparr>shm := (shm s)\<lparr>MainLWLockArray := (MainLWLockArray (shm s))[i := L]\<rparr>\<rparr>)"

definition pg_atomic_read_u32 :: "nat \<Rightarrow> (backend, uint32) prog" where
  "pg_atomic_read_u32 i = thenp interfere (bindp (lock_at i) (\<lambda>L. ret (state L)))"

text \<open>Replace the state by a function of it; the result is the state before.\<close>

definition atomic_update :: "nat \<Rightarrow> (uint32 \<Rightarrow> uint32) \<Rightarrow> (backend, uint32) prog" where
  "atomic_update i f = thenp interfere (bindp (lock_at i) (\<lambda>L.
     thenp (put_lock i (L\<lparr>state := f (state L)\<rparr>)) (ret (state L))))"

definition pg_atomic_fetch_or_u32 :: "nat \<Rightarrow> uint32 \<Rightarrow> (backend, uint32) prog" where
  "pg_atomic_fetch_or_u32 i m = atomic_update i (\<lambda>w. w OR m)"

definition pg_atomic_fetch_and_u32 :: "nat \<Rightarrow> uint32 \<Rightarrow> (backend, uint32) prog" where
  "pg_atomic_fetch_and_u32 i m = atomic_update i (\<lambda>w. w AND m)"

definition pg_atomic_sub_fetch_u32 :: "nat \<Rightarrow> uint32 \<Rightarrow> (backend, uint32) prog" where
  "pg_atomic_sub_fetch_u32 i v = bindp (atomic_update i (\<lambda>w. w - v)) (\<lambda>w. ret (w - v))"

text \<open>Whether the exchange took place, and the state that was found.\<close>

definition pg_atomic_compare_exchange_u32 ::
  "nat \<Rightarrow> uint32 \<Rightarrow> uint32 \<Rightarrow> (backend, bool \<times> uint32) prog"
where
  "pg_atomic_compare_exchange_u32 i expected desired =
     thenp interfere (bindp (lock_at i) (\<lambda>L.
     if state L = expected
     then thenp (put_lock i (L\<lparr>state := desired\<rparr>)) (ret (True, state L))
     else ret (False, state L)))"

subsection \<open>The process table\<close>

definition proc_at :: "nat \<Rightarrow> (backend, PGPROC) prog" where
  "proc_at p = thenp interfere (bindp (gets (allProcs \<circ> shm)) (\<lambda>ps.
     if p < length ps then ret (ps ! p) else throw OutOfBounds))"

definition update_proc :: "nat \<Rightarrow> (PGPROC \<Rightarrow> PGPROC) \<Rightarrow> (backend, unit) prog" where
  "update_proc p f = bindp (proc_at p) (\<lambda>P.
     modify (\<lambda>s. s\<lparr>shm := (shm s)\<lparr>allProcs := (allProcs (shm s))[p := f P]\<rparr>\<rparr>))"

definition my_proc :: "(backend, nat) prog" where
  "my_proc = bindp (gets MyProc) (\<lambda>m. case m of None \<Rightarrow> throw NullDeref | Some p \<Rightarrow> ret p)"

definition PGSemaphoreUnlock :: "nat \<Rightarrow> (backend, unit) prog" where
  "PGSemaphoreUnlock p = update_proc p (\<lambda>P. P\<lparr>sem := sem P + 1\<rparr>)"

text \<open>
  \<open>for (;;) { PGSemaphoreLock(proc->sem); if (!proc->lwWaiting) break; extraWaits++; }\<close>.
  \<open>PGSemaphoreLock\<close> sleeps while the count is 0 and then takes one.
\<close>

abbreviation count_of :: "nat \<Rightarrow> backend \<Rightarrow> nat" where
  "count_of p s \<equiv> (if p < length (allProcs (shm s)) then sem (allProcs (shm s) ! p) else 0)"

definition take_count :: "nat \<Rightarrow> backend \<Rightarrow> backend" where
  "take_count p s = s\<lparr>shm := (shm s)\<lparr>allProcs :=
     (allProcs (shm s))[p := (allProcs (shm s) ! p)\<lparr>sem := sem (allProcs (shm s) ! p) - 1\<rparr>]\<rparr>\<rparr>"

lemma take_count_simps [simp]:
  "env (take_count p s) = env s"
  "length (allProcs (shm (take_count p s))) = length (allProcs (shm s))"
  "p < length (allProcs (shm s)) \<Longrightarrow>
     allProcs (shm (take_count p s)) ! p = (allProcs (shm s) ! p)\<lparr>sem := sem (allProcs (shm s) ! p) - 1\<rparr>"
  by (simp_all add: take_count_def)

function wait_woken :: "nat \<Rightarrow> nat \<Rightarrow> (backend, nat) prog" where
  "wait_woken p extraWaits s =
     (let s = others s in
      if \<not> p < length (allProcs (shm s)) then (Inl OutOfBounds, s)
      else if sem (allProcs (shm s) ! p) = 0 then
        (if env s = [] then (Inl Blocked, s) else wait_woken p extraWaits s)
      else
        let s = others (take_count p s) in
        if \<not> p < length (allProcs (shm s)) then (Inl OutOfBounds, s)
        else if \<not> lwWaiting (allProcs (shm s) ! p) then (Inr extraWaits, s)
        else wait_woken p (extraWaits + 1) s)"
  by pat_completeness auto
termination
proof (relation "measures [\<lambda>(p, k, s). length (env s), \<lambda>(p, k, s). count_of p s]", goal_cases)
  case 1
  then show ?case by simp
next
  case (2 p k s x)
  then show ?case by (cases "env s") simp_all
next
  case (3 p k s x xa)
  then show ?case by (cases "env s") (simp_all add: less_Suc_eq_le)
qed

declare wait_woken.simps [simp del]

subsection \<open>Trying to take a lock\<close>

definition lock_free :: "LWLockMode \<Rightarrow> uint32 \<Rightarrow> bool" where
  "lock_free mode old_state =
     (if mode = LW_EXCLUSIVE then old_state AND LW_LOCK_MASK = 0
      else old_state AND LW_VAL_EXCLUSIVE = 0)"

definition lock_value :: "LWLockMode \<Rightarrow> uint32" where
  "lock_value mode = (if mode = LW_EXCLUSIVE then LW_VAL_EXCLUSIVE else LW_VAL_SHARED)"

fun attempt_loop :: "nat \<Rightarrow> nat \<Rightarrow> LWLockMode \<Rightarrow> uint32 \<Rightarrow> (backend, bool) prog" where
  "attempt_loop 0 i mode old_state = throw Diverges"
| "attempt_loop (Suc n) i mode old_state =
     (let desired_state = (if lock_free mode old_state then old_state + lock_value mode else old_state) in
      bindp (pg_atomic_compare_exchange_u32 i old_state desired_state) (\<lambda>(swapped, cur).
      if swapped then ret (\<not> lock_free mode old_state)
      else attempt_loop n i mode cur))"

text \<open>The loops need as many iterations as there are moves of the others, plus one.\<close>

definition with_fuel :: "(nat \<Rightarrow> (backend, 'a) prog) \<Rightarrow> (backend, 'a) prog" where
  "with_fuel f = bindp (gets (\<lambda>s. length (env s))) (\<lambda>n. f (Suc n))"

definition LWLockAttemptLock :: "nat \<Rightarrow> LWLockMode \<Rightarrow> (backend, bool) prog" where
  "LWLockAttemptLock i mode =
     thenp (assertp (mode = LW_EXCLUSIVE \<or> mode = LW_SHARED))
     (bindp (pg_atomic_read_u32 i) (\<lambda>old_state.
     with_fuel (\<lambda>n. attempt_loop n i mode old_state)))"

subsection \<open>The spin lock of the wait list\<close>

fun waitlist_spin :: "nat \<Rightarrow> nat \<Rightarrow> (backend, unit) prog" where
  "waitlist_spin 0 i = throw Blocked"
| "waitlist_spin (Suc n) i =
     bindp (pg_atomic_read_u32 i) (\<lambda>old_state.
     if old_state AND LW_FLAG_LOCKED \<noteq> 0 then waitlist_spin n i else ret ())"

fun waitlist_loop :: "nat \<Rightarrow> nat \<Rightarrow> (backend, unit) prog" where
  "waitlist_loop 0 i = throw Blocked"
| "waitlist_loop (Suc n) i =
     bindp (pg_atomic_fetch_or_u32 i LW_FLAG_LOCKED) (\<lambda>old_state.
     if old_state AND LW_FLAG_LOCKED = 0 then ret ()
     else thenp (with_fuel (\<lambda>n. waitlist_spin n i)) (waitlist_loop n i))"

definition LWLockWaitListLock :: "nat \<Rightarrow> (backend, unit) prog" where
  "LWLockWaitListLock i = with_fuel (\<lambda>n. waitlist_loop n i)"

definition LWLockWaitListUnlock :: "nat \<Rightarrow> (backend, unit) prog" where
  "LWLockWaitListUnlock i =
     bindp (pg_atomic_fetch_and_u32 i (NOT LW_FLAG_LOCKED)) (\<lambda>old_state.
     assertp (old_state AND LW_FLAG_LOCKED \<noteq> 0))"

definition get_waiters :: "nat \<Rightarrow> (backend, nat list) prog" where
  "get_waiters i = thenp interfere (bindp (lock_at i) (\<lambda>L. ret (waiters L)))"

definition set_waiters :: "nat \<Rightarrow> nat list \<Rightarrow> (backend, unit) prog" where
  "set_waiters i ps = bindp (lock_at i) (\<lambda>L. put_lock i (L\<lparr>waiters := ps\<rparr>))"

subsection \<open>Waking waiters up\<close>

text \<open>
  The walk over the wait list: the processes that stay in it, those that are woken, and the new
  value of the flag \<open>LW_FLAG_RELEASE_OK\<close>.
\<close>

fun collect_wakeup :: "(nat \<Rightarrow> LWLockMode) \<Rightarrow> nat list \<Rightarrow> bool \<Rightarrow> bool \<Rightarrow> nat list \<times> nat list \<times> bool" where
  "collect_wakeup mode_of [] wokeup_somebody new_release_ok = ([], [], new_release_ok)"
| "collect_wakeup mode_of (p # ps) wokeup_somebody new_release_ok =
     (if wokeup_somebody \<and> mode_of p = LW_EXCLUSIVE then
        let (rest, wakeup, ok) = collect_wakeup mode_of ps wokeup_somebody new_release_ok
        in (p # rest, wakeup, ok)
      else
        let new_release_ok = (if mode_of p \<noteq> LW_WAIT_UNTIL_FREE then False else new_release_ok);
            wokeup_somebody = (if mode_of p \<noteq> LW_WAIT_UNTIL_FREE then True else wokeup_somebody)
        in if mode_of p = LW_EXCLUSIVE then (ps, [p], new_release_ok)
           else let (rest, wakeup, ok) = collect_wakeup mode_of ps wokeup_somebody new_release_ok
                in (rest, p # wakeup, ok))"

definition wakeup_state :: "bool \<Rightarrow> nat list \<Rightarrow> uint32 \<Rightarrow> uint32" where
  "wakeup_state new_release_ok wakeup old_state =
     (let desired_state = old_state;
          desired_state = (if new_release_ok then desired_state OR LW_FLAG_RELEASE_OK
                           else desired_state AND NOT LW_FLAG_RELEASE_OK);
          desired_state = (if wakeup = [] then desired_state AND NOT LW_FLAG_HAS_WAITERS
                           else desired_state)
      in desired_state AND NOT LW_FLAG_LOCKED)"

fun update_loop :: "nat \<Rightarrow> nat \<Rightarrow> (uint32 \<Rightarrow> uint32) \<Rightarrow> uint32 \<Rightarrow> (backend, unit) prog" where
  "update_loop 0 i f old_state = throw Diverges"
| "update_loop (Suc n) i f old_state =
     bindp (pg_atomic_compare_exchange_u32 i old_state (f old_state)) (\<lambda>(swapped, cur).
     if swapped then ret () else update_loop n i f cur)"

definition awaken :: "nat \<Rightarrow> (backend, unit) prog" where
  "awaken p = thenp (update_proc p (\<lambda>P. P\<lparr>lwWaiting := False\<rparr>)) (PGSemaphoreUnlock p)"

definition LWLockWakeup :: "nat \<Rightarrow> (backend, unit) prog" where
  "LWLockWakeup i =
     thenp (LWLockWaitListLock i)
     (bindp (get_waiters i) (\<lambda>ps.
     bindp (gets (allProcs \<circ> shm)) (\<lambda>procs.
     if \<not> list_all (\<lambda>p. p < length procs) ps then throw OutOfBounds else
     let (rest, wakeup, new_release_ok) =
           collect_wakeup (\<lambda>p. lwWaitMode (procs ! p)) ps False True in
     thenp (set_waiters i rest)
     (bindp (pg_atomic_read_u32 i) (\<lambda>w.
     thenp (assertp (wakeup = [] \<or> w AND LW_FLAG_HAS_WAITERS \<noteq> 0))
     (bindp (pg_atomic_read_u32 i) (\<lambda>old_state.
     thenp (with_fuel (\<lambda>n. update_loop n i (wakeup_state new_release_ok wakeup) old_state))
     (eachp awaken wakeup))))))))"

subsection \<open>Joining and leaving the queue\<close>

definition LWLockQueueSelf :: "nat \<Rightarrow> LWLockMode \<Rightarrow> (backend, unit) prog" where
  "LWLockQueueSelf i mode =
     bindp (gets MyProc) (\<lambda>m. case m of
       None \<Rightarrow> throw (Panic ''cannot wait without a PGPROC structure'')
     | Some p \<Rightarrow>
         bindp (proc_at p) (\<lambda>P.
         if lwWaiting P then throw (Panic ''queueing for lock while waiting on another one'')
         else
           thenp (LWLockWaitListLock i)
           (bindp (pg_atomic_fetch_or_u32 i LW_FLAG_HAS_WAITERS) (\<lambda>_.
           thenp (update_proc p (\<lambda>P. P\<lparr>lwWaiting := True, lwWaitMode := mode\<rparr>))
           (bindp (get_waiters i) (\<lambda>ps.
           thenp (set_waiters i (if mode = LW_WAIT_UNTIL_FREE then p # ps else ps @ [p]))
           (LWLockWaitListUnlock i)))))))"

definition LWLockDequeueSelf :: "nat \<Rightarrow> (backend, unit) prog" where
  "LWLockDequeueSelf i =
     bindp my_proc (\<lambda>p.
     thenp (LWLockWaitListLock i)
     (bindp (get_waiters i) (\<lambda>ps.
     let found = (p \<in> set ps); ps = remove1 p ps in
     thenp (set_waiters i ps)
     (bindp (if ps = [] then bindp (pg_atomic_read_u32 i) (\<lambda>w. ret (w AND LW_FLAG_HAS_WAITERS \<noteq> 0))
             else ret False) (\<lambda>clear.
     thenp (whenp clear (thenp (pg_atomic_fetch_and_u32 i (NOT LW_FLAG_HAS_WAITERS)) (ret ())))
     (thenp (LWLockWaitListUnlock i)
     (if found then update_proc p (\<lambda>P. P\<lparr>lwWaiting := False\<rparr>)
      else
        thenp (pg_atomic_fetch_or_u32 i LW_FLAG_RELEASE_OK)
        (bindp (wait_woken p 0) (\<lambda>extraWaits.
        timesp extraWaits (PGSemaphoreUnlock p))))))))))"

subsection \<open>Acquiring a lock\<close>

definition HOLD_INTERRUPTS :: "(backend, unit) prog" where
  "HOLD_INTERRUPTS = modify (\<lambda>s. s\<lparr>InterruptHoldoffCount := InterruptHoldoffCount s + 1\<rparr>)"

definition RESUME_INTERRUPTS :: "(backend, unit) prog" where
  "RESUME_INTERRUPTS =
     bindp (gets InterruptHoldoffCount) (\<lambda>c.
     thenp (assertp (c > 0))
     (modify (\<lambda>s. s\<lparr>InterruptHoldoffCount := InterruptHoldoffCount s - 1\<rparr>)))"

definition remember_lock :: "nat \<Rightarrow> LWLockMode \<Rightarrow> (backend, unit) prog" where
  "remember_lock i mode = modify (\<lambda>s. s\<lparr>held_lwlocks := held_lwlocks s @ [(i, mode)]\<rparr>)"

definition ensure_room :: "(backend, unit) prog" where
  "ensure_room = bindp (gets held_lwlocks) (\<lambda>hs.
     if length hs \<ge> MAX_SIMUL_LWLOCKS then throw (Ereport ''too many LWLocks taken'') else ret ())"

text \<open>The result of \<open>LWLockAcquire\<close> and the number of wakeups it has absorbed.\<close>

fun acquire_loop :: "nat \<Rightarrow> nat \<Rightarrow> LWLockMode \<Rightarrow> bool \<Rightarrow> nat \<Rightarrow> (backend, bool \<times> nat) prog" where
  "acquire_loop 0 i mode result extraWaits = throw Diverges"
| "acquire_loop (Suc n) i mode result extraWaits =
     bindp (LWLockAttemptLock i mode) (\<lambda>mustwait.
     if \<not> mustwait then ret (result, extraWaits)
     else
       thenp (LWLockQueueSelf i mode)
       (bindp (LWLockAttemptLock i mode) (\<lambda>mustwait.
       if \<not> mustwait then thenp (LWLockDequeueSelf i) (ret (result, extraWaits))
       else
         bindp my_proc (\<lambda>p.
         bindp (wait_woken p extraWaits) (\<lambda>extraWaits.
         thenp (pg_atomic_fetch_or_u32 i LW_FLAG_RELEASE_OK)
         (acquire_loop n i mode False extraWaits))))))"

definition fix_semaphore :: "nat \<Rightarrow> (backend, unit) prog" where
  "fix_semaphore extraWaits =
     (if extraWaits = 0 then ret ()
      else bindp my_proc (\<lambda>p. timesp extraWaits (PGSemaphoreUnlock p)))"

definition LWLockAcquire :: "nat \<Rightarrow> LWLockMode \<Rightarrow> (backend, bool) prog" where
  "LWLockAcquire i mode =
     thenp (assertp (mode = LW_SHARED \<or> mode = LW_EXCLUSIVE))
     (bindp (gets (\<lambda>s. MyProc s = None \<and> IsUnderPostmaster s)) (\<lambda>bad.
     thenp (assertp (\<not> bad))
     (thenp ensure_room
     (thenp HOLD_INTERRUPTS
     (bindp (with_fuel (\<lambda>n. acquire_loop n i mode True 0)) (\<lambda>(result, extraWaits).
     thenp (remember_lock i mode)
     (thenp (fix_semaphore extraWaits)
     (ret result))))))))"

definition LWLockConditionalAcquire :: "nat \<Rightarrow> LWLockMode \<Rightarrow> (backend, bool) prog" where
  "LWLockConditionalAcquire i mode =
     thenp (assertp (mode = LW_SHARED \<or> mode = LW_EXCLUSIVE))
     (thenp ensure_room
     (thenp HOLD_INTERRUPTS
     (bindp (LWLockAttemptLock i mode) (\<lambda>mustwait.
     thenp (if mustwait then RESUME_INTERRUPTS else remember_lock i mode)
     (ret (\<not> mustwait))))))"

definition LWLockAcquireOrWait :: "nat \<Rightarrow> LWLockMode \<Rightarrow> (backend, bool) prog" where
  "LWLockAcquireOrWait i mode =
     thenp (assertp (mode = LW_SHARED \<or> mode = LW_EXCLUSIVE))
     (thenp ensure_room
     (thenp HOLD_INTERRUPTS
     (bindp (LWLockAttemptLock i mode) (\<lambda>mustwait.
     bindp (if mustwait then
              thenp (LWLockQueueSelf i LW_WAIT_UNTIL_FREE)
              (bindp (LWLockAttemptLock i mode) (\<lambda>mustwait.
              if mustwait then
                bindp my_proc (\<lambda>p.
                bindp (wait_woken p 0) (\<lambda>extraWaits. ret (True, extraWaits)))
              else thenp (LWLockDequeueSelf i) (ret (False, 0))))
            else ret (False, 0)) (\<lambda>(mustwait, extraWaits).
     thenp (fix_semaphore extraWaits)
     (thenp (if mustwait then RESUME_INTERRUPTS else remember_lock i mode)
     (ret (\<not> mustwait))))))))"

subsection \<open>Waiting for a variable\<close>

definition read_var :: "nat \<Rightarrow> (backend, uint64) prog" where
  "read_var v = bindp (peek lwvars) (\<lambda>vs. if v < length vs then ret (vs ! v) else throw OutOfBounds)"

definition write_var :: "nat \<Rightarrow> uint64 \<Rightarrow> (backend, unit) prog" where
  "write_var v x = bindp (peek lwvars) (\<lambda>vs.
     if v < length vs then modify (\<lambda>s. s\<lparr>shm := (shm s)\<lparr>lwvars := (lwvars (shm s))[v := x]\<rparr>\<rparr>)
     else throw OutOfBounds)"

text \<open>Whether the caller must wait, \<open>*result\<close>, and what is stored in \<open>*newval\<close>, if anything is.\<close>

definition LWLockConflictsWithVar ::
  "nat \<Rightarrow> nat \<Rightarrow> uint64 \<Rightarrow> (backend, bool \<times> bool \<times> uint64 option) prog"
where
  "LWLockConflictsWithVar i valptr oldval =
     bindp (pg_atomic_read_u32 i) (\<lambda>w.
     if w AND LW_VAL_EXCLUSIVE = 0 then ret (False, True, None)
     else
       thenp (LWLockWaitListLock i)
       (bindp (read_var valptr) (\<lambda>value.
       thenp (LWLockWaitListUnlock i)
       (if value \<noteq> oldval then ret (False, False, Some value) else ret (True, False, None)))))"

fun wait_for_var_loop ::
  "nat \<Rightarrow> nat \<Rightarrow> nat \<Rightarrow> uint64 \<Rightarrow> nat \<Rightarrow> (backend, bool \<times> uint64 option \<times> nat) prog"
where
  "wait_for_var_loop 0 i valptr oldval extraWaits = throw Diverges"
| "wait_for_var_loop (Suc n) i valptr oldval extraWaits =
     bindp (LWLockConflictsWithVar i valptr oldval) (\<lambda>(mustwait, result, newval).
     if \<not> mustwait then ret (result, newval, extraWaits)
     else
       thenp (LWLockQueueSelf i LW_WAIT_UNTIL_FREE)
       (thenp (pg_atomic_fetch_or_u32 i LW_FLAG_RELEASE_OK)
       (bindp (LWLockConflictsWithVar i valptr oldval) (\<lambda>(mustwait, result, newval).
       if \<not> mustwait then thenp (LWLockDequeueSelf i) (ret (result, newval, extraWaits))
       else
         bindp my_proc (\<lambda>p.
         bindp (wait_woken p extraWaits) (\<lambda>extraWaits.
         wait_for_var_loop n i valptr oldval extraWaits))))))"

definition LWLockWaitForVar :: "nat \<Rightarrow> nat \<Rightarrow> uint64 \<Rightarrow> (backend, bool \<times> uint64 option) prog" where
  "LWLockWaitForVar i valptr oldval =
     thenp HOLD_INTERRUPTS
     (bindp (with_fuel (\<lambda>n. wait_for_var_loop n i valptr oldval 0)) (\<lambda>(result, newval, extraWaits).
     thenp (fix_semaphore extraWaits)
     (thenp RESUME_INTERRUPTS
     (ret (result, newval)))))"

definition LWLockUpdateVar :: "nat \<Rightarrow> nat \<Rightarrow> uint64 \<Rightarrow> (backend, unit) prog" where
  "LWLockUpdateVar i valptr val =
     thenp (LWLockWaitListLock i)
     (bindp (pg_atomic_read_u32 i) (\<lambda>w.
     thenp (assertp (w AND LW_VAL_EXCLUSIVE \<noteq> 0))
     (thenp (write_var valptr val)
     (bindp (get_waiters i) (\<lambda>ps.
     bindp (gets (allProcs \<circ> shm)) (\<lambda>procs.
     if \<not> list_all (\<lambda>p. p < length procs) ps then throw OutOfBounds else
     let until_free = (\<lambda>p. lwWaitMode (procs ! p) = LW_WAIT_UNTIL_FREE) in
     thenp (set_waiters i (dropWhile until_free ps))
     (thenp (LWLockWaitListUnlock i)
     (eachp awaken (takeWhile until_free ps)))))))))"

subsection \<open>Releasing a lock\<close>

text \<open>The search of \<open>held_lwlocks\<close> from its end, and closing the gap.\<close>

fun find_held :: "nat \<Rightarrow> nat \<Rightarrow> (nat \<times> LWLockMode) list \<Rightarrow> nat option" where
  "find_held 0 i hs = None"
| "find_held (Suc n) i hs = (if fst (hs ! n) = i then Some n else find_held n i hs)"

definition LWLockRelease :: "nat \<Rightarrow> (backend, unit) prog" where
  "LWLockRelease i =
     bindp (gets held_lwlocks) (\<lambda>hs.
     case find_held (length hs) i hs of
       None \<Rightarrow> throw (Ereport ''lock is not held'')
     | Some k \<Rightarrow>
         let mode = snd (hs ! k) in
         thenp (modify (\<lambda>s. s\<lparr>held_lwlocks := take k hs @ drop (Suc k) hs\<rparr>))
         (bindp (pg_atomic_sub_fetch_u32 i (lock_value mode)) (\<lambda>oldstate.
         thenp (assertp (oldstate AND LW_VAL_EXCLUSIVE = 0))
         (let check_waiters =
                (oldstate AND (LW_FLAG_HAS_WAITERS OR LW_FLAG_RELEASE_OK) =
                   LW_FLAG_HAS_WAITERS OR LW_FLAG_RELEASE_OK \<and>
                 oldstate AND LW_LOCK_MASK = 0) in
         thenp (whenp check_waiters (LWLockWakeup i))
         RESUME_INTERRUPTS))))"

definition LWLockReleaseClearVar :: "nat \<Rightarrow> nat \<Rightarrow> uint64 \<Rightarrow> (backend, unit) prog" where
  "LWLockReleaseClearVar i valptr val =
     thenp (LWLockWaitListLock i)
     (thenp (write_var valptr val)
     (thenp (LWLockWaitListUnlock i)
     (LWLockRelease i)))"

fun release_all_loop :: "nat \<Rightarrow> (backend, unit) prog" where
  "release_all_loop n =
     bindp (gets held_lwlocks) (\<lambda>hs.
     if hs = [] then ret ()
     else case n of 0 \<Rightarrow> throw Diverges | Suc n \<Rightarrow>
       thenp HOLD_INTERRUPTS
       (thenp (LWLockRelease (fst (last hs)))
       (release_all_loop n)))"

definition LWLockReleaseAll :: "(backend, unit) prog" where
  "LWLockReleaseAll = bindp (gets held_lwlocks) (\<lambda>hs. release_all_loop (length hs))"

definition LWLockHeldByMe :: "nat \<Rightarrow> (backend, bool) prog" where
  "LWLockHeldByMe l = gets (\<lambda>s. list_ex (\<lambda>(i, mode). i = l) (held_lwlocks s))"

definition LWLockHeldByMeInMode :: "nat \<Rightarrow> LWLockMode \<Rightarrow> (backend, bool) prog" where
  "LWLockHeldByMeInMode l mode =
     gets (\<lambda>s. list_ex (\<lambda>(i, m). i = l \<and> m = mode) (held_lwlocks s))"

end
