(* ===== verification/LWLockFacts.thy ===== *)
theory LWLockFacts
  imports LWLock
begin

text \<open>
  Facts about lightweight locks: the atomic operations, that trying to take a lock is one
  indivisible step however the other backends interfere, the queue that a release wakes up, and
  acquiring and releasing by a backend that runs alone.
\<close>

declare release_all_loop.simps [simp del]

subsection \<open>Locks in the state\<close>

abbreviation locks :: "backend \<Rightarrow> LWLock list" where
  "locks s \<equiv> MainLWLockArray (shm s)"

abbreviation word_of :: "nat \<Rightarrow> backend \<Rightarrow> uint32" where
  "word_of i s \<equiv> state (locks s ! i)"

definition set_lock :: "nat \<Rightarrow> LWLock \<Rightarrow> backend \<Rightarrow> backend" where
  "set_lock i L s = s\<lparr>shm := (shm s)\<lparr>MainLWLockArray := (locks s)[i := L]\<rparr>\<rparr>"

definition set_word :: "nat \<Rightarrow> uint32 \<Rightarrow> backend \<Rightarrow> backend" where
  "set_word i w s = set_lock i ((locks s ! i)\<lparr>state := w\<rparr>) s"

lemma set_lock_simps [simp]:
  "env (set_lock i L s) = env s" "locks (set_lock i L s) = (locks s)[i := L]"
  "allProcs (shm (set_lock i L s)) = allProcs (shm s)" "lwvars (shm (set_lock i L s)) = lwvars (shm s)"
  "GlobalBitmap (shm (set_lock i L s)) = GlobalBitmap (shm s)"
  "MyProc (set_lock i L s) = MyProc s" "held_lwlocks (set_lock i L s) = held_lwlocks s"
  "InterruptHoldoffCount (set_lock i L s) = InterruptHoldoffCount s"
  "IsUnderPostmaster (set_lock i L s) = IsUnderPostmaster s"
  "heap (set_lock i L s) = heap s" "migrateflag (set_lock i L s) = migrateflag s"
  "BitmapNum (set_lock i L s) = BitmapNum s" "PartialBitmap (set_lock i L s) = PartialBitmap s"
  "tuplemigratecount (set_lock i L s) = tuplemigratecount s"
  "InProgLocalList0 (set_lock i L s) = InProgLocalList0 s"
  "InProgLocalList1 (set_lock i L s) = InProgLocalList1 s"
  by (simp_all add: set_lock_def)

lemma set_word_simps [simp]:
  "env (set_word i w s) = env s"
  "locks (set_word i w s) = (locks s)[i := (locks s ! i)\<lparr>state := w\<rparr>]"
  "allProcs (shm (set_word i w s)) = allProcs (shm s)" "lwvars (shm (set_word i w s)) = lwvars (shm s)"
  "GlobalBitmap (shm (set_word i w s)) = GlobalBitmap (shm s)"
  "MyProc (set_word i w s) = MyProc s" "held_lwlocks (set_word i w s) = held_lwlocks s"
  "InterruptHoldoffCount (set_word i w s) = InterruptHoldoffCount s"
  "IsUnderPostmaster (set_word i w s) = IsUnderPostmaster s"
  "heap (set_word i w s) = heap s" "migrateflag (set_word i w s) = migrateflag s"
  "BitmapNum (set_word i w s) = BitmapNum s" "PartialBitmap (set_word i w s) = PartialBitmap s"
  "tuplemigratecount (set_word i w s) = tuplemigratecount s"
  "InProgLocalList0 (set_word i w s) = InProgLocalList0 s"
  "InProgLocalList1 (set_word i w s) = InProgLocalList1 s"
  by (simp_all add: set_word_def)

lemma set_word_same [simp]: "i < length (locks s) \<Longrightarrow> set_word i (word_of i s) s = s"
  by (simp add: set_word_def set_lock_def)

lemma set_lock_twice [simp]: "set_lock i L (set_lock i M s) = set_lock i L s"
  by (simp add: set_lock_def)

lemma set_word_twice [simp]: "i < length (locks s) \<Longrightarrow> set_word i v (set_word i w s) = set_word i v s"
  by (simp add: set_word_def)

subsection \<open>Atomic operations\<close>

lemma wp_lock_at [wp_simps]:
  "wp (lock_at i) Q E s = (if i < length (locks s) then Q (locks s ! i) s else E OutOfBounds s)"
  by (simp add: lock_at_def wp_simps)

lemma wp_put_lock [wp_simps]: "wp (put_lock i L) Q E s = Q () (set_lock i L s)"
  by (simp add: put_lock_def set_lock_def wp_simps)

lemma wp_read [wp_simps]:
  "wp (pg_atomic_read_u32 i) Q E s =
     (if i < length (locks (others s)) then Q (word_of i (others s)) (others s)
      else E OutOfBounds (others s))"
  by (simp add: pg_atomic_read_u32_def wp_simps)

lemma wp_atomic_update [wp_simps]:
  "wp (atomic_update i f) Q E s =
     (let t = others s in
      if i < length (locks t) then Q (word_of i t) (set_word i (f (word_of i t)) t)
      else E OutOfBounds t)"
  by (simp add: atomic_update_def set_word_def Let_def wp_simps)

lemma wp_cas [wp_simps]:
  "wp (pg_atomic_compare_exchange_u32 i old new) Q E s =
     (let t = others s in
      if i < length (locks t)
      then (if word_of i t = old then Q (True, old) (set_word i new t) else Q (False, word_of i t) t)
      else E OutOfBounds t)"
  by (simp add: pg_atomic_compare_exchange_u32_def set_word_def Let_def wp_simps)

lemmas atomic_defs = pg_atomic_fetch_or_u32_def pg_atomic_fetch_and_u32_def
  pg_atomic_sub_fetch_u32_def

lemma wp_with_fuel [wp_simps]: "wp (with_fuel f) Q E s = wp (f (Suc (length (env s)))) Q E s"
  by (simp add: with_fuel_def wp_simps)

text \<open>The lock \<open>i\<close> is there at every moment.\<close>

definition lock_stays :: "nat \<Rightarrow> backend \<Rightarrow> bool" where
  "lock_stays i s \<longleftrightarrow> (\<forall>k. i < length (locks ((others ^^ k) s)))"

lemma lock_stays_now: "lock_stays i s \<Longrightarrow> i < length (locks s)"
  unfolding lock_stays_def by (metis funpow_0)

lemma lock_stays_others [intro]: "lock_stays i s \<Longrightarrow> lock_stays i (others s)"
  unfolding lock_stays_def by (metis funpow_Suc_right comp_apply)

lemma lock_stays_alone: "env s = [] \<Longrightarrow> i < length (locks s) \<Longrightarrow> lock_stays i s"
proof -
  assume e: "env s = []" and i: "i < length (locks s)"
  have "(others ^^ k) s = s" for k using e by (induction k) simp_all
  with i show ?thesis by (simp add: lock_stays_def)
qed

subsection \<open>Trying to take a lock is one step\<close>

lemma attempt_loop_one_step:
  assumes "length (env s) < n" and "old = word_of i s" and "lock_stays i s"
  shows "\<exists>k. let t = (others ^^ k) s; free = lock_free mode (word_of i t) in
           attempt_loop n i mode old s =
             (Inr (\<not> free), set_word i (if free then word_of i t + lock_value mode else word_of i t) t)"
  using assms
proof (induction n arbitrary: s old)
  case 0
  then show ?case by simp
next
  case (Suc n)
  let ?t = "others s"
  have i: "i < length (locks ?t)" using Suc.prems(3) lock_stays_now by blast
  show ?case
  proof (cases "word_of i ?t = old")
    case True
    let ?new = "if lock_free mode old then old + lock_value mode else old"
    have "attempt_loop (Suc n) i mode old s = (Inr (\<not> lock_free mode old), set_word i ?new ?t)"
      using i True
      by (simp add: bindp_def thenp_def ret_def interfere_def modify_def lock_at_def gets_def put_lock_def
          pg_atomic_compare_exchange_u32_def set_word_def set_lock_def)
    with True show ?thesis by (intro exI [of _ 1]) simp
  next
    case False
    then have ne: "env s \<noteq> []" using Suc.prems(2) by auto
    have "attempt_loop (Suc n) i mode old s = attempt_loop n i mode (word_of i ?t) ?t"
      using i False
      by (simp add: bindp_def thenp_def ret_def interfere_def modify_def lock_at_def gets_def
          pg_atomic_compare_exchange_u32_def Let_def)
    moreover have "length (env ?t) < n" using ne Suc.prems(1) by (cases "env s") auto
    moreover have "lock_stays i ?t" using Suc.prems(3) by blast
    ultimately obtain k where "let t = (others ^^ k) ?t; free = lock_free mode (word_of i t) in
           attempt_loop (Suc n) i mode old s =
             (Inr (\<not> free), set_word i (if free then word_of i t + lock_value mode else word_of i t) t)"
      using Suc.IH [of ?t "word_of i ?t"] by auto
    then show ?thesis by (intro exI [of _ "Suc k"]) (simp add: funpow_swap1)
  qed
qed

lemma attempt_one_step:
  assumes "mode \<noteq> LW_WAIT_UNTIL_FREE" and "lock_stays i s"
  shows "\<exists>k. let t = (others ^^ k) s; free = lock_free mode (word_of i t) in
           LWLockAttemptLock i mode s =
             (Inr (\<not> free), set_word i (if free then word_of i t + lock_value mode else word_of i t) t)"
proof -
  let ?t = "others s"
  have i: "i < length (locks ?t)" using assms(2) lock_stays_now by blast
  have m: "mode = LW_EXCLUSIVE \<or> mode = LW_SHARED" using assms(1) by (cases mode) auto
  have "LWLockAttemptLock i mode s = attempt_loop (Suc (length (env ?t))) i mode (word_of i ?t) ?t"
    using i m
    by (simp add: LWLockAttemptLock_def assertp_def with_fuel_def pg_atomic_read_u32_def bindp_def
        thenp_def ret_def interfere_def modify_def lock_at_def gets_def del: attempt_loop.simps)
  moreover obtain k where "let t = (others ^^ k) ?t; free = lock_free mode (word_of i t) in
       attempt_loop (Suc (length (env ?t))) i mode (word_of i ?t) ?t =
         (Inr (\<not> free), set_word i (if free then word_of i t + lock_value mode else word_of i t) t)"
    using attempt_loop_one_step [of ?t "Suc (length (env ?t))" "word_of i ?t" i mode] assms(2) by blast
  ultimately show ?thesis by (intro exI [of _ "Suc k"]) (simp add: funpow_swap1)
qed

subsection \<open>A backend that runs alone\<close>

lemma attempt_alone:
  assumes "env s = []" and "i < length (locks s)" and "mode \<noteq> LW_WAIT_UNTIL_FREE"
  shows "LWLockAttemptLock i mode s =
           (if lock_free mode (word_of i s)
            then (Inr False, set_word i (word_of i s + lock_value mode) s) else (Inr True, s))"
proof -
  have "(others ^^ k) s = s" for k using assms(1) by (induction k) simp_all
  then show ?thesis
    using attempt_one_step [OF assms(3) lock_stays_alone [OF assms(1,2)]] assms(2)
    by (auto simp: Let_def split: if_splits)
qed

lemma wp_attempt_alone:
  assumes "env s = []" and "i < length (locks s)" and "mode \<noteq> LW_WAIT_UNTIL_FREE"
  shows "wp (LWLockAttemptLock i mode) Q E s =
           (if lock_free mode (word_of i s) then Q False (set_word i (word_of i s + lock_value mode) s)
            else Q True s)"
  by (simp add: wp_def attempt_alone [OF assms])

lemma acquire_free_alone:
  assumes "env s = []" and "i < length (locks s)" and "mode \<noteq> LW_WAIT_UNTIL_FREE"
    and "lock_free mode (word_of i s)" and "length (held_lwlocks s) < MAX_SIMUL_LWLOCKS"
    and "MyProc s \<noteq> None"
  shows "LWLockAcquire i mode s =
    (Inr True, (set_word i (word_of i s + lock_value mode) s)
       \<lparr>held_lwlocks := held_lwlocks s @ [(i, mode)],
        InterruptHoldoffCount := InterruptHoldoffCount s + 1\<rparr>)"
proof -
  have m: "mode = LW_SHARED \<or> mode = LW_EXCLUSIVE" using assms(3) by (cases mode) auto
  show ?thesis
    unfolding wp_Inr
    using assms m
    by (simp add: LWLockAcquire_def wp_simps ensure_room_def HOLD_INTERRUPTS_def remember_lock_def
        fix_semaphore_def wp_attempt_alone set_word_def set_lock_def)
qed

lemma wait_woken_alone:
  assumes "env s = []" and "p < length (allProcs (shm s))" and "lwWaiting (allProcs (shm s) ! p)"
  shows "\<exists>t. wait_woken p k s = (Inl Blocked, t) \<and> locks t = locks s \<and> held_lwlocks t = held_lwlocks s \<and>
           allProcs (shm t) ! p = (allProcs (shm s) ! p)\<lparr>sem := 0\<rparr>"
  using assms
proof (induction "sem (allProcs (shm s) ! p)" arbitrary: s k)
  case 0
  then show ?case by (simp add: wait_woken.simps [of p k s])
next
  case (Suc n)
  have n: "n = sem (allProcs (shm (take_count p s)) ! p)" using Suc by simp
  have "locks (take_count p s) = locks s" "held_lwlocks (take_count p s) = held_lwlocks s" by (simp_all add: take_count_def)
  with Suc.hyps(1) [OF n, of "Suc k"] Suc show ?case
    by (simp add: wait_woken.simps [of p k s])
qed

lemma waitlist_lock_alone:
  assumes "env s = []" and "i < length (locks s)" and "word_of i s AND LW_FLAG_LOCKED = 0"
  shows "wp (LWLockWaitListLock i) Q E s = Q () (set_word i (word_of i s OR LW_FLAG_LOCKED) s)"
  using assms by (simp add: LWLockWaitListLock_def wp_simps atomic_defs Let_def)

lemma wp_get_waiters [wp_simps]:
  "wp (get_waiters i) Q E s =
     (if i < length (locks (others s)) then Q (waiters (locks (others s) ! i)) (others s)
      else E OutOfBounds (others s))"
  by (simp add: get_waiters_def wp_simps)

lemma wp_set_waiters [wp_simps]:
  "wp (set_waiters i ps) Q E s =
     (if i < length (locks s) then Q () (set_lock i ((locks s ! i)\<lparr>waiters := ps\<rparr>) s)
      else E OutOfBounds s)"
  by (simp add: set_waiters_def wp_simps)

definition set_proc :: "nat \<Rightarrow> PGPROC \<Rightarrow> backend \<Rightarrow> backend" where
  "set_proc p P s = s\<lparr>shm := (shm s)\<lparr>allProcs := (allProcs (shm s))[p := P]\<rparr>\<rparr>"

lemma set_proc_simps [simp]:
  "env (set_proc p P s) = env s" "locks (set_proc p P s) = locks s"
  "allProcs (shm (set_proc p P s)) = (allProcs (shm s))[p := P]"
  "lwvars (shm (set_proc p P s)) = lwvars (shm s)"
  "GlobalBitmap (shm (set_proc p P s)) = GlobalBitmap (shm s)"
  "MyProc (set_proc p P s) = MyProc s" "held_lwlocks (set_proc p P s) = held_lwlocks s"
  "InterruptHoldoffCount (set_proc p P s) = InterruptHoldoffCount s"
  by (simp_all add: set_proc_def)

lemma wp_proc_at [wp_simps]:
  "wp (proc_at p) Q E s =
     (let t = others s in
      if p < length (allProcs (shm t)) then Q (allProcs (shm t) ! p) t else E OutOfBounds t)"
  by (simp add: proc_at_def wp_simps Let_def)

lemma wp_update_proc [wp_simps]:
  "wp (update_proc p f) Q E s =
     (let t = others s in
      if p < length (allProcs (shm t)) then Q () (set_proc p (f (allProcs (shm t) ! p)) t)
      else E OutOfBounds t)"
  by (simp add: update_proc_def set_proc_def wp_simps Let_def)

lemma wp_my_proc [wp_simps]:
  "wp my_proc Q E s = (case MyProc s of None \<Rightarrow> E NullDeref s | Some p \<Rightarrow> Q p s)"
  by (simp add: my_proc_def wp_simps split: option.splits)

subsection \<open>Flags as bits\<close>

lemma flag_tests:
  "w AND LW_FLAG_LOCKED = 0 \<longleftrightarrow> \<not> bit w 28" "w AND LW_FLAG_RELEASE_OK = 0 \<longleftrightarrow> \<not> bit w 29"
  "w AND LW_FLAG_HAS_WAITERS = 0 \<longleftrightarrow> \<not> bit w 30" "w AND LW_VAL_EXCLUSIVE = 0 \<longleftrightarrow> \<not> bit w 24"
  using and_push_one_nonzero [of w]
  unfolding LW_FLAG_LOCKED_def LW_FLAG_RELEASE_OK_def LW_FLAG_HAS_WAITERS_def LW_VAL_EXCLUSIVE_def
  by metis+

lemma both_flags:
  "w AND (LW_FLAG_HAS_WAITERS OR LW_FLAG_RELEASE_OK) = LW_FLAG_HAS_WAITERS OR LW_FLAG_RELEASE_OK
     \<longleftrightarrow> bit w 30 \<and> bit w 29"
proof
  assume "w AND (LW_FLAG_HAS_WAITERS OR LW_FLAG_RELEASE_OK) = LW_FLAG_HAS_WAITERS OR LW_FLAG_RELEASE_OK"
  then have "bit (w AND (LW_FLAG_HAS_WAITERS OR LW_FLAG_RELEASE_OK)) k =
      bit (LW_FLAG_HAS_WAITERS OR LW_FLAG_RELEASE_OK) k" for k by simp
  from this [of 30] this [of 29] show "bit w 30 \<and> bit w 29"
    by (simp_all add: bit_simps LW_FLAG_HAS_WAITERS_def LW_FLAG_RELEASE_OK_def)
next
  assume "bit w 30 \<and> bit w 29"
  then show "w AND (LW_FLAG_HAS_WAITERS OR LW_FLAG_RELEASE_OK) = LW_FLAG_HAS_WAITERS OR LW_FLAG_RELEASE_OK"
    by (intro bit_eqI)
      (auto simp: bit_and_iff bit_or_iff LW_FLAG_HAS_WAITERS_def LW_FLAG_RELEASE_OK_def bit_push_one)
qed

lemma flag_bits_after:
  "bit (w OR LW_FLAG_LOCKED) k \<longleftrightarrow> k = 28 \<or> bit w k"
  "bit (w AND NOT LW_FLAG_LOCKED) k \<longleftrightarrow> k \<noteq> 28 \<and> bit w k"
  "bit (w OR LW_FLAG_HAS_WAITERS) k \<longleftrightarrow> k = 30 \<or> bit w k"
  "bit (w AND NOT LW_FLAG_HAS_WAITERS) k \<longleftrightarrow> k \<noteq> 30 \<and> bit w k"
  "bit (w OR LW_FLAG_RELEASE_OK) k \<longleftrightarrow> k = 29 \<or> bit w k"
  "bit (w AND NOT LW_FLAG_RELEASE_OK) k \<longleftrightarrow> k \<noteq> 29 \<and> bit w k"
  unfolding LW_FLAG_LOCKED_def LW_FLAG_HAS_WAITERS_def LW_FLAG_RELEASE_OK_def
  by (simp_all add: bit_set_one bit_clear_one)

lemma lock_free_flags:
  "lock_free mode (w OR LW_FLAG_LOCKED) = lock_free mode w"
  "lock_free mode (w AND NOT LW_FLAG_LOCKED) = lock_free mode w"
  "lock_free mode (w OR LW_FLAG_HAS_WAITERS) = lock_free mode w"
proof -
  have mask: "v AND LW_LOCK_MASK = take_bit 25 v" for v
    by (simp add: LW_LOCK_MASK_def take_bit_eq_mask mask_eq_decr_exp push_bit_of_1)
  have same: "lock_free mode v = lock_free mode w" if "\<And>k. k < 25 \<Longrightarrow> bit v k = bit w k" for v
  proof -
    have "take_bit 25 v = take_bit 25 w"
      using that by (intro bit_eqI) (auto simp: bit_take_bit_iff)
    moreover have "bit v 24 = bit w 24" by (rule that) simp
    ultimately show ?thesis by (simp only: lock_free_def mask flag_tests)
  qed
  show "lock_free mode (w OR LW_FLAG_LOCKED) = lock_free mode w"
    "lock_free mode (w AND NOT LW_FLAG_LOCKED) = lock_free mode w"
    "lock_free mode (w OR LW_FLAG_HAS_WAITERS) = lock_free mode w"
    by (rule same; simp add: flag_bits_after)+
qed

subsection \<open>Joining the queue\<close>

text \<open>A backend that queues itself goes to the front if it only waits for the lock to become free, else to the back.\<close>

lemma queue_self_alone:
  assumes "env s = []" and "i < length (locks s)" and "MyProc s = Some p"
    and "p < length (allProcs (shm s))" and "\<not> lwWaiting (allProcs (shm s) ! p)"
    and "\<not> bit (word_of i s) 28"
  shows "wp (LWLockQueueSelf i mode) Q E s =
    Q () (set_lock i ((locks s ! i)\<lparr>
            waiters := (if mode = LW_WAIT_UNTIL_FREE then p # waiters (locks s ! i)
                        else waiters (locks s ! i) @ [p]),
            state := (((word_of i s OR LW_FLAG_LOCKED) OR LW_FLAG_HAS_WAITERS) AND NOT LW_FLAG_LOCKED)\<rparr>)
          (set_proc p ((allProcs (shm s) ! p)\<lparr>lwWaiting := True, lwWaitMode := mode\<rparr>) s))"
  using assms
  by (simp add: LWLockQueueSelf_def wp_simps waitlist_lock_alone flag_tests flag_bits_after
      atomic_defs LWLockWaitListUnlock_def Let_def set_word_def set_lock_def set_proc_def)

subsection \<open>Whom a release wakes up\<close>

text \<open>
  Waiters for the lock to become free are always woken. Of the others, the first in the queue
  decides: an exclusive locker is woken alone, a shared one with all shared lockers.
\<close>

lemma collect_wakeup_woken:
  "collect_wakeup mode_of ps True ok =
     (filter (\<lambda>p. mode_of p = LW_EXCLUSIVE) ps, filter (\<lambda>p. mode_of p \<noteq> LW_EXCLUSIVE) ps,
      ok \<and> (\<forall>p \<in> set ps. mode_of p \<noteq> LW_SHARED))"
proof (induction ps arbitrary: ok)
  case Nil
  then show ?case by simp
next
  case (Cons p ps)
  then show ?case by (cases "mode_of p") auto
qed

lemma collect_wakeup_eq:
  assumes "\<forall>p \<in> set us. mode_of p = LW_WAIT_UNTIL_FREE"
  shows "collect_wakeup mode_of us False True = ([], us, True)"
    and "mode_of q = LW_EXCLUSIVE \<Longrightarrow>
      collect_wakeup mode_of (us @ q # ps) False True = (ps, us @ [q], False)"
    and "mode_of q = LW_SHARED \<Longrightarrow>
      collect_wakeup mode_of (us @ q # ps) False True =
        (filter (\<lambda>p. mode_of p = LW_EXCLUSIVE) ps,
         us @ q # filter (\<lambda>p. mode_of p \<noteq> LW_EXCLUSIVE) ps, False)"
  using assms by (induction us) (auto simp: collect_wakeup_woken)

text \<open>Somebody is woken whenever somebody waits.\<close>

lemma collect_wakeup_first:
  "collect_wakeup mode_of (p # ps) False True = (rest, wakeup, ok) \<Longrightarrow> \<exists>ws. wakeup = p # ws"
  by (auto split: if_splits prod.splits)

lemma collect_wakeup_perm:
  "collect_wakeup mode_of ps b ok = (rest, wakeup, ok') \<Longrightarrow>
     set ps = set rest \<union> set wakeup \<and> (distinct ps \<longrightarrow> distinct (rest @ wakeup))"
proof (induction ps arbitrary: b ok rest wakeup ok')
  case Nil
  then show ?case by simp
next
  case (Cons p ps)
  show ?case
  proof (cases "b \<and> mode_of p = LW_EXCLUSIVE")
    case True
    then obtain r where "rest = p # r" "collect_wakeup mode_of ps b ok = (r, wakeup, ok')"
      using Cons.prems by (auto split: prod.splits)
    with Cons.IH show ?thesis by fastforce
  next
    case False
    show ?thesis
    proof (cases "mode_of p = LW_EXCLUSIVE")
      case True
      with False Cons.prems show ?thesis by auto
    next
      case ne: False
      then obtain w b' ok1 where "wakeup = p # w" "collect_wakeup mode_of ps b' ok1 = (rest, w, ok')"
        using False Cons.prems by (auto simp: Let_def split: prod.splits)
      with Cons.IH show ?thesis by fastforce
    qed
  qed
qed

subsection \<open>Releasing a lock\<close>

lemma find_held_None: "find_held n i hs = None \<longleftrightarrow> (\<forall>k < n. fst (hs ! k) \<noteq> i)"
  by (induction n) (auto simp: less_Suc_eq)

lemma find_held_Some:
  "find_held n i hs = Some k \<Longrightarrow> k < n \<and> fst (hs ! k) = i \<and> (\<forall>j. k < j \<and> j < n \<longrightarrow> fst (hs ! j) \<noteq> i)"
  by (induction n) (auto simp: less_Suc_eq split: if_splits)

lemma find_held_last: "find_held (length (hs @ [(i, mode)])) i (hs @ [(i, mode)]) = Some (length hs)"
  by simp

text \<open>The state word after the release, and whether somebody is to be woken.\<close>

definition released_word :: "nat \<Rightarrow> LWLockMode \<Rightarrow> backend \<Rightarrow> uint32" where
  "released_word i mode s = word_of i s - lock_value mode"

definition must_wake :: "uint32 \<Rightarrow> bool" where
  "must_wake w \<longleftrightarrow> bit w 30 \<and> bit w 29 \<and> lock_free LW_EXCLUSIVE w"

lemma release_quiet:
  assumes "env s = []" and "i < length (locks s)" and "held_lwlocks s = hs @ [(i, mode)]"
    and "\<not> bit (released_word i mode s) 24" and "\<not> must_wake (released_word i mode s)"
    and "0 < InterruptHoldoffCount s"
  shows "LWLockRelease i s =
    (Inr (), (set_word i (released_word i mode s) s)
       \<lparr>held_lwlocks := hs, InterruptHoldoffCount := InterruptHoldoffCount s - 1\<rparr>)"
  unfolding wp_Inr using assms
  by (auto simp: LWLockRelease_def wp_simps atomic_defs Let_def released_word_def must_wake_def
      flag_tests both_flags RESUME_INTERRUPTS_def lock_free_def set_word_def set_lock_def)

subsection \<open>A release that wakes waiters\<close>

definition awoken :: "nat \<Rightarrow> backend \<Rightarrow> backend" where
  "awoken p s = set_proc p ((allProcs (shm s) ! p)\<lparr>lwWaiting := False, sem := sem (allProcs (shm s) ! p) + 1\<rparr>) s"

lemma awoken_simps [simp]:
  "env (awoken p s) = env s" "locks (awoken p s) = locks s"
  "length (allProcs (shm (awoken p s))) = length (allProcs (shm s))"
  "held_lwlocks (awoken p s) = held_lwlocks s"
  "InterruptHoldoffCount (awoken p s) = InterruptHoldoffCount s"
  by (simp_all add: awoken_def)

lemma fold_awoken_simps [simp]:
  "env (fold awoken ps s) = env s" "locks (fold awoken ps s) = locks s"
  "length (allProcs (shm (fold awoken ps s))) = length (allProcs (shm s))"
  "held_lwlocks (fold awoken ps s) = held_lwlocks s"
  "InterruptHoldoffCount (fold awoken ps s) = InterruptHoldoffCount s"
  by (induction ps arbitrary: s) simp_all

lemma awoken_proc:
  "q < length (allProcs (shm s)) \<Longrightarrow> allProcs (shm (awoken q s)) ! p =
     (let P = allProcs (shm s) ! p in
      if p = q then P\<lparr>lwWaiting := False, sem := sem P + 1\<rparr> else P)"
  by (simp add: awoken_def Let_def)

lemma fold_awoken_proc:
  assumes "distinct ps" and "\<forall>q \<in> set ps. q < length (allProcs (shm s))"
  shows "allProcs (shm (fold awoken ps s)) ! p =
    (let P = allProcs (shm s) ! p in
     if p \<in> set ps then P\<lparr>lwWaiting := False, sem := sem P + 1\<rparr> else P)"
  using assms
proof (induction ps arbitrary: s)
  case Nil
  then show ?case by simp
next
  case (Cons q ps)
  then have "allProcs (shm (fold awoken ps (awoken q s))) ! p =
    (let P = allProcs (shm (awoken q s)) ! p in
     if p \<in> set ps then P\<lparr>lwWaiting := False, sem := sem P + 1\<rparr> else P)"
    by simp
  then show ?case using Cons.prems by (auto simp: awoken_proc Let_def)
qed

lemma each_awaken_alone:
  assumes "env s = []" and "\<forall>p \<in> set ps. p < length (allProcs (shm s))"
  shows "wp (eachp awaken ps) Q E s = Q () (fold awoken ps s)"
  using assms
proof (induction ps arbitrary: s)
  case Nil
  then show ?case by (simp add: wp_simps)
next
  case (Cons p ps)
  have "wp (awaken p) R E s = R () (awoken p s)" for R
    using Cons.prems
    by (simp add: awaken_def PGSemaphoreUnlock_def wp_simps awoken_def set_proc_def)
  with Cons show ?case by (simp add: wp_simps)
qed

text \<open>The lock after its waiters have been taken out and the flags set.\<close>

definition woken_lock :: "PGPROC list \<Rightarrow> LWLock \<Rightarrow> LWLock \<times> nat list" where
  "woken_lock procs L =
     (case collect_wakeup (\<lambda>p. lwWaitMode (procs ! p)) (waiters L) False True of
        (rest, wakeup, ok) \<Rightarrow>
          (L\<lparr>waiters := rest, state := wakeup_state ok wakeup (state L OR LW_FLAG_LOCKED)\<rparr>, wakeup))"

lemma wakeup_alone:
  assumes e: "env s = []" and i: "i < length (locks s)" and w: "\<not> bit (word_of i s) 28" "bit (word_of i s) 30"
    and ps: "\<forall>p \<in> set (waiters (locks s ! i)). p < length (allProcs (shm s))"
    and wl: "woken_lock (allProcs (shm s)) (locks s ! i) = (L, ws)"
  shows "wp (LWLockWakeup i) Q E s = Q () (fold awoken ws (set_lock i L s))"
proof -
  obtain rest wakeup ok where c: "collect_wakeup (\<lambda>p. lwWaitMode (allProcs (shm s) ! p))
      (waiters (locks s ! i)) False True = (rest, wakeup, ok)"
    using prod_cases3 by blast
  then have L: "L = (locks s ! i)\<lparr>waiters := rest,
      state := wakeup_state ok wakeup (word_of i s OR LW_FLAG_LOCKED)\<rparr>" and ws: "ws = wakeup"
    using wl by (auto simp: woken_lock_def)
  have "\<forall>p \<in> set wakeup. p < length (allProcs (shm s))"
    using collect_wakeup_perm [OF c] ps by blast
  then show ?thesis
    using e i w ps c
    by (simp add: LWLockWakeup_def wp_simps waitlist_lock_alone flag_tests flag_bits_after
        list_all_iff each_awaken_alone L ws set_word_def)
qed

lemma release_wakes:
  assumes "env s = []" and "i < length (locks s)" and "held_lwlocks s = hs @ [(i, mode)]"
    and "\<not> bit (released_word i mode s) 24" and "must_wake (released_word i mode s)"
    and "\<not> bit (released_word i mode s) 28" and "0 < InterruptHoldoffCount s"
    and "\<forall>p \<in> set (waiters (locks s ! i)). p < length (allProcs (shm s))"
    and "woken_lock (allProcs (shm s)) ((locks s ! i)\<lparr>state := released_word i mode s\<rparr>) = (L, ws)"
  shows "wp (LWLockRelease i) (\<lambda>_ t. held_lwlocks t = hs \<and> locks t = (locks s)[i := L] \<and>
           allProcs (shm t) = allProcs (shm (fold awoken ws s)) \<and>
           InterruptHoldoffCount t = InterruptHoldoffCount s - 1) (\<lambda>_ _. False) s"
proof -
  let ?w = "released_word i mode s"
  let ?s1 = "set_word i ?w (s\<lparr>held_lwlocks := hs\<rparr>)"
  have procs: "allProcs (shm (fold awoken ws t)) = allProcs (shm (fold awoken ws s))"
    if "allProcs (shm t) = allProcs (shm s)" for t
    using that by (induction ws arbitrary: t s) (simp_all add: awoken_def)
  have "wp (LWLockWakeup i) Q E ?s1 = Q () (fold awoken ws (set_lock i L ?s1))" for Q E
    by (rule wakeup_alone) (use assms in \<open>simp_all add: must_wake_def\<close>)
  then show ?thesis
    using assms(1-7) procs [of "set_lock i L ?s1"]
    by (simp add: LWLockRelease_def wp_simps atomic_defs Let_def released_word_def must_wake_def
        flag_tests both_flags RESUME_INTERRUPTS_def lock_free_def)
qed

end
