(* ===== verification/LWLockInit.thy ===== *)
theory LWLockInit
  imports LWLockFacts
begin

unbundle bit_operations_syntax

text \<open>
  The layout of the main array of lightweight locks (\<open>src/include/storage/lwlock.h\<close>), its
  initialisation and the tranches (\<open>src/backend/storage/lmgr/lwlock.c\<close>), and the overflow-checked
  size arithmetic of \<open>src/backend/storage/ipc/shmem.c\<close>.
\<close>

subsection \<open>Layout\<close>

text \<open>\<open>NUM_INDIVIDUAL_LWLOCKS\<close> is one more than the last number in \<open>lwlocknames.txt\<close>.\<close>

definition NUM_INDIVIDUAL_LWLOCKS :: nat where "NUM_INDIVIDUAL_LWLOCKS = 45 + 1"
definition NUM_BUFFER_PARTITIONS :: nat where "NUM_BUFFER_PARTITIONS = 128"
definition NUM_LOCK_PARTITIONS :: nat where "NUM_LOCK_PARTITIONS = 2 ^ 4"
definition NUM_PREDICATELOCK_PARTITIONS :: nat where "NUM_PREDICATELOCK_PARTITIONS = 2 ^ 4"

definition BUFFER_MAPPING_LWLOCK_OFFSET :: nat where
  "BUFFER_MAPPING_LWLOCK_OFFSET = NUM_INDIVIDUAL_LWLOCKS"
definition LOCK_MANAGER_LWLOCK_OFFSET :: nat where
  "LOCK_MANAGER_LWLOCK_OFFSET = BUFFER_MAPPING_LWLOCK_OFFSET + NUM_BUFFER_PARTITIONS"
definition PREDICATELOCK_MANAGER_LWLOCK_OFFSET :: nat where
  "PREDICATELOCK_MANAGER_LWLOCK_OFFSET = LOCK_MANAGER_LWLOCK_OFFSET + NUM_LOCK_PARTITIONS"
definition MIGRATE_BITMAP_OFFSET :: nat where
  "MIGRATE_BITMAP_OFFSET = PREDICATELOCK_MANAGER_LWLOCK_OFFSET + NUM_PREDICATELOCK_PARTITIONS"
definition NUM_FIXED_LWLOCKS :: nat where
  "NUM_FIXED_LWLOCKS = MIGRATE_BITMAP_OFFSET + NUM_MIGRATE_BITMAP_LOCKS * 2"

lemmas layout_defs = NUM_INDIVIDUAL_LWLOCKS_def NUM_BUFFER_PARTITIONS_def NUM_LOCK_PARTITIONS_def
  NUM_PREDICATELOCK_PARTITIONS_def BUFFER_MAPPING_LWLOCK_OFFSET_def LOCK_MANAGER_LWLOCK_OFFSET_def
  PREDICATELOCK_MANAGER_LWLOCK_OFFSET_def MIGRATE_BITMAP_OFFSET_def NUM_FIXED_LWLOCKS_def
  NUM_MIGRATE_BITMAP_LOCKS_def

text \<open>\<open>MigrateBitmapPartitionLock(hashcode, i)\<close>, as an index of the main array.\<close>

definition MigrateBitmapPartitionLock :: "uint32 \<Rightarrow> uint8 \<Rightarrow> nat" where
  "MigrateBitmapPartitionLock hashcode i =
     MIGRATE_BITMAP_OFFSET + MigrateBitmapPartition hashcode + unat i * NUM_MIGRATE_BITMAP_LOCKS"

text \<open>Tranche numbers, in the order of \<open>enum BuiltinTrancheIds\<close>.\<close>

definition LWTRANCHE_BUFFER_MAPPING :: nat where "LWTRANCHE_BUFFER_MAPPING = NUM_INDIVIDUAL_LWLOCKS + 13"
definition LWTRANCHE_LOCK_MANAGER :: nat where "LWTRANCHE_LOCK_MANAGER = NUM_INDIVIDUAL_LWLOCKS + 14"
definition LWTRANCHE_PREDICATE_LOCK_MANAGER :: nat where
  "LWTRANCHE_PREDICATE_LOCK_MANAGER = NUM_INDIVIDUAL_LWLOCKS + 15"
definition LWTRANCHE_MIGRATE_BITMAP :: nat where "LWTRANCHE_MIGRATE_BITMAP = NUM_INDIVIDUAL_LWLOCKS + 16"
definition LWTRANCHE_PARALLEL_HASH_JOIN :: nat where
  "LWTRANCHE_PARALLEL_HASH_JOIN = NUM_INDIVIDUAL_LWLOCKS + 17"
definition LWTRANCHE_PARALLEL_QUERY_DSA :: nat where
  "LWTRANCHE_PARALLEL_QUERY_DSA = NUM_INDIVIDUAL_LWLOCKS + 18"
definition LWTRANCHE_SESSION_DSA :: nat where "LWTRANCHE_SESSION_DSA = NUM_INDIVIDUAL_LWLOCKS + 19"
definition LWTRANCHE_SESSION_RECORD_TABLE :: nat where
  "LWTRANCHE_SESSION_RECORD_TABLE = NUM_INDIVIDUAL_LWLOCKS + 20"
definition LWTRANCHE_SESSION_TYPMOD_TABLE :: nat where
  "LWTRANCHE_SESSION_TYPMOD_TABLE = NUM_INDIVIDUAL_LWLOCKS + 21"
definition LWTRANCHE_SHARED_TUPLESTORE :: nat where
  "LWTRANCHE_SHARED_TUPLESTORE = NUM_INDIVIDUAL_LWLOCKS + 22"
definition LWTRANCHE_TBM :: nat where "LWTRANCHE_TBM = NUM_INDIVIDUAL_LWLOCKS + 23"
definition LWTRANCHE_PARALLEL_APPEND :: nat where "LWTRANCHE_PARALLEL_APPEND = NUM_INDIVIDUAL_LWLOCKS + 24"
definition LWTRANCHE_FIRST_USER_DEFINED :: nat where
  "LWTRANCHE_FIRST_USER_DEFINED = NUM_INDIVIDUAL_LWLOCKS + 25"

subsection \<open>Initialisation\<close>

definition LWLockInitialize :: "LWLock \<Rightarrow> nat \<Rightarrow> LWLock" where
  "LWLockInitialize lock tranche_id =
     lock\<lparr>tranche := of_nat tranche_id, state := LW_FLAG_RELEASE_OK, waiters := []\<rparr>"

text \<open>\<open>n\<close> locks from position \<open>at\<close> on, each with the tranche number its position gives.\<close>

fun init_range :: "(nat \<Rightarrow> nat) \<Rightarrow> nat \<Rightarrow> nat \<Rightarrow> LWLock list \<Rightarrow> LWLock list result" where
  "init_range tranche_of at 0 ls = Inr ls"
| "init_range tranche_of at (Suc n) ls =
     bind_res (aload ls at) (\<lambda>L.
     bind_res (astore ls at (LWLockInitialize L (tranche_of at))) (\<lambda>ls.
     init_range tranche_of (Suc at) n ls))"

record NamedLWLockTrancheRequest =
  tranche_name :: string
  num_lwlocks :: int

definition NumLWLocksByNamedTranches :: "NamedLWLockTrancheRequest list \<Rightarrow> int" where
  "NumLWLocksByNamedTranches reqs = foldl (\<lambda>numLocks r. numLocks + num_lwlocks r) 0 reqs"

definition LWLockNewTrancheId :: "nat \<Rightarrow> nat \<times> nat" where
  "LWLockNewTrancheId LWLockCounter = (LWLockCounter, LWLockCounter + 1)"

fun init_named ::
  "NamedLWLockTrancheRequest list \<Rightarrow> nat \<Rightarrow> nat \<Rightarrow> LWLock list \<Rightarrow>
     ((nat \<times> string) list \<times> nat \<times> LWLock list) result"
where
  "init_named [] lock counter ls = Inr ([], counter, ls)"
| "init_named (r # rs) lock counter ls =
     (let (trancheId, counter) = LWLockNewTrancheId counter in
      bind_res (init_range (\<lambda>_. trancheId) lock (nat (num_lwlocks r)) ls) (\<lambda>ls.
      bind_res (init_named rs (lock + nat (num_lwlocks r)) counter ls) (\<lambda>(ts, counter, ls).
      Inr ((trancheId, tranche_name r) # ts, counter, ls))))"

text \<open>The named tranches with their numbers, the tranche counter, and the array.\<close>

definition InitializeLWLocks ::
  "NamedLWLockTrancheRequest list \<Rightarrow> nat \<Rightarrow> LWLock list \<Rightarrow>
     ((nat \<times> string) list \<times> nat \<times> LWLock list) result"
where
  "InitializeLWLocks reqs counter ls =
     bind_res (init_range (\<lambda>id. id) 0 NUM_INDIVIDUAL_LWLOCKS ls) (\<lambda>ls.
     bind_res (init_range (\<lambda>_. LWTRANCHE_BUFFER_MAPPING) NUM_INDIVIDUAL_LWLOCKS
                 NUM_BUFFER_PARTITIONS ls) (\<lambda>ls.
     bind_res (init_range (\<lambda>_. LWTRANCHE_LOCK_MANAGER) (NUM_INDIVIDUAL_LWLOCKS + NUM_BUFFER_PARTITIONS)
                 NUM_LOCK_PARTITIONS ls) (\<lambda>ls.
     bind_res (init_range (\<lambda>_. LWTRANCHE_PREDICATE_LOCK_MANAGER)
                 (NUM_INDIVIDUAL_LWLOCKS + NUM_BUFFER_PARTITIONS + NUM_LOCK_PARTITIONS)
                 NUM_PREDICATELOCK_PARTITIONS ls) (\<lambda>ls.
     bind_res (init_range (\<lambda>_. LWTRANCHE_MIGRATE_BITMAP)
                 (NUM_INDIVIDUAL_LWLOCKS + NUM_BUFFER_PARTITIONS + NUM_LOCK_PARTITIONS +
                  NUM_PREDICATELOCK_PARTITIONS)
                 NUM_MIGRATE_BITMAP_LOCKS ls) (\<lambda>ls.
     if length reqs > 0 then init_named reqs NUM_FIXED_LWLOCKS counter ls
     else Inr ([], counter, ls))))))"

subsection \<open>Sizes\<close>

definition add_size :: "uint64 \<Rightarrow> uint64 \<Rightarrow> uint64 result" where
  "add_size s1 s2 =
     (let result = s1 + s2 in
      if result < s1 \<or> result < s2 then Inl (Ereport ''requested shared memory size overflows size_t'')
      else Inr result)"

definition mul_size :: "uint64 \<Rightarrow> uint64 \<Rightarrow> uint64 result" where
  "mul_size s1 s2 =
     (if s1 = 0 \<or> s2 = 0 then Inr 0
      else let result = s1 * s2 in
        if result div s2 \<noteq> s1 then Inl (Ereport ''requested shared memory size overflows size_t'')
        else Inr result)"

fun add_name_sizes :: "NamedLWLockTrancheRequest list \<Rightarrow> uint64 \<Rightarrow> uint64 result" where
  "add_name_sizes [] sz = Inr sz"
| "add_name_sizes (r # rs) sz =
     bind_res (add_size sz (of_nat (length (tranche_name r)) + 1)) (\<lambda>sz. add_name_sizes rs sz)"

definition LWLOCK_PADDED_SIZE :: uint64 where "LWLOCK_PADDED_SIZE = 128"

text \<open>\<open>sizeof(int)\<close> is 4 and \<open>sizeof(NamedLWLockTranche)\<close> 16, as on every 64-bit platform.\<close>

definition LWLockShmemSize :: "NamedLWLockTrancheRequest list \<Rightarrow> uint64 result" where
  "LWLockShmemSize reqs =
     (let numLocks = int NUM_FIXED_LWLOCKS + NumLWLocksByNamedTranches reqs in
      bind_res (mul_size (of_int numLocks) LWLOCK_PADDED_SIZE) (\<lambda>sz.
      bind_res (add_size sz (4 + LWLOCK_PADDED_SIZE)) (\<lambda>sz.
      bind_res (mul_size (of_nat (length reqs)) 16) (\<lambda>n.
      bind_res (add_size sz n) (\<lambda>sz.
      add_name_sizes reqs sz)))))"

subsection \<open>Tranches\<close>

text \<open>The position of a named tranche's first lock.\<close>

fun GetNamedLWLockTranche_from :: "NamedLWLockTrancheRequest list \<Rightarrow> string \<Rightarrow> int \<Rightarrow> int result" where
  "GetNamedLWLockTranche_from [] name lock_pos = Inl (Ereport ''requested tranche is not registered'')"
| "GetNamedLWLockTranche_from (r # rs) name lock_pos =
     (if tranche_name r = name then Inr lock_pos
      else GetNamedLWLockTranche_from rs name (lock_pos + num_lwlocks r))"

definition GetNamedLWLockTranche :: "NamedLWLockTrancheRequest list \<Rightarrow> string \<Rightarrow> int result" where
  "GetNamedLWLockTranche reqs name = GetNamedLWLockTranche_from reqs name (int NUM_FIXED_LWLOCKS)"

text \<open>Doubling until a number fits; the capacity is positive.\<close>

function double_to :: "nat \<Rightarrow> nat \<Rightarrow> nat" where
  "double_to i n = (if 0 < i \<and> i \<le> n then double_to (i * 2) n else i)"
  by pat_completeness auto
termination by (relation "measure (\<lambda>(i, n). Suc n - i)") auto

declare double_to.simps [simp del]

text \<open>\<open>LWLockTrancheArray\<close>: nothing before it is allocated, then the names by number.\<close>

definition LWLockRegisterTranche ::
  "nat \<Rightarrow> string \<Rightarrow> string option list option \<Rightarrow> string option list option result"
where
  "LWLockRegisterTranche tranche_id name arr =
     (case arr of
        None \<Rightarrow> Inl AssertFail
      | Some a \<Rightarrow>
          let a = (if tranche_id \<ge> length a
                   then a @ replicate (double_to (length a) tranche_id - length a) None else a)
          in bind_res (astore a tranche_id (Some name)) (\<lambda>a. Inr (Some a)))"

definition GetLWLockIdentifier :: "nat \<Rightarrow> string option list \<Rightarrow> string" where
  "GetLWLockIdentifier eventId arr =
     (if eventId \<ge> length arr \<or> arr ! eventId = None then ''extension'' else the (arr ! eventId))"

fun register_all ::
  "(nat \<times> string) list \<Rightarrow> string option list option \<Rightarrow> string option list option result"
where
  "register_all [] arr = Inr arr"
| "register_all ((i, name) # ts) arr =
     bind_res (LWLockRegisterTranche i name arr) (\<lambda>arr. register_all ts arr)"

text \<open>
  \<open>names\<close> is \<open>MainLWLockNames\<close>, which the build generates; \<open>named\<close> is \<open>NamedLWLockTrancheArray\<close>.
\<close>

definition RegisterLWLockTranches ::
  "string list \<Rightarrow> (nat \<times> string) list \<Rightarrow> string option list option \<Rightarrow> string option list option result"
where
  "RegisterLWLockTranches names named arr =
     (let arr = (case arr of None \<Rightarrow> Some (replicate 128 None) | Some a \<Rightarrow> Some a) in
      bind_res (register_all (zip [0..<NUM_INDIVIDUAL_LWLOCKS] names) arr) (\<lambda>arr.
      bind_res (register_all
        [(LWTRANCHE_BUFFER_MAPPING, ''buffer_mapping''), (LWTRANCHE_LOCK_MANAGER, ''lock_manager''),
         (LWTRANCHE_PREDICATE_LOCK_MANAGER, ''predicate_lock_manager''),
         (LWTRANCHE_MIGRATE_BITMAP, ''migrate_bitmap''),
         (LWTRANCHE_PARALLEL_QUERY_DSA, ''parallel_query_dsa''), (LWTRANCHE_SESSION_DSA, ''session_dsa''),
         (LWTRANCHE_SESSION_RECORD_TABLE, ''session_record_table''),
         (LWTRANCHE_SESSION_TYPMOD_TABLE, ''session_typmod_table''),
         (LWTRANCHE_SHARED_TUPLESTORE, ''shared_tuplestore''), (LWTRANCHE_TBM, ''tbm''),
         (LWTRANCHE_PARALLEL_APPEND, ''parallel_append''),
         (LWTRANCHE_PARALLEL_HASH_JOIN, ''parallel_hash_join'')] arr) (\<lambda>arr.
      register_all named arr)))"

text \<open>
  Requests for named tranches: the array with the number of slots allocated for it, nothing
  before the first request. A name is cut to 63 characters.
\<close>

definition RequestNamedLWLockTranche ::
  "bool \<Rightarrow> bool \<Rightarrow> string \<Rightarrow> int \<Rightarrow> (nat \<times> NamedLWLockTrancheRequest list) option \<Rightarrow>
     (nat \<times> NamedLWLockTrancheRequest list) option result"
where
  "RequestNamedLWLockTranche under_postmaster lock_named_request_allowed name n arr =
     (if under_postmaster \<or> \<not> lock_named_request_allowed then Inr arr
      else
        let (allocated, reqs) = (case arr of None \<Rightarrow> (16, []) | Some a \<Rightarrow> a);
            allocated = (if length reqs \<ge> allocated then double_to allocated (length reqs) else allocated)
        in bind_res (Assert (length name + 1 < 64)) (\<lambda>_.
           Inr (Some (allocated, reqs @ [\<lparr>tranche_name = take 63 name, num_lwlocks = n\<rparr>]))))"

subsection \<open>What is initialised\<close>

lemma init_range_spec:
  assumes "at + n \<le> length ls"
  shows "\<exists>ls'. init_range f at n ls = Inr ls' \<and> length ls' = length ls \<and>
           (\<forall>k. ls' ! k = (if at \<le> k \<and> k < at + n then LWLockInitialize (ls ! k) (f k) else ls ! k))"
  using assms
proof (induction n arbitrary: at ls)
  case 0
  then show ?case by auto
next
  case (Suc n)
  let ?ls = "ls[at := LWLockInitialize (ls ! at) (f at)]"
  from Suc.IH [of "Suc at" ?ls] Suc.prems
  obtain ls' where r: "init_range f (Suc at) n ?ls = Inr ls'" "length ls' = length ls"
    and k: "\<forall>k. ls' ! k = (if Suc at \<le> k \<and> k < Suc at + n then LWLockInitialize (?ls ! k) (f k)
                            else ?ls ! k)"
    by auto
  from Suc.prems r(1) have "init_range f at (Suc n) ls = Inr ls'" by simp
  moreover have "ls' ! k = (if at \<le> k \<and> k < at + Suc n then LWLockInitialize (ls ! k) (f k) else ls ! k)" for k
    using k Suc.prems by (cases "k = at") auto
  ultimately show ?case using r(2) by blast
qed

definition is_initialised :: "LWLock \<Rightarrow> bool" where
  "is_initialised L \<longleftrightarrow> state L = LW_FLAG_RELEASE_OK \<and> waiters L = []"

lemma is_initialised [simp]: "is_initialised (LWLockInitialize L t)"
  by (simp add: is_initialised_def LWLockInitialize_def)

text \<open>A sequence of ranges, each given by its tranche numbers, its start and its length.\<close>

fun init_ranges :: "((nat \<Rightarrow> nat) \<times> nat \<times> nat) list \<Rightarrow> LWLock list \<Rightarrow> LWLock list result" where
  "init_ranges [] ls = Inr ls"
| "init_ranges ((f, at, n) # rs) ls = bind_res (init_range f at n ls) (init_ranges rs)"

definition in_ranges :: "((nat \<Rightarrow> nat) \<times> nat \<times> nat) list \<Rightarrow> nat \<Rightarrow> bool" where
  "in_ranges rs k \<longleftrightarrow> (\<exists>(f, at, n) \<in> set rs. at \<le> k \<and> k < at + n)"

lemma init_ranges_spec:
  assumes "\<forall>(f, at, n) \<in> set rs. at + n \<le> length ls"
  shows "\<exists>ls'. init_ranges rs ls = Inr ls' \<and> length ls' = length ls \<and>
           (\<forall>k. in_ranges rs k \<or> is_initialised (ls ! k) \<longrightarrow> is_initialised (ls' ! k)) \<and>
           (\<forall>k. \<not> in_ranges rs k \<longrightarrow> ls' ! k = ls ! k)"
  using assms
proof (induction rs arbitrary: ls)
  case Nil
  then show ?case by (auto simp: in_ranges_def)
next
  case (Cons r rs)
  obtain f at n where r: "r = (f, at, n)" using prod_cases3 by blast
  with Cons.prems obtain l1 where l1: "init_range f at n ls = Inr l1" "length l1 = length ls"
    and k1: "\<forall>k. l1 ! k = (if at \<le> k \<and> k < at + n then LWLockInitialize (ls ! k) (f k) else ls ! k)"
    using init_range_spec [of at n ls f] by auto
  from Cons.IH [of l1] Cons.prems l1(2) obtain l2 where l2: "init_ranges rs l1 = Inr l2" "length l2 = length l1"
    "\<forall>k. in_ranges rs k \<or> is_initialised (l1 ! k) \<longrightarrow> is_initialised (l2 ! k)"
    "\<forall>k. \<not> in_ranges rs k \<longrightarrow> l2 ! k = l1 ! k"
    by auto
  have split: "in_ranges ((f, at, n) # rs) k \<longleftrightarrow> (at \<le> k \<and> k < at + n) \<or> in_ranges rs k" for k
    by (auto simp: in_ranges_def)
  have init: "is_initialised (l1 ! k)" if "at \<le> k \<and> k < at + n \<or> is_initialised (ls ! k)" for k
    using that k1 by auto
  show ?case
  proof (intro exI [of _ l2] conjI allI impI)
    fix k
    show "is_initialised (l2 ! k)" if "in_ranges (r # rs) k \<or> is_initialised (ls ! k)"
      using that l2(3) init by (auto simp: r split)
    show "l2 ! k = ls ! k" if "\<not> in_ranges (r # rs) k"
      using that l2(4) k1 by (auto simp: r split)
  qed (use r l1 l2 in simp_all)
qed

definition fixed_ranges :: "((nat \<Rightarrow> nat) \<times> nat \<times> nat) list" where
  "fixed_ranges =
     [(\<lambda>id. id, 0, NUM_INDIVIDUAL_LWLOCKS),
      (\<lambda>_. LWTRANCHE_BUFFER_MAPPING, BUFFER_MAPPING_LWLOCK_OFFSET, NUM_BUFFER_PARTITIONS),
      (\<lambda>_. LWTRANCHE_LOCK_MANAGER, LOCK_MANAGER_LWLOCK_OFFSET, NUM_LOCK_PARTITIONS),
      (\<lambda>_. LWTRANCHE_PREDICATE_LOCK_MANAGER, PREDICATELOCK_MANAGER_LWLOCK_OFFSET,
       NUM_PREDICATELOCK_PARTITIONS),
      (\<lambda>_. LWTRANCHE_MIGRATE_BITMAP, MIGRATE_BITMAP_OFFSET, NUM_MIGRATE_BITMAP_LOCKS)]"

lemma InitializeLWLocks_ranges:
  "InitializeLWLocks [] counter ls = bind_res (init_ranges fixed_ranges ls) (\<lambda>ls. Inr ([], counter, ls))"
  by (simp add: InitializeLWLocks_def fixed_ranges_def BUFFER_MAPPING_LWLOCK_OFFSET_def
      LOCK_MANAGER_LWLOCK_OFFSET_def PREDICATELOCK_MANAGER_LWLOCK_OFFSET_def MIGRATE_BITMAP_OFFSET_def
      bind_res_assoc)

lemma in_fixed_ranges:
  "in_ranges fixed_ranges k \<longleftrightarrow> k < MIGRATE_BITMAP_OFFSET + NUM_MIGRATE_BITMAP_LOCKS"
  by (auto simp: in_ranges_def fixed_ranges_def layout_defs)

text \<open>
  Without named tranches, the locks of the first migration bitmap and all before them are
  initialised, and the rest of the array, which holds those of the second, is left as it was.
\<close>

lemma InitializeLWLocks_fixed:
  assumes "NUM_FIXED_LWLOCKS \<le> length ls"
  shows "\<exists>ls'. InitializeLWLocks [] counter ls = Inr ([], counter, ls') \<and> length ls' = length ls \<and>
           (\<forall>k < MIGRATE_BITMAP_OFFSET + NUM_MIGRATE_BITMAP_LOCKS. is_initialised (ls' ! k)) \<and>
           (\<forall>k \<ge> MIGRATE_BITMAP_OFFSET + NUM_MIGRATE_BITMAP_LOCKS. ls' ! k = ls ! k)"
proof -
  have "\<forall>(f, at, n) \<in> set fixed_ranges. at + n \<le> length ls"
    using assms by (auto simp: fixed_ranges_def layout_defs)
  from init_ranges_spec [OF this] show ?thesis
    by (auto simp: InitializeLWLocks_ranges in_fixed_ranges)
qed

subsection \<open>Sizes are exact or refused\<close>

lemma add_size_cases:
  "if unat a + unat b < 2 ^ 64 then \<exists>c. add_size a b = Inr c \<and> unat c = unat a + unat b
   else add_size a b = Inl (Ereport ''requested shared memory size overflows size_t'')"
proof (cases "unat a + unat b < 2 ^ 64")
  case True
  then have "unat (a + b) = unat a + unat b" by (simp add: unat_word_ariths)
  with True show ?thesis by (simp add: add_size_def word_less_nat_alt)
next
  case False
  have lt: "unat a < 2 ^ 64" "unat b < 2 ^ 64" using unsigned_less [of a] unsigned_less [of b] by simp_all
  with False have "unat (a + b) = unat a + unat b - 2 ^ 64" by (simp add: unat_word_ariths mod_if)
  then have "a + b < a" using False lt by (simp add: word_less_nat_alt)
  with False show ?thesis by (simp add: add_size_def)
qed

lemma div_mod_product:
  fixes a b m :: nat
  assumes "0 < b" and "0 < m" and "m \<le> a * b"
  shows "a * b mod m div b \<noteq> a"
proof -
  have "a * b mod m < a * b" using assms by (metis mod_less_divisor order_less_le_trans)
  then show ?thesis by (simp add: div_less_iff_less_mult [OF assms(1)] less_imp_neq)
qed

lemma mul_size_cases:
  "if unat a * unat b < 2 ^ 64 then \<exists>c. mul_size a b = Inr c \<and> unat c = unat a * unat b
   else mul_size a b = Inl (Ereport ''requested shared memory size overflows size_t'')"
proof -
  have p: "unat (a * b) = unat a * unat b mod 2 ^ 64" by (simp add: unat_word_ariths)
  show ?thesis
  proof (cases "a = 0 \<or> b = 0")
    case True
    then show ?thesis by (auto simp: mul_size_def)
  next
    case False
    then have b: "0 < unat b" by (simp add: unat_gt_0)
    show ?thesis
    proof (cases "unat a * unat b < 2 ^ 64")
      case True
      with p have "unat (a * b) = unat a * unat b" by simp
      moreover from this b have "a * b div b = a" by (simp add: word_unat_eq_iff unat_div)
      ultimately show ?thesis using True False by (simp add: mul_size_def Let_def)
    next
      case over: False
      then have "unat (a * b) div unat b \<noteq> unat a" unfolding p by (intro div_mod_product b) simp_all
      then have "a * b div b \<noteq> a" by (simp add: word_unat_eq_iff unat_div)
      with over False show ?thesis by (simp add: mul_size_def Let_def)
    qed
  qed
qed

subsection \<open>Growing arrays\<close>

lemma double_to_gt: "0 < i \<Longrightarrow> n < double_to i n \<and> i \<le> double_to i n"
  by (induction i n rule: double_to.induct) (subst (1 2) double_to.simps, force)

end
