(* ===== verification/MigrateScan.thy ===== *)
theory MigrateScan
  imports ItemPtr LWLockInit
begin

unbundle bit_operations_syntax

text \<open>
  The scan that migrates tuples: \<open>src/backend/executor/execScan.c\<close>. \<open>MigrateTuple\<close> claims a tuple
  in the bitmap; \<open>ExecScan\<close> returns only tuples it has claimed while a migration runs.

  The bitmap is read and written word by word, each access after a move of the other backends;
  \<open>PartialBitmap[wordid] |= bit\<close> is a read and a write.
\<close>

subsection \<open>Tuples and slots\<close>

record HeapTupleData =
  t_len :: uint32
  t_self :: ItemPointerData
  t_tableOid :: uint32
  t_data :: nat

record TupleTableSlot =
  tts_isempty :: bool
  tts_tuple :: "HeapTupleData option"

text \<open>A pointer to a slot is the slot, or nothing for the null pointer.\<close>

definition TupIsNull :: "TupleTableSlot option \<Rightarrow> bool" where
  "TupIsNull slot = (case slot of None \<Rightarrow> True | Some sl \<Rightarrow> tts_isempty sl)"

definition ExecClearTuple :: "TupleTableSlot \<Rightarrow> TupleTableSlot" where
  "ExecClearTuple slot = slot\<lparr>tts_tuple := None, tts_isempty := True\<rparr>"

definition ExecStoreTuple :: "HeapTupleData \<Rightarrow> TupleTableSlot \<Rightarrow> TupleTableSlot" where
  "ExecStoreTuple tuple slot = slot\<lparr>tts_isempty := False, tts_tuple := Some tuple\<rparr>"

subsection \<open>The bitmap of the query\<close>

definition partial_bitmap :: "(backend, nat) prog" where
  "partial_bitmap = bindp (gets PartialBitmap) (\<lambda>b.
     case b of None \<Rightarrow> throw NullDeref | Some base \<Rightarrow> ret base)"

definition read_word :: "uint32 \<Rightarrow> (backend, uint64) prog" where
  "read_word wordid =
     bindp partial_bitmap (\<lambda>base.
     bindp (peek GlobalBitmap) (\<lambda>mem.
     liftp (aload mem (base + unat wordid))))"

definition write_word :: "uint32 \<Rightarrow> uint64 \<Rightarrow> (backend, unit) prog" where
  "write_word wordid w =
     bindp partial_bitmap (\<lambda>base.
     bindp (peek GlobalBitmap) (\<lambda>mem.
     bindp (liftp (astore mem (base + unat wordid) w)) (\<lambda>mem.
     modify (\<lambda>s. s\<lparr>shm := (shm s)\<lparr>GlobalBitmap := mem\<rparr>\<rparr>))))"

subsection \<open>Claiming a tuple\<close>

definition append_list0 :: "uint32 \<Rightarrow> (backend, unit) prog" where
  "append_list0 eid =
     bindp (gets (\<lambda>s. pg_lappend_int (InProgLocalList0 s) eid (heap s))) (\<lambda>r.
     bindp (liftp r) (\<lambda>(l, h).
     modify (\<lambda>s. s\<lparr>heap := h, InProgLocalList0 := l\<rparr>)))"

definition append_list1 :: "uint32 \<Rightarrow> (backend, unit) prog" where
  "append_list1 eid =
     bindp (gets (\<lambda>s. pg_lappend_int (InProgLocalList1 s) eid (heap s))) (\<lambda>r.
     bindp (liftp r) (\<lambda>(l, h).
     modify (\<lambda>s. s\<lparr>heap := h, InProgLocalList1 := l\<rparr>)))"

text \<open>The element number of a tuple, computed in 32 bits.\<close>

definition tuple_eid :: "ItemPointerData \<Rightarrow> uint32 result" where
  "tuple_eid lctid =
     bind_res (ItemPointerGetBlockNumber lctid) (\<lambda>blockId.
     bind_res (ItemPointerGetOffsetNumber lctid) (\<lambda>offset.
     let pagesize = of_nat NUMTUPLESPERPAGE;
         idx = blockId * pagesize + ucast offset
     in Inr (idx - 1)))"

text \<open>
  The test \<open>slot->tts_tuple == NULL | slot->tts_tuple->t_len == 0\<close> evaluates both operands.
\<close>

definition MigrateTuple :: "TupleTableSlot option \<Rightarrow> (backend, bool) prog" where
  "MigrateTuple slot =
     (case slot of None \<Rightarrow> throw NullDeref | Some sl \<Rightarrow>
      case tts_tuple sl of None \<Rightarrow> throw NullDeref | Some tuple \<Rightarrow>
      if t_len tuple = 0 then ret True
      else
        bindp (liftp (tuple_eid (t_self tuple))) (\<lambda>eid.
        let wordid = getwordid eid; lockbitid = getlockbitid eid; migratebitid = getmigratebitid eid in
        bindp (read_word wordid) (\<lambda>w.
        if getkthbit w migratebitid then ret False
        else
          bindp (read_word wordid) (\<lambda>w.
          if getkthbit w lockbitid then thenp (append_list1 eid) (ret False)
          else
            bindp (gets BitmapNum) (\<lambda>num.
            let bitmapLock = MigrateBitmapPartitionLock eid num in
            thenp (LWLockAcquire bitmapLock LW_EXCLUSIVE)
            (bindp (read_word wordid) (\<lambda>w.
            if \<not> getkthbit w migratebitid then
              bindp (read_word wordid) (\<lambda>w.
              if \<not> getkthbit w lockbitid then
                bindp (read_word wordid) (\<lambda>w.
                thenp (write_word wordid (w OR push_bit (unat lockbitid) 1))
                (thenp (LWLockRelease bitmapLock)
                (thenp (append_list0 eid)
                (ret True))))
              else
                thenp (LWLockRelease bitmapLock)
                (thenp (append_list1 eid)
                (ret False)))
            else
              thenp (LWLockRelease bitmapLock)
              (ret False))))))))"

subsection \<open>Scanning\<close>

text \<open>
  A scan node. \<open>cursor\<close> is what the access method keeps of its position. The qualification and the
  projection are functions on the slot; a null pointer is \<open>None\<close>. \<open>es_epqTuple\<close> is the array of test
  tuples of an EvalPlanQual recheck, \<open>None\<close> outside of one. Resetting the per-tuple memory context has
  no effect on what is modelled.
\<close>

record 'c ScanState =
  cursor :: 'c
  qual :: "(TupleTableSlot \<Rightarrow> bool) option"
  ps_ProjInfo :: "(TupleTableSlot \<Rightarrow> TupleTableSlot) option"
  resultslot :: TupleTableSlot
  ss_ScanTupleSlot :: TupleTableSlot
  scanrelid :: nat
  es_epqTuple :: "HeapTupleData option list option"
  es_epqTupleSet :: "bool list"
  es_epqScanDone :: "bool list"
  nfiltered1 :: nat

text \<open>
  \<open>accessMtd\<close> and \<open>recheckMtd\<close> are the function pointers of the node type, \<open>CHECK_FOR_INTERRUPTS\<close> the
  processing of pending interrupts; all three are arguments.
\<close>

definition ExecScanFetch ::
  "(backend, unit) prog \<Rightarrow> ('c ScanState \<Rightarrow> TupleTableSlot option \<times> 'c ScanState) \<Rightarrow>
     ('c ScanState \<Rightarrow> TupleTableSlot \<Rightarrow> bool \<times> TupleTableSlot) \<Rightarrow> 'c ScanState \<Rightarrow>
     (backend, TupleTableSlot option \<times> 'c ScanState) prog"
where
  "ExecScanFetch CHECK_FOR_INTERRUPTS accessMtd recheckMtd node =
     thenp CHECK_FOR_INTERRUPTS
     (case es_epqTuple node of
        None \<Rightarrow> ret (accessMtd node)
      | Some epqTuple \<Rightarrow>
          if scanrelid node = 0 then
            (let (ok, slot) = recheckMtd node (ss_ScanTupleSlot node);
                 slot = (if \<not> ok then ExecClearTuple slot else slot)
             in ret (Some slot, node\<lparr>ss_ScanTupleSlot := slot\<rparr>))
          else
            bindp (liftp (aload (es_epqTupleSet node) (scanrelid node - 1))) (\<lambda>is_set.
            if is_set then
              bindp (liftp (aload (es_epqScanDone node) (scanrelid node - 1))) (\<lambda>done.
              if done then
                (let slot = ExecClearTuple (ss_ScanTupleSlot node)
                 in ret (Some slot, node\<lparr>ss_ScanTupleSlot := slot\<rparr>))
              else
                let node = node\<lparr>es_epqScanDone := (es_epqScanDone node)[scanrelid node - 1 := True]\<rparr> in
                bindp (liftp (aload epqTuple (scanrelid node - 1))) (\<lambda>tuple.
                case tuple of
                  None \<Rightarrow>
                    (let slot = ExecClearTuple (ss_ScanTupleSlot node)
                     in ret (Some slot, node\<lparr>ss_ScanTupleSlot := slot\<rparr>))
                | Some tuple \<Rightarrow>
                    (let slot = ExecStoreTuple tuple (ss_ScanTupleSlot node);
                         (ok, slot) = recheckMtd node slot;
                         slot = (if \<not> ok then ExecClearTuple slot else slot)
                     in ret (Some slot, node\<lparr>ss_ScanTupleSlot := slot\<rparr>))))
            else ret (accessMtd node)))"

definition count_migrated :: "(backend, unit) prog" where
  "count_migrated = modify (\<lambda>s. s\<lparr>tuplemigratecount := tuplemigratecount s + 1\<rparr>)"

definition project :: "'c ScanState \<Rightarrow> TupleTableSlot option \<Rightarrow> TupleTableSlot option" where
  "project node slot = (case ps_ProjInfo node of None \<Rightarrow> slot | Some f \<Rightarrow> map_option f slot)"

text \<open>The loop of \<open>ExecScan\<close>; it gets \<open>n\<close> iterations.\<close>

fun exec_scan_loop ::
  "nat \<Rightarrow> (backend, unit) prog \<Rightarrow> ('c ScanState \<Rightarrow> TupleTableSlot option \<times> 'c ScanState) \<Rightarrow>
     ('c ScanState \<Rightarrow> TupleTableSlot \<Rightarrow> bool \<times> TupleTableSlot) \<Rightarrow> 'c ScanState \<Rightarrow>
     (backend, TupleTableSlot option \<times> 'c ScanState) prog"
where
  "exec_scan_loop 0 chk acc rec node = throw Diverges"
| "exec_scan_loop (Suc n) chk acc rec node =
     bindp (ExecScanFetch chk acc rec node) (\<lambda>(slot, node).
     if TupIsNull slot then
       ret (if ps_ProjInfo node \<noteq> None then Some (ExecClearTuple (resultslot node)) else slot, node)
     else if (case qual node of None \<Rightarrow> True | Some q \<Rightarrow> q (the slot)) then
       bindp (gets migrateflag) (\<lambda>flag.
       if flag then
         bindp (MigrateTuple slot) (\<lambda>b.
         if b then thenp count_migrated (ret (project node slot, node))
         else exec_scan_loop n chk acc rec node)
       else ret (project node slot, node))
     else exec_scan_loop n chk acc rec (node\<lparr>nfiltered1 := nfiltered1 node + 1\<rparr>))"

definition ExecScan ::
  "nat \<Rightarrow> (backend, unit) prog \<Rightarrow> ('c ScanState \<Rightarrow> TupleTableSlot option \<times> 'c ScanState) \<Rightarrow>
     ('c ScanState \<Rightarrow> TupleTableSlot \<Rightarrow> bool \<times> TupleTableSlot) \<Rightarrow> 'c ScanState \<Rightarrow>
     (backend, TupleTableSlot option \<times> 'c ScanState) prog"
where
  "ExecScan n chk acc rec node =
     (if qual node = None \<and> ps_ProjInfo node = None then
        bindp (ExecScanFetch chk acc rec node) (\<lambda>(slot, node).
        bindp (gets migrateflag) (\<lambda>flag.
        if flag then
          bindp (MigrateTuple slot) (\<lambda>b.
          if b then thenp count_migrated (ret (slot, node))
          else exec_scan_loop n chk acc rec node)
        else ret (slot, node)))
      else exec_scan_loop n chk acc rec node)"

end
