(* ===== verification/Executor.thy ===== *)
theory Executor
  imports MigrateScan
begin

text \<open>
  The plan of a migration query: the sequential scan node (\<open>src/backend/executor/nodeSeqscan.c\<close>) and
  the loop of the executor over the top plan node (\<open>ExecutePlan\<close> in
  \<open>src/backend/executor/execMain.c\<close>).
\<close>

subsection \<open>Sequential scan\<close>

text \<open>
  The scan descriptor: \<open>ss_currentScanDesc\<close> is the null pointer until the first call. The heap access
  method is a pair of arguments: \<open>heap_beginscan\<close> opens a scan, \<open>heap_getnext\<close> returns the next tuple, if
  any, and the descriptor moved forward.
\<close>

definition SeqNext ::
  "'c \<Rightarrow> ('c \<Rightarrow> HeapTupleData option \<times> 'c) \<Rightarrow> 'c option ScanState \<Rightarrow> TupleTableSlot option \<times> 'c option ScanState"
where
  "SeqNext heap_beginscan heap_getnext node =
     (let scandesc = (case cursor node of None \<Rightarrow> heap_beginscan | Some d \<Rightarrow> d);
          (tuple, scandesc) = heap_getnext scandesc;
          slot = (case tuple of
                    Some tup \<Rightarrow> ExecStoreTuple tup (ss_ScanTupleSlot node)
                  | None \<Rightarrow> ExecClearTuple (ss_ScanTupleSlot node))
      in (Some slot, node\<lparr>cursor := Some scandesc, ss_ScanTupleSlot := slot\<rparr>))"

definition SeqRecheck :: "'c ScanState \<Rightarrow> TupleTableSlot \<Rightarrow> bool \<times> TupleTableSlot" where
  "SeqRecheck node slot = (True, slot)"

definition ExecSeqScan ::
  "nat \<Rightarrow> (backend, unit) prog \<Rightarrow> 'c \<Rightarrow> ('c \<Rightarrow> HeapTupleData option \<times> 'c) \<Rightarrow> 'c option ScanState \<Rightarrow>
     (backend, TupleTableSlot option \<times> 'c option ScanState) prog"
where
  "ExecSeqScan n chk heap_beginscan heap_getnext node =
     ExecScan n chk (SeqNext heap_beginscan heap_getnext) SeqRecheck node"

subsection \<open>The executor's loop\<close>

datatype CmdType = CMD_UNKNOWN | CMD_SELECT | CMD_UPDATE | CMD_INSERT | CMD_DELETE | CMD_UTILITY | CMD_NOTHING

datatype ScanDirection = BackwardScanDirection | NoMovementScanDirection | ForwardScanDirection

record EState =
  es_direction :: ScanDirection
  es_use_parallel_mode :: bool
  es_junkFilter :: "(TupleTableSlot \<Rightarrow> TupleTableSlot) option"
  es_backward :: bool
  es_processed :: uint64
  parallelModeLevel :: int

definition EnterParallelMode :: "EState \<Rightarrow> EState result" where
  "EnterParallelMode estate =
     (if parallelModeLevel estate \<ge> 0
      then Inr (estate\<lparr>parallelModeLevel := parallelModeLevel estate + 1\<rparr>) else Inl AssertFail)"

definition ExitParallelMode :: "bool \<Rightarrow> EState \<Rightarrow> EState result" where
  "ExitParallelMode ParallelContextActive estate =
     (if parallelModeLevel estate > 0 \<and> (parallelModeLevel estate > 1 \<or> \<not> ParallelContextActive)
      then Inr (estate\<lparr>parallelModeLevel := parallelModeLevel estate - 1\<rparr>) else Inl AssertFail)"

text \<open>
  \<open>ExecProcNode\<close> runs the top plan node, \<open>ExecShutdownNode\<close> releases its resources and \<open>receiveSlot\<close> is
  the destination's method; it answers whether it takes more tuples. The loop gets \<open>n\<close> iterations.
  \<open>es_backward\<close> is the flag \<open>EXEC_FLAG_BACKWARD\<close> of \<open>es_top_eflags\<close>.
\<close>

fun execute_plan_loop ::
  "nat \<Rightarrow> ('p \<Rightarrow> (backend, TupleTableSlot option \<times> 'p) prog) \<Rightarrow> ('p \<Rightarrow> 'p) \<Rightarrow>
     (TupleTableSlot option \<Rightarrow> 'd \<Rightarrow> bool \<times> 'd) \<Rightarrow> CmdType \<Rightarrow> bool \<Rightarrow> uint64 \<Rightarrow>
     EState \<Rightarrow> 'p \<Rightarrow> 'd \<Rightarrow> uint64 \<Rightarrow> (backend, EState \<times> 'p \<times> 'd) prog"
where
  "execute_plan_loop 0 ExecProcNode ExecShutdownNode receiveSlot operation sendTuples numberTuples
     estate planstate dest current_tuple_count = throw Diverges"
| "execute_plan_loop (Suc n) ExecProcNode ExecShutdownNode receiveSlot operation sendTuples numberTuples
     estate planstate dest current_tuple_count =
     bindp (ExecProcNode planstate) (\<lambda>(slot, planstate).
     if TupIsNull slot then
       ret (estate, if es_backward estate then planstate else ExecShutdownNode planstate, dest)
     else
       let slot = (case es_junkFilter estate of None \<Rightarrow> slot | Some f \<Rightarrow> map_option f slot);
           (more, dest) = (if sendTuples then receiveSlot slot dest else (True, dest))
       in if \<not> more then ret (estate, planstate, dest)
       else
         let estate = (if operation = CMD_SELECT then estate\<lparr>es_processed := es_processed estate + 1\<rparr> else estate);
             current_tuple_count = current_tuple_count + 1
         in if numberTuples \<noteq> 0 \<and> numberTuples = current_tuple_count then
              ret (estate, if es_backward estate then planstate else ExecShutdownNode planstate, dest)
            else
              execute_plan_loop n ExecProcNode ExecShutdownNode receiveSlot operation sendTuples numberTuples
                estate planstate dest current_tuple_count)"

definition ExecutePlan ::
  "nat \<Rightarrow> ('p \<Rightarrow> (backend, TupleTableSlot option \<times> 'p) prog) \<Rightarrow> ('p \<Rightarrow> 'p) \<Rightarrow>
     (TupleTableSlot option \<Rightarrow> 'd \<Rightarrow> bool \<times> 'd) \<Rightarrow> bool \<Rightarrow>
     EState \<Rightarrow> 'p \<Rightarrow> bool \<Rightarrow> CmdType \<Rightarrow> bool \<Rightarrow> uint64 \<Rightarrow> ScanDirection \<Rightarrow> 'd \<Rightarrow> bool \<Rightarrow>
     (backend, EState \<times> 'p \<times> 'd) prog"
where
  "ExecutePlan n ExecProcNode ExecShutdownNode receiveSlot ParallelContextActive
     estate planstate use_parallel_mode operation sendTuples numberTuples direction dest execute_once =
     (let use_parallel_mode = (execute_once \<and> use_parallel_mode);
          estate = estate\<lparr>es_direction := direction, es_use_parallel_mode := use_parallel_mode\<rparr>
      in
       bindp (liftp (if use_parallel_mode then EnterParallelMode estate else Inr estate)) (\<lambda>estate.
       bindp (execute_plan_loop n ExecProcNode ExecShutdownNode receiveSlot operation sendTuples numberTuples
                estate planstate dest 0) (\<lambda>(estate, planstate, dest).
       bindp (liftp (if use_parallel_mode then ExitParallelMode ParallelContextActive estate else Inr estate)) (\<lambda>estate.
       ret (estate, planstate, dest)))))"

end
