(* ===== verification/MigrateScanFacts.thy ===== *)
theory MigrateScanFacts
  imports MigrateScan PgListOps
begin

unbundle bit_operations_syntax

text \<open>
  What claiming a tuple does: the element numbers, the effect of \<open>MigrateTuple\<close> on the bitmap and on
  the two lists of the backend, and the scan that calls it.
\<close>

subsection \<open>Element numbers\<close>

lemma tuple_eid_eq:
  "ip_posid p \<noteq> 0 \<Longrightarrow>
     tuple_eid p = Inr (BlockIdGetBlockNumber (ip_blkid p) * 15 + ucast (ip_posid p) - 1)"
  by (simp add: tuple_eid_def ItemPointerGetBlockNumber_def ItemPointerGetOffsetNumber_def
      ItemPointerIsValid_def ItemPointerGetBlockNumberNoCheck_def ItemPointerGetOffsetNumberNoCheck_def
      NUMTUPLESPERPAGE_def Let_def)

lemma tuple_eid_invalid: "ip_posid p = 0 \<Longrightarrow> tuple_eid p = Inl AssertFail"
  by (simp add: tuple_eid_def ItemPointerGetBlockNumber_def ItemPointerIsValid_def)

lemma unat_tuple_eid:
  assumes "unat b < NUMPAGES" and "1 \<le> unat k" and "unat k \<le> NUMTUPLESPERPAGE"
  shows "\<exists>e. tuple_eid (ItemPointerSet b k) = Inr e \<and> unat e = unat b * 15 + unat k - 1"
proof -
  have b: "unat b < 113505" and k: "unat k \<le> 15" using assms by (simp_all add: size_defs)
  have u: "unat (b * 15 + ucast k :: uint32) = unat b * 15 + unat k"
  proof -
    have "unat (ucast k :: uint32) = unat k" 
      using k by (simp add: unsigned_ucast_eq take_bit_nat_eq_self)
    moreover have "unat b * 15 + unat k < 2 ^ 32" using b k by simp
    ultimately show ?thesis by (simp add: unat_word_ariths)
  qed
  have "unat (b * 15 + ucast k - 1 :: uint32) = unat b * 15 + unat k - 1"
    using u assms(2) by (subst unat_minus_one) (auto simp: unat_eq_0 [symmetric])
  moreover have "k \<noteq> 0" using assms(2) by auto
  ultimately show ?thesis
    by (simp add: tuple_eid_eq ItemPointerSet_def BlockIdGet_Set)
qed

text \<open>Tuples of pages with at most fifteen line pointers have numbers of their own, inside the bitmap.\<close>

lemma tuple_eid_inj:
  assumes "unat b < NUMPAGES" and "1 \<le> unat k" and "unat k \<le> NUMTUPLESPERPAGE"
    and "unat b' < NUMPAGES" and "1 \<le> unat k'" and "unat k' \<le> NUMTUPLESPERPAGE"
    and "tuple_eid (ItemPointerSet b k) = tuple_eid (ItemPointerSet b' k')"
  shows "b = b' \<and> k = k'"
proof -
  have "unat b * 15 + (unat k - 1) = unat b' * 15 + (unat k' - 1)"
    using unat_tuple_eid [OF assms(1-3)] unat_tuple_eid [OF assms(4-6)] assms(2,5,7) by auto
  moreover have "unat k - 1 < 15" "unat k' - 1 < 15" using assms(2,3,5,6) by (simp_all add: size_defs)
  moreover have "(u * 15 + x) div 15 = u \<and> (u * 15 + x) mod 15 = x" if "x < 15" for u x :: nat
    using that by simp
  ultimately have "unat b = unat b' \<and> unat k - 1 = unat k' - 1" by metis
  then show ?thesis using assms(2,5) by (auto simp: word_unat_eq_iff)
qed

lemma tuple_eid_in_bitmap:
  assumes "unat b < NUMPAGES" and "1 \<le> unat k" and "unat k \<le> NUMTUPLESPERPAGE"
    and "tuple_eid (ItemPointerSet b k) = Inr e"
  shows "unat e < NUMTUPLES"
  using unat_tuple_eid [OF assms(1-3)] assms by (auto simp: size_defs)

subsection \<open>The lists of the backend\<close>

definition local_lists :: "backend \<Rightarrow> uint32 list \<Rightarrow> uint32 list \<Rightarrow> bool" where
  "local_lists s es0 es1 \<longleftrightarrow> wf_store (heap s) \<and>
     (\<exists>xs0 xs1. holds T_IntList IntValue (heap s) Malloc (InProgLocalList0 s) es0 xs0 \<and>
        holds T_IntList IntValue (heap s) Malloc (InProgLocalList1 s) es1 xs1 \<and>
        addrs xs0 \<inter> addrs xs1 = {} \<and>
        (InProgLocalList0 s = InProgLocalList1 s \<longrightarrow> InProgLocalList0 s = 0))"

lemma append_keeps_other:
  assumes wf: "wf_store h" and room: "2 \<le> room h" and a: "holds T_IntList IntValue h Malloc l es xs"
    and b: "holds T_IntList IntValue h Malloc m fs ys" and disj: "addrs xs \<inter> addrs ys = {}"
    and ne: "l = m \<longrightarrow> l = 0"
  shows "\<exists>l' h' xs'. pg_lappend_int l e h = Inr (l', h') \<and> wf_store h' \<and>
           holds T_IntList IntValue h' Malloc l' (es @ [e]) xs' \<and>
           holds T_IntList IntValue h' Malloc m fs ys \<and> addrs xs' \<inter> addrs ys = {} \<and>
           (l' = m \<longrightarrow> l' = 0) \<and> room h \<le> room h' + 2"
proof -
  from pg_lappend_int_rep [OF wf room holds_rep [OF a], of e] obtain l' h' c
    where run: "pg_lappend_int l e h = Inr (l', h')" and c: "brk h \<le> c"
      and r: "rep h' Malloc T_IntList l' (xs @ [(c, IntValue e)])" and wf': "wf_store h'"
      and u: "unchanged h h' {l} (addrs xs)" and l': "if l = 0 then brk h \<le> l' else l' = l"
      and rm: "room h \<le> room h' + 2"
    by (auto simp: appended_def)
  have yl: "y < brk h" if "y \<in> addrs ys" for y using rep_addr_lt [OF wf holds_rep [OF b] that] .
  have ml: "m \<noteq> 0 \<longrightarrow> m < brk h" using rep_hdr_lt [OF wf holds_rep [OF b]] by blast
  have "holds T_IntList IntValue h' Malloc m fs ys"
  proof (cases "m = 0")
    case True
    with b show ?thesis by simp
  next
    case False
    then have "m \<notin> {l}" using ne by auto
    from holds_unchanged [OF wf b u this] disj show ?thesis by blast
  qed
  moreover have "holds T_IntList IntValue h' Malloc l' (es @ [e]) (xs @ [(c, IntValue e)])"
    using r a by (simp add: holds_def)
  moreover have "addrs (xs @ [(c, IntValue e)]) \<inter> addrs ys = {}" using disj c yl by force
  moreover have "l' = m \<longrightarrow> l' = 0"
    using l' ml ne by (cases "l = 0") auto
  ultimately show ?thesis using run wf' rm by blast
qed

lemma append_list0_spec:
  assumes "local_lists s es0 es1" and "2 \<le> room (heap s)"
  shows "\<exists>h l. append_list0 e s = (Inr (), s\<lparr>heap := h, InProgLocalList0 := l\<rparr>) \<and>
           local_lists (s\<lparr>heap := h, InProgLocalList0 := l\<rparr>) (es0 @ [e]) es1 \<and>
           room (heap s) \<le> room h + 2"
proof -
  from assms(1) obtain xs ys where "wf_store (heap s)"
    "holds T_IntList IntValue (heap s) Malloc (InProgLocalList0 s) es0 xs"
    "holds T_IntList IntValue (heap s) Malloc (InProgLocalList1 s) es1 ys"
    "addrs xs \<inter> addrs ys = {}" "InProgLocalList0 s = InProgLocalList1 s \<longrightarrow> InProgLocalList0 s = 0"
    by (auto simp: local_lists_def)
  from append_keeps_other [OF this(1) assms(2) this(2-5), of e] obtain l' h' xs' where
    "pg_lappend_int (InProgLocalList0 s) e (heap s) = Inr (l', h')" "wf_store h'"
    "holds T_IntList IntValue h' Malloc l' (es0 @ [e]) xs'"
    "holds T_IntList IntValue h' Malloc (InProgLocalList1 s) es1 ys" "addrs xs' \<inter> addrs ys = {}"
    "l' = InProgLocalList1 s \<longrightarrow> l' = 0" "room (heap s) \<le> room h' + 2"
    by blast
  then show ?thesis
    by (intro exI [of _ h'] exI [of _ l'])
      (auto simp: append_list0_def local_lists_def wp_Inr wp_simps)
qed

lemma append_list1_spec:
  assumes "local_lists s es0 es1" and "2 \<le> room (heap s)"
  shows "\<exists>h l. append_list1 e s = (Inr (), s\<lparr>heap := h, InProgLocalList1 := l\<rparr>) \<and>
           local_lists (s\<lparr>heap := h, InProgLocalList1 := l\<rparr>) es0 (es1 @ [e]) \<and>
           room (heap s) \<le> room h + 2"
proof -
  from assms(1) obtain xs ys where "wf_store (heap s)"
    "holds T_IntList IntValue (heap s) Malloc (InProgLocalList1 s) es1 ys"
    "holds T_IntList IntValue (heap s) Malloc (InProgLocalList0 s) es0 xs"
    "addrs ys \<inter> addrs xs = {}" "InProgLocalList1 s = InProgLocalList0 s \<longrightarrow> InProgLocalList1 s = 0"
    unfolding local_lists_def by (metis Int_commute)
  from append_keeps_other [OF this(1) assms(2) this(2-5), of e] obtain l' h' xs' where
    "pg_lappend_int (InProgLocalList1 s) e (heap s) = Inr (l', h')" "wf_store h'"
    "holds T_IntList IntValue h' Malloc l' (es1 @ [e]) xs'"
    "holds T_IntList IntValue h' Malloc (InProgLocalList0 s) es0 xs" "addrs xs' \<inter> addrs xs = {}"
    "l' = InProgLocalList0 s \<longrightarrow> l' = 0" "room (heap s) \<le> room h' + 2"
    by blast
  then show ?thesis
    by (intro exI [of _ h'] exI [of _ l'])
      (auto simp: append_list1_def local_lists_def wp_Inr wp_simps Int_commute)
qed

subsection \<open>Claiming a tuple, alone\<close>

definition with_bitmap :: "uint64 list \<Rightarrow> backend \<Rightarrow> backend" where
  "with_bitmap m s = s\<lparr>shm := (shm s)\<lparr>GlobalBitmap := m\<rparr>\<rparr>"

lemma with_bitmap_simps [simp]:
  "GlobalBitmap (shm (with_bitmap m s)) = m" "locks (with_bitmap m s) = locks s" "env (with_bitmap m s) = env s"
  "heap (with_bitmap m s) = heap s" "InProgLocalList0 (with_bitmap m s) = InProgLocalList0 s"
  "InProgLocalList1 (with_bitmap m s) = InProgLocalList1 s" "PartialBitmap (with_bitmap m s) = PartialBitmap s"
  "BitmapNum (with_bitmap m s) = BitmapNum s" "held_lwlocks (with_bitmap m s) = held_lwlocks s"
  "InterruptHoldoffCount (with_bitmap m s) = InterruptHoldoffCount s" "MyProc (with_bitmap m s) = MyProc s"
  "migrateflag (with_bitmap m s) = migrateflag s"
  "with_bitmap m (with_bitmap n s) = with_bitmap m s"
  "with_bitmap (GlobalBitmap (shm s)) s = s"
  by (simp_all add: with_bitmap_def)

text \<open>A backend that runs alone and can take the lock \<open>i\<close> at once.\<close>

definition lock_ready :: "nat \<Rightarrow> backend \<Rightarrow> bool" where
  "lock_ready i s \<longleftrightarrow> env s = [] \<and> i < length (locks s) \<and> lock_free LW_EXCLUSIVE (word_of i s) \<and>
     \<not> must_wake (word_of i s) \<and> length (held_lwlocks s) < MAX_SIMUL_LWLOCKS \<and> MyProc s \<noteq> None \<and>
     InterruptHoldoffCount s \<noteq> -1"

definition taken :: "nat \<Rightarrow> backend \<Rightarrow> backend" where
  "taken i s = (set_word i (word_of i s + lock_value LW_EXCLUSIVE) s)
     \<lparr>held_lwlocks := held_lwlocks s @ [(i, LW_EXCLUSIVE)],
      InterruptHoldoffCount := InterruptHoldoffCount s + 1\<rparr>"

lemma taken_simps [simp]:
  "GlobalBitmap (shm (taken i s)) = GlobalBitmap (shm s)" "env (taken i s) = env s"
  "PartialBitmap (taken i s) = PartialBitmap s"
  by (simp_all add: taken_def)

lemma lock_free_exclusive_bit: "lock_free LW_EXCLUSIVE w \<Longrightarrow> \<not> bit w 24"
proof
  assume "lock_free LW_EXCLUSIVE w" and "bit w 24"
  then have "bit (w AND LW_LOCK_MASK) 24"
    by (simp add: bit_and_iff LW_LOCK_MASK_def bit_mask_iff mask_eq_decr_exp [symmetric] push_bit_of_1)
  with \<open>lock_free LW_EXCLUSIVE w\<close> show False by (simp add: lock_free_def)
qed

lemma acquire_ready: "lock_ready i s \<Longrightarrow> LWLockAcquire i LW_EXCLUSIVE s = (Inr True, taken i s)"
  unfolding lock_ready_def taken_def by (subst acquire_free_alone) auto

lemma release_taken:
  assumes "lock_ready i s"
  shows "LWLockRelease i (with_bitmap m (taken i s)) = (Inr (), with_bitmap m s)"
proof -
  let ?t = "with_bitmap m (taken i s)"
  have i: "i < length (locks s)" using assms by (simp add: lock_ready_def)
  have w: "released_word i LW_EXCLUSIVE ?t = word_of i s"
    using i by (simp add: released_word_def taken_def)
  have c: "0 < InterruptHoldoffCount s + 1"
    using assms unfolding lock_ready_def by (metis add.inverse_inverse add_eq_0_iff2 word_neq_0_conv)
  have "LWLockRelease i ?t =
    (Inr (), (set_word i (word_of i s) ?t)
       \<lparr>held_lwlocks := held_lwlocks s, InterruptHoldoffCount := InterruptHoldoffCount ?t - 1\<rparr>)"
    using release_quiet [of ?t i "held_lwlocks s" LW_EXCLUSIVE] assms c w lock_free_exclusive_bit
    by (simp add: lock_ready_def taken_def)
  also have "(set_word i (word_of i s) ?t)
       \<lparr>held_lwlocks := held_lwlocks s, InterruptHoldoffCount := InterruptHoldoffCount ?t - 1\<rparr> = with_bitmap m s"
    using i by (simp add: set_word_def set_lock_def taken_def with_bitmap_def)
  finally show ?thesis .
qed

lemma wp_acquire_ready:
  "lock_ready i s \<Longrightarrow> wp (LWLockAcquire i LW_EXCLUSIVE) Q E s = Q True (taken i s)"
  by (simp add: wp_def acquire_ready)

lemma wp_release_taken:
  "lock_ready i s \<Longrightarrow> wp (LWLockRelease i) Q E (with_bitmap m (taken i s)) = Q () (with_bitmap m s)"
  by (simp add: wp_def release_taken)

lemma wp_read_word_alone:
  assumes "env s = []" and "PartialBitmap s = Some b" and "elem_ok (GlobalBitmap (shm s)) b e"
  shows "wp (read_word (getwordid e)) Q E s = Q (GlobalBitmap (shm s) ! (b + unat (getwordid e))) s"
  using assms by (simp add: read_word_def partial_bitmap_def wp_simps elem_ok_def)

lemma wp_write_word_alone:
  assumes "env s = []" and "PartialBitmap s = Some b" and "elem_ok (GlobalBitmap (shm s)) b e"
  shows "wp (write_word (getwordid e) w) Q E s =
           Q () (with_bitmap ((GlobalBitmap (shm s))[b + unat (getwordid e) := w]) s)"
  using assms by (simp add: write_word_def partial_bitmap_def wp_simps elem_ok_def with_bitmap_def)

lemma wp_of_eq: "m s = (Inr x, t) \<Longrightarrow> wp m Q E s = Q x t"
  by (simp add: wp_def)

text \<open>The part under the lock, for a tuple that nobody has claimed.\<close>

lemma claim_alone:
  assumes r: "lock_ready i s" and b: "PartialBitmap s = Some b"
    and ok: "elem_ok (GlobalBitmap (shm s)) b e"
    and mig: "getmigratebit (GlobalBitmap (shm s)) b e = Inr False"
    and lk: "getlockbit (GlobalBitmap (shm s)) b e = Inr False"
    and set: "setlockbit (GlobalBitmap (shm s)) b e = Inr m"
    and lists: "local_lists s es0 es1" and room: "2 \<le> room (heap s)"
    and slot: "tts_tuple sl = Some tup" "t_len tup \<noteq> 0" "tuple_eid (t_self tup) = Inr e"
    and i: "i = MigrateBitmapPartitionLock e (BitmapNum s)"
  shows "\<exists>h l. MigrateTuple (Some sl) s = (Inr True, (with_bitmap m s)\<lparr>heap := h, InProgLocalList0 := l\<rparr>) \<and>
           local_lists ((with_bitmap m s)\<lparr>heap := h, InProgLocalList0 := l\<rparr>) (es0 @ [e]) es1 \<and>
           room (heap s) \<le> room h + 2"
proof -
  let ?w = "GlobalBitmap (shm s) ! (b + unat (getwordid e))"
  have bits: "\<not> bit ?w (unat (getmigratebitid e))" "\<not> bit ?w (unat (getlockbitid e))"
    using mig lk ok by (simp_all add: getmigratebit_eq getlockbit_eq)
  have m: "m = (GlobalBitmap (shm s))[b + unat (getwordid e) := ?w OR push_bit (unat (getlockbitid e)) 1]"
    using set by (simp add: setlockbit_eq_Inr)
  have l': "local_lists (with_bitmap m s) es0 es1" using lists by (simp add: local_lists_def)
  from append_list0_spec [OF l', of e] room obtain h l where
    app: "append_list0 e (with_bitmap m s) = (Inr (), (with_bitmap m s)\<lparr>heap := h, InProgLocalList0 := l\<rparr>)"
    and res: "local_lists ((with_bitmap m s)\<lparr>heap := h, InProgLocalList0 := l\<rparr>) (es0 @ [e]) es1"
      "room (heap s) \<le> room h + 2"
    by auto
  have e: "env s = []" using r by (simp add: lock_ready_def)
  have "MigrateTuple (Some sl) s = (Inr True, (with_bitmap m s)\<lparr>heap := h, InProgLocalList0 := l\<rparr>)"
    unfolding wp_Inr
    using slot bits e b ok
    by (simp add: MigrateTuple_def wp_simps wp_read_word_alone wp_write_word_alone
        i [symmetric] wp_acquire_ready [OF r] m [symmetric]
        wp_release_taken [OF r] wp_of_eq [where m = "append_list0 e", OF app])
  with res show ?thesis by blast
qed

text \<open>A tuple that somebody has claimed and not yet migrated is remembered in the second list.\<close>

lemma wait_alone:
  assumes e: "env s = []" and b: "PartialBitmap s = Some b"
    and ok: "elem_ok (GlobalBitmap (shm s)) b e"
    and mig: "getmigratebit (GlobalBitmap (shm s)) b e = Inr False"
    and lk: "getlockbit (GlobalBitmap (shm s)) b e = Inr True"
    and lists: "local_lists s es0 es1" and room: "2 \<le> room (heap s)"
    and slot: "tts_tuple sl = Some tup" "t_len tup \<noteq> 0" "tuple_eid (t_self tup) = Inr e"
  shows "\<exists>h l. MigrateTuple (Some sl) s = (Inr False, s\<lparr>heap := h, InProgLocalList1 := l\<rparr>) \<and>
           local_lists (s\<lparr>heap := h, InProgLocalList1 := l\<rparr>) es0 (es1 @ [e]) \<and>
           room (heap s) \<le> room h + 2"
proof -
  let ?w = "GlobalBitmap (shm s) ! (b + unat (getwordid e))"
  have bits: "\<not> bit ?w (unat (getmigratebitid e))" "bit ?w (unat (getlockbitid e))"
    using mig lk ok by (simp_all add: getmigratebit_eq getlockbit_eq)
  from append_list1_spec [OF lists room, of e] obtain h l where
    app: "append_list1 e s = (Inr (), s\<lparr>heap := h, InProgLocalList1 := l\<rparr>)"
    and res: "local_lists (s\<lparr>heap := h, InProgLocalList1 := l\<rparr>) es0 (es1 @ [e])" "room (heap s) \<le> room h + 2"
    by auto
  have "MigrateTuple (Some sl) s = (Inr False, s\<lparr>heap := h, InProgLocalList1 := l\<rparr>)"
    unfolding wp_Inr using slot bits e b ok
    by (simp add: MigrateTuple_def wp_simps wp_read_word_alone wp_of_eq [where m = "append_list1 e", OF app])
  with res show ?thesis by blast
qed

lemma migrated_alone:
  assumes "env s = []" and "PartialBitmap s = Some b" and "elem_ok (GlobalBitmap (shm s)) b e"
    and "getmigratebit (GlobalBitmap (shm s)) b e = Inr True"
    and "tts_tuple sl = Some tup" "t_len tup \<noteq> 0" "tuple_eid (t_self tup) = Inr e"
  shows "MigrateTuple (Some sl) s = (Inr False, s)"
  unfolding wp_Inr using assms
  by (simp add: MigrateTuple_def wp_simps wp_read_word_alone getmigratebit_eq)

lemma MigrateTuple_null: "tts_tuple sl = None \<Longrightarrow> MigrateTuple (Some sl) s = (Inl NullDeref, s)"
  by (simp add: MigrateTuple_def throw_def)

end
