(* ===== verification/MigrateQuery.thy ===== *)
theory MigrateQuery
  imports MigrateScanFacts
begin

unbundle bit_operations_syntax

text \<open>
  The life of a migration in a backend: \<open>exec_bind_message\<close> recognises the query and starts it,
  \<open>post_query_tasks\<close> ends it (both in \<open>src/backend/tcop/postgres.c\<close>), and \<open>txn_error_handling\<close>
  (\<open>src/backend/storage/lmgr/predicate.c\<close>) undoes it when the transaction is cancelled.
\<close>

subsection \<open>Starting\<close>

text \<open>\<open>strncmp(a, b, n) == 0\<close>, for strings without the terminating null character.\<close>

definition strncmp_eq :: "string \<Rightarrow> string \<Rightarrow> nat \<Rightarrow> bool" where
  "strncmp_eq a b n \<longleftrightarrow> take n a = take n b"

definition begin_migration :: "uint8 \<Rightarrow> nat \<Rightarrow> (backend, unit) prog" where
  "begin_migration num bitmap =
     modify (\<lambda>s. s\<lparr>migrateflag := True, InProgLocalList0 := NIL, InProgLocalList1 := NIL,
                   BitmapNum := num, PartialBitmap := Some bitmap\<rparr>)"

definition bind_migration :: "string \<Rightarrow> (backend, unit) prog" where
  "bind_migration query_string =
     (if strncmp_eq query_string '' insert into customer_proj1'' 27 then begin_migration 0 0
      else if strncmp_eq query_string '' insert into customer_proj2'' 27 then begin_migration 1 BITMAPSIZE
      else ret ())"

subsection \<open>Bits in shared memory\<close>

definition heap_op :: "(store \<Rightarrow> 'a result) \<Rightarrow> (backend, 'a) prog" where
  "heap_op f = bindp (gets heap) (\<lambda>h. liftp (f h))"

text \<open>\<open>setmigratebit\<close>, \<open>resetlockbit\<close> and \<open>getmigratebit\<close> on \<open>PartialBitmap\<close>; an update is a read and a
  write.\<close>

definition set_migrate_bit :: "uint32 \<Rightarrow> (backend, unit) prog" where
  "set_migrate_bit eid =
     bindp (read_word (getwordid eid)) (\<lambda>w.
     write_word (getwordid eid) (w OR push_bit (unat (getmigratebitid eid)) 1))"

definition reset_lock_bit :: "uint32 \<Rightarrow> (backend, unit) prog" where
  "reset_lock_bit eid =
     bindp (read_word (getwordid eid)) (\<lambda>w.
     write_word (getwordid eid) (w AND NOT (push_bit (unat (getlockbitid eid)) 1)))"

definition get_migrate_bit :: "uint32 \<Rightarrow> (backend, bool) prog" where
  "get_migrate_bit eid =
     bindp (read_word (getwordid eid)) (\<lambda>w. ret (getkthbit w (getmigratebitid eid)))"

text \<open>\<open>foreach(cell, list) f(lfirst_int(cell))\<close>; the list is not changed by the body.\<close>

fun foreach_int :: "nat \<Rightarrow> (uint32 \<Rightarrow> (backend, unit) prog) \<Rightarrow> nat \<Rightarrow> (backend, unit) prog" where
  "foreach_int 0 f cell = throw Diverges"
| "foreach_int (Suc n) f cell =
     (if cell = 0 then ret ()
      else
        bindp (heap_op (lfirst_int cell)) (\<lambda>eid.
        thenp (f eid)
        (bindp (heap_op (lnext cell)) (\<lambda>nx.
        foreach_int n f nx))))"

definition each_in_list :: "(uint32 \<Rightarrow> (backend, unit) prog) \<Rightarrow> nat \<Rightarrow> (backend, unit) prog" where
  "each_in_list f l =
     bindp (heap_op (list_head l)) (\<lambda>cell.
     bindp (gets (loop_bound \<circ> heap)) (\<lambda>n.
     foreach_int n f cell))"

definition free_list :: "nat \<Rightarrow> (backend, unit) prog" where
  "free_list l =
     bindp (heap_op (pg_list_free l False)) (\<lambda>h. modify (\<lambda>s. s\<lparr>heap := h\<rparr>))"

text \<open>\<open>pg_list_free(InProgLocalList0, false); pg_list_free(InProgLocalList1, false);\<close>\<close>

definition free_lists :: "(backend, unit) prog" where
  "free_lists =
     bindp (gets InProgLocalList0) (\<lambda>l0.
     thenp (free_list l0)
     (bindp (gets InProgLocalList1) (\<lambda>l1.
     free_list l1)))"

subsection \<open>Ending\<close>

text \<open>One pass over \<open>InProgLocalList1\<close>: drop the elements that have been migrated.\<close>

fun drop_migrated :: "nat \<Rightarrow> nat \<Rightarrow> nat \<Rightarrow> int \<Rightarrow> (backend, int) prog" where
  "drop_migrated 0 cell prev sz = throw Diverges"
| "drop_migrated (Suc n) cell prev sz =
     (if cell = 0 then ret sz
      else
        bindp (heap_op (lnext cell)) (\<lambda>nx.
        bindp (heap_op (lfirst_int cell)) (\<lambda>eid.
        bindp (get_migrate_bit eid) (\<lambda>migrated.
        if migrated then
          bindp (gets (\<lambda>s. pg_list_delete_cell (InProgLocalList1 s) cell prev (heap s))) (\<lambda>r.
          bindp (liftp r) (\<lambda>(l, h).
          thenp (modify (\<lambda>s. s\<lparr>heap := h, InProgLocalList1 := l\<rparr>))
          (drop_migrated n nx prev (sz - 1))))
        else drop_migrated n nx cell sz))))"

text \<open>
  \<open>while (size > 0)\<close>. A pass makes the others move at least once, so after \<open>n\<close> passes, \<open>n\<close> being one
  more than the moves they have left, nothing changes any more.
\<close>

fun wait_migrated :: "nat \<Rightarrow> int \<Rightarrow> (backend, unit) prog" where
  "wait_migrated n sz =
     (if sz \<le> 0 then ret ()
      else case n of
        0 \<Rightarrow> throw Blocked
      | Suc n \<Rightarrow>
          bindp (gets InProgLocalList1) (\<lambda>l.
          bindp (heap_op (list_head l)) (\<lambda>cell.
          bindp (gets (loop_bound \<circ> heap)) (\<lambda>k.
          bindp (drop_migrated k cell 0 sz) (\<lambda>sz.
          wait_migrated n sz)))))"

declare wait_migrated.simps [simp del]

definition post_query_tasks :: "(backend, unit) prog" where
  "post_query_tasks =
     bindp (gets migrateflag) (\<lambda>flag.
     whenp flag
       (bindp (gets InProgLocalList0) (\<lambda>l0.
       thenp (each_in_list set_migrate_bit l0)
       (bindp (gets InProgLocalList1) (\<lambda>l1.
       bindp (heap_op (list_length l1)) (\<lambda>sz.
       thenp (with_fuel (\<lambda>n. wait_migrated n sz))
       (thenp free_lists
       (modify (\<lambda>s. s\<lparr>InProgLocalList0 := NIL, InProgLocalList1 := NIL,
                      tuplemigratecount := 0, migrateflag := False\<rparr>)))))))))"

subsection \<open>Cancelling\<close>

definition txn_error_handling :: "(backend, unit) prog" where
  "txn_error_handling =
     bindp (gets (\<lambda>s. migrateflag s \<and> InProgLocalList0 s \<noteq> NIL)) (\<lambda>act.
     whenp act
       (bindp (gets InProgLocalList0) (\<lambda>l0.
       thenp (each_in_list reset_lock_bit l0)
       (thenp (modify (\<lambda>s. s\<lparr>tuplemigratecount := 0, migrateflag := False\<rparr>))
       (thenp free_lists
       (modify (\<lambda>s. s\<lparr>InProgLocalList0 := NIL, InProgLocalList1 := NIL\<rparr>)))))))"

end
