(* ===== verification/MigrateQueryFacts.thy ===== *)
theory MigrateQueryFacts
  imports MigrateQuery
begin

unbundle bit_operations_syntax

text \<open>
  What the end of a query and its cancellation do to the bitmap and to the lists of the backend, for
  a backend that runs alone: every claimed tuple becomes migrated, or its claim is withdrawn; the
  lists are given back; and the end waits for ever when a tuple claimed by somebody else stays
  unmigrated.
\<close>

subsection \<open>Bits in shared memory are the bits of the bitmap\<close>

lemma wp_set_migrate_bit_alone:
  assumes "env s = []" and "PartialBitmap s = Some b" and "setmigratebit (GlobalBitmap (shm s)) b e = Inr m"
  shows "wp (set_migrate_bit e) Q E s = Q () (with_bitmap m s)"
  using assms
  by (simp add: set_migrate_bit_def wp_simps wp_read_word_alone wp_write_word_alone setmigratebit_eq_Inr)

lemma wp_reset_lock_bit_alone:
  assumes "env s = []" and "PartialBitmap s = Some b" and "resetlockbit (GlobalBitmap (shm s)) b e = Inr m"
  shows "wp (reset_lock_bit e) Q E s = Q () (with_bitmap m s)"
  using assms
  by (simp add: reset_lock_bit_def wp_simps wp_read_word_alone wp_write_word_alone resetlockbit_eq_Inr)

lemma wp_get_migrate_bit_alone:
  assumes "env s = []" and "PartialBitmap s = Some b" and "getmigratebit (GlobalBitmap (shm s)) b e = Inr v"
  shows "wp (get_migrate_bit e) Q E s = Q v s"
  using assms
  by (simp add: get_migrate_bit_def wp_simps wp_read_word_alone getmigratebit_eq split: if_splits)

lemma wp_heap_op [wp_simps]:
  "wp (heap_op f) Q E s = (case f (heap s) of Inl e \<Rightarrow> E e s | Inr x \<Rightarrow> Q x s)"
  by (simp add: heap_op_def wp_simps)

subsection \<open>Walking a list of element numbers\<close>

lemma wp_foreach_int:
  assumes "length fs < n" and "es = ds @ fs" and "seg h org zs 0" and "map snd zs = map IntValue fs"
    and "I ds s"
    and heap: "\<And>ds t. I ds t \<Longrightarrow> heap t = h"
    and step: "\<And>ds e fs t. es = ds @ e # fs \<Longrightarrow> I ds t \<Longrightarrow> wp (f e) (\<lambda>_. I (ds @ [e])) E t"
  shows "wp (foreach_int n f (first_addr zs 0)) (\<lambda>_. I es) E s"
  using assms(1-5)
proof (induction fs arbitrary: n ds zs s)
  case Nil
  then show ?case by (cases n) (simp_all add: wp_simps)
next
  case (Cons e fs)
  from Cons.prems obtain m where n: "n = Suc m" "length fs < m" by (cases n) auto
  from Cons.prems(4) obtain a ws where zs: "zs = (a, IntValue e) # ws" "map snd ws = map IntValue fs"
    by (auto simp: map_eq_Cons_conv)
  from Cons.prems(3) zs have a: "a \<noteq> 0" "cells h a = Some (mk_cell (IntValue e) (first_addr ws 0) org)"
    "seg h org ws 0" by simp_all
  have "wp (f e) (\<lambda>_. I (ds @ [e])) E s" using step Cons.prems by blast
  then have "wp (f e) (\<lambda>_. wp (heap_op (lnext a)) (\<lambda>nx. wp (foreach_int m f nx) (\<lambda>_. I es) E) E) E s"
  proof (rule wp_mono)
    fix t assume t: "I (ds @ [e]) t"
    have "wp (foreach_int m f (first_addr ws 0)) (\<lambda>_. I es) E t"
      by (rule Cons.IH [OF n(2) _ a(3) zs(2) t]) (simp add: Cons.prems(2))
    then show "wp (heap_op (lnext a)) (\<lambda>nx. wp (foreach_int m f nx) (\<lambda>_. I es) E) E t"
      using a heap [OF t] by (simp add: wp_simps)
  qed
  then show ?case
    using n a zs heap [OF Cons.prems(5)] by (simp add: wp_simps lfirst_int_def)
qed

lemma wp_each_in_list:
  assumes wf: "wf_store (heap s)" and hl: "holds T_IntList IntValue (heap s) org l es xs"
    and "I [] s"
    and "\<And>ds t. I ds t \<Longrightarrow> heap t = heap s"
    and "\<And>ds e fs t. es = ds @ e # fs \<Longrightarrow> I ds t \<Longrightarrow> wp (f e) (\<lambda>_. I (ds @ [e])) E t"
  shows "wp (each_in_list f l) (\<lambda>_. I es) E s"
proof -
  have len: "length xs = length es" using hl unfolding holds_def by (metis length_map)
  have "wp (foreach_int (loop_bound (heap s)) f (first_addr xs 0)) (\<lambda>_. I es) E s"
  proof (rule wp_foreach_int [where ds = "[]" and h = "heap s" and org = org and fs = es])
    show "length es < loop_bound (heap s)" using rep_length_lt [OF wf holds_rep [OF hl]] len by simp
    show "seg (heap s) org xs 0" by (rule rep_seg [OF holds_rep [OF hl]])
    show "map snd xs = map IntValue es" using hl by (simp add: holds_def)
  qed (fact assms | simp)+
  then show ?thesis
    by (simp add: each_in_list_def wp_simps rep_list_head [OF holds_rep [OF hl]])
qed

text \<open>Updating the bits of a whole list is the same update of the bitmap.\<close>

lemma each_bit_alone:
  assumes e: "env s = []" and b: "PartialBitmap s = Some b" and wf: "wf_store (heap s)"
    and hl: "holds T_IntList IntValue (heap s) org l es xs"
    and m: "each_res (\<lambda>e m. upd m b e) es (GlobalBitmap (shm s)) = Inr m"
    and f: "\<And>t e m Q. env t = [] \<Longrightarrow> PartialBitmap t = Some b \<Longrightarrow> upd (GlobalBitmap (shm t)) b e = Inr m \<Longrightarrow>
      wp (f e) Q (\<lambda>_ _. False) t = Q () (with_bitmap m t)"
  shows "each_in_list f l s = (Inr (), with_bitmap m s)"
proof -
  let ?I = "\<lambda>ds t. \<exists>m. each_res (\<lambda>e m. upd m b e) ds (GlobalBitmap (shm s)) = Inr m \<and> t = with_bitmap m s"
  have "wp (each_in_list f l) (\<lambda>_. ?I es) (\<lambda>_ _. False) s"
  proof (rule wp_each_in_list [OF wf hl])
    show "?I [] s" by simp
    show "heap t = heap s" if "?I ds t" for ds t using that by auto
    fix ds e fs t
    assume es: "es = ds @ e # fs" and "?I ds t"
    then obtain m1 where m1: "each_res (\<lambda>e m. upd m b e) ds (GlobalBitmap (shm s)) = Inr m1" "t = with_bitmap m1 s"
      by blast
    with m es obtain m2 where "upd m1 b e = Inr m2" by (auto simp: each_res_append bind_res_eq_Inr)
    with m1 show "wp (f e) (\<lambda>_. ?I (ds @ [e])) (\<lambda>_ _. False) t"
      using f [of t e m2] \<open>env s = []\<close> b by (auto simp: each_res_append)
  qed
  then show ?thesis using m by (auto simp: wp_total)
qed

subsection \<open>Waiting for the others\<close>

definition is_migrated :: "uint64 list \<Rightarrow> nat \<Rightarrow> nat \<times> cell_data \<Rightarrow> bool" where
  "is_migrated m b x = (\<exists>e. snd x = IntValue e \<and> getmigratebit m b e = Inr True)"

text \<open>
  The second list has the cells \<open>xs\<close>, and the first one, \<open>l0\<close> with the cells \<open>ws\<close>, is apart from it.
\<close>

definition list1_is :: "nat \<Rightarrow> lseq \<Rightarrow> lseq \<Rightarrow> backend \<Rightarrow> bool" where
  "list1_is l0 ws xs s \<longleftrightarrow> wf_store (heap s) \<and>
     rep (heap s) Malloc T_IntList (InProgLocalList1 s) xs \<and> rep (heap s) Malloc T_IntList l0 ws \<and>
     addrs ws \<inter> addrs xs = {} \<and> (InProgLocalList1 s = l0 \<longrightarrow> l0 = 0)"

lemma delete_list1:
  assumes "list1_is l0 ws (ys @ (a, d) # zs) s"
  shows "\<exists>l h. pg_list_delete_cell (InProgLocalList1 s) a (last (0 # map fst ys)) (heap s) = Inr (l, h) \<and>
           list1_is l0 ws (ys @ zs) (s\<lparr>heap := h, InProgLocalList1 := l\<rparr>)"
proof -
  let ?l = "InProgLocalList1 s"
  from assms have wf: "wf_store (heap s)" and r: "rep (heap s) Malloc T_IntList ?l (ys @ (a, d) # zs)"
    and r0: "rep (heap s) Malloc T_IntList l0 ws" and disj: "addrs ws \<inter> addrs (ys @ (a, d) # zs) = {}"
    and ne: "?l = l0 \<longrightarrow> l0 = 0"
    by (simp_all add: list1_is_def)
  from pg_list_delete_cell_rep [OF wf r] obtain l h where
    del: "pg_list_delete_cell ?l a (last (0 # map fst ys)) (heap s) = Inr (l, h)"
    and d: "rep h Malloc T_IntList l (ys @ zs)" "wf_store h" "l = (if ys @ zs = [] then 0 else ?l)"
      "unchanged (heap s) h {?l} (insert a (addrs (ys @ zs)))"
    unfolding deleted_def by blast
  have "rep h Malloc T_IntList l0 ws"
  proof (cases "l0 = 0")
    case True
    with r0 show ?thesis by simp
  next
    case False
    then have "l0 \<notin> {?l}" using ne by auto
    from rep_unchanged [OF wf r0 d(4) this] disj show ?thesis by auto
  qed
  then have "list1_is l0 ws (ys @ zs) (s\<lparr>heap := h, InProgLocalList1 := l\<rparr>)"
    using d ne disj by (auto simp: list1_is_def)
  with del show ?thesis by blast
qed

text \<open>One pass over the second list, of which \<open>ys\<close> has been kept and \<open>zs\<close> is still to be looked at.\<close>

lemma drop_migrated_alone:
  assumes "env s = []" and "PartialBitmap s = Some b" and "list1_is l0 ws (ys @ zs) s"
    and "map snd zs = map IntValue fs" and "\<forall>e \<in> set fs. elem_ok (GlobalBitmap (shm s)) b e"
    and "length zs < n"
  shows "wp (drop_migrated n (first_addr zs 0) (last (0 # map fst ys)) sz)
           (\<lambda>r t. r = sz - int (length (filter (is_migrated (GlobalBitmap (shm s)) b) zs)) \<and>
              list1_is l0 ws (ys @ filter (\<lambda>x. \<not> is_migrated (GlobalBitmap (shm s)) b x) zs) t \<and>
              t = s\<lparr>heap := heap t, InProgLocalList1 := InProgLocalList1 t\<rparr>) (\<lambda>_ _. False) s"
  using assms
proof (induction zs arbitrary: n s ys fs sz)
  case Nil
  then show ?case by (cases n) (simp_all add: wp_simps)
next
  case (Cons z zs)
  let ?m = "GlobalBitmap (shm s)"
  from Cons.prems obtain n' where n: "n = Suc n'" "length zs < n'" by (cases n) auto
  from Cons.prems(4) obtain a e gs where z: "z = (a, IntValue e)" and fs: "fs = e # gs"
    "map snd zs = map IntValue gs"
    by (cases z) (auto simp: Cons_eq_map_conv)
  from Cons.prems(3) have "seg (heap s) Malloc (ys @ (a, IntValue e) # zs) 0"
    using rep_seg unfolding list1_is_def z by blast
  then have c: "a \<noteq> 0" "cells (heap s) a = Some (mk_cell (IntValue e) (first_addr zs 0) Malloc)"
    by (simp_all add: seg_append)
  obtain v where v: "getmigratebit ?m b e = Inr v" using Cons.prems(5) fs by (auto simp: getmigratebit_eq)
  have mig: "is_migrated ?m b z = v" using z v by (auto simp: is_migrated_def)
  note bit = wp_get_migrate_bit_alone [OF Cons.prems(1,2) v]
  show ?case
  proof (cases v)
    case False
    have "last (0 # map fst (ys @ [z])) = a" by (simp add: z)
    moreover have "list1_is l0 ws ((ys @ [z]) @ zs) s" using Cons.prems(3) by simp
    ultimately show ?thesis
      using Cons.IH [OF Cons.prems(1,2), of "ys @ [z]" gs n' sz] Cons.prems(5) n fs mig False c z bit
      by (simp add: wp_simps lfirst_int_def)
  next
    case True
    from delete_list1 [of l0 ws ys a "IntValue e" zs s] Cons.prems(3) obtain l h where
      del: "pg_list_delete_cell (InProgLocalList1 s) a (last (0 # map fst ys)) (heap s) = Inr (l, h)"
      and d: "list1_is l0 ws (ys @ zs) (s\<lparr>heap := h, InProgLocalList1 := l\<rparr>)"
      unfolding z by blast
    let ?s = "s\<lparr>heap := h, InProgLocalList1 := l\<rparr>"
    have "wp (drop_migrated n' (first_addr zs 0) (last (0 # map fst ys)) (sz - 1))
           (\<lambda>r t. r = sz - int (length (filter (is_migrated ?m b) (z # zs))) \<and>
              list1_is l0 ws (ys @ filter (\<lambda>x. \<not> is_migrated ?m b x) (z # zs)) t \<and>
              t = s\<lparr>heap := heap t, InProgLocalList1 := InProgLocalList1 t\<rparr>) (\<lambda>_ _. False) ?s"
      using Cons.IH [of ?s ys gs n' "sz - 1"] Cons.prems(1,2,5) d n fs mig True
      by (auto elim!: wp_mono)
    then show ?thesis
      using n c z bit True del by (simp add: wp_simps lfirst_int_def del: last.simps)
  qed
qed

text \<open>The loop ends if all elements have been migrated, and never otherwise.\<close>

lemma wait_migrated_alone:
  assumes e: "env s = []" and b: "PartialBitmap s = Some b" and l1: "list1_is l0 ws xs s"
    and es: "map snd xs = map IntValue es" and ok: "\<forall>e \<in> set es. elem_ok (GlobalBitmap (shm s)) b e"
  defines "done \<equiv> \<forall>e \<in> set es. getmigratebit (GlobalBitmap (shm s)) b e = Inr True"
  shows "wp (wait_migrated (Suc 0) (int (length es)))
           (\<lambda>_ t. done \<and> list1_is l0 ws [] t \<and> t = s\<lparr>heap := heap t, InProgLocalList1 := InProgLocalList1 t\<rparr>)
           (\<lambda>e _. \<not> done \<and> e = Blocked) s"
proof (cases "es = []")
  case True
  with es l1 show ?thesis by (simp add: wait_migrated.simps wp_simps done_def)
next
  case False
  let ?mig = "is_migrated (GlobalBitmap (shm s)) b"
  have len: "length xs = length es" using arg_cong [OF es, of length] by simp
  have "(\<forall>x \<in> set xs. ?mig x) \<longleftrightarrow> (\<forall>d \<in> set (map snd xs). \<exists>e. d = IntValue e \<and> getmigratebit (GlobalBitmap (shm s)) b e = Inr True)"
    by (auto simp: is_migrated_def)
  also have "\<dots> \<longleftrightarrow> done" unfolding es done_def by auto
  finally have dn: "done \<longleftrightarrow> (\<forall>x \<in> set xs. ?mig x)" ..
  have sz: "int (length es) - int (length (filter ?mig xs)) \<le> 0 \<longleftrightarrow> done"
    unfolding dn len [symmetric] by (metis diff_le_0_iff_le filter_True length_filter_less not_less of_nat_le_iff order_refl)
  have rp: "rep (heap s) Malloc T_IntList (InProgLocalList1 s) xs" and wf: "wf_store (heap s)"
    using l1 by (simp_all add: list1_is_def)
  have pass: "wp (drop_migrated (loop_bound (heap s)) (first_addr xs 0) 0 (int (length es)))
     (\<lambda>r t. r = int (length es) - int (length (filter ?mig xs)) \<and>
        list1_is l0 ws (filter (\<lambda>x. \<not> ?mig x) xs) t \<and>
        t = s\<lparr>heap := heap t, InProgLocalList1 := InProgLocalList1 t\<rparr>) (\<lambda>_ _. False) s"
    using drop_migrated_alone [OF e b, of l0 ws "[]" xs es "loop_bound (heap s)" "int (length es)"]
      l1 es ok rep_length_lt [OF wf rp] by simp
  have "wp (drop_migrated (loop_bound (heap s)) (first_addr xs 0) 0 (int (length es)))
     (\<lambda>r. wp (wait_migrated 0 r)
        (\<lambda>_ t. done \<and> list1_is l0 ws [] t \<and> t = s\<lparr>heap := heap t, InProgLocalList1 := InProgLocalList1 t\<rparr>)
        (\<lambda>e _. \<not> done \<and> e = Blocked)) (\<lambda>e _. \<not> done \<and> e = Blocked) s"
    using pass
  proof (rule wp_mono)
    fix r t
    assume *: "r = int (length es) - int (length (filter ?mig xs)) \<and>
        list1_is l0 ws (filter (\<lambda>x. \<not> ?mig x) xs) t \<and>
        t = s\<lparr>heap := heap t, InProgLocalList1 := InProgLocalList1 t\<rparr>"
    then have r: "r \<le> 0 \<longleftrightarrow> done" using sz by blast
    have "done \<Longrightarrow> filter (\<lambda>x. \<not> ?mig x) xs = []" by (simp add: dn)
    with * r show "wp (wait_migrated 0 r)
        (\<lambda>_ t. done \<and> list1_is l0 ws [] t \<and> t = s\<lparr>heap := heap t, InProgLocalList1 := InProgLocalList1 t\<rparr>)
        (\<lambda>e _. \<not> done \<and> e = Blocked) t"
      by (auto simp: wait_migrated.simps [of 0] wp_simps)
  qed simp
  then show ?thesis
    using False by (simp add: wait_migrated.simps [of "Suc 0"] wp_simps rep_list_head [OF rp])
qed

subsection \<open>Giving the lists back\<close>

lemma wp_free_list:
  assumes "wf_store (heap s)" and "rep (heap s) Malloc ty l xs"
  shows "wp (free_list l) Q E s = Q () (s\<lparr>heap := without_list l xs (heap s)\<rparr>)"
  using pg_list_free_rep [OF assms] by (simp add: free_list_def wp_simps)

lemma without_nothing [simp]: "without_list 0 [] h = h"
  by (simp add: without_list_def without_cells_def)

definition ended :: "uint64 list \<Rightarrow> store \<Rightarrow> backend \<Rightarrow> backend" where
  "ended m h s = (with_bitmap m s)\<lparr>heap := h, migrateflag := False, tuplemigratecount := 0,
     InProgLocalList0 := 0, InProgLocalList1 := 0\<rparr>"

subsection \<open>The end of a migration query\<close>

definition list_elems_ok :: "backend \<Rightarrow> nat \<Rightarrow> uint32 list \<Rightarrow> bool" where
  "list_elems_ok s b es \<longleftrightarrow> (\<forall>e \<in> set es. elem_ok (GlobalBitmap (shm s)) b e)"

text \<open>The state when the claimed tuples have been marked, before the wait.\<close>

lemma mark_claimed_alone:
  assumes e: "env s = []" and b: "PartialBitmap s = Some b" and lists: "local_lists s es0 es1"
    and ok: "list_elems_ok s b es0"
  obtains m where "each_res (\<lambda>e m. setmigratebit m b e) es0 (GlobalBitmap (shm s)) = Inr m"
    and "each_in_list set_migrate_bit (InProgLocalList0 s) s = (Inr (), with_bitmap m s)"
    and "length m = length (GlobalBitmap (shm s))"
proof -
  from lists obtain xs where wf: "wf_store (heap s)"
    and hl: "holds T_IntList IntValue (heap s) Malloc (InProgLocalList0 s) es0 xs"
    by (auto simp: local_lists_def)
  obtain m where m: "each_res (\<lambda>e m. setmigratebit m b e) es0 (GlobalBitmap (shm s)) = Inr m"
    using migrate_bits.each_put_total [of es0 "GlobalBitmap (shm s)" b] ok by (auto simp: list_elems_ok_def)
  have "each_in_list set_migrate_bit (InProgLocalList0 s) s = (Inr (), with_bitmap m s)"
    by (rule each_bit_alone [where upd = setmigratebit, OF e b wf hl m]) (rule wp_set_migrate_bit_alone)
  with m migrate_bits.each_put_length [OF m] that show thesis by blast
qed

lemma post_query_alone:
  assumes e: "env s = []" and b: "PartialBitmap s = Some b" and lists: "local_lists s es0 es1"
    and flag: "migrateflag s" and ok: "list_elems_ok s b (es0 @ es1)"
    and m: "each_res (\<lambda>e m. setmigratebit m b e) es0 (GlobalBitmap (shm s)) = Inr m"
  defines "done \<equiv> \<forall>e \<in> set es1. getmigratebit m b e = Inr True"
  shows "wp post_query_tasks (\<lambda>_ t. done \<and> (\<exists>h. wf_store h \<and> t = ended m h s)) (\<lambda>e _. \<not> done \<and> e = Blocked) s"
proof -
  have ok0: "list_elems_ok s b es0" using ok by (simp add: list_elems_ok_def)
  have mark: "each_in_list set_migrate_bit (InProgLocalList0 s) s = (Inr (), with_bitmap m s)"
    and len: "length m = length (GlobalBitmap (shm s))"
    using mark_claimed_alone [OF e b lists ok0] m by auto
  let ?s = "with_bitmap m s"
  let ?reset = "modify (\<lambda>s. s\<lparr>InProgLocalList0 := NIL, InProgLocalList1 := NIL,
                   tuplemigratecount := 0, migrateflag := False\<rparr>)"
  from lists obtain xs0 xs1 where
    l0: "holds T_IntList IntValue (heap s) Malloc (InProgLocalList0 s) es0 xs0"
    and l1: "holds T_IntList IntValue (heap s) Malloc (InProgLocalList1 s) es1 xs1"
    and "wf_store (heap s)" "addrs xs0 \<inter> addrs xs1 = {}"
      "InProgLocalList0 s = InProgLocalList1 s \<longrightarrow> InProgLocalList0 s = 0"
    by (auto simp: local_lists_def)
  then have li: "list1_is (InProgLocalList0 s) xs0 xs1 ?s"
    using holds_rep [OF l0] holds_rep [OF l1] by (auto simp: list1_is_def)
  have es1: "map snd xs1 = map IntValue es1" using l1 by (simp add: holds_def)
  then have sz: "list_length (InProgLocalList1 s) (heap s) = Inr (int (length es1))"
    using rep_list_length [OF holds_rep [OF l1]] by (metis length_map)
  have ok1: "\<forall>e \<in> set es1. elem_ok (GlobalBitmap (shm ?s)) b e"
    using ok elem_ok_length [OF len] by (simp add: list_elems_ok_def)
  have "wp (wait_migrated (Suc 0) (int (length es1)))
     (\<lambda>_ t. done \<and> list1_is (InProgLocalList0 s) xs0 [] t \<and>
        t = ?s\<lparr>heap := heap t, InProgLocalList1 := InProgLocalList1 t\<rparr>) (\<lambda>e _. \<not> done \<and> e = Blocked) ?s"
    using wait_migrated_alone [of ?s b "InProgLocalList0 s" xs0 xs1 es1] e b li es1 ok1
    by (simp add: done_def)
  then have "wp (wait_migrated (Suc 0) (int (length es1)))
     (\<lambda>_. wp (thenp free_lists ?reset) (\<lambda>_ t. done \<and> (\<exists>h. wf_store h \<and> t = ended m h s))
        (\<lambda>e _. \<not> done \<and> e = Blocked)) (\<lambda>e _. \<not> done \<and> e = Blocked) ?s"
  proof (rule wp_mono)
    fix t
    assume *: "done \<and> list1_is (InProgLocalList0 s) xs0 [] t \<and>
        t = ?s\<lparr>heap := heap t, InProgLocalList1 := InProgLocalList1 t\<rparr>"
    obtain h l where t: "t = ?s\<lparr>heap := h, InProgLocalList1 := l\<rparr>" using * by blast
    with * have "wf_store h" "rep h Malloc T_IntList (InProgLocalList0 s) xs0" "l = 0"
      by (auto simp: list1_is_def)
    then show "wp (thenp free_lists ?reset) (\<lambda>_ t. done \<and> (\<exists>h. wf_store h \<and> t = ended m h s))
        (\<lambda>e _. \<not> done \<and> e = Blocked) t"
      using * t without_list_wf [of h "InProgLocalList0 s" xs0]
      by (auto simp: free_lists_def wp_simps wp_free_list [where ty = T_IntList and xs = xs0]
          wp_free_list [where ty = T_IntList and xs = "[]"] ended_def)
  qed simp
  then show ?thesis
    using flag e sz
    by (simp add: post_query_tasks_def wp_simps wp_of_eq [where m = "each_in_list set_migrate_bit _", OF mark])
qed

subsection \<open>Cancelling a migration query\<close>

lemma txn_error_alone:
  assumes e: "env s = []" and b: "PartialBitmap s = Some b" and lists: "local_lists s es0 es1"
    and flag: "migrateflag s" "es0 \<noteq> []"
    and m: "each_res (\<lambda>e m. resetlockbit m b e) es0 (GlobalBitmap (shm s)) = Inr m"
  shows "\<exists>h. txn_error_handling s = (Inr (), ended m h s) \<and> wf_store h"
proof -
  from lists obtain xs0 xs1 where wf: "wf_store (heap s)"
    and l0: "holds T_IntList IntValue (heap s) Malloc (InProgLocalList0 s) es0 xs0"
    and l1: "holds T_IntList IntValue (heap s) Malloc (InProgLocalList1 s) es1 xs1"
    and disj: "addrs xs0 \<inter> addrs xs1 = {}"
      "InProgLocalList0 s = InProgLocalList1 s \<longrightarrow> InProgLocalList0 s = 0"
    by (auto simp: local_lists_def)
  let ?h = "without_list (InProgLocalList0 s) xs0 (heap s)"
  have clear: "each_in_list reset_lock_bit (InProgLocalList0 s) s = (Inr (), with_bitmap m s)"
    by (rule each_bit_alone [where upd = resetlockbit, OF e b wf l0 m]) (rule wp_reset_lock_bit_alone)
  have ne: "InProgLocalList0 s \<noteq> 0" using l0 flag(2) holds_Nil by metis
  have wf1: "wf_store ?h" by (rule without_list_wf [OF wf])
  have r1: "rep ?h Malloc T_IntList (InProgLocalList1 s) xs1"
    using rep_unchanged [OF wf holds_rep [OF l1] without_list_unchanged] disj ne
    by (metis Int_commute singletonD)
  have "txn_error_handling s = (Inr (), ended m (without_list (InProgLocalList1 s) xs1 ?h) s)"
    unfolding wp_Inr using flag(1) ne wf wf1 holds_rep [OF l0] r1
    by (simp add: txn_error_handling_def free_lists_def wp_simps
        wp_of_eq [where m = "each_in_list reset_lock_bit _", OF clear]
        wp_free_list [where ty = T_IntList and xs = xs0] wp_free_list [where ty = T_IntList and xs = xs1]
        ended_def)
  with without_list_wf [OF wf1] show ?thesis by blast
qed

text \<open>Without a claimed tuple nothing is undone: the flag and the second list stay.\<close>

lemma txn_error_nothing_claimed:
  "InProgLocalList0 s = 0 \<Longrightarrow> txn_error_handling s = (Inr (), s)"
  by (simp add: txn_error_handling_def wp_Inr wp_simps)

end
