(* ===== verification/MigrateRun.thy ===== *)
theory MigrateRun
  imports Executor MigrateQueryFacts
begin

unbundle bit_operations_syntax

text \<open>
  A migration query as a whole, in a backend that runs alone: the invariant that the claims of the
  query keep, the tuples that the executor's loop over a sequential scan returns, and the bitmap at the
  end. The specification is on sets: a set of claimed elements and a set of migrated elements.
\<close>

subsection \<open>The invariant of a migration query\<close>

abbreviation bitmap_of :: "backend \<Rightarrow> uint64 list" where
  "bitmap_of s \<equiv> GlobalBitmap (shm s)"

definition locked :: "backend \<Rightarrow> nat \<Rightarrow> uint32 set" where
  "locked s b = {e. getlockbit (bitmap_of s) b e = Inr True}"

definition migrated :: "backend \<Rightarrow> nat \<Rightarrow> uint32 set" where
  "migrated s b = {e. getmigratebit (bitmap_of s) b e = Inr True}"

text \<open>
  \<open>es0\<close> are the elements that this query has claimed, each once, and \<open>es1\<close> those that it has found
  claimed; all of them have their lock bit set.
\<close>

definition claims :: "backend \<Rightarrow> nat \<Rightarrow> uint32 list \<Rightarrow> uint32 list \<Rightarrow> bool" where
  "claims s b es0 es1 \<longleftrightarrow> env s = [] \<and> PartialBitmap s = Some b \<and> local_lists s es0 es1 \<and>
     list_elems_ok s b (es0 @ es1) \<and> distinct es0 \<and> set es0 \<subseteq> locked s b \<and> set es1 \<subseteq> locked s b"

definition ready_backend :: "backend \<Rightarrow> bool" where
  "ready_backend s \<longleftrightarrow> (\<forall>e. lock_ready (MigrateBitmapPartitionLock e (BitmapNum s)) s)"

text \<open>What a scan may change.\<close>

definition scanned :: "backend \<Rightarrow> backend \<Rightarrow> bool" where
  "scanned s t \<longleftrightarrow> t = (with_bitmap (bitmap_of t) s)\<lparr>heap := heap t, tuplemigratecount := tuplemigratecount t,
     InProgLocalList0 := InProgLocalList0 t, InProgLocalList1 := InProgLocalList1 t\<rparr> \<and>
     length (bitmap_of t) = length (bitmap_of s)"

lemma scanned_refl [simp]: "scanned s s"
  by (simp add: scanned_def)

lemma scanned_simps:
  assumes "scanned s t"
  shows "env t = env s" "PartialBitmap t = PartialBitmap s" "BitmapNum t = BitmapNum s" "locks t = locks s"
    "held_lwlocks t = held_lwlocks s" "MyProc t = MyProc s" "migrateflag t = migrateflag s"
    "InterruptHoldoffCount t = InterruptHoldoffCount s" "length (bitmap_of t) = length (bitmap_of s)"
proof -
  obtain m h c l0 l1 where t: "t = (with_bitmap m s)\<lparr>heap := h, tuplemigratecount := c,
      InProgLocalList0 := l0, InProgLocalList1 := l1\<rparr>"
    using assms unfolding scanned_def by blast
  show "env t = env s" "PartialBitmap t = PartialBitmap s" "BitmapNum t = BitmapNum s" "locks t = locks s"
    "held_lwlocks t = held_lwlocks s" "MyProc t = MyProc s" "migrateflag t = migrateflag s"
    "InterruptHoldoffCount t = InterruptHoldoffCount s"
    by (simp_all add: t)
  show "length (bitmap_of t) = length (bitmap_of s)" using assms by (simp add: scanned_def)
qed

lemma scanned_trans:
  assumes "scanned s t" and "scanned t u"
  shows "scanned s u"
proof -
  obtain m h c l0 l1 where t: "t = (with_bitmap m s)\<lparr>heap := h, tuplemigratecount := c,
      InProgLocalList0 := l0, InProgLocalList1 := l1\<rparr>"
    using assms(1) unfolding scanned_def by blast
  obtain m' h' c' l0' l1' where u: "u = (with_bitmap m' t)\<lparr>heap := h', tuplemigratecount := c',
      InProgLocalList0 := l0', InProgLocalList1 := l1'\<rparr>"
    using assms(2) unfolding scanned_def by blast
  have "length (bitmap_of u) = length (bitmap_of s)" using assms by (simp add: scanned_def)
  then show ?thesis by (simp add: scanned_def u t with_bitmap_def)
qed

lemma ready_scanned: "ready_backend s \<Longrightarrow> scanned s t \<Longrightarrow> ready_backend t"
  by (simp add: ready_backend_def lock_ready_def scanned_simps)

lemma claims_counted: "claims (s\<lparr>tuplemigratecount := c\<rparr>) b es0 es1 = claims s b es0 es1"
  by (simp add: claims_def local_lists_def list_elems_ok_def locked_def)

subsection \<open>One tuple\<close>

definition elem_of :: "HeapTupleData \<Rightarrow> uint32" where
  "elem_of tup = (case tuple_eid (t_self tup) of Inl _ \<Rightarrow> 0 | Inr e \<Rightarrow> e)"

definition tuple_ok :: "uint64 list \<Rightarrow> nat \<Rightarrow> HeapTupleData \<Rightarrow> bool" where
  "tuple_ok m b tup \<longleftrightarrow> t_len tup \<noteq> 0 \<and> ip_posid (t_self tup) \<noteq> 0 \<and> elem_ok m b (elem_of tup)"

lemma tuple_ok_length: "length m' = length m \<Longrightarrow> tuple_ok m' b tup = tuple_ok m b tup"
  by (simp add: tuple_ok_def elem_ok_def)

lemma tuple_ok_eid: "tuple_ok m b tup \<Longrightarrow> tuple_eid (t_self tup) = Inr (elem_of tup)"
  by (simp add: tuple_ok_def elem_of_def tuple_eid_eq)

definition claimed_one :: "backend \<Rightarrow> nat \<Rightarrow> uint32 \<Rightarrow> backend \<Rightarrow> bool" where
  "claimed_one s b e t \<longleftrightarrow> locked t b = insert e (locked s b) \<and> migrated t b = migrated s b"

lemma claimed_one_set:
  "setlockbit (bitmap_of s) b e = Inr (bitmap_of t) \<Longrightarrow> claimed_one s b e t"
  by (auto simp: claimed_one_def locked_def migrated_def lock_bits.get_put migrate_after_setlock split: if_splits)

lemma migrate_tuple_alone:
  assumes c: "claims s b es0 es1" and r: "ready_backend s" and rm: "2 \<le> room (heap s)"
    and ok: "tuple_ok (bitmap_of s) b tup" and sl: "tts_tuple sl = Some tup"
  defines "e \<equiv> elem_of tup"
  shows "\<exists>r t. MigrateTuple (Some sl) s = (Inr r, t) \<and> scanned s t \<and> room (heap s) \<le> room (heap t) + 2 \<and>
    tuplemigratecount t = tuplemigratecount s \<and>
    (if e \<in> migrated s b then \<not> r \<and> t = s
     else if e \<in> locked s b then \<not> r \<and> bitmap_of t = bitmap_of s \<and> claims t b es0 (es1 @ [e])
     else r \<and> setlockbit (bitmap_of s) b e = Inr (bitmap_of t) \<and> claims t b (es0 @ [e]) es1)"
proof -
  from c have en: "env s = []" and b: "PartialBitmap s = Some b" and l: "local_lists s es0 es1"
    and d: "distinct es0" and eok: "list_elems_ok s b (es0 @ es1)"
    and lk: "set es0 \<subseteq> locked s b" "set es1 \<subseteq> locked s b"
    by (simp_all add: claims_def)
  have rd: "lock_ready (MigrateBitmapPartitionLock e (BitmapNum s)) s" using r by (simp add: ready_backend_def)
  have tup: "tts_tuple sl = Some tup" "t_len tup \<noteq> 0" "tuple_eid (t_self tup) = Inr e"
    and eo: "elem_ok (bitmap_of s) b e"
    using ok sl tuple_ok_eid [OF ok] by (simp_all add: tuple_ok_def e_def)
  obtain v u where v: "getmigratebit (bitmap_of s) b e = Inr v" "getlockbit (bitmap_of s) b e = Inr u"
    using eo by (auto simp: getmigratebit_eq getlockbit_eq)
  then have in_sets: "e \<in> migrated s b \<longleftrightarrow> v" "e \<in> locked s b \<longleftrightarrow> u" by (simp_all add: migrated_def locked_def)
  consider "v" | "\<not> v" "u" | "\<not> v" "\<not> u" by blast
  then show ?thesis
  proof cases
    case 1
    with v in_sets show ?thesis using migrated_alone [OF en b eo _ tup] by auto
  next
    case 2
    with v obtain h k where *: "MigrateTuple (Some sl) s = (Inr False, s\<lparr>heap := h, InProgLocalList1 := k\<rparr>)"
      "local_lists (s\<lparr>heap := h, InProgLocalList1 := k\<rparr>) es0 (es1 @ [e])" "room (heap s) \<le> room h + 2"
      using wait_alone [OF en b eo _ _ l rm tup] by auto
    have "claims (s\<lparr>heap := h, InProgLocalList1 := k\<rparr>) b es0 (es1 @ [e])"
      using * en b d eok lk 2 eo in_sets by (auto simp: claims_def list_elems_ok_def locked_def)
    with * in_sets 2 show ?thesis by (auto simp: scanned_def)
  next
    case 3
    obtain m where m: "setlockbit (bitmap_of s) b e = Inr m" using eo by (auto simp: setlockbit_eq_Inr)
    from claim_alone [OF rd b eo _ _ m l rm tup] 3 v obtain h k where
      *: "MigrateTuple (Some sl) s = (Inr True, (with_bitmap m s)\<lparr>heap := h, InProgLocalList0 := k\<rparr>)"
      "local_lists ((with_bitmap m s)\<lparr>heap := h, InProgLocalList0 := k\<rparr>) (es0 @ [e]) es1" "room (heap s) \<le> room h + 2"
      by auto
    let ?t = "(with_bitmap m s)\<lparr>heap := h, InProgLocalList0 := k\<rparr>"
    have "claimed_one s b e ?t" by (rule claimed_one_set) (simp add: m)
    moreover have "e \<notin> set es0" using lk in_sets 3 by auto
    moreover have "list_elems_ok ?t b ((es0 @ [e]) @ es1)"
      using eok eo by (auto simp: list_elems_ok_def lock_bits.put_keeps_ok [OF m])
    ultimately have "claims ?t b (es0 @ [e]) es1"
      using * en b d lk by (auto simp: claims_def claimed_one_def)
    with * in_sets 3 m show ?thesis by (auto simp: scanned_def with_bitmap_def lock_bits.put_length)
  qed
qed

subsection \<open>A scan over a list of tuples\<close>

definition next_of :: "HeapTupleData list \<Rightarrow> HeapTupleData option \<times> HeapTupleData list" where
  "next_of ts = (case ts of [] \<Rightarrow> (None, []) | t # ts \<Rightarrow> (Some t, ts))"

type_synonym list_scan = "HeapTupleData list option ScanState"

definition remaining :: "HeapTupleData list \<Rightarrow> list_scan \<Rightarrow> HeapTupleData list" where
  "remaining begin_scan node = (case cursor node of None \<Rightarrow> begin_scan | Some ts \<Rightarrow> ts)"

definition holding :: "HeapTupleData \<Rightarrow> TupleTableSlot" where
  "holding tup = \<lparr>tts_isempty = False, tts_tuple = Some tup\<rparr>"

definition passes :: "'c ScanState \<Rightarrow> HeapTupleData \<Rightarrow> bool" where
  "passes node tup \<longleftrightarrow> (case qual node of None \<Rightarrow> True | Some q \<Rightarrow> q (holding tup))"

definition same_plan :: "'c ScanState \<Rightarrow> 'c ScanState \<Rightarrow> bool" where
  "same_plan node node' \<longleftrightarrow> qual node' = qual node \<and> ps_ProjInfo node' = ps_ProjInfo node \<and>
     es_epqTuple node' = es_epqTuple node"

fun next_claim ::
  "(HeapTupleData \<Rightarrow> bool) \<Rightarrow> uint32 set \<Rightarrow> uint32 set \<Rightarrow> HeapTupleData list \<Rightarrow>
     uint32 list \<times> (HeapTupleData \<times> HeapTupleData list) option"
where
  "next_claim q L G [] = ([], None)"
| "next_claim q L G (t # ts) =
     (if \<not> q t \<or> elem_of t \<in> G then next_claim q L G ts
      else if elem_of t \<in> L then (case next_claim q L G ts of (ws, r) \<Rightarrow> (elem_of t # ws, r))
      else ([], Some (t, ts)))"

lemma ExecStoreTuple_holding: "ExecStoreTuple tup slot = holding tup"
  by (simp add: ExecStoreTuple_def holding_def)

lemma holding_simps [simp]: "tts_tuple (holding tup) = Some tup" "tts_isempty (holding tup) = False"
  by (simp_all add: holding_def)

lemma same_plan_simps [simp]: "same_plan node node" "same_plan node (node\<lparr>nfiltered1 := k\<rparr>)" 
   "same_plan node (node\<lparr>cursor := c, ss_ScanTupleSlot := sl\<rparr>)"
  by (simp_all add: same_plan_def)

lemma passes_same: "same_plan node node' \<Longrightarrow> passes node' = passes node"
  by (simp add: same_plan_def passes_def fun_eq_iff)

lemma project_same: "same_plan node node' \<Longrightarrow> project node' = project node"
  by (simp add: same_plan_def project_def fun_eq_iff)

lemma seq_fetch:
  assumes "es_epqTuple node = None"
  shows "wp (ExecScanFetch (ret ()) (SeqNext bs next_of) SeqRecheck node) Q E s =
    (case remaining bs node of
       [] \<Rightarrow> Q (Some (ExecClearTuple (ss_ScanTupleSlot node)),
              node\<lparr>cursor := Some [], ss_ScanTupleSlot := ExecClearTuple (ss_ScanTupleSlot node)\<rparr>) s
     | t # ts \<Rightarrow> Q (Some (holding t), node\<lparr>cursor := Some ts, ss_ScanTupleSlot := holding t\<rparr>) s)"
  using assms
  by (auto simp: ExecScanFetch_def wp_simps SeqNext_def remaining_def next_of_def ExecStoreTuple_holding Let_def
      split: option.splits list.splits)

definition scan_post ::
  "backend \<Rightarrow> nat \<Rightarrow> uint32 list \<Rightarrow> uint32 list \<Rightarrow> list_scan \<Rightarrow> HeapTupleData list \<Rightarrow> HeapTupleData list \<Rightarrow> TupleTableSlot option \<times> list_scan \<Rightarrow>
     backend \<Rightarrow> bool"
where
  "scan_post s b es0 es1 node bs ts r t \<longleftrightarrow> scanned s t \<and> same_plan node (snd r) \<and>
     (case next_claim (passes node) (locked s b) (migrated s b) ts of
        (ws, None) \<Rightarrow> TupIsNull (fst r) \<and> claims t b es0 (es1 @ ws) \<and> bitmap_of t = bitmap_of s \<and>
          tuplemigratecount t = tuplemigratecount s
      | (ws, Some (tup, rest)) \<Rightarrow> fst r = project node (Some (holding tup)) \<and>
          claims t b (es0 @ [elem_of tup]) (es1 @ ws) \<and> claimed_one s b (elem_of tup) t \<and>
          tuplemigratecount t = tuplemigratecount s + 1 \<and>
          remaining bs (snd r) = rest \<and> room (heap s) + 2 * length rest \<le> room (heap t) + 2 * length ts)"

lemma scan_post_same: "same_plan node node' \<Longrightarrow> scan_post s b es0 es1 node' bs ts = scan_post s b es0 es1 node bs ts"
  unfolding scan_post_def fun_eq_iff
  by (simp add: passes_same) (simp add: same_plan_def project_def)

lemma scan_post_skip:
  "\<not> passes node tup \<or> elem_of tup \<in> migrated s b \<Longrightarrow> scan_post s b es0 es1 node bs ts r t \<Longrightarrow>
     scan_post s b es0 es1 node bs (tup # ts) r t"
  by (auto simp: scan_post_def split: option.splits prod.splits)

lemma scan_post_wait:
  assumes "passes node tup" "elem_of tup \<notin> migrated s b" "elem_of tup \<in> locked s b"
    and "scanned s u" "bitmap_of u = bitmap_of s" "tuplemigratecount u = tuplemigratecount s"
      "room (heap s) \<le> room (heap u) + 2"
    and "scan_post u b es0 (es1 @ [elem_of tup]) node bs ts r t"
  shows "scan_post s b es0 es1 node bs (tup # ts) r t"
proof -
  have "locked u b = locked s b" "migrated u b = migrated s b" using assms(5) by (simp_all add: locked_def migrated_def)
  with assms show ?thesis
    by (auto simp: scan_post_def claimed_one_def intro: scanned_trans split: option.splits prod.splits)
qed

text \<open>A tuple that passes the qualification, with the rest of the loop given by what it does.\<close>

lemma scan_tuple_claims:
  assumes p: "passes node tup" and c: "claims s b es0 es1" and rd: "ready_backend s" and rm: "2 \<le> room (heap s)"
    and ok: "tuple_ok (bitmap_of s) b tup" and same: "same_plan node nd" "remaining bs nd = ts"
    and rest: "\<And>u es. claims u b es0 es \<Longrightarrow> scanned s u \<Longrightarrow> room (heap s) \<le> room (heap u) + 2 \<Longrightarrow>
      wp m (scan_post u b es0 es node bs ts) (\<lambda>_ _. False) u"
  shows "wp (bindp (MigrateTuple (Some (holding tup))) (\<lambda>r.
           if r then thenp count_migrated (ret (project nd (Some (holding tup)), nd)) else m))
           (scan_post s b es0 es1 node bs (tup # ts)) (\<lambda>_ _. False) s"
proof -
  let ?e = "elem_of tup"
  from migrate_tuple_alone [OF c rd rm ok, of "holding tup"] obtain r u where
    mt: "MigrateTuple (Some (holding tup)) s = (Inr r, u)" and sc: "scanned s u"
    and rm': "room (heap s) \<le> room (heap u) + 2" and cnt: "tuplemigratecount u = tuplemigratecount s"
    and cases: "if ?e \<in> migrated s b then \<not> r \<and> u = s
     else if ?e \<in> locked s b then \<not> r \<and> bitmap_of u = bitmap_of s \<and> claims u b es0 (es1 @ [?e])
     else r \<and> setlockbit (bitmap_of s) b ?e = Inr (bitmap_of u) \<and> claims u b (es0 @ [?e]) es1"
    by auto
  consider "\<not> r" "?e \<in> migrated s b" "u = s"
    | "\<not> r" "?e \<notin> migrated s b" "?e \<in> locked s b" "bitmap_of u = bitmap_of s" "claims u b es0 (es1 @ [?e])"
    | "r" "?e \<notin> migrated s b" "?e \<notin> locked s b" "claims u b (es0 @ [?e]) es1"
      "setlockbit (bitmap_of s) b ?e = Inr (bitmap_of u)"
    using cases by (auto split: if_splits)
  then have "wp (if r then thenp count_migrated (ret (project nd (Some (holding tup)), nd)) else m)
           (scan_post s b es0 es1 node bs (tup # ts)) (\<lambda>_ _. False) u"
  proof cases
    case 1
    then have "wp m (scan_post s b es0 es1 node bs (tup # ts)) (\<lambda>_ _. False) s"
      by (intro wp_mono [OF rest [OF c]]) (auto intro: scan_post_skip)
    with 1 show ?thesis by simp
  next
    case 2
    have "wp m (scan_post s b es0 es1 node bs (tup # ts)) (\<lambda>_ _. False) u"
      by (rule wp_mono [OF rest [OF 2(5) sc rm']]) (use scan_post_wait [OF p 2(2,3) sc 2(4) cnt rm'] in auto)
    with 2 show ?thesis by simp
  next
    case 3
    have "scanned s (u\<lparr>tuplemigratecount := tuplemigratecount u + 1\<rparr>)"
      using sc by (rule scanned_trans) (simp add: scanned_def)
    moreover have "claimed_one s b ?e (u\<lparr>tuplemigratecount := tuplemigratecount u + 1\<rparr>)"
      by (rule claimed_one_set) (simp add: 3)
    ultimately show ?thesis
      using 3 p cnt rm' same
      by (simp add: wp_simps count_migrated_def scan_post_def claims_counted project_same)
  qed
  then show ?thesis by (simp add: wp_simps wp_of_eq [where m = "MigrateTuple _", OF mt])
qed

lemma scan_loop_claims:
  assumes "claims s b es0 es1" and "ready_backend s" and "migrateflag s"
    and "\<forall>t \<in> set ts. tuple_ok (bitmap_of s) b t" and "2 * length ts \<le> room (heap s)"
    and "length ts < n" and "es_epqTuple node = None" and "remaining bs node = ts"
  shows "wp (exec_scan_loop n (ret ()) (SeqNext bs next_of) SeqRecheck node)
           (scan_post s b es0 es1 node bs ts) (\<lambda>_ _. False) s"
  using assms
proof (induction ts arbitrary: n s es1 node)
  case Nil
  then show ?case
    by (cases n) (auto simp: wp_simps seq_fetch TupIsNull_def ExecClearTuple_def scan_post_def same_plan_def)
next
  case (Cons tup ts)
  from Cons.prems(6) obtain n' where n: "n = Suc n'" "length ts < n'" by (cases n) auto
  let ?node = "node\<lparr>cursor := Some ts, ss_ScanTupleSlot := holding tup\<rparr>"
  have IH: "wp (exec_scan_loop n' (ret ()) (SeqNext bs next_of) SeqRecheck nd)
           (scan_post u b es0 es node bs ts) (\<lambda>_ _. False) u"
    if u: "claims u b es0 es" "scanned s u" "room (heap s) \<le> room (heap u) + 2"
      and nd: "same_plan node nd" "remaining bs nd = ts" for u es nd
  proof -
    have "wp (exec_scan_loop n' (ret ()) (SeqNext bs next_of) SeqRecheck nd)
           (scan_post u b es0 es nd bs ts) (\<lambda>_ _. False) u"
    proof (rule Cons.IH [OF u(1)])
      show "ready_backend u" "migrateflag u" using u Cons.prems(2,3) ready_scanned scanned_simps(7) by metis+
      show "\<forall>t \<in> set ts. tuple_ok (bitmap_of u) b t"
        using Cons.prems(4) tuple_ok_length [OF scanned_simps(9) [OF u(2)]] by simp
      show "es_epqTuple nd = None" using Cons.prems(7) nd by (simp add: same_plan_def)
    qed (use u nd Cons.prems n in simp_all)
    then show ?thesis using scan_post_same [OF nd(1)] by simp
  qed
  have nd: "same_plan node ?node" "remaining bs ?node = ts" by (simp_all add: remaining_def)
  show ?case
  proof (cases "passes node tup")
    case False
    have "wp (exec_scan_loop n' (ret ()) (SeqNext bs next_of) SeqRecheck (?node\<lparr>nfiltered1 := nfiltered1 node + 1\<rparr>))
           (scan_post s b es0 es1 node bs (tup # ts)) (\<lambda>_ _. False) s"
      by (rule wp_mono [OF IH]) (use False Cons.prems(1) in \<open>auto intro: scan_post_skip simp: same_plan_def remaining_def\<close>)
    with False n Cons.prems show ?thesis
      by (auto simp: wp_simps seq_fetch TupIsNull_def passes_def split: option.splits)
  next
    case True
    have "tuple_ok (bitmap_of s) b tup" "2 \<le> room (heap s)" using Cons.prems by simp_all
    from scan_tuple_claims [OF True Cons.prems(1,2) this(2,1) nd IH [OF _ _ _ nd]]
    show ?thesis
      using True n Cons.prems(3,7,8)
      by (auto simp: wp_simps seq_fetch TupIsNull_def passes_def split: option.splits)
  qed
qed

end
