(* ===== verification/MigratePlan.thy ===== *)
theory MigratePlan
  imports MigrateRun
begin

text \<open>
  The executor's loop over a sequential scan of a list of tuples, the end of the query and its
  cancellation, put together. \<open>claim_all\<close> is the specification: which tuples a query claims and which
  elements it has to wait for, computed from the sets of claimed and of migrated elements.
\<close>

subsection \<open>All tuples of a plan\<close>

fun claim_all ::
  "(HeapTupleData \<Rightarrow> bool) \<Rightarrow> uint32 set \<Rightarrow> uint32 set \<Rightarrow> HeapTupleData list \<Rightarrow> HeapTupleData list \<times> uint32 list"
where
  "claim_all q L G [] = ([], [])"
| "claim_all q L G (t # ts) =
     (if \<not> q t \<or> elem_of t \<in> G then claim_all q L G ts
      else if elem_of t \<in> L then (case claim_all q L G ts of (cs, ws) \<Rightarrow> (cs, elem_of t # ws))
      else (case claim_all q (insert (elem_of t) L) G ts of (cs, ws) \<Rightarrow> (t # cs, ws)))"

lemma claim_all_next:
  "claim_all q L G ts =
     (case next_claim q L G ts of
        (ws, None) \<Rightarrow> ([], ws)
      | (ws, Some (t, rest)) \<Rightarrow>
          (case claim_all q (insert (elem_of t) L) G rest of (cs, ws') \<Rightarrow> (t # cs, ws @ ws')))"
  by (induction ts) (auto split: prod.splits option.splits)

lemma next_claim_rest:
  "next_claim q L G ts = (ws, Some (t, rest)) \<Longrightarrow> length rest < length ts \<and> set rest \<subseteq> set ts"
  by (induction ts arbitrary: ws) (auto split: if_splits prod.splits)

definition collect :: "TupleTableSlot option \<Rightarrow> TupleTableSlot option list \<Rightarrow> bool \<times> TupleTableSlot option list" where
  "collect slot dest = (True, dest @ [slot])"

definition plan_ok :: "list_scan \<Rightarrow> bool" where
  "plan_ok node \<longleftrightarrow> es_epqTuple node = None \<and> (qual node \<noteq> None \<or> ps_ProjInfo node \<noteq> None) \<and>
     (\<forall>f slot. ps_ProjInfo node = Some f \<longrightarrow> \<not> tts_isempty (f slot))"

lemma plan_ok_same: "same_plan node node' \<Longrightarrow> plan_ok node' = plan_ok node"
  by (simp add: same_plan_def plan_ok_def)

lemma project_not_null: "plan_ok node \<Longrightarrow> \<not> TupIsNull (project node (Some (holding t)))"
  by (auto simp: plan_ok_def project_def TupIsNull_def split: option.splits)

lemma exec_seq_scan_claims:
  assumes "claims s b es0 es1" and "ready_backend s" and "migrateflag s"
    and "\<forall>t \<in> set (remaining bs node). tuple_ok (bitmap_of s) b t" and "2 * length (remaining bs node) \<le> room (heap s)"
    and "length (remaining bs node) < k" and "plan_ok node"
  shows "wp (ExecSeqScan k (ret ()) bs next_of node)
           (scan_post s b es0 es1 node bs (remaining bs node)) (\<lambda>_ _. False) s"
  using scan_loop_claims [OF assms(1-6) _ refl] assms(7)
  by (auto simp: ExecSeqScan_def ExecScan_def plan_ok_def)

definition plan_post ::
  "backend \<Rightarrow> nat \<Rightarrow> uint32 list \<Rightarrow> uint32 list \<Rightarrow> list_scan \<Rightarrow> HeapTupleData list \<Rightarrow>
     TupleTableSlot option list \<Rightarrow> TupleTableSlot option list \<Rightarrow> backend \<Rightarrow> bool"
where
  "plan_post s b es0 es1 node ts d d' t \<longleftrightarrow> scanned s t \<and>
     (case claim_all (passes node) (locked s b) (migrated s b) ts of (cs, ws) \<Rightarrow>
        d' = d @ map (\<lambda>tup. project node (Some (holding tup))) cs \<and>
        claims t b (es0 @ map elem_of cs) (es1 @ ws) \<and>
        locked t b = locked s b \<union> elem_of ` set cs \<and> migrated t b = migrated s b \<and>
        tuplemigratecount t = tuplemigratecount s + of_nat (length cs))"

lemma plan_post_step:
  assumes "scan_post s b es0 es1 node bs ts (slot, node') u"
    and "next_claim (passes node) (locked s b) (migrated s b) ts = (ws, Some (tup, rest))"
    and "plan_post u b (es0 @ [elem_of tup]) (es1 @ ws) node' rest (d @ [slot]) d' t"
  shows "plan_post s b es0 es1 node ts d d' t"
proof -
  have sp: "same_plan node node'" and u: "locked u b = insert (elem_of tup) (locked s b)" "migrated u b = migrated s b"
    using assms(1,2) by (auto simp: scan_post_def claimed_one_def)
  show ?thesis
    using assms u claim_all_next [of "passes node" "locked s b" "migrated s b" ts] passes_same [OF sp] project_same [OF sp]
    by (auto simp: plan_post_def scan_post_def intro: scanned_trans split: prod.splits)
qed

text \<open>One iteration of the executor's loop without a junk filter, a destination that takes everything and
  no limit on the number of tuples.\<close>

definition after_tuple where
  "after_tuple n ExecProcNode sd op estate d c slot node =
     (if TupIsNull slot then ret (estate, if es_backward estate then node else sd node, d)
      else let estate = (if op = CMD_SELECT then estate\<lparr>es_processed := es_processed estate + 1\<rparr> else estate)
       in execute_plan_loop n ExecProcNode sd collect op True 0 estate node (d @ [slot]) (c + 1))"

lemma wp_case_prod_fun: "(\<lambda>p. wp (case p of (x, y) \<Rightarrow> m x y) Q E) = (\<lambda>(x, y). wp (m x y) Q E)"
  by (simp add: fun_eq_iff)

lemma plan_loop_step:
  "es_junkFilter estate = None \<Longrightarrow>
     execute_plan_loop (Suc n) ExecProcNode sd collect op True 0 estate node d c =
       bindp (ExecProcNode node) (\<lambda>(slot, node). after_tuple n ExecProcNode sd op estate d c slot node)"
  unfolding execute_plan_loop.simps
  by (rule arg_cong [where f = "bindp (ExecProcNode node)"])
    (simp add: fun_eq_iff after_tuple_def collect_def)

lemma after_tuple_claims:
  assumes sp: "scan_post s b es0 es1 node bs (remaining bs node) (slot, node') u" and ok: "plan_ok node"
    and jf: "es_junkFilter estate = None"
    and rest: "\<And>est ws tup. es_junkFilter est = None \<Longrightarrow>
      next_claim (passes node) (locked s b) (migrated s b) (remaining bs node) = (ws, Some (tup, remaining bs node')) \<Longrightarrow>
      claims u b (es0 @ [elem_of tup]) (es1 @ ws) \<Longrightarrow>
      room (heap s) + 2 * length (remaining bs node') \<le> room (heap u) + 2 * length (remaining bs node) \<Longrightarrow>
      wp (execute_plan_loop n epn sd collect op True 0 est node' (d @ [slot]) (c + 1))
         (\<lambda>(estate', node'', d') t. plan_post u b (es0 @ [elem_of tup]) (es1 @ ws) node' (remaining bs node') (d @ [slot]) d' t \<and>
            parallelModeLevel estate' = parallelModeLevel est) (\<lambda>_ _. False) u"
  shows "wp (after_tuple n epn sd op estate d c slot node')
           (\<lambda>(estate', node'', d') t. plan_post s b es0 es1 node (remaining bs node) d d' t \<and>
              parallelModeLevel estate' = parallelModeLevel estate) (\<lambda>_ _. False) u"
proof -
  obtain ws x where nc: "next_claim (passes node) (locked s b) (migrated s b) (remaining bs node) = (ws, x)" by force
  show ?thesis
  proof (cases x)
    case None
    with nc sp claim_all_next [of "passes node" "locked s b" "migrated s b" "remaining bs node"] show ?thesis
      by (auto simp: after_tuple_def wp_simps scan_post_def plan_post_def locked_def migrated_def)
  next
    case (Some p)
    then obtain tup where x: "x = Some (tup, remaining bs node')" using sp nc by (cases p) (auto simp: scan_post_def)
    from sp nc x have slot: "slot = project node (Some (holding tup))" and cl: "claims u b (es0 @ [elem_of tup]) (es1 @ ws)"
      and rm: "room (heap s) + 2 * length (remaining bs node') \<le> room (heap u) + 2 * length (remaining bs node)"
      by (auto simp: scan_post_def)
    have run: "wp (execute_plan_loop n epn sd collect op True 0 est node' (d @ [slot]) (c + 1))
         (\<lambda>(estate', node'', d') t. plan_post s b es0 es1 node (remaining bs node) d d' t \<and>
            parallelModeLevel estate' = parallelModeLevel est) (\<lambda>_ _. False) u" if "es_junkFilter est = None" for est
      by (rule wp_mono [OF rest [OF that nc [unfolded x] cl rm] _ FalseE])
        (use plan_post_step [OF sp nc [unfolded x]] in auto)
    have "\<not> TupIsNull slot" using slot project_not_null ok by simp
    then show ?thesis
      using jf run [of estate] run [of "estate\<lparr>es_processed := es_processed estate + 1\<rparr>"]
      by (cases "op = CMD_SELECT") (simp_all add: after_tuple_def)
  qed
qed

lemma plan_loop_claims:
  assumes "claims s b es0 es1" and "ready_backend s" and "migrateflag s"
    and "\<forall>t \<in> set (remaining bs node). tuple_ok (bitmap_of s) b t" and "2 * length (remaining bs node) \<le> room (heap s)"
    and "length (remaining bs node) < k" and "plan_ok node" and "es_junkFilter estate = None"
    and "length (remaining bs node) < n"
  shows "wp (execute_plan_loop n (ExecSeqScan k (ret ()) bs next_of) sd collect op True 0 estate node d c)
           (\<lambda>(estate', node', d') t. plan_post s b es0 es1 node (remaining bs node) d d' t \<and>
              parallelModeLevel estate' = parallelModeLevel estate) (\<lambda>_ _. False) s"
  using assms
proof (induction n arbitrary: s es0 es1 node d estate c)
  case 0
  then show ?case by simp
next
  case (Suc n)
  let ?epn = "ExecSeqScan k (ret ()) bs next_of"
  let ?Q = "\<lambda>(estate', node', d') t. plan_post s b es0 es1 node (remaining bs node) d d' t \<and>
              parallelModeLevel estate' = parallelModeLevel estate"
  have "wp (?epn node) (\<lambda>(slot, node'). wp (after_tuple n ?epn sd op estate d c slot node') ?Q (\<lambda>_ _. False)) (\<lambda>_ _. False) s"
    using exec_seq_scan_claims [OF Suc.prems(1-7)]
  proof (rule wp_mono)
    fix r u
    assume "scan_post s b es0 es1 node bs (remaining bs node) r u"
    moreover obtain slot node' where r: "r = (slot, node')" by (cases r)
    ultimately have sp: "scan_post s b es0 es1 node bs (remaining bs node) (slot, node') u" by simp
    have same: "same_plan node node'" and sc: "scanned s u" using sp by (simp_all add: scan_post_def)
    have "wp (after_tuple n ?epn sd op estate d c slot node') ?Q (\<lambda>_ _. False) u"
    proof (rule after_tuple_claims [OF sp Suc.prems(7,8)])
      fix est :: EState and ws tup
      assume nc: "next_claim (passes node) (locked s b) (migrated s b) (remaining bs node) = (ws, Some (tup, remaining bs node'))"
        and cl: "claims u b (es0 @ [elem_of tup]) (es1 @ ws)" and jf: "es_junkFilter est = None"
        and rm: "room (heap s) + 2 * length (remaining bs node') \<le> room (heap u) + 2 * length (remaining bs node)"
      show "wp (execute_plan_loop n ?epn sd collect op True 0 est node' (d @ [slot]) (c + 1))
         (\<lambda>(estate', node'', d') t. plan_post u b (es0 @ [elem_of tup]) (es1 @ ws) node' (remaining bs node') (d @ [slot]) d' t \<and>
            parallelModeLevel estate' = parallelModeLevel est) (\<lambda>_ _. False) u"
      proof (rule Suc.IH [OF cl])
        show "ready_backend u" "migrateflag u" using Suc.prems(2,3) ready_scanned [OF _ sc] scanned_simps(7) [OF sc] by auto
        show "\<forall>t \<in> set (remaining bs node'). tuple_ok (bitmap_of u) b t"
          using Suc.prems(4) next_claim_rest [OF nc] tuple_ok_length [OF scanned_simps(9) [OF sc]] by auto
        show "plan_ok node'" using Suc.prems(7) plan_ok_same [OF same] by simp
      qed (use Suc.prems next_claim_rest [OF nc] rm jf in auto)
    qed
    with r show "(case r of (slot, node') \<Rightarrow> wp (after_tuple n ?epn sd op estate d c slot node') ?Q (\<lambda>_ _. False)) u"
      by simp
  qed simp
  then show ?case
    unfolding plan_loop_step [OF Suc.prems(8)] wp_bindp wp_case_prod_fun .
qed

subsection \<open>What the specification says\<close>

lemma claim_all_from:
  "claim_all q L G ts = (cs, ws) \<Longrightarrow> set cs \<subseteq> {t \<in> set ts. q t}"
  by (induction ts arbitrary: L cs ws) (fastforce split: if_splits prod.splits)+

lemma claim_all_new:
  "claim_all q L G ts = (cs, ws) \<Longrightarrow> elem_of ` set cs \<inter> (L \<union> G) = {} \<and> distinct (map elem_of cs)"
proof (induction ts arbitrary: L cs ws)
  case (Cons t ts)
  show ?case
  proof (cases "q t \<and> elem_of t \<notin> G \<and> elem_of t \<notin> L")
    case True
    with Cons.prems obtain cs' where cs: "cs = t # cs'" and "claim_all q (insert (elem_of t) L) G ts = (cs', ws)"
      by (auto split: prod.splits)
    from Cons.IH [OF this(2)] True show ?thesis by (auto simp: cs)
  next
    case False
    with Cons.prems obtain ws' where "claim_all q L G ts = (cs, ws')" by (auto split: if_splits prod.splits)
    from Cons.IH [OF this] show ?thesis .
  qed
qed simp

lemma claim_all_covers:
  "claim_all q L G ts = (cs, ws) \<Longrightarrow> t \<in> set ts \<Longrightarrow> q t \<Longrightarrow> elem_of t \<in> elem_of ` set cs \<union> L \<union> G"
  by (induction ts arbitrary: L cs ws) (fastforce split: if_splits prod.splits)+

lemma claim_all_waits:
  "claim_all q L G ts = (cs, ws) \<Longrightarrow> set ws \<subseteq> (L \<union> elem_of ` set cs) - G"
  by (induction ts arbitrary: L cs ws) (fastforce split: if_splits prod.splits)+

text \<open>Every element of a tuple that passes is claimed now, was migrated before, or is waited for.\<close>

lemma claim_all_all:
  "claim_all q L G ts = (cs, ws) \<Longrightarrow> elem_of ` {t \<in> set ts. q t} \<subseteq> elem_of ` set cs \<union> G \<union> set ws"
  by (induction ts arbitrary: L cs ws) (fastforce split: if_splits prod.splits)+

lemma claim_all_set:
  assumes "claim_all q L G ts = (cs, ws)"
  shows "elem_of ` set cs = elem_of ` {t \<in> set ts. q t} - L - G"
  using claim_all_from [OF assms] claim_all_new [OF assms] claim_all_covers [OF assms] by auto

text \<open>The end of a query, on sets.\<close>

lemma locked_each_migrate:
  "each_res (\<lambda>e m. setmigratebit m b e) es m = Inr m' \<Longrightarrow> getlockbit m' b e' = getlockbit m b e'"
  by (rule each_res_invariant [where P = "\<lambda>x. getlockbit x b e' = getlockbit m b e'"])
    (auto simp: lock_after_setmigrate)

lemma migrated_each_resetlock:
  "each_res (\<lambda>e m. resetlockbit m b e) es m = Inr m' \<Longrightarrow> getmigratebit m' b e' = getmigratebit m b e'"
  by (rule each_res_invariant [where P = "\<lambda>x. getmigratebit x b e' = getmigratebit m b e'"])
    (auto simp: migrate_after_resetlock)

definition query_over :: "backend \<Rightarrow> backend \<Rightarrow> bool" where
  "query_over s t \<longleftrightarrow> \<not> migrateflag t \<and> tuplemigratecount t = 0 \<and> local_lists t [] [] \<and>
     t = (with_bitmap (bitmap_of t) s)\<lparr>heap := heap t, migrateflag := False, tuplemigratecount := 0,
       InProgLocalList0 := 0, InProgLocalList1 := 0\<rparr>"

lemma query_over_ended: "wf_store h \<Longrightarrow> query_over s (ended m h s)"
  by (simp add: query_over_def ended_def local_lists_def holds_def rep_def with_bitmap_def)

lemma bitmap_ended [simp]: "bitmap_of (ended m h s) = m"
  by (simp add: ended_def)

lemma post_query_sets:
  assumes c: "claims s b es0 es1" and flag: "migrateflag s"
  shows "wp post_query_tasks
    (\<lambda>_ t. set es1 \<subseteq> migrated s b \<union> set es0 \<and> query_over s t \<and>
       migrated t b = migrated s b \<union> set es0 \<and> locked t b = locked s b)
    (\<lambda>e _. e = Blocked \<and> \<not> set es1 \<subseteq> migrated s b \<union> set es0) s"
proof -
  from c have e: "env s = []" and b: "PartialBitmap s = Some b" and l: "local_lists s es0 es1"
    and ok: "list_elems_ok s b (es0 @ es1)" by (simp_all add: claims_def)
  then have "list_elems_ok s b es0" by (simp add: list_elems_ok_def)
  from mark_claimed_alone [OF e b l this] obtain m where
    m: "each_res (\<lambda>e m. setmigratebit m b e) es0 (bitmap_of s) = Inr m" by blast
  have mig: "{e. getmigratebit m b e = Inr True} = migrated s b \<union> set es0"
    by (auto simp: migrate_bits.get_each_put [OF m] migrated_def)
  have lk: "{e. getlockbit m b e = Inr True} = locked s b"
    by (simp add: locked_each_migrate [OF m] locked_def)
  have dn: "(\<forall>e \<in> set es1. getmigratebit m b e = Inr True) \<longleftrightarrow> set es1 \<subseteq> migrated s b \<union> set es0"
    unfolding mig [symmetric] by auto
  show ?thesis
    by (rule wp_mono [OF post_query_alone [OF e b l flag ok m]])
      (use mig lk in \<open>auto simp: dn query_over_ended migrated_def [of "ended m _ s"] locked_def [of "ended m _ s"]\<close>)
qed

lemma txn_error_sets:
  assumes c: "claims s b es0 es1" and flag: "migrateflag s" and ne: "es0 \<noteq> []"
  shows "\<exists>t. txn_error_handling s = (Inr (), t) \<and> query_over s t \<and>
           locked t b = locked s b - set es0 \<and> migrated t b = migrated s b"
proof -
  from c have e: "env s = []" and b: "PartialBitmap s = Some b" and l: "local_lists s es0 es1"
    and ok: "list_elems_ok s b (es0 @ es1)" by (simp_all add: claims_def)
  then obtain m where m: "each_res (\<lambda>e m. resetlockbit m b e) es0 (bitmap_of s) = Inr m"
    using lock_bits.each_clear_total [of es0 "bitmap_of s" b] by (auto simp: list_elems_ok_def)
  from txn_error_alone [OF e b l flag ne m] obtain h where
    *: "txn_error_handling s = (Inr (), ended m h s)" "wf_store h" by blast
  moreover have "locked (ended m h s) b = locked s b - set es0"
    by (auto simp: locked_def lock_bits.get_each_clear [OF m])
  moreover have "migrated (ended m h s) b = migrated s b"
    by (simp add: migrated_def migrated_each_resetlock [OF m])
  ultimately show ?thesis using query_over_ended by blast
qed

subsection \<open>A query from its binding to its end\<close>

definition binds :: "string \<Rightarrow> uint8 \<Rightarrow> nat \<Rightarrow> bool" where
  "binds query_string num b \<longleftrightarrow>
     (if strncmp_eq query_string '' insert into customer_proj1'' 27 then num = 0 \<and> b = 0
      else strncmp_eq query_string '' insert into customer_proj2'' 27 \<and> num = 1 \<and> b = BITMAPSIZE)"

definition run_plan where
  "run_plan fuel estate node ts =
     ExecutePlan fuel (ExecSeqScan fuel (ret ()) ts next_of) (\<lambda>node. node) collect False
       estate node False CMD_INSERT True 0 ForwardScanDirection [] True"

definition bound :: "uint8 \<Rightarrow> nat \<Rightarrow> backend \<Rightarrow> backend" where
  "bound num b s = s\<lparr>migrateflag := True, InProgLocalList0 := 0, InProgLocalList1 := 0, BitmapNum := num,
     PartialBitmap := Some b\<rparr>"

lemma bind_migration_binds: "binds qs num b \<Longrightarrow> bind_migration qs s = (Inr (), bound num b s)"
  by (auto simp: binds_def bind_migration_def begin_migration_def modify_def bound_def split: if_splits)

lemma bind_migration_other:
  "\<not> strncmp_eq qs '' insert into customer_proj1'' 27 \<Longrightarrow> \<not> strncmp_eq qs '' insert into customer_proj2'' 27 \<Longrightarrow>
     bind_migration qs s = (Inr (), s)"
  by (simp add: bind_migration_def ret_def)

definition idle :: "backend \<Rightarrow> uint8 \<Rightarrow> bool" where
  "idle s num \<longleftrightarrow> env s = [] \<and> wf_store (heap s) \<and> (\<forall>e. lock_ready (MigrateBitmapPartitionLock e num) s)"

lemma bound_sets [simp]: "locked (bound num b s) = locked s" "migrated (bound num b s) = migrated s"
  "bitmap_of (bound num b s) = bitmap_of s" "migrateflag (bound num b s)" "heap (bound num b s) = heap s"
  by (simp_all add: bound_def locked_def migrated_def fun_eq_iff)

lemma idle_bound:
  assumes "idle s num"
  shows "claims (bound num b s) b [] []" and "ready_backend (bound num b s)"
  using assms
  by (simp_all add: idle_def claims_def bound_def local_lists_def holds_def rep_def list_elems_ok_def
      ready_backend_def lock_ready_def)

definition scan_input :: "backend \<Rightarrow> nat \<Rightarrow> nat \<Rightarrow> EState \<Rightarrow> list_scan \<Rightarrow> HeapTupleData list \<Rightarrow> bool" where
  "scan_input s b fuel estate node ts \<longleftrightarrow> (\<forall>t \<in> set ts. tuple_ok (bitmap_of s) b t) \<and>
     2 * length ts \<le> room (heap s) \<and> length ts < fuel \<and> plan_ok node \<and> cursor node = None \<and>
     es_junkFilter estate = None"

lemma run_plan_eq:
  "run_plan fuel estate node ts =
     execute_plan_loop fuel (ExecSeqScan fuel (ret ()) ts next_of) (\<lambda>node. node) collect CMD_INSERT True 0
       (estate\<lparr>es_direction := ForwardScanDirection, es_use_parallel_mode := False\<rparr>) node [] 0"
  by (auto simp: run_plan_def ExecutePlan_def fun_eq_iff bindp_def liftp_def ret_def split: prod.splits sum.splits)

lemma run_plan_claims:
  assumes "claims s b es0 es1" and "ready_backend s" and "migrateflag s" and i: "scan_input s b fuel estate node ts"
  shows "wp (run_plan fuel estate node ts)
           (\<lambda>(estate', node', d) t. plan_post s b es0 es1 node ts [] d t) (\<lambda>_ _. False) s"
proof -
  let ?est = "estate\<lparr>es_direction := ForwardScanDirection, es_use_parallel_mode := False\<rparr>"
  have rem: "remaining ts node = ts" using i by (simp add: scan_input_def remaining_def)
  show ?thesis
    unfolding run_plan_eq
    by (rule wp_mono [OF plan_loop_claims [OF assms(1-3), of ts node fuel ?est fuel]])
      (use i rem in \<open>auto simp: scan_input_def\<close>)
qed

text \<open>Binding, scanning and ending.\<close>

definition migration_query where
  "migration_query qs fuel estate node ts =
     thenp (bind_migration qs)
     (bindp (run_plan fuel estate node ts) (\<lambda>(estate, node, dest).
     thenp post_query_tasks (ret dest)))"

definition cancelled_query where
  "cancelled_query qs fuel estate node ts =
     thenp (bind_migration qs)
     (bindp (run_plan fuel estate node ts) (\<lambda>(estate, node, dest). txn_error_handling))"

lemma query_over_trans:
  assumes "scanned (bound num b s) t" and "query_over t u"
  shows "query_over (bound num b s) u"
proof -
  obtain m h c l0 l1 where t: "t = (with_bitmap m (bound num b s))\<lparr>heap := h, tuplemigratecount := c,
      InProgLocalList0 := l0, InProgLocalList1 := l1\<rparr>"
    using assms(1) unfolding scanned_def by blast
  show ?thesis using assms(2) unfolding query_over_def t by (simp add: with_bitmap_def)
qed

text \<open>The plan of a query has run to its end: what holds when the program \<open>k\<close> comes after it.\<close>

lemma query_then:
  assumes q: "binds qs num b" and s: "idle s num" and i: "scan_input s b fuel estate node ts"
    and c: "claim_all (passes node) (locked s b) (migrated s b) ts = (cs, ws)"
    and k: "\<And>t. scanned (bound num b s) t \<Longrightarrow> claims t b (map elem_of cs) ws \<Longrightarrow> migrateflag t \<Longrightarrow>
      locked t b = locked s b \<union> elem_of ` set cs \<Longrightarrow> migrated t b = migrated s b \<Longrightarrow>
      wp (k (map (\<lambda>tup. project node (Some (holding tup))) cs)) Q E t"
  shows "wp (thenp (bind_migration qs) (bindp (run_plan fuel estate node ts) (\<lambda>(est, nd, dest). k dest))) Q E s"
proof -
  let ?s = "bound num b s"
  have i': "scan_input ?s b fuel estate node ts" using i by (simp add: scan_input_def)
  have "wp (run_plan fuel estate node ts) (\<lambda>(est, nd, dest). wp (k dest) Q E) E ?s"
    using run_plan_claims [OF idle_bound [OF s] _ i']
  proof (rule wp_mono)
    fix x t
    assume "(case x of (estate', node', d) \<Rightarrow> \<lambda>t. plan_post ?s b [] [] node ts [] d t) t"
    moreover obtain est nd d where x: "x = (est, nd, d)" by (cases x)
    ultimately have p: "plan_post ?s b [] [] node ts [] d t" by simp
    then have sc: "scanned ?s t" by (simp add: plan_post_def)
    have "wp (k d) Q E t"
      using k [OF sc] p scanned_simps(7) [OF sc] by (simp add: plan_post_def c)
    with x show "(case x of (est, nd, dest) \<Rightarrow> wp (k dest) Q E) t" by simp
  qed simp_all
  then show ?thesis
    unfolding wp_thenp wp_bindp wp_case_prod_fun wp_of_eq [where m = "bind_migration qs", OF bind_migration_binds [OF q]] .
qed

lemma migration_query_sets:
  assumes q: "binds qs num b" and s: "idle s num" and i: "scan_input s b fuel estate node ts"
    and c: "claim_all (passes node) (locked s b) (migrated s b) ts = (cs, ws)"
  shows "wp (migration_query qs fuel estate node ts)
    (\<lambda>dest t. set ws \<subseteq> migrated s b \<union> elem_of ` set cs \<and>
       dest = map (\<lambda>tup. project node (Some (holding tup))) cs \<and> query_over (bound num b s) t \<and>
       migrated t b = migrated s b \<union> elem_of ` set cs \<and> locked t b = locked s b \<union> elem_of ` set cs)
    (\<lambda>e _. e = Blocked \<and> \<not> set ws \<subseteq> migrated s b \<union> elem_of ` set cs) s"
  unfolding migration_query_def
proof (rule query_then [OF assms], unfold wp_thenp wp_ret)
  fix t
  assume sc: "scanned (bound num b s) t" and cl: "claims t b (map elem_of cs) ws" and flag: "migrateflag t"
    and sets: "locked t b = locked s b \<union> elem_of ` set cs" "migrated t b = migrated s b"
  show "wp post_query_tasks (\<lambda>_ t. set ws \<subseteq> migrated s b \<union> elem_of ` set cs \<and>
       map (\<lambda>tup. project node (Some (holding tup))) cs = map (\<lambda>tup. project node (Some (holding tup))) cs \<and>
       query_over (bound num b s) t \<and> migrated t b = migrated s b \<union> elem_of ` set cs \<and>
       locked t b = locked s b \<union> elem_of ` set cs)
    (\<lambda>e _. e = Blocked \<and> \<not> set ws \<subseteq> migrated s b \<union> elem_of ` set cs) t"
    by (rule wp_mono [OF post_query_sets [OF cl flag]]) (use sets query_over_trans [OF sc] in auto)
qed

lemma cancelled_query_sets:
  assumes q: "binds qs num b" and s: "idle s num" and i: "scan_input s b fuel estate node ts"
    and c: "claim_all (passes node) (locked s b) (migrated s b) ts = (cs, ws)"
  shows "wp (cancelled_query qs fuel estate node ts)
    (\<lambda>_ t. locked t b = locked s b \<and> migrated t b = migrated s b \<and>
       (if cs = [] then migrateflag t \<and> scanned (bound num b s) t else query_over (bound num b s) t))
    (\<lambda>_ _. False) s"
  unfolding cancelled_query_def
proof (rule query_then [OF assms])
  fix t
  assume sc: "scanned (bound num b s) t" and cl: "claims t b (map elem_of cs) ws" and flag: "migrateflag t"
    and sets: "locked t b = locked s b \<union> elem_of ` set cs" "migrated t b = migrated s b"
  have new: "locked s b \<union> elem_of ` set cs - elem_of ` set cs = locked s b" using claim_all_new [OF c] by blast
  show "wp txn_error_handling (\<lambda>_ t. locked t b = locked s b \<and> migrated t b = migrated s b \<and>
       (if cs = [] then migrateflag t \<and> scanned (bound num b s) t else query_over (bound num b s) t)) (\<lambda>_ _. False) t"
  proof (cases "cs = []")
    case True
    with cl have "InProgLocalList0 t = 0" by (auto simp: claims_def local_lists_def holds_def rep_def)
    then show ?thesis using True sets sc flag by (simp add: wp_def txn_error_nothing_claimed)
  next
    case False
    with new txn_error_sets [OF cl flag] sets query_over_trans [OF sc] show ?thesis by (auto simp: wp_def)
  qed
qed

text \<open>Cancelling a query that has claimed nothing changes nothing.\<close>

lemma txn_error_nothing: "InProgLocalList0 t = 0 \<Longrightarrow> txn_error_handling t = (Inr (), t)"
  by (simp add: txn_error_handling_def bindp_def gets_def whenp_def ret_def)

lemma cancelled_query_nothing:
  assumes "binds qs num b" and "idle s num" and "scan_input s b fuel estate node ts"
    and "claim_all (passes node) (locked s b) (migrated s b) ts = ([], ws)"
  shows "\<exists>r t. thenp (bind_migration qs) (run_plan fuel estate node ts) s = (Inr r, t) \<and>
           txn_error_handling t = (Inr (), t) \<and> cancelled_query qs fuel estate node ts s = (Inr (), t) \<and>
           migrateflag t \<and> local_lists t [] ws \<and> locked t b = locked s b \<and> migrated t b = migrated s b"
proof -
  let ?P = "\<lambda>t. migrateflag t \<and> local_lists t [] ws \<and> locked t b = locked s b \<and> migrated t b = migrated s b"
  have "wp (thenp (bind_migration qs) (bindp (run_plan fuel estate node ts) (\<lambda>(est, nd, dest). ret dest)))
      (\<lambda>_. ?P) (\<lambda>_ _. False) s"
    by (rule query_then [OF assms]) (auto simp: wp_simps claims_def)
  then obtain r t where run: "thenp (bind_migration qs) (run_plan fuel estate node ts) s = (Inr r, t)" and P: "?P t"
    by (auto simp: wp_def thenp_def bindp_def ret_def split: prod.splits sum.splits)
  have "InProgLocalList0 t = 0" using P by (auto simp: local_lists_def holds_def rep_def)
  then have t: "txn_error_handling t = (Inr (), t)" by (rule txn_error_nothing)
  with run have "cancelled_query qs fuel estate node ts s = (Inr (), t)"
    by (auto simp: cancelled_query_def thenp_def bindp_def split: prod.splits sum.splits)
  with run t P show ?thesis by blast
qed

end
