(* ===== verification/LWLockProtocol.thy ===== *)
theory LWLockProtocol
  imports LWLockFacts
begin

text \<open>
  All backends on one lock. The state is the lock's state word and the list of the holds on the
  lock; a step is one of the indivisible updates that \<open>src/backend/storage/lmgr/lwlock.c\<close> makes to the
  word. The word always tells who holds the lock, and an exclusive holder is alone.
\<close>

subsection \<open>Steps\<close>

definition MAX_BACKENDS :: nat where "MAX_BACKENDS = 0x3FFFF"

text \<open>The updates that touch flags only.\<close>

definition flag_updates :: "(uint32 \<Rightarrow> uint32) list" where
  "flag_updates =
     [(\<lambda>w. w OR LW_FLAG_LOCKED), (\<lambda>w. w AND NOT LW_FLAG_LOCKED),
      (\<lambda>w. w OR LW_FLAG_HAS_WAITERS), (\<lambda>w. w AND NOT LW_FLAG_HAS_WAITERS),
      (\<lambda>w. w OR LW_FLAG_RELEASE_OK)]"

inductive lw_step ::
  "uint32 \<times> (nat \<times> LWLockMode) list \<Rightarrow> uint32 \<times> (nat \<times> LWLockMode) list \<Rightarrow> bool"
where
  acquire: "mode \<noteq> LW_WAIT_UNTIL_FREE \<Longrightarrow> lock_free mode w \<Longrightarrow> length hs < MAX_BACKENDS \<Longrightarrow>
     lw_step (w, hs) (w + lock_value mode, (p, mode) # hs)"
| refuse: "\<not> lock_free mode w \<Longrightarrow> lw_step (w, hs) (w, hs)"
| release: "(p, mode) \<in> set hs \<Longrightarrow> lw_step (w, hs) (w - lock_value mode, remove1 (p, mode) hs)"
| flag: "f \<in> set flag_updates \<Longrightarrow> lw_step (w, hs) (f w, hs)"
| wakeup: "lw_step (w, hs) (wakeup_state ok ps w, hs)"

inductive_cases lw_stepE: "lw_step (w, hs) (w', hs')"

text \<open>A lock as \<open>LWLockInitialize\<close> leaves it, and everything that can come after.\<close>

definition lw_reachable :: "uint32 \<times> (nat \<times> LWLockMode) list \<Rightarrow> bool" where
  "lw_reachable st \<longleftrightarrow> lw_step\<^sup>*\<^sup>* (LW_FLAG_RELEASE_OK, []) st"

subsection \<open>What the word says\<close>

definition exclusives :: "(nat \<times> LWLockMode) list \<Rightarrow> nat" where
  "exclusives hs = length (filter (\<lambda>(p, mode). mode = LW_EXCLUSIVE) hs)"

definition shareds :: "(nat \<times> LWLockMode) list \<Rightarrow> nat" where
  "shareds hs = length (filter (\<lambda>(p, mode). mode \<noteq> LW_EXCLUSIVE) hs)"

definition encodes :: "uint32 \<Rightarrow> (nat \<times> LWLockMode) list \<Rightarrow> bool" where
  "encodes w hs \<longleftrightarrow> unat w mod 2 ^ 25 = 2 ^ 24 * exclusives hs + shareds hs \<and>
     (exclusives hs = 0 \<or> exclusives hs = 1 \<and> shareds hs = 0) \<and> length hs \<le> MAX_BACKENDS"

lemma holders_simps [simp]:
  "exclusives [] = 0" "shareds [] = 0"
  "exclusives ((p, mode) # hs) = (if mode = LW_EXCLUSIVE then Suc (exclusives hs) else exclusives hs)"
  "shareds ((p, mode) # hs) = (if mode = LW_EXCLUSIVE then shareds hs else Suc (shareds hs))"
  by (simp_all add: exclusives_def shareds_def)

lemma holders_length: "exclusives hs + shareds hs = length hs"
  by (induction hs) auto

lemma holders_remove1:
  assumes "(p, mode) \<in> set hs"
  shows "exclusives hs = (if mode = LW_EXCLUSIVE then Suc (exclusives (remove1 (p, mode) hs))
           else exclusives (remove1 (p, mode) hs))"
    and "shareds hs = (if mode = LW_EXCLUSIVE then shareds (remove1 (p, mode) hs)
           else Suc (shareds (remove1 (p, mode) hs)))"
  using assms by (induction hs) (auto split: if_splits)

lemma lock_mask: "LW_LOCK_MASK = mask 25"
  by (simp add: LW_LOCK_MASK_def mask_eq_decr_exp push_bit_of_1)

lemma unat_take_bit_25: "unat (take_bit 25 (w :: uint32)) = unat w mod 2 ^ 25"
  by (simp add: take_bit_eq_mod unat_mod)

lemma free_exclusive: "lock_free LW_EXCLUSIVE w \<longleftrightarrow> unat w mod 2 ^ 25 = 0"
proof -
  have "lock_free LW_EXCLUSIVE w \<longleftrightarrow> take_bit 25 w = 0"
    by (simp add: lock_free_def lock_mask take_bit_eq_mask)
  also have "\<dots> \<longleftrightarrow> unat (take_bit 25 w) = 0" by (simp add: unat_eq_0)
  finally show ?thesis unfolding unat_take_bit_25 .
qed

lemma mod_lt_half:
  fixes n :: nat
  shows "n mod 2 ^ 25 < 2 ^ 24 \<longleftrightarrow> even (n div 2 ^ 24)"
proof -
  have "n mod (2 ^ 24 * 2) = 2 ^ 24 * (n div 2 ^ 24 mod 2) + n mod 2 ^ 24" by (rule mod_mult2_eq)
  moreover have "(2 :: nat) ^ 24 * 2 = 2 ^ 25" by simp
  moreover have "n mod 2 ^ 24 < 2 ^ 24" by simp
  ultimately show ?thesis by (cases "even (n div 2 ^ 24)") (simp_all add: even_iff_mod_2_eq_zero odd_iff_mod_2_eq_one)
qed

lemma free_shared: "mode \<noteq> LW_EXCLUSIVE \<Longrightarrow> lock_free mode w \<longleftrightarrow> unat w mod 2 ^ 25 < 2 ^ 24"
proof -
  assume "mode \<noteq> LW_EXCLUSIVE"
  then have "lock_free mode w \<longleftrightarrow> \<not> bit w 24"
    using and_push_one_nonzero [of w 24] unfolding lock_free_def LW_VAL_EXCLUSIVE_def by metis
  also have "bit w 24 \<longleftrightarrow> bit (unat w) 24" by (simp add: bit_unsigned_iff)
  also have "bit (unat w) 24 \<longleftrightarrow> odd (unat w div 2 ^ 24)" by (rule bit_iff_odd)
  finally show ?thesis unfolding mod_lt_half by simp
qed

subsection \<open>Every step keeps the encoding\<close>

lemma unat_add_mod: "unat (w + v :: uint32) mod 2 ^ 25 = (unat w mod 2 ^ 25 + unat v) mod 2 ^ 25"
proof -
  have "unat (w + v) mod 2 ^ 25 = (unat w + unat v) mod 2 ^ 32 mod 2 ^ 25"
    by (simp add: unat_word_ariths)
  also have "\<dots> = (unat w + unat v) mod 2 ^ 25"
    by (rule mod_mod_cancel) (simp add: le_imp_power_dvd)
  finally show ?thesis by (simp add: mod_add_left_eq)
qed

lemma sub_of_add_mod:
  fixes x y v m :: nat
  assumes "x = (y + v) mod m" and "y < m" and "v \<le> x"
  shows "y = x - v"
proof (cases "y + v < m")
  case True
  then show ?thesis using assms by simp
next
  case False
  have "x < m" using assms by simp
  with assms(3) have "v < m" by simp
  with False assms(1,2) have "x = y + v - m" by (simp add: mod_if)
  with assms(2,3) False \<open>v < m\<close> show ?thesis by linarith
qed

lemma unat_sub_mod:
  assumes "unat v \<le> unat (w :: uint32) mod 2 ^ 25"
  shows "unat (w - v) mod 2 ^ 25 = unat w mod 2 ^ 25 - unat v"
proof (rule sub_of_add_mod)
  show "unat w mod 2 ^ 25 = (unat (w - v) mod 2 ^ 25 + unat v) mod 2 ^ 25"
    using unat_add_mod [of "w - v" v] by simp
qed (use assms in simp_all)

lemma unat_lock_value:
  "unat (lock_value mode) = (if mode = LW_EXCLUSIVE then 2 ^ 24 else 1)"
  by (simp add: lock_value_def LW_VAL_EXCLUSIVE_def LW_VAL_SHARED_def push_bit_of_1)

lemma same_lock_bits: "take_bit 25 w' = take_bit 25 (w :: uint32) \<Longrightarrow> encodes w' hs = encodes w hs"
  unfolding encodes_def unat_take_bit_25 [symmetric] by simp

lemmas flag_defs = LW_FLAG_LOCKED_def LW_FLAG_HAS_WAITERS_def LW_FLAG_RELEASE_OK_def

lemma flag_bits: "f \<in> set flag_updates \<Longrightarrow> take_bit 25 (f w) = take_bit 25 w"
  by (auto simp: flag_updates_def flag_defs bit_eq_iff bit_take_bit_iff bit_simps bit_push_one)

lemma wakeup_bits: "take_bit 25 (wakeup_state ok ps w) = take_bit 25 w"
  by (auto simp: wakeup_state_def flag_defs bit_eq_iff bit_take_bit_iff bit_simps bit_push_one Let_def)

lemma encodes_acquire:
  assumes e: "encodes w hs" and m: "mode \<noteq> LW_WAIT_UNTIL_FREE" and free: "lock_free mode w"
    and room: "length hs < MAX_BACKENDS"
  shows "encodes (w + lock_value mode) ((p, mode) # hs)"
proof (cases "mode = LW_EXCLUSIVE")
  case True
  then have "exclusives hs = 0" "shareds hs = 0" using e free free_exclusive by (auto simp: encodes_def)
  then have "unat (w + lock_value mode) mod 2 ^ 25 = 2 ^ 24"
    using True e unfolding unat_add_mod unat_lock_value encodes_def by simp
  with \<open>exclusives hs = 0\<close> \<open>shareds hs = 0\<close> True room show ?thesis by (simp add: encodes_def)
next
  case False
  then have "unat w mod 2 ^ 25 < 2 ^ 24" using free free_shared by blast
  then have x: "exclusives hs = 0" using e by (auto simp: encodes_def)
  then have "shareds hs < 2 ^ 24 - 1"
    using room holders_length [of hs] by (simp add: MAX_BACKENDS_def)
  then have "unat (w + lock_value mode) mod 2 ^ 25 = Suc (shareds hs)"
    using False x e unfolding unat_add_mod unat_lock_value encodes_def by simp
  with False x room show ?thesis by (simp add: encodes_def)
qed

lemma encodes_release:
  assumes e: "encodes w hs" and h: "(p, mode) \<in> set hs"
  shows "encodes (w - lock_value mode) (remove1 (p, mode) hs)"
proof -
  let ?hs = "remove1 (p, mode) hs"
  have "unat (lock_value mode) \<le> unat w mod 2 ^ 25"
    using e holders_remove1 [OF h] by (auto simp: encodes_def unat_lock_value)
  from unat_sub_mod [OF this] have "unat (w - lock_value mode) mod 2 ^ 25 =
      2 ^ 24 * exclusives hs + shareds hs - unat (lock_value mode)"
    using e by (simp add: encodes_def)
  also have "\<dots> = 2 ^ 24 * exclusives ?hs + shareds ?hs"
    using holders_remove1 [OF h] by (simp add: unat_lock_value)
  finally show ?thesis
    using e holders_remove1 [OF h] h unfolding encodes_def by (auto simp: length_remove1 split: if_splits)
qed

lemma lw_step_encodes: "lw_step st st' \<Longrightarrow> encodes (fst st) (snd st) \<Longrightarrow> encodes (fst st') (snd st')"
  by (induction rule: lw_step.induct)
    (auto intro: encodes_acquire encodes_release
      simp: same_lock_bits [OF flag_bits] same_lock_bits [OF wakeup_bits])

lemma encodes_init: "encodes LW_FLAG_RELEASE_OK []"
  by (simp add: encodes_def LW_FLAG_RELEASE_OK_def push_bit_of_1)

lemma lw_reachable_encodes:
  assumes "lw_reachable (w, hs)"
  shows "encodes w hs"
proof -
  have "encodes (fst st) (snd st)" if "lw_step\<^sup>*\<^sup>* (LW_FLAG_RELEASE_OK, []) st" for st
    using that by (induction rule: rtranclp_induct) (auto simp: encodes_init lw_step_encodes)
  then show ?thesis using assms unfolding lw_reachable_def by force
qed

subsection \<open>An exclusive holder is alone\<close>

lemma exclusives_pos: "(p, LW_EXCLUSIVE) \<in> set hs \<Longrightarrow> 0 < exclusives hs"
  by (induction hs) auto

lemma exclusive_alone:
  assumes "encodes w hs" and "(p, LW_EXCLUSIVE) \<in> set hs"
  shows "hs = [(p, LW_EXCLUSIVE)]"
proof -
  have "length hs = 1"
    using assms exclusives_pos [OF assms(2)] holders_length [of hs] by (auto simp: encodes_def)
  then obtain x where "hs = [x]" by (auto simp: length_Suc_conv)
  with assms(2) show ?thesis by simp
qed

text \<open>The test in \<open>LWLockAttemptLock\<close> is right about the holders.\<close>

lemma lock_free_iff:
  assumes e: "encodes w hs"
  shows "lock_free LW_EXCLUSIVE w \<longleftrightarrow> hs = []"
    and "lock_free LW_SHARED w \<longleftrightarrow> (\<forall>(p, mode) \<in> set hs. mode \<noteq> LW_EXCLUSIVE)"
proof -
  show "lock_free LW_EXCLUSIVE w \<longleftrightarrow> hs = []"
    using e holders_length [of hs] by (auto simp: encodes_def free_exclusive)
  have "lock_free LW_SHARED w \<longleftrightarrow> exclusives hs = 0"
    using e holders_length [of hs] by (auto simp: encodes_def free_shared MAX_BACKENDS_def)
  also have "\<dots> \<longleftrightarrow> (\<forall>(p, mode) \<in> set hs. mode \<noteq> LW_EXCLUSIVE)"
    by (induction hs) (auto split: if_splits)
  finally show "lock_free LW_SHARED w \<longleftrightarrow> (\<forall>(p, mode) \<in> set hs. mode \<noteq> LW_EXCLUSIVE)" .
qed

end
