(* ===== verification/PredicateConflict.thy ===== *)
theory PredicateConflict
  imports MigrateQuery
begin

unbundle bit_operations_syntax

text \<open>
  Conflicts between serializable transactions: \<open>src/backend/storage/lmgr/predicate.c\<close>, from the pool of
  conflicts to the checks at every new conflict and at commit, and the end of a transaction. One
  of the checks cancels a migration by \<open>txn_error_handling\<close>.

  The code works on the shared data while it holds \<open>SerializableXactHashLock\<close>, so that nobody else changes
  them. A section of it between two accesses to anything else is a program over the shared data, and
  \<open>in_ssi\<close> runs it in a backend as one access to shared memory.

  A loop that reads the next element of a queue before its body removes the current one runs its body on the
  elements that the queue has when the loop starts.
\<close>

subsection \<open>Access\<close>

definition SerializableXactHashLock :: nat where "SerializableXactHashLock = 28"
definition SerializableFinishedListLock :: nat where "SerializableFinishedListLock = 29"
definition OldSerXidLock :: nat where "OldSerXidLock = 31"
definition XACT_SERIALIZABLE :: nat where "XACT_SERIALIZABLE = 3"

definition in_ssi :: "(ssi, 'a) prog \<Rightarrow> (backend, 'a) prog" where
  "in_ssi m = thenp interfere (\<lambda>s. case m (PredXact (shm s)) of (r, p) \<Rightarrow> (r, s\<lparr>shm := (shm s)\<lparr>PredXact := p\<rparr>\<rparr>))"

definition get_sxact :: "nat \<Rightarrow> (ssi, SERIALIZABLEXACT) prog" where
  "get_sxact x = bindp (gets (\<lambda>s. aload (element s) x)) liftp"

definition upd_sxact :: "nat \<Rightarrow> (SERIALIZABLEXACT \<Rightarrow> SERIALIZABLEXACT) \<Rightarrow> (ssi, unit) prog" where
  "upd_sxact x f = bindp (get_sxact x) (\<lambda>sxact. modify (\<lambda>s. s\<lparr>element := (element s)[x := f sxact]\<rparr>))"

definition set_flag :: "nat \<Rightarrow> uint32 \<Rightarrow> (ssi, unit) prog" where
  "set_flag x m = upd_sxact x (\<lambda>sxact. sxact\<lparr>flags := flags sxact OR m\<rparr>)"

definition get_conflict :: "nat \<Rightarrow> (ssi, RWConflictData) prog" where
  "get_conflict c = bindp (gets (\<lambda>s. aload (pool s) c)) liftp"

text \<open>The conflict that a link is part of: \<open>SHMQueueNext\<close> with the offset of \<open>outLink\<close> or of \<open>inLink\<close>.\<close>

fun outLink_conflict :: "rwlink \<Rightarrow> nat result" where
  "outLink_conflict (OutLink c) = Inr c"
| "outLink_conflict (InLink c) = Inl BadAddr"

fun inLink_conflict :: "rwlink \<Rightarrow> nat result" where
  "inLink_conflict (InLink c) = Inr c"
| "inLink_conflict (OutLink c) = Inl BadAddr"

text \<open>\<open>while (conflict) { if (...) { found; break; } conflict = next }\<close>\<close>

fun anyp :: "('a \<Rightarrow> ('s, bool) prog) \<Rightarrow> 'a list \<Rightarrow> ('s, bool) prog" where
  "anyp f [] = ret False"
| "anyp f (x # xs) = bindp (f x) (\<lambda>found. if found then ret True else anyp f xs)"

subsection \<open>The lists of transactions\<close>

definition CreatePredXact :: "(ssi, nat option) prog" where
  "CreatePredXact = bindp (gets availableList) (\<lambda>av. case av of
     [] \<Rightarrow> ret None
   | x # xs \<Rightarrow> thenp (modify (\<lambda>s. s\<lparr>availableList := xs, activeList := activeList s @ [x]\<rparr>)) (ret (Some x)))"

definition ReleasePredXact :: "nat \<Rightarrow> (ssi, unit) prog" where
  "ReleasePredXact x =
     bindp (gets (\<lambda>s. x \<in> set (activeList s) \<or> x \<in> set (availableList s))) (\<lambda>in_list.
     thenp (assertp in_list)
     (modify (\<lambda>s. s\<lparr>activeList := removeAll x (activeList s), availableList := removeAll x (availableList s) @ [x]\<rparr>)))"

subsection \<open>The pool of conflicts\<close>

text \<open>\<open>SHMQueueDelete\<close> takes the link out of the queue it is in.\<close>

definition linked :: "rwlink \<Rightarrow> ssi \<Rightarrow> bool" where
  "linked l s \<longleftrightarrow> l \<in> set (poolAvailable s) \<or>
     list_ex (\<lambda>x. l \<in> set (outConflicts x) \<or> l \<in> set (inConflicts x) \<or> l \<in> set (possibleUnsafeConflicts x)) (element s)"

definition unlink_from :: "rwlink \<Rightarrow> SERIALIZABLEXACT \<Rightarrow> SERIALIZABLEXACT" where
  "unlink_from l x = x\<lparr>outConflicts := removeAll l (outConflicts x), inConflicts := removeAll l (inConflicts x),
     possibleUnsafeConflicts := removeAll l (possibleUnsafeConflicts x)\<rparr>"

definition SHMQueueDelete_link :: "rwlink \<Rightarrow> (ssi, unit) prog" where
  "SHMQueueDelete_link l =
     bindp (gets (linked l)) (\<lambda>ok.
     thenp (assertp ok)
     (modify (\<lambda>s. s\<lparr>element := map (unlink_from l) (element s), poolAvailable := removeAll l (poolAvailable s)\<rparr>)))"

definition RWConflictExists :: "nat \<Rightarrow> nat \<Rightarrow> (ssi, bool) prog" where
  "RWConflictExists reader writer =
     thenp (assertp (reader \<noteq> writer))
     (bindp (get_sxact reader) (\<lambda>r.
     bindp (get_sxact writer) (\<lambda>w.
     if SxactIsDoomed r \<or> SxactIsDoomed w \<or> outConflicts r = [] \<or> inConflicts w = [] then ret False
     else
       anyp (\<lambda>l. bindp (liftp (outLink_conflict l)) (\<lambda>c.
                 bindp (get_conflict c) (\<lambda>conflict. ret (sxactIn conflict = writer)))) (outConflicts r))))"

text \<open>The head of the available list is taken out of it and filled in.\<close>

definition take_conflict :: "string \<Rightarrow> nat \<Rightarrow> nat \<Rightarrow> (ssi, nat) prog" where
  "take_conflict msg out inn =
     bindp (gets poolAvailable) (\<lambda>av. case av of
       [] \<Rightarrow> throw (Ereport msg)
     | l # _ \<Rightarrow>
         bindp (liftp (outLink_conflict l)) (\<lambda>c.
         thenp (SHMQueueDelete_link (OutLink c))
         (bindp (get_conflict c) (\<lambda>_.
         thenp (modify (\<lambda>s. s\<lparr>pool := (pool s)[c := \<lparr>sxactOut = out, sxactIn = inn\<rparr>]\<rparr>))
         (ret c)))))"

definition SetRWConflict :: "nat \<Rightarrow> nat \<Rightarrow> (ssi, unit) prog" where
  "SetRWConflict reader writer =
     thenp (assertp (reader \<noteq> writer))
     (bindp (RWConflictExists reader writer) (\<lambda>exists.
     thenp (assertp (\<not> exists))
     (bindp (take_conflict ''not enough elements in RWConflictPool to record a read/write conflict'' reader writer) (\<lambda>c.
     thenp (upd_sxact reader (\<lambda>r. r\<lparr>outConflicts := outConflicts r @ [OutLink c]\<rparr>))
     (upd_sxact writer (\<lambda>w. w\<lparr>inConflicts := inConflicts w @ [InLink c]\<rparr>))))))"

definition SetPossibleUnsafeConflict :: "nat \<Rightarrow> nat \<Rightarrow> (ssi, unit) prog" where
  "SetPossibleUnsafeConflict roXact activeXact =
     thenp (assertp (roXact \<noteq> activeXact))
     (bindp (get_sxact roXact) (\<lambda>ro.
     thenp (assertp (SxactIsReadOnly ro))
     (bindp (get_sxact activeXact) (\<lambda>act.
     thenp (assertp (\<not> SxactIsReadOnly act))
     (bindp (take_conflict ''not enough elements in RWConflictPool to record a potential read/write conflict''
               activeXact roXact) (\<lambda>c.
     thenp (upd_sxact activeXact (\<lambda>a. a\<lparr>possibleUnsafeConflicts := possibleUnsafeConflicts a @ [OutLink c]\<rparr>))
     (upd_sxact roXact (\<lambda>r. r\<lparr>possibleUnsafeConflicts := possibleUnsafeConflicts r @ [InLink c]\<rparr>))))))))"

definition ReleaseRWConflict :: "nat \<Rightarrow> (ssi, unit) prog" where
  "ReleaseRWConflict c =
     thenp (SHMQueueDelete_link (InLink c))
     (thenp (SHMQueueDelete_link (OutLink c))
     (modify (\<lambda>s. s\<lparr>poolAvailable := poolAvailable s @ [OutLink c]\<rparr>)))"

definition release_unsafe_in :: "nat \<Rightarrow> rwlink \<Rightarrow> (ssi, unit) prog" where
  "release_unsafe_in x l =
     bindp (liftp (inLink_conflict l)) (\<lambda>c.
     bindp (get_conflict c) (\<lambda>conflict.
     bindp (get_sxact (sxactOut conflict)) (\<lambda>out.
     thenp (assertp (\<not> SxactIsReadOnly out))
     (thenp (assertp (x = sxactIn conflict))
     (ReleaseRWConflict c)))))"

definition FlagSxactUnsafe :: "nat \<Rightarrow> (ssi, unit) prog" where
  "FlagSxactUnsafe x =
     bindp (get_sxact x) (\<lambda>sxact.
     thenp (assertp (SxactIsReadOnly sxact))
     (thenp (assertp (\<not> SxactIsROSafe sxact))
     (thenp (set_flag x SXACT_FLAG_RO_UNSAFE)
     (eachp (release_unsafe_in x) (possibleUnsafeConflicts sxact)))))"

subsection \<open>Checking a new conflict\<close>

text \<open>
  The tests of \<open>OnConflict_CheckForSerializationFailure\<close>: the writer has committed with a conflict out; the writer
  becomes a pivot to \<open>t2\<close>; the reader becomes a pivot from \<open>t0\<close>.
\<close>

definition pivot_out :: "SERIALIZABLEXACT \<Rightarrow> SERIALIZABLEXACT \<Rightarrow> SERIALIZABLEXACT \<Rightarrow> bool" where
  "pivot_out reader writer t2 \<longleftrightarrow>
     SxactIsPrepared t2
     \<and> (\<not> SxactIsCommitted reader \<or> prepareSeqNo t2 \<le> commitSeqNo reader)
     \<and> (\<not> SxactIsCommitted writer \<or> prepareSeqNo t2 \<le> commitSeqNo writer)
     \<and> (\<not> SxactIsReadOnly reader \<or> prepareSeqNo t2 \<le> SeqNo reader)"

definition pivot_in :: "SERIALIZABLEXACT \<Rightarrow> SERIALIZABLEXACT \<Rightarrow> bool" where
  "pivot_in t0 writer \<longleftrightarrow>
     \<not> SxactIsDoomed t0
     \<and> (\<not> SxactIsCommitted t0 \<or> commitSeqNo t0 \<ge> prepareSeqNo writer)
     \<and> (\<not> SxactIsReadOnly t0 \<or> SeqNo t0 \<ge> prepareSeqNo writer)"

definition conflict_failure :: "nat \<Rightarrow> nat \<Rightarrow> (ssi, bool) prog" where
  "conflict_failure reader writer =
     bindp (get_sxact reader) (\<lambda>r.
     bindp (get_sxact writer) (\<lambda>w.
     bindp (if SxactIsCommitted w \<and> (SxactHasConflictOut w \<or> SxactHasSummaryConflictOut w) then ret True
            else if SxactHasSummaryConflictOut w then ret True
            else anyp (\<lambda>l. bindp (liftp (outLink_conflict l)) (\<lambda>c.
                            bindp (get_conflict c) (\<lambda>conflict.
                            bindp (get_sxact (sxactIn conflict)) (\<lambda>t2. ret (pivot_out r w t2)))))
                   (outConflicts w)) (\<lambda>failure.
     if \<not> failure \<and> SxactIsPrepared w \<and> \<not> SxactIsReadOnly r then
       (if SxactHasSummaryConflictIn r then ret True
        else anyp (\<lambda>l. bindp (liftp (inLink_conflict l)) (\<lambda>c.
                        bindp (get_conflict c) (\<lambda>conflict.
                        bindp (get_sxact (sxactOut conflict)) (\<lambda>t0. ret (pivot_in t0 w)))))
               (inConflicts r))
     else ret failure)))"

definition serialization_failure :: "string \<Rightarrow> cerror" where
  "serialization_failure reason = Ereport (''could not serialize access due to read/write dependencies among transactions: '' @ reason)"

definition OnConflict_CheckForSerializationFailure :: "nat \<Rightarrow> nat \<Rightarrow> (backend, unit) prog" where
  "OnConflict_CheckForSerializationFailure reader writer =
     bindp (LWLockHeldByMe SerializableXactHashLock) (\<lambda>held.
     thenp (assertp held)
     (bindp (in_ssi (conflict_failure reader writer)) (\<lambda>failure.
     whenp failure
       (bindp (gets MySerializableXact) (\<lambda>me.
        if me = Some writer then
          thenp txn_error_handling
          (thenp (LWLockRelease SerializableXactHashLock)
          (throw (serialization_failure ''Canceled on identification as a pivot, during write.'')))
        else
          bindp (in_ssi (get_sxact writer)) (\<lambda>w.
          if SxactIsPrepared w then
            thenp (LWLockRelease SerializableXactHashLock)
            (thenp (assertp (me = Some reader))
            (throw (serialization_failure ''Canceled on conflict out to pivot, during read.'')))
          else in_ssi (set_flag writer SXACT_FLAG_DOOMED)))))))"

definition FlagRWConflict :: "nat \<Rightarrow> nat \<Rightarrow> (backend, unit) prog" where
  "FlagRWConflict reader writer =
     thenp (assertp (reader \<noteq> writer))
     (thenp (OnConflict_CheckForSerializationFailure reader writer)
     (bindp (in_ssi (gets OldCommittedSxact)) (\<lambda>old.
     if reader = old then in_ssi (set_flag writer SXACT_FLAG_SUMMARY_CONFLICT_IN)
     else if writer = old then in_ssi (set_flag reader SXACT_FLAG_SUMMARY_CONFLICT_OUT)
     else in_ssi (SetRWConflict reader writer))))"

subsection \<open>The check before commit\<close>

definition far_conflict :: "nat \<Rightarrow> rwlink \<Rightarrow> (ssi, bool) prog" where
  "far_conflict me l =
     bindp (liftp (inLink_conflict l)) (\<lambda>c.
     bindp (get_conflict c) (\<lambda>farConflict.
     bindp (get_sxact (sxactOut farConflict)) (\<lambda>far.
     ret (sxactOut farConflict = me \<or>
          (\<not> SxactIsCommitted far \<and> \<not> SxactIsReadOnly far \<and> \<not> SxactIsDoomed far)))))"

text \<open>The loop over the near conflicts; it answers whether this transaction has to give up.\<close>

fun near_conflicts :: "nat \<Rightarrow> rwlink list \<Rightarrow> (ssi, bool) prog" where
  "near_conflicts me [] = ret False"
| "near_conflicts me (l # ls) =
     bindp (liftp (inLink_conflict l)) (\<lambda>c.
     bindp (get_conflict c) (\<lambda>nearConflict.
     bindp (get_sxact (sxactOut nearConflict)) (\<lambda>near.
     bindp (if \<not> SxactIsCommitted near \<and> \<not> SxactIsDoomed near then anyp (far_conflict me) (inConflicts near)
            else ret False) (\<lambda>found.
     if \<not> found then near_conflicts me ls
     else if SxactIsPrepared near then ret True
     else thenp (set_flag (sxactOut nearConflict) SXACT_FLAG_DOOMED) (near_conflicts me ls)))))"

definition mark_prepared :: "nat \<Rightarrow> (ssi, unit) prog" where
  "mark_prepared me =
     thenp (modify (\<lambda>s. s\<lparr>LastSxactCommitSeqNo := LastSxactCommitSeqNo s + 1\<rparr>))
     (bindp (gets LastSxactCommitSeqNo) (\<lambda>n.
     upd_sxact me (\<lambda>sxact. sxact\<lparr>prepareSeqNo := n, flags := flags sxact OR SXACT_FLAG_PREPARED\<rparr>)))"

definition PreCommit_CheckForSerializationFailure :: "(backend, unit) prog" where
  "PreCommit_CheckForSerializationFailure =
     bindp (gets MySerializableXact) (\<lambda>mine. case mine of
       None \<Rightarrow> ret ()
     | Some me \<Rightarrow>
         bindp (gets XactIsoLevel) (\<lambda>iso.
         thenp (assertp (iso = XACT_SERIALIZABLE))
         (thenp (LWLockAcquire SerializableXactHashLock LW_EXCLUSIVE)
         (bindp (in_ssi (get_sxact me)) (\<lambda>sxact.
         if SxactIsDoomed sxact then
           thenp (LWLockRelease SerializableXactHashLock)
           (throw (serialization_failure ''Canceled on identification as a pivot, during commit attempt.''))
         else
           bindp (in_ssi (near_conflicts me (inConflicts sxact))) (\<lambda>give_up.
           if give_up then
             thenp (LWLockRelease SerializableXactHashLock)
             (throw (serialization_failure ''Canceled on commit attempt with conflict in from prepared pivot.''))
           else
             thenp (in_ssi (mark_prepared me))
             (LWLockRelease SerializableXactHashLock)))))))"

end
