(* ===== verification/PredicateEnd.thy ===== *)
theory PredicateEnd
  imports PredicateConflict
begin

unbundle bit_operations_syntax

text \<open>
  Creation of the shared data and the end of a serializable transaction: \<open>InitPredicateLocks\<close>,
  \<open>ReleasePredicateLocks\<close>, \<open>ReleaseOneSerializableXact\<close> and \<open>ClearOldPredicateLocks\<close> of
  \<open>src/backend/storage/lmgr/predicate.c\<close>. The predicate locks themselves, the tables of what a transaction has read,
  are not modelled; the programs that work on them are arguments.
\<close>

subsection \<open>Creation\<close>

definition blank_sxact :: SERIALIZABLEXACT where
  "blank_sxact = \<lparr>prepareSeqNo = 0, commitSeqNo = 0, SeqNo = 0, outConflicts = [], inConflicts = [],
     possibleUnsafeConflicts = [], topXid = 0, finishedBefore = 0, xmin = 0, flags = 0, pid = 0\<rparr>"

text \<open>\<open>n\<close> is \<open>MaxBackends + max_prepared_xacts\<close>.\<close>

definition InitPredicateLocks :: "nat \<Rightarrow> ssi" where
  "InitPredicateLocks n =
     (let max_table_size = n * 10;
          s = \<lparr>element = replicate max_table_size blank_sxact, availableList = [0..<max_table_size], activeList = [],
               SxactGlobalXmin = InvalidTransactionId, SxactGlobalXminCount = 0, WritableSxactCount = 0,
               LastSxactCommitSeqNo = FirstNormalSerCommitSeqNo - 1, CanPartialClearThrough = 0, HavePartialClearedThrough = 0,
               OldCommittedSxact = 0, pool = replicate (max_table_size * 5) \<lparr>sxactOut = 0, sxactIn = 0\<rparr>,
               poolAvailable = map OutLink [0..<max_table_size * 5], FinishedSerializableTransactions = [],
               SerializableXidHash = (\<lambda>_. None), headPage = -1, tailXid = InvalidTransactionId,
               headXid = InvalidTransactionId, nextXid = FirstNormalTransactionId, signals = []\<rparr>
      in case CreatePredXact s of
           (Inr (Some old), s) \<Rightarrow>
             s\<lparr>OldCommittedSxact := old, element := (element s)[old := blank_sxact\<lparr>flags := SXACT_FLAG_COMMITTED\<rparr>]\<rparr>
         | (_, s) \<Rightarrow> s)"

subsection \<open>The oldest active transaction\<close>

definition OldSerXidSetActiveSerXmin :: "TransactionId \<Rightarrow> (backend, unit) prog" where
  "OldSerXidSetActiveSerXmin xid =
     thenp (LWLockAcquire OldSerXidLock LW_EXCLUSIVE)
     (bindp (gets RecoveryInProgress) (\<lambda>recovery.
     if \<not> TransactionIdIsValid xid then
       thenp (in_ssi (modify (\<lambda>s. s\<lparr>tailXid := InvalidTransactionId, headXid := InvalidTransactionId\<rparr>)))
       (LWLockRelease OldSerXidLock)
     else if recovery then
       bindp (in_ssi (gets headPage)) (\<lambda>page.
       thenp (assertp (page < 0))
       (thenp (in_ssi (modify (\<lambda>s. if \<not> TransactionIdIsValid (tailXid s) \<or> TransactionIdPrecedes xid (tailXid s)
                                    then s\<lparr>tailXid := xid\<rparr> else s)))
       (LWLockRelease OldSerXidLock)))
     else
       bindp (in_ssi (gets tailXid)) (\<lambda>tail.
       thenp (assertp (\<not> TransactionIdIsValid tail \<or> TransactionIdFollows xid tail))
       (thenp (in_ssi (modify (\<lambda>s. s\<lparr>tailXid := xid\<rparr>)))
       (LWLockRelease OldSerXidLock)))))"

definition count_xmin :: "nat \<Rightarrow> (ssi, unit) prog" where
  "count_xmin x =
     bindp (get_sxact x) (\<lambda>sxact.
     bindp (gets OldCommittedSxact) (\<lambda>old.
     whenp (\<not> SxactIsRolledBack sxact \<and> \<not> SxactIsCommitted sxact \<and> x \<noteq> old)
       (thenp (assertp (xmin sxact \<noteq> InvalidTransactionId))
       (modify (\<lambda>s.
          if \<not> TransactionIdIsValid (SxactGlobalXmin s) \<or> TransactionIdPrecedes (xmin sxact) (SxactGlobalXmin s)
          then s\<lparr>SxactGlobalXmin := xmin sxact, SxactGlobalXminCount := 1\<rparr>
          else if xmin sxact = SxactGlobalXmin s then s\<lparr>SxactGlobalXminCount := SxactGlobalXminCount s + 1\<rparr>
          else s)))))"

definition SetNewSxactGlobalXmin :: "(backend, unit) prog" where
  "SetNewSxactGlobalXmin =
     bindp (LWLockHeldByMe SerializableXactHashLock) (\<lambda>held.
     thenp (assertp held)
     (thenp (in_ssi (thenp (modify (\<lambda>s. s\<lparr>SxactGlobalXmin := InvalidTransactionId, SxactGlobalXminCount := 0\<rparr>))
                     (bindp (gets activeList) (eachp count_xmin))))
     (bindp (in_ssi (gets SxactGlobalXmin)) OldSerXidSetActiveSerXmin)))"

subsection \<open>End\<close>

definition mark_committed :: "bool \<Rightarrow> nat \<Rightarrow> (ssi, unit) prog" where
  "mark_committed didWrite me =
     thenp (set_flag me SXACT_FLAG_COMMITTED)
     (thenp (modify (\<lambda>s. s\<lparr>LastSxactCommitSeqNo := LastSxactCommitSeqNo s + 1\<rparr>))
     (bindp (gets LastSxactCommitSeqNo) (\<lambda>n.
     thenp (upd_sxact me (\<lambda>sxact. sxact\<lparr>commitSeqNo := n\<rparr>))
     (whenp (\<not> didWrite) (set_flag me SXACT_FLAG_READ_ONLY)))))"

definition mark_rolled_back :: "nat \<Rightarrow> (ssi, unit) prog" where
  "mark_rolled_back me =
     thenp (set_flag me SXACT_FLAG_DOOMED)
     (thenp (set_flag me SXACT_FLAG_ROLLED_BACK)
     (upd_sxact me (\<lambda>sxact. sxact\<lparr>flags := flags sxact AND NOT SXACT_FLAG_PREPARED\<rparr>)))"

definition count_writable :: "(ssi, unit) prog" where
  "count_writable =
     bindp (gets WritableSxactCount) (\<lambda>n.
     thenp (assertp (n > 0))
     (modify (\<lambda>s. if n - 1 = 0
                   then s\<lparr>WritableSxactCount := n - 1, CanPartialClearThrough := LastSxactCommitSeqNo s\<rparr>
                   else s\<lparr>WritableSxactCount := n - 1\<rparr>)))"

definition summary_out :: "bool \<Rightarrow> nat \<Rightarrow> (ssi, unit) prog" where
  "summary_out isCommit me =
     bindp (get_sxact me) (\<lambda>sxact.
     whenp (isCommit \<and> \<not> SxactIsReadOnly sxact \<and> SxactHasSummaryConflictOut sxact)
       (upd_sxact me (\<lambda>sxact. sxact\<lparr>SeqNo := FirstNormalSerCommitSeqNo, flags := flags sxact OR SXACT_FLAG_CONFLICT_OUT\<rparr>)))"

definition finish_out :: "bool \<Rightarrow> nat \<Rightarrow> rwlink \<Rightarrow> (ssi, unit) prog" where
  "finish_out isCommit me l =
     bindp (liftp (outLink_conflict l)) (\<lambda>c.
     bindp (get_conflict c) (\<lambda>conflict.
     bindp (get_sxact me) (\<lambda>sxact.
     bindp (get_sxact (sxactIn conflict)) (\<lambda>inn.
     thenp (whenp (isCommit \<and> \<not> SxactIsReadOnly sxact \<and> SxactIsCommitted inn)
              (upd_sxact me (\<lambda>sxact.
                 (if flags sxact AND SXACT_FLAG_CONFLICT_OUT = 0 \<or> prepareSeqNo inn < SeqNo sxact
                  then sxact\<lparr>SeqNo := prepareSeqNo inn\<rparr> else sxact)
                 \<lparr>flags := flags sxact OR SXACT_FLAG_CONFLICT_OUT\<rparr>)))
     (bindp (gets LastSxactCommitSeqNo) (\<lambda>lastSeqNo.
     whenp (\<not> isCommit \<or> SxactIsCommitted inn \<or> SeqNo inn \<ge> lastSeqNo) (ReleaseRWConflict c)))))))"

definition finish_in :: "bool \<Rightarrow> rwlink \<Rightarrow> (ssi, unit) prog" where
  "finish_in isCommit l =
     bindp (liftp (inLink_conflict l)) (\<lambda>c.
     bindp (get_conflict c) (\<lambda>conflict.
     bindp (get_sxact (sxactOut conflict)) (\<lambda>out.
     whenp (\<not> isCommit \<or> SxactIsCommitted out \<or> SxactIsReadOnly out) (ReleaseRWConflict c))))"

definition ProcSendSignal :: "int \<Rightarrow> (ssi, unit) prog" where
  "ProcSendSignal p = modify (\<lambda>s. s\<lparr>signals := signals s @ [p]\<rparr>)"

definition finish_unsafe :: "bool \<Rightarrow> bool \<Rightarrow> nat \<Rightarrow> rwlink \<Rightarrow> (ssi, unit) prog" where
  "finish_unsafe isCommit didWrite me l =
     bindp (liftp (outLink_conflict l)) (\<lambda>c.
     bindp (get_conflict c) (\<lambda>conflict.
     let roXact = sxactIn conflict in
     thenp (assertp (me = sxactOut conflict))
     (bindp (get_sxact roXact) (\<lambda>ro.
     thenp (assertp (SxactIsReadOnly ro))
     (bindp (get_sxact me) (\<lambda>sxact.
     thenp (if isCommit \<and> didWrite \<and> SxactHasConflictOut sxact \<and> SeqNo sxact \<le> SeqNo ro
            then FlagSxactUnsafe roXact
            else
              thenp (ReleaseRWConflict c)
              (bindp (get_sxact roXact) (\<lambda>ro.
              whenp (possibleUnsafeConflicts ro = []) (set_flag roXact SXACT_FLAG_RO_SAFE))))
     (bindp (get_sxact roXact) (\<lambda>ro.
     whenp (SxactIsDeferrableWaiting ro \<and> (SxactIsROUnsafe ro \<or> SxactIsROSafe ro)) (ProcSendSignal (pid ro))))))))))"

definition leave_xmin :: "nat \<Rightarrow> (ssi, bool) prog" where
  "leave_xmin me =
     bindp (get_sxact me) (\<lambda>sxact.
     bindp (gets (\<lambda>s. (SxactGlobalXmin s, SxactGlobalXminCount s))) (\<lambda>(gxmin, n).
     if xmin sxact = gxmin then
       thenp (assertp (n > 0))
       (thenp (modify (\<lambda>s. s\<lparr>SxactGlobalXminCount := n - 1\<rparr>))
       (ret (n - 1 = 0)))
     else ret False))"

text \<open>
  The section of \<open>ReleasePredicateLocks\<close> under \<open>SerializableXactHashLock\<close>, up to the search for a new oldest
  transaction; the answer is whether that is necessary.
\<close>

definition end_xact :: "bool \<Rightarrow> bool \<Rightarrow> bool \<Rightarrow> nat \<Rightarrow> (ssi, bool) prog" where
  "end_xact serializable isCommit didWrite me =
     bindp (get_sxact me) (\<lambda>sxact.
     thenp (assertp (\<not> isCommit \<or> SxactIsPrepared sxact))
     (thenp (assertp (\<not> isCommit \<or> \<not> SxactIsDoomed sxact))
     (thenp (assertp (\<not> SxactIsCommitted sxact))
     (thenp (assertp (\<not> SxactIsRolledBack sxact))
     (thenp (assertp (pid sxact = 0 \<or> serializable))
     (bindp (gets FinishedSerializableTransactions) (\<lambda>finished.
     thenp (assertp (me \<notin> set finished))
     (let topLevelIsDeclaredReadOnly = SxactIsReadOnly sxact in
     bindp (gets nextXid) (\<lambda>nxid.
     thenp (upd_sxact me (\<lambda>sxact. sxact\<lparr>finishedBefore := nxid\<rparr>))
     (thenp (if isCommit then mark_committed didWrite me else mark_rolled_back me)
     (thenp (if \<not> topLevelIsDeclaredReadOnly then count_writable
             else bindp (get_sxact me) (\<lambda>sxact. eachp (release_unsafe_in me) (possibleUnsafeConflicts sxact)))
     (thenp (summary_out isCommit me)
     (thenp (bindp (get_sxact me) (\<lambda>sxact. eachp (finish_out isCommit me) (outConflicts sxact)))
     (thenp (bindp (get_sxact me) (\<lambda>sxact. eachp (finish_in isCommit) (inConflicts sxact)))
     (thenp (whenp (\<not> topLevelIsDeclaredReadOnly)
              (bindp (get_sxact me) (\<lambda>sxact. eachp (finish_unsafe isCommit didWrite me) (possibleUnsafeConflicts sxact))))
     (leave_xmin me))))))))))))))))"

definition release_out :: "bool \<Rightarrow> rwlink \<Rightarrow> (ssi, unit) prog" where
  "release_out summarize l =
     bindp (liftp (outLink_conflict l)) (\<lambda>c.
     bindp (get_conflict c) (\<lambda>conflict.
     thenp (whenp summarize (set_flag (sxactIn conflict) SXACT_FLAG_SUMMARY_CONFLICT_IN))
     (ReleaseRWConflict c)))"

definition release_in :: "bool \<Rightarrow> rwlink \<Rightarrow> (ssi, unit) prog" where
  "release_in summarize l =
     bindp (liftp (inLink_conflict l)) (\<lambda>c.
     bindp (get_conflict c) (\<lambda>conflict.
     thenp (whenp summarize (set_flag (sxactOut conflict) SXACT_FLAG_SUMMARY_CONFLICT_OUT))
     (ReleaseRWConflict c)))"

text \<open>
  \<open>ReleaseOneSerializableXact\<close>: \<open>drop_locks\<close> releases the predicate locks of the transaction.
\<close>

definition release_conflicts :: "nat \<Rightarrow> bool \<Rightarrow> bool \<Rightarrow> (ssi, unit) prog" where
  "release_conflicts x partial summarize =
     bindp (get_sxact x) (\<lambda>sxact.
     thenp (whenp (\<not> partial) (eachp (release_out summarize) (outConflicts sxact)))
     (bindp (get_sxact x) (\<lambda>sxact.
     thenp (eachp (release_in summarize) (inConflicts sxact))
     (whenp (\<not> partial)
       (thenp (whenp (topXid sxact \<noteq> InvalidTransactionId)
                (modify (\<lambda>s. s\<lparr>SerializableXidHash := (SerializableXidHash s)(topXid sxact := None)\<rparr>)))
       (ReleasePredXact x))))))"

definition ReleaseOneSerializableXact ::
  "(nat \<Rightarrow> bool \<Rightarrow> (backend, unit) prog) \<Rightarrow> nat \<Rightarrow> bool \<Rightarrow> bool \<Rightarrow> (backend, unit) prog"
where
  "ReleaseOneSerializableXact drop_locks x partial summarize =
     bindp (in_ssi (get_sxact x)) (\<lambda>sxact.
     thenp (assertp (SxactIsRolledBack sxact \<or> SxactIsCommitted sxact))
     (bindp (in_ssi (gets FinishedSerializableTransactions)) (\<lambda>finished.
     thenp (assertp (partial \<or> x \<notin> set finished))
     (bindp (LWLockHeldByMe SerializableFinishedListLock) (\<lambda>held.
     thenp (assertp held)
     (thenp (drop_locks x summarize)
     (thenp (LWLockAcquire SerializableXactHashLock LW_EXCLUSIVE)
     (thenp (in_ssi (release_conflicts x partial summarize))
     (LWLockRelease SerializableXactHashLock)))))))))"

text \<open>\<open>SHMQueueDelete\<close> of a transaction's link in the list of finished transactions.\<close>

definition unlink_finished :: "nat \<Rightarrow> (ssi, unit) prog" where
  "unlink_finished x = modify (\<lambda>s. s\<lparr>FinishedSerializableTransactions := removeAll x (FinishedSerializableTransactions s)\<rparr>)"

text \<open>
  \<open>ClearOldPredicateLocks\<close>: the loop over the finished transactions, oldest commit first, and \<open>drop_old\<close>, the loop over
  the predicate locks of the dummy transaction. The loop releases \<open>SerializableXactHashLock\<close> around each transaction it
  clears; \<open>HavePartialClearedThrough\<close> is set from the structure after that may have been given back.
\<close>

fun clear_finished :: "(nat \<Rightarrow> bool \<Rightarrow> (backend, unit) prog) \<Rightarrow> nat list \<Rightarrow> (backend, unit) prog" where
  "clear_finished drop_locks [] = ret ()"
| "clear_finished drop_locks (x # xs) =
     bindp (in_ssi (bindp (get_sxact x) (\<lambda>sxact.
                    gets (\<lambda>s. (sxact, SxactGlobalXmin s, HavePartialClearedThrough s, CanPartialClearThrough s)))))
       (\<lambda>(finished, gxmin, have_through, can_through).
     if \<not> TransactionIdIsValid gxmin \<or> TransactionIdPrecedesOrEquals (finishedBefore finished) gxmin then
       thenp (LWLockRelease SerializableXactHashLock)
       (thenp (in_ssi (unlink_finished x))
       (thenp (ReleaseOneSerializableXact drop_locks x False False)
       (thenp (LWLockAcquire SerializableXactHashLock LW_SHARED)
       (clear_finished drop_locks xs))))
     else if commitSeqNo finished > have_through \<and> commitSeqNo finished \<le> can_through then
       thenp (LWLockRelease SerializableXactHashLock)
       (thenp (if SxactIsReadOnly finished then
                 thenp (in_ssi (unlink_finished x))
                 (ReleaseOneSerializableXact drop_locks x False False)
               else ReleaseOneSerializableXact drop_locks x True False)
       (thenp (in_ssi (bindp (get_sxact x) (\<lambda>sxact. modify (\<lambda>s. s\<lparr>HavePartialClearedThrough := commitSeqNo sxact\<rparr>))))
       (thenp (LWLockAcquire SerializableXactHashLock LW_SHARED)
       (clear_finished drop_locks xs))))
     else ret ())"

definition ClearOldPredicateLocks :: "(nat \<Rightarrow> bool \<Rightarrow> (backend, unit) prog) \<Rightarrow> (backend, unit) prog \<Rightarrow> (backend, unit) prog" where
  "ClearOldPredicateLocks drop_locks drop_old =
     thenp (LWLockAcquire SerializableFinishedListLock LW_EXCLUSIVE)
     (bindp (in_ssi (gets FinishedSerializableTransactions)) (\<lambda>finished.
     thenp (LWLockAcquire SerializableXactHashLock LW_SHARED)
     (thenp (clear_finished drop_locks finished)
     (thenp (LWLockRelease SerializableXactHashLock)
     (thenp drop_old
     (LWLockRelease SerializableFinishedListLock))))))"

definition ReleasePredicateLocks ::
  "(nat \<Rightarrow> bool \<Rightarrow> (backend, unit) prog) \<Rightarrow> (backend, unit) prog \<Rightarrow> bool \<Rightarrow> (backend, unit) prog"
where
  "ReleasePredicateLocks drop_locks drop_old isCommit =
     bindp (gets MySerializableXact) (\<lambda>mine. case mine of
       None \<Rightarrow> bindp (gets LocalPredicateLockHash) (\<lambda>local. assertp (local = None))
     | Some me \<Rightarrow>
         thenp (LWLockAcquire SerializableXactHashLock LW_EXCLUSIVE)
         (bindp (gets (\<lambda>s. (XactIsoLevel s = XACT_SERIALIZABLE, MyXactDidWrite s))) (\<lambda>(serializable, didWrite).
         bindp (in_ssi (end_xact serializable isCommit didWrite me)) (\<lambda>needToClear.
         thenp (whenp needToClear SetNewSxactGlobalXmin)
         (thenp (LWLockRelease SerializableXactHashLock)
         (thenp (LWLockAcquire SerializableFinishedListLock LW_EXCLUSIVE)
         (thenp (if isCommit
                 then in_ssi (modify (\<lambda>s. s\<lparr>FinishedSerializableTransactions := FinishedSerializableTransactions s @ [me]\<rparr>))
                 else ReleaseOneSerializableXact drop_locks me False False)
         (thenp (LWLockRelease SerializableFinishedListLock)
         (thenp (whenp needToClear (ClearOldPredicateLocks drop_locks drop_old))
         (modify (\<lambda>s. s\<lparr>MySerializableXact := None, MyXactDidWrite := False, LocalPredicateLockHash := None\<rparr>)))))))))))"

end
