(* ===== verification/PredicateBegin.thy ===== *)
theory PredicateBegin
  imports PredicateEnd
begin

unbundle bit_operations_syntax

text \<open>
  The beginning of a serializable transaction: \<open>SummarizeOldestCommittedSxact\<close>,
  \<open>GetSerializableTransactionSnapshotInt\<close> and \<open>RegisterPredicateLockingXid\<close> of
  \<open>src/backend/storage/lmgr/predicate.c\<close>.
\<close>

subsection \<open>Room for a transaction\<close>

text \<open>
  \<open>SummarizeOldestCommittedSxact\<close>: \<open>old_add\<close> is \<open>OldSerXidAdd\<close>, which writes to the summary storage.
\<close>

definition SummarizeOldestCommittedSxact ::
  "(nat \<Rightarrow> bool \<Rightarrow> (backend, unit) prog) \<Rightarrow> (TransactionId \<Rightarrow> SerCommitSeqNo \<Rightarrow> (backend, unit) prog) \<Rightarrow> (backend, unit) prog"
where
  "SummarizeOldestCommittedSxact drop_locks old_add =
     thenp (LWLockAcquire SerializableFinishedListLock LW_EXCLUSIVE)
     (bindp (in_ssi (gets FinishedSerializableTransactions)) (\<lambda>finished. case finished of
       [] \<Rightarrow> LWLockRelease SerializableFinishedListLock
     | x # _ \<Rightarrow>
         thenp (in_ssi (unlink_finished x))
         (bindp (in_ssi (get_sxact x)) (\<lambda>sxact.
         thenp (whenp (TransactionIdIsValid (topXid sxact) \<and> \<not> SxactIsReadOnly sxact)
                  (old_add (topXid sxact) (if SxactHasConflictOut sxact then SeqNo sxact else InvalidSerCommitSeqNo)))
         (thenp (ReleaseOneSerializableXact drop_locks x False True)
         (LWLockRelease SerializableFinishedListLock))))))"

text \<open>\<open>summarize\<close> is \<open>SummarizeOldestCommittedSxact\<close>. The loop ends when a transaction structure is free.\<close>

fun create_loop :: "nat \<Rightarrow> (backend, unit) prog \<Rightarrow> (backend, nat) prog" where
  "create_loop 0 summarize = throw Blocked"
| "create_loop (Suc n) summarize =
     bindp (in_ssi CreatePredXact) (\<lambda>sxact. case sxact of
       Some x \<Rightarrow> ret x
     | None \<Rightarrow>
         thenp (LWLockRelease SerializableXactHashLock)
         (thenp summarize
         (thenp (LWLockAcquire SerializableXactHashLock LW_EXCLUSIVE)
         (create_loop n summarize))))"

subsection \<open>Beginning\<close>

definition new_sxact :: "TransactionId \<Rightarrow> TransactionId \<Rightarrow> int \<Rightarrow> SerCommitSeqNo \<Rightarrow> SERIALIZABLEXACT" where
  "new_sxact xid snapshot_xmin mypid lastSeqNo =
     \<lparr>prepareSeqNo = InvalidSerCommitSeqNo, commitSeqNo = InvalidSerCommitSeqNo, SeqNo = lastSeqNo,
      outConflicts = [], inConflicts = [], possibleUnsafeConflicts = [],
      topXid = xid, finishedBefore = InvalidTransactionId, xmin = snapshot_xmin, flags = 0, pid = mypid\<rparr>"

definition register_unsafe :: "nat \<Rightarrow> nat \<Rightarrow> (ssi, unit) prog" where
  "register_unsafe x othersxact =
     bindp (get_sxact othersxact) (\<lambda>oth.
     whenp (\<not> SxactIsCommitted oth \<and> \<not> SxactIsDoomed oth \<and> \<not> SxactIsReadOnly oth)
       (SetPossibleUnsafeConflict x othersxact))"

definition init_sxact :: "nat \<Rightarrow> bool \<Rightarrow> TransactionId \<Rightarrow> TransactionId \<Rightarrow> int \<Rightarrow> int \<Rightarrow> (ssi, unit) prog" where
  "init_sxact x XactReadOnly xid snapshot_xmin mypid limit =
     bindp (gets LastSxactCommitSeqNo) (\<lambda>lastSeqNo.
     thenp (upd_sxact x (\<lambda>_. new_sxact xid snapshot_xmin mypid lastSeqNo))
     (if XactReadOnly then
        thenp (set_flag x SXACT_FLAG_READ_ONLY)
        (bindp (gets activeList) (eachp (register_unsafe x)))
      else
        thenp (modify (\<lambda>s. s\<lparr>WritableSxactCount := WritableSxactCount s + 1\<rparr>))
        (bindp (gets WritableSxactCount) (\<lambda>n. assertp (n \<le> limit)))))"

definition join_xmin :: "TransactionId \<Rightarrow> TransactionId \<Rightarrow> int \<Rightarrow> (backend, unit) prog" where
  "join_xmin snapshot_xmin gxmin gcount =
     (if \<not> TransactionIdIsValid gxmin then
        thenp (assertp (gcount = 0))
        (thenp (in_ssi (modify (\<lambda>s. s\<lparr>SxactGlobalXmin := snapshot_xmin, SxactGlobalXminCount := 1\<rparr>)))
        (OldSerXidSetActiveSerXmin snapshot_xmin))
      else if snapshot_xmin = gxmin then
        thenp (assertp (gcount > 0))
        (in_ssi (modify (\<lambda>s. s\<lparr>SxactGlobalXminCount := SxactGlobalXminCount s + 1\<rparr>)))
      else assertp (TransactionIdFollows snapshot_xmin gxmin))"

text \<open>The backend's own table of predicate locks.\<close>

definition create_local_table :: "(backend, unit) prog" where
  "create_local_table =
     bindp (gets LocalPredicateLockHash) (\<lambda>local.
     thenp (assertp (local = None))
     (modify (\<lambda>s. s\<lparr>LocalPredicateLockHash := Some (\<lambda>_. None)\<rparr>)))"

text \<open>
  \<open>imported\<close> is \<open>None\<close> when the snapshot is a new one, and otherwise the result of \<open>ProcArrayInstallImportedXmin\<close>;
  \<open>snapshot_xmin\<close> is the oldest running transaction of the snapshot; \<open>xid\<close> is \<open>GetTopTransactionIdIfAny()\<close> and
  \<open>limit\<close> is \<open>MaxBackends + max_prepared_xacts\<close>.
\<close>

definition GetSerializableTransactionSnapshotInt ::
  "(backend, unit) prog \<Rightarrow> bool \<Rightarrow> bool option \<Rightarrow> bool \<Rightarrow> TransactionId \<Rightarrow> TransactionId \<Rightarrow> int \<Rightarrow> int \<Rightarrow> (backend, unit) prog"
where
  "GetSerializableTransactionSnapshotInt summarize parallel imported XactReadOnly snapshot_xmin xid mypid limit =
     bindp (gets (\<lambda>s. (MySerializableXact s, RecoveryInProgress s, MyProc s))) (\<lambda>(mine, recovery, proc).
     thenp (assertp (mine = None))
     (thenp (assertp (\<not> recovery))
     (if parallel then throw (Ereport ''cannot establish serializable snapshot during a parallel operation'')
      else
        thenp (assertp (proc \<noteq> None))
        (thenp (LWLockAcquire SerializableXactHashLock LW_EXCLUSIVE)
        (bindp (with_fuel (\<lambda>n. create_loop (Suc n) summarize)) (\<lambda>x.
        if imported = Some False then
          thenp (in_ssi (ReleasePredXact x))
          (thenp (LWLockRelease SerializableXactHashLock)
          (throw (Ereport ''could not import the requested snapshot'')))
        else
          bindp (in_ssi (gets (\<lambda>s. (WritableSxactCount s, SxactGlobalXmin s, SxactGlobalXminCount s)))) (\<lambda>(writable, gxmin, gcount).
          if XactReadOnly \<and> writable = 0 then
            thenp (in_ssi (ReleasePredXact x))
            (LWLockRelease SerializableXactHashLock)
          else
            thenp (join_xmin snapshot_xmin gxmin gcount)
            (thenp (in_ssi (init_sxact x XactReadOnly xid snapshot_xmin mypid limit))
            (thenp (modify (\<lambda>s. s\<lparr>MySerializableXact := Some x, MyXactDidWrite := False\<rparr>))
            (thenp (LWLockRelease SerializableXactHashLock)
            create_local_table))))))))))"

definition RegisterPredicateLockingXid :: "TransactionId \<Rightarrow> (backend, unit) prog" where
  "RegisterPredicateLockingXid xid =
     bindp (gets MySerializableXact) (\<lambda>mine. case mine of
       None \<Rightarrow> ret ()
     | Some me \<Rightarrow>
         thenp (assertp (TransactionIdIsValid xid))
         (thenp (LWLockAcquire SerializableXactHashLock LW_EXCLUSIVE)
         (thenp (in_ssi
           (bindp (get_sxact me) (\<lambda>sxact.
           thenp (assertp (topXid sxact = InvalidTransactionId))
           (thenp (upd_sxact me (\<lambda>sxact. sxact\<lparr>topXid := xid\<rparr>))
           (bindp (gets SerializableXidHash) (\<lambda>hash.
           thenp (assertp (hash xid = None))
           (modify (\<lambda>s. s\<lparr>SerializableXidHash := (SerializableXidHash s)(xid \<mapsto> me)\<rparr>))))))))
         (LWLockRelease SerializableXactHashLock))))"

end
