(* ===== verification/PredicateCheck.thy ===== *)
theory PredicateCheck
  imports PredicateBegin
begin

text \<open>
  The check on every tuple read: \<open>SerializationNeededForRead\<close>, \<open>XidIsConcurrent\<close> and
  \<open>CheckForSerializableConflictOut\<close> of \<open>src/backend/storage/lmgr/predicate.c\<close>. What the heap says of the tuple, the snapshot
  and the transaction ids of the backend are arguments.
\<close>

subsection \<open>Whether to check\<close>

record relation_info =
  dbNode :: uint32
  rd_id :: uint32
  is_index :: bool
  uses_local_buffers :: bool
  is_matview :: bool

definition FirstBootstrapObjectId :: uint32 where "FirstBootstrapObjectId = 10000"

definition PredicateLockingNeededForRelation :: "relation_info \<Rightarrow> bool" where
  "PredicateLockingNeededForRelation rel \<longleftrightarrow>
     \<not> (rd_id rel < FirstBootstrapObjectId \<or> uses_local_buffers rel \<or> is_matview rel)"

text \<open>\<open>mvcc\<close> is \<open>IsMVCCSnapshot(snapshot)\<close>.\<close>

definition SerializationNeededForRead ::
  "(nat \<Rightarrow> bool \<Rightarrow> (backend, unit) prog) \<Rightarrow> (backend, unit) prog \<Rightarrow> relation_info \<Rightarrow> bool \<Rightarrow> (backend, bool) prog"
where
  "SerializationNeededForRead drop_locks drop_old rel mvcc =
     bindp (gets MySerializableXact) (\<lambda>mine. case mine of
       None \<Rightarrow> ret False
     | Some me \<Rightarrow>
         if \<not> mvcc then ret False
         else
           bindp (in_ssi (get_sxact me)) (\<lambda>sxact.
           if SxactIsROSafe sxact then
             thenp (ReleasePredicateLocks drop_locks drop_old False) (ret False)
           else if \<not> PredicateLockingNeededForRelation rel then ret False
           else ret True))"

definition SerializationNeededForWrite :: "relation_info \<Rightarrow> (backend, bool) prog" where
  "SerializationNeededForWrite rel =
     bindp (gets MySerializableXact) (\<lambda>mine.
     if mine = None then ret False
     else if \<not> PredicateLockingNeededForRelation rel then ret False
     else ret True)"

subsection \<open>Whether transactions overlap\<close>

record snapshot =
  snap_xmin :: TransactionId
  snap_xmax :: TransactionId
  snap_xip :: "TransactionId list"

definition XidIsConcurrent :: "snapshot \<Rightarrow> TransactionId \<Rightarrow> TransactionId \<Rightarrow> bool result" where
  "XidIsConcurrent snap my_xid xid =
     (if \<not> TransactionIdIsValid xid then Inl AssertFail
      else if xid = my_xid then Inl AssertFail
      else if TransactionIdPrecedes xid (snap_xmin snap) then Inr False
      else if TransactionIdFollowsOrEquals xid (snap_xmax snap) then Inr True
      else Inr (xid \<in> set (snap_xip snap)))"

subsection \<open>A tuple is read\<close>

datatype HTSV_Result = HEAPTUPLE_DEAD | HEAPTUPLE_LIVE | HEAPTUPLE_RECENTLY_DEAD | HEAPTUPLE_INSERT_IN_PROGRESS | HEAPTUPLE_DELETE_IN_PROGRESS

text \<open>The transaction that has written the tuple, if there is anything to check.\<close>

definition writing_xid :: "HTSV_Result \<Rightarrow> bool \<Rightarrow> TransactionId \<Rightarrow> TransactionId \<Rightarrow> TransactionId option" where
  "writing_xid htsvResult visible tuple_xmin tuple_update_xid = (case htsvResult of
       HEAPTUPLE_LIVE \<Rightarrow> if visible then None else Some tuple_xmin
     | HEAPTUPLE_RECENTLY_DEAD \<Rightarrow> if \<not> visible then None else Some tuple_update_xid
     | HEAPTUPLE_DELETE_IN_PROGRESS \<Rightarrow> Some tuple_update_xid
     | HEAPTUPLE_INSERT_IN_PROGRESS \<Rightarrow> Some tuple_xmin
     | HEAPTUPLE_DEAD \<Rightarrow> None)"

text \<open>
  What \<open>CheckForSerializableConflictOut\<close> gets from its surroundings: the answer of \<open>HeapTupleSatisfiesVacuum\<close> and the ids in
  the tuple's header, \<open>TransactionXmin\<close>, \<open>GetTopTransactionIdIfAny()\<close>, \<open>SubTransGetTopmostTransaction\<close> and the snapshot of
  the transaction.
\<close>

record reading =
  visible :: bool
  htsv :: HTSV_Result
  tuple_xmin :: TransactionId
  tuple_update_xid :: TransactionId
  TransactionXmin :: TransactionId
  my_xid :: TransactionId
  topmost :: "TransactionId \<Rightarrow> TransactionId"
  snap :: snapshot

text \<open>The writer has left the shared structures; \<open>old_min\<close> is \<open>OldSerXidGetMinConflictCommitSeqNo\<close>.\<close>

definition conflict_out_old :: "(TransactionId \<Rightarrow> (backend, SerCommitSeqNo) prog) \<Rightarrow> nat \<Rightarrow> TransactionId \<Rightarrow> (backend, unit) prog" where
  "conflict_out_old old_min me xid =
     bindp (old_min xid) (\<lambda>conflictCommitSeqNo.
     thenp (whenp (conflictCommitSeqNo \<noteq> 0)
       (bindp (in_ssi (get_sxact me)) (\<lambda>mine.
        if conflictCommitSeqNo \<noteq> InvalidSerCommitSeqNo \<and>
           (\<not> SxactIsReadOnly mine \<or> conflictCommitSeqNo \<le> SeqNo mine)
        then throw (serialization_failure ''Canceled on conflict out to old pivot.'')
        else if SxactHasSummaryConflictIn mine \<or> inConflicts mine \<noteq> []
        then throw (serialization_failure ''Canceled on identification as a pivot, with conflict out to old committed transaction.'')
        else in_ssi (set_flag me SXACT_FLAG_SUMMARY_CONFLICT_OUT))))
     (LWLockRelease SerializableXactHashLock))"

text \<open>The writer \<open>x\<close> is in the shared structures.\<close>

definition conflict_out_to :: "reading \<Rightarrow> nat \<Rightarrow> TransactionId \<Rightarrow> nat \<Rightarrow> (backend, unit) prog" where
  "conflict_out_to rd me xid x =
     bindp (in_ssi (bindp (get_sxact x) (\<lambda>sxact. bindp (get_sxact me) (\<lambda>mine. ret (sxact, mine))))) (\<lambda>(sxact, mine).
     thenp (assertp (topXid sxact = xid))
     (if x = me \<or> SxactIsDoomed sxact then LWLockRelease SerializableXactHashLock
      else if SxactHasSummaryConflictOut sxact then
        (if \<not> SxactIsPrepared sxact then
           thenp (in_ssi (set_flag x SXACT_FLAG_DOOMED)) (LWLockRelease SerializableXactHashLock)
         else
           thenp (LWLockRelease SerializableXactHashLock)
           (throw (serialization_failure ''Canceled on conflict out to old pivot.'')))
      else if SxactIsReadOnly mine \<and> SxactIsCommitted sxact \<and> \<not> SxactHasSummaryConflictOut sxact
              \<and> (\<not> SxactHasConflictOut sxact \<or> SeqNo mine < SeqNo sxact) then
        LWLockRelease SerializableXactHashLock
      else
        bindp (liftp (XidIsConcurrent (snap rd) (my_xid rd) xid)) (\<lambda>concurrent.
        if \<not> concurrent then LWLockRelease SerializableXactHashLock
        else
          bindp (in_ssi (RWConflictExists me x)) (\<lambda>exists.
          if exists then LWLockRelease SerializableXactHashLock
          else thenp (FlagRWConflict me x) (LWLockRelease SerializableXactHashLock)))))"

definition CheckForSerializableConflictOut ::
  "(nat \<Rightarrow> bool \<Rightarrow> (backend, unit) prog) \<Rightarrow> (backend, unit) prog \<Rightarrow> (TransactionId \<Rightarrow> (backend, SerCommitSeqNo) prog) \<Rightarrow>
     relation_info \<Rightarrow> bool \<Rightarrow> reading \<Rightarrow> (backend, unit) prog"
where
  "CheckForSerializableConflictOut drop_locks drop_old old_min rel mvcc rd =
     bindp (SerializationNeededForRead drop_locks drop_old rel mvcc) (\<lambda>needed.
     whenp needed
       (bindp (gets MySerializableXact) (\<lambda>mine. case mine of
         None \<Rightarrow> throw NullDeref
       | Some me \<Rightarrow>
           bindp (in_ssi (get_sxact me)) (\<lambda>sxact.
           if SxactIsDoomed sxact then
             throw (serialization_failure ''Canceled on identification as a pivot, during conflict out checking.'')
           else case writing_xid (htsv rd) (visible rd) (tuple_xmin rd) (tuple_update_xid rd) of
             None \<Rightarrow> ret ()
           | Some xid \<Rightarrow>
               thenp (assertp (TransactionIdIsValid xid))
               (thenp (assertp (TransactionIdFollowsOrEquals xid (TransactionXmin rd)))
               (if xid = my_xid rd then ret ()
                else let xid = topmost rd xid in
                if TransactionIdPrecedes xid (TransactionXmin rd) \<or> xid = my_xid rd then ret ()
                else
                  thenp (LWLockAcquire SerializableXactHashLock LW_EXCLUSIVE)
                  (bindp (in_ssi (gets SerializableXidHash)) (\<lambda>hash. case hash xid of
                    None \<Rightarrow> conflict_out_old old_min me xid
                  | Some x \<Rightarrow> conflict_out_to rd me xid x))))))))"

end
