(* ===== verification/Startup.thy ===== *)
theory Startup
  imports MigratePlan LWLockProtocol LWLockInit PredicateCheck
begin

unbundle bit_operations_syntax

text \<open>
  A backend right after it has started on a freshly created shared memory segment: the locks of the
  main array are as \<open>InitializeLWLocks\<close> leaves an array of zeroes, so those of the second bitmap are
  zero words, the bitmap is the one \<open>InitGlobalBitmap\<close> creates, and the process table has two processes, of which the backend is the first. It is the state from which the theorems are
  applied to concrete runs.
\<close>

definition fresh_lock :: LWLock where
  "fresh_lock = LWLockInitialize \<lparr>tranche = 0, state = 0, waiters = []\<rparr> LWTRANCHE_MIGRATE_BITMAP"

definition fresh_locks :: "LWLock list" where
  "fresh_locks = (case InitializeLWLocks [] 71 (replicate NUM_FIXED_LWLOCKS \<lparr>tranche = 0, state = 0, waiters = []\<rparr>) of
     Inl e \<Rightarrow> [] | Inr (names, counter, ls) \<Rightarrow> ls)"

definition fresh_proc :: PGPROC where
  "fresh_proc = \<lparr>lwWaiting = False, lwWaitMode = LW_EXCLUSIVE, sem = 0\<rparr>"

definition fresh_shmem :: shmem where
  "fresh_shmem = \<lparr>MainLWLockArray = fresh_locks, allProcs = [fresh_proc, fresh_proc],
     lwvars = [], GlobalBitmap = InitGlobalBitmap None, PredXact = InitPredicateLocks 2,
     PredLocks = InitPredicateLockTables (64 * 2)\<rparr>"

definition empty_store :: "nat \<Rightarrow> store" where
  "empty_store n = \<lparr>hdrs = \<lambda>_. None, cells = \<lambda>_. None, objs = \<lambda>_. False, brk = 1, room = n\<rparr>"

definition fresh_backend :: backend where
  "fresh_backend = \<lparr>shm = fresh_shmem, env = [], IsUnderPostmaster = True, MyProc = Some 0,
     held_lwlocks = [], InterruptHoldoffCount = 0, heap = empty_store 1000, migrateflag = False,
     tuplemigratecount = 0, BitmapNum = 0, PartialBitmap = None, InProgLocalList0 = NIL, InProgLocalList1 = NIL,
     XactIsoLevel = XACT_SERIALIZABLE, MySerializableXact = None, MyXactDidWrite = False, RecoveryInProgress = False,
     LocalPredicateLockHash = None\<rparr>"

text \<open>The backend when it has bound a migration query on the first bitmap.\<close>

definition bound_backend :: backend where
  "bound_backend = snd (bind_migration '' insert into customer_proj1 select'' fresh_backend)"

definition heap_tuple :: "BlockNumber \<Rightarrow> OffsetNumber \<Rightarrow> HeapTupleData" where
  "heap_tuple b k = \<lparr>t_len = 100, t_self = ItemPointerSet b k, t_tableOid = 16384, t_data = 0\<rparr>"

text \<open>A plan that scans a list of tuples with a qualification that all of them pass.\<close>

definition plan_node :: list_scan where
  "plan_node = \<lparr>cursor = None, qual = Some (\<lambda>_. True), ps_ProjInfo = None,
     resultslot = \<lparr>tts_isempty = True, tts_tuple = None\<rparr>, ss_ScanTupleSlot = \<lparr>tts_isempty = True, tts_tuple = None\<rparr>,
     scanrelid = 1, es_epqTuple = None, es_epqTupleSet = [], es_epqScanDone = [], nfiltered1 = 0\<rparr>"

definition plan_estate :: EState where
  "plan_estate = \<lparr>es_direction = NoMovementScanDirection, es_use_parallel_mode = False, es_junkFilter = None,
     es_backward = False, es_processed = 0, parallelModeLevel = 0\<rparr>"

lemma heap_tuple_simps [simp]:
  "t_len (heap_tuple b k) = 100" "t_self (heap_tuple b k) = ItemPointerSet b k"
  by (simp_all add: heap_tuple_def)

lemma fresh_lock_simps [simp]: "state fresh_lock = LW_FLAG_RELEASE_OK" "waiters fresh_lock = []"
  by (simp_all add: fresh_lock_def LWLockInitialize_def)

lemma NUM_FIXED_LWLOCKS_eq: "NUM_FIXED_LWLOCKS = 718"
  by (simp add: NUM_FIXED_LWLOCKS_def MIGRATE_BITMAP_OFFSET_def PREDICATELOCK_MANAGER_LWLOCK_OFFSET_def
      LOCK_MANAGER_LWLOCK_OFFSET_def BUFFER_MAPPING_LWLOCK_OFFSET_def NUM_INDIVIDUAL_LWLOCKS_def
      NUM_BUFFER_PARTITIONS_def NUM_LOCK_PARTITIONS_def NUM_PREDICATELOCK_PARTITIONS_def
      NUM_MIGRATE_BITMAP_LOCKS_def)

lemma fresh_locks:
  "length fresh_locks = NUM_FIXED_LWLOCKS"
  "k < 462 \<Longrightarrow> state (fresh_locks ! k) = LW_FLAG_RELEASE_OK \<and> waiters (fresh_locks ! k) = []"
  "462 \<le> k \<Longrightarrow> k < NUM_FIXED_LWLOCKS \<Longrightarrow> state (fresh_locks ! k) = 0 \<and> waiters (fresh_locks ! k) = []"
proof -
  have bound: "MIGRATE_BITMAP_OFFSET + NUM_MIGRATE_BITMAP_LOCKS = 462" by (simp add: layout_defs)
  from InitializeLWLocks_fixed [of "replicate NUM_FIXED_LWLOCKS \<lparr>tranche = 0, state = 0, waiters = []\<rparr>" 71]
  obtain ls where "fresh_locks = ls" "length ls = NUM_FIXED_LWLOCKS" "\<forall>k < 462. is_initialised (ls ! k)"
    "\<forall>k \<ge> 462. ls ! k = replicate NUM_FIXED_LWLOCKS \<lparr>tranche = 0, state = 0, waiters = []\<rparr> ! k"
    unfolding bound by (auto simp: fresh_locks_def)
  then show "length fresh_locks = NUM_FIXED_LWLOCKS"
    "k < 462 \<Longrightarrow> state (fresh_locks ! k) = LW_FLAG_RELEASE_OK \<and> waiters (fresh_locks ! k) = []"
    "462 \<le> k \<Longrightarrow> k < NUM_FIXED_LWLOCKS \<Longrightarrow> state (fresh_locks ! k) = 0 \<and> waiters (fresh_locks ! k) = []"
    by (simp_all add: is_initialised_def)
qed

lemma fresh_word:
  "i < 462 \<Longrightarrow> state (MainLWLockArray fresh_shmem ! i) = LW_FLAG_RELEASE_OK"
  "i < 462 \<Longrightarrow> waiters (MainLWLockArray fresh_shmem ! i) = []"
  by (simp_all add: fresh_shmem_def fresh_locks)

lemma fresh_shmem_simps [simp]:
  "length (MainLWLockArray fresh_shmem) = NUM_FIXED_LWLOCKS" "GlobalBitmap fresh_shmem = replicate (2 * BITMAPSIZE) 0"
  by (simp_all add: fresh_shmem_def InitGlobalBitmap_def fresh_locks)

lemma lock_free_release_ok [simp]: "lock_free mode LW_FLAG_RELEASE_OK"
  by (cases mode) (simp_all add: lock_free_def LW_FLAG_RELEASE_OK_def LW_LOCK_MASK_def LW_VAL_EXCLUSIVE_def push_bit_of_1)

lemma release_ok_quiet [simp]: "\<not> must_wake LW_FLAG_RELEASE_OK"
  by (simp add: must_wake_def LW_FLAG_RELEASE_OK_def bit_push_one)

lemma zero_quiet: "lock_free mode 0" "\<not> must_wake 0"
  by (simp_all add: lock_free_def must_wake_def)

lemma fresh_quiet:
  assumes "i < NUM_FIXED_LWLOCKS"
  shows "lock_free mode (state (MainLWLockArray fresh_shmem ! i))" "\<not> must_wake (state (MainLWLockArray fresh_shmem ! i))"
proof -
  have "state (fresh_locks ! i) \<in> {LW_FLAG_RELEASE_OK, 0}" using fresh_locks(2,3) [of i] assms by fastforce
  then show "lock_free mode (state (MainLWLockArray fresh_shmem ! i))" "\<not> must_wake (state (MainLWLockArray fresh_shmem ! i))"
    by (auto simp: fresh_shmem_def zero_quiet)
qed

lemma bit_release_ok: "bit LW_FLAG_RELEASE_OK k \<longleftrightarrow> k = 29"
  by (auto simp: LW_FLAG_RELEASE_OK_def bit_push_one)

lemma bound_backend_eq:
  "bound_backend = fresh_backend\<lparr>migrateflag := True, BitmapNum := 0, PartialBitmap := Some 0\<rparr>"
  by (simp add: bound_backend_def bind_migration_def strncmp_eq_def begin_migration_def modify_def fresh_backend_def)

lemma fresh_lock_ready: "i < NUM_FIXED_LWLOCKS \<Longrightarrow> lock_ready i bound_backend"
  by (simp add: lock_ready_def bound_backend_eq fresh_backend_def fresh_quiet MAX_SIMUL_LWLOCKS_def)

lemma partition_lock_lt: "num \<le> 1 \<Longrightarrow> MigrateBitmapPartitionLock e num < NUM_FIXED_LWLOCKS"
proof -
  assume "num \<le> 1"
  then have "unat num \<le> 1" by (simp add: word_le_nat_alt)
  moreover have "unat e mod 256 < 256" by simp
  ultimately show ?thesis
    by (simp add: MigrateBitmapPartitionLock_def MigrateBitmapPartition_def NUM_FIXED_LWLOCKS_def NUM_MIGRATE_BITMAP_LOCKS_def)
qed

lemma bound_backend_ready:
  "lock_ready (MigrateBitmapPartitionLock e 0) bound_backend" "PartialBitmap bound_backend = Some 0"
  "BitmapNum bound_backend = 0" "migrateflag bound_backend" "env bound_backend = []"
  by (simp_all add: fresh_lock_ready partition_lock_lt) (simp_all add: bound_backend_eq fresh_backend_def)

lemma bound_backend_bitmap: "GlobalBitmap (shm bound_backend) = replicate (2 * BITMAPSIZE) 0"
  by (simp add: bound_backend_eq fresh_backend_def)

lemma bound_backend_lists: "local_lists bound_backend [] []" "room (heap bound_backend) = 1000"
  by (simp_all add: local_lists_def bound_backend_eq fresh_backend_def holds_def rep_def wf_store_def empty_store_def)

lemma fresh_bits:
  assumes "unat e < NUMTUPLES" and "b \<le> BITMAPSIZE"
  shows "elem_ok (replicate (2 * BITMAPSIZE) 0) b e"
    and "getmigratebit (replicate (2 * BITMAPSIZE) 0) b e = Inr False"
    and "getlockbit (replicate (2 * BITMAPSIZE) 0) b e = Inr False"
  using assms getwordid_lt_BITMAPSIZE [OF assms(1)]
  by (simp_all add: elem_ok_def getmigratebit_eq getlockbit_eq)

lemma fresh_backend_idle: "num \<le> 1 \<Longrightarrow> idle fresh_backend num"
  by (simp add: idle_def partition_lock_lt lock_ready_def fresh_backend_def fresh_quiet MAX_SIMUL_LWLOCKS_def
      wf_store_def empty_store_def)

lemma fresh_backend_sets: "locked fresh_backend 0 = {}" "migrated fresh_backend 0 = {}"
  by (auto simp: locked_def migrated_def fresh_backend_def getlockbit_eq getmigratebit_eq elem_ok_def)

lemma elem_of_heap_tuple: "k \<noteq> 0 \<Longrightarrow> elem_of (heap_tuple b k) = b * 15 + ucast k - 1"
  by (simp add: elem_of_def tuple_eid_eq ItemPointerSet_def BlockIdGet_Set)

lemma fresh_tuple_ok:
  "k \<noteq> 0 \<Longrightarrow> unat (elem_of (heap_tuple b k)) < NUMTUPLES \<Longrightarrow> tuple_ok (bitmap_of fresh_backend) 0 (heap_tuple b k)"
  by (simp add: tuple_ok_def fresh_backend_def fresh_bits(1) ItemPointerSet_def)

lemma plan_node_ok: "plan_ok plan_node" "passes plan_node = (\<lambda>_. True)" "project plan_node slot = slot"
  by (simp_all add: plan_ok_def plan_node_def passes_def project_def fun_eq_iff)

lemma fresh_scan_input:
  assumes "\<forall>(b, k) \<in> set ps. k \<noteq> 0 \<and> unat (elem_of (heap_tuple b k)) < NUMTUPLES" and "length ps < 500" "length ps < fuel"
  shows "scan_input fresh_backend 0 fuel plan_estate plan_node (map (\<lambda>(b, k). heap_tuple b k) ps)"
  using assms fresh_tuple_ok
  by (auto simp: scan_input_def plan_node_ok plan_estate_def) (auto simp: fresh_backend_def empty_store_def plan_node_def)

end
