(* ===== verification/ProcList.thy ===== *)
theory ProcList
  imports LWLock
begin

text \<open>
  The doubly linked lists of processes that the wait queues of locks are made of:
  \<open>src/include/storage/proclist.h\<close> and \<open>proclist_types.h\<close>. The links are stored in the process
  table; the theory of the locks has the queue as a list of process numbers. Here the
  operations on links are shown to be the operations on that list, and the walk of \<open>LWLockWakeup\<close> over
  the links to be the walk over the list.

  \<open>nodes\<close> is the array of the link fields of all processes, indexed by process number. A link is an \<open>int\<close> of
  C; \<open>INVALID_PGPROCNO\<close> ends a list and a node outside of every list has two zero links.
\<close>

subsection \<open>Operations\<close>

record proclist_node =
  pnext :: int
  pprev :: int

record proclist_head =
  phead :: int
  ptail :: int

definition INVALID_PGPROCNO :: int where "INVALID_PGPROCNO = 2147483647"

definition proclist_init :: "proclist_head \<Rightarrow> proclist_head" where
  "proclist_init lst = lst\<lparr>phead := INVALID_PGPROCNO, ptail := INVALID_PGPROCNO\<rparr>"

definition proclist_is_empty :: "proclist_head \<Rightarrow> bool" where
  "proclist_is_empty lst \<longleftrightarrow> phead lst = INVALID_PGPROCNO"

definition proclist_node_get :: "proclist_node list \<Rightarrow> int \<Rightarrow> proclist_node result" where
  "proclist_node_get nodes procno = (if procno < 0 then Inl OutOfBounds else aload nodes (nat procno))"

definition node_put :: "proclist_node list \<Rightarrow> int \<Rightarrow> (proclist_node \<Rightarrow> proclist_node) \<Rightarrow> proclist_node list result" where
  "node_put nodes procno f =
     bind_res (proclist_node_get nodes procno) (\<lambda>node. astore nodes (nat procno) (f node))"

definition proclist_push_head_offset ::
  "proclist_head \<Rightarrow> int \<Rightarrow> proclist_node list \<Rightarrow> (proclist_head \<times> proclist_node list) result"
where
  "proclist_push_head_offset lst procno nodes =
     bind_res (proclist_node_get nodes procno) (\<lambda>node.
     bind_res (Assert (pnext node = 0 \<and> pprev node = 0)) (\<lambda>_.
     if phead lst = INVALID_PGPROCNO then
       bind_res (Assert (ptail lst = INVALID_PGPROCNO)) (\<lambda>_.
       bind_res (node_put nodes procno (\<lambda>n. n\<lparr>pnext := INVALID_PGPROCNO, pprev := INVALID_PGPROCNO\<rparr>)) (\<lambda>nodes.
       Inr (lst\<lparr>phead := procno, ptail := procno\<rparr>, nodes)))
     else
       bind_res (Assert (ptail lst \<noteq> INVALID_PGPROCNO)) (\<lambda>_.
       bind_res (Assert (phead lst \<noteq> procno)) (\<lambda>_.
       bind_res (Assert (ptail lst \<noteq> procno)) (\<lambda>_.
       bind_res (node_put nodes procno (\<lambda>n. n\<lparr>pnext := phead lst\<rparr>)) (\<lambda>nodes.
       bind_res (node_put nodes (phead lst) (\<lambda>n. n\<lparr>pprev := procno\<rparr>)) (\<lambda>nodes.
       bind_res (node_put nodes procno (\<lambda>n. n\<lparr>pprev := INVALID_PGPROCNO\<rparr>)) (\<lambda>nodes.
       Inr (lst\<lparr>phead := procno\<rparr>, nodes)))))))))"

definition proclist_push_tail_offset ::
  "proclist_head \<Rightarrow> int \<Rightarrow> proclist_node list \<Rightarrow> (proclist_head \<times> proclist_node list) result"
where
  "proclist_push_tail_offset lst procno nodes =
     bind_res (proclist_node_get nodes procno) (\<lambda>node.
     bind_res (Assert (pnext node = 0 \<and> pprev node = 0)) (\<lambda>_.
     if ptail lst = INVALID_PGPROCNO then
       bind_res (Assert (phead lst = INVALID_PGPROCNO)) (\<lambda>_.
       bind_res (node_put nodes procno (\<lambda>n. n\<lparr>pnext := INVALID_PGPROCNO, pprev := INVALID_PGPROCNO\<rparr>)) (\<lambda>nodes.
       Inr (lst\<lparr>phead := procno, ptail := procno\<rparr>, nodes)))
     else
       bind_res (Assert (phead lst \<noteq> INVALID_PGPROCNO)) (\<lambda>_.
       bind_res (Assert (phead lst \<noteq> procno)) (\<lambda>_.
       bind_res (Assert (ptail lst \<noteq> procno)) (\<lambda>_.
       bind_res (node_put nodes procno (\<lambda>n. n\<lparr>pprev := ptail lst\<rparr>)) (\<lambda>nodes.
       bind_res (node_put nodes (ptail lst) (\<lambda>n. n\<lparr>pnext := procno\<rparr>)) (\<lambda>nodes.
       bind_res (node_put nodes procno (\<lambda>n. n\<lparr>pnext := INVALID_PGPROCNO\<rparr>)) (\<lambda>nodes.
       Inr (lst\<lparr>ptail := procno\<rparr>, nodes)))))))))"

definition proclist_delete_offset ::
  "proclist_head \<Rightarrow> int \<Rightarrow> proclist_node list \<Rightarrow> (proclist_head \<times> proclist_node list) result"
where
  "proclist_delete_offset lst procno nodes =
     bind_res (proclist_node_get nodes procno) (\<lambda>node.
     bind_res (Assert (pnext node \<noteq> 0 \<or> pprev node \<noteq> 0)) (\<lambda>_.
     bind_res (if pprev node = INVALID_PGPROCNO then
                 bind_res (Assert (phead lst = procno)) (\<lambda>_. Inr (lst\<lparr>phead := pnext node\<rparr>, nodes))
               else
                 bind_res (node_put nodes (pprev node) (\<lambda>n. n\<lparr>pnext := pnext node\<rparr>)) (\<lambda>nodes.
                 Inr (lst, nodes))) (\<lambda>(lst, nodes).
     bind_res (if pnext node = INVALID_PGPROCNO then
                 bind_res (Assert (ptail lst = procno)) (\<lambda>_. Inr (lst\<lparr>ptail := pprev node\<rparr>, nodes))
               else
                 bind_res (node_put nodes (pnext node) (\<lambda>n. n\<lparr>pprev := pprev node\<rparr>)) (\<lambda>nodes.
                 Inr (lst, nodes))) (\<lambda>(lst, nodes).
     bind_res (node_put nodes procno (\<lambda>n. n\<lparr>pnext := 0, pprev := 0\<rparr>)) (\<lambda>nodes.
     Inr (lst, nodes))))))"

definition proclist_contains_offset :: "proclist_head \<Rightarrow> int \<Rightarrow> proclist_node list \<Rightarrow> bool result" where
  "proclist_contains_offset lst procno nodes =
     bind_res (proclist_node_get nodes procno) (\<lambda>node.
     if pprev node = 0 \<and> pnext node = 0 then Inr False
     else
       bind_res (Assert (pprev node \<noteq> INVALID_PGPROCNO \<or> phead lst = procno)) (\<lambda>_.
       bind_res (Assert (pnext node \<noteq> INVALID_PGPROCNO \<or> ptail lst = procno)) (\<lambda>_.
       Inr True)))"

definition proclist_pop_head_node_offset ::
  "proclist_head \<Rightarrow> proclist_node list \<Rightarrow> (int \<times> proclist_head \<times> proclist_node list) result"
where
  "proclist_pop_head_node_offset lst nodes =
     bind_res (Assert (\<not> proclist_is_empty lst)) (\<lambda>_.
     bind_res (proclist_delete_offset lst (phead lst) nodes) (\<lambda>(lst', nodes).
     Inr (phead lst, lst', nodes)))"

text \<open>
  \<open>proclist_foreach_modify\<close>: the body gets the current process and may delete it; the next one has been
  read before. The body answers whether the loop goes on. The walk gets \<open>n\<close> steps.
\<close>

fun proclist_foreach_modify ::
  "nat \<Rightarrow> (int \<Rightarrow> 'a \<Rightarrow> proclist_node list \<Rightarrow> (bool \<times> 'a \<times> proclist_node list) result) \<Rightarrow> int \<Rightarrow>
     'a \<Rightarrow> proclist_node list \<Rightarrow> ('a \<times> proclist_node list) result"
where
  "proclist_foreach_modify 0 body cur acc nodes = Inl Diverges"
| "proclist_foreach_modify (Suc n) body cur acc nodes =
     (if cur = INVALID_PGPROCNO then Inr (acc, nodes)
      else
        bind_res (proclist_node_get nodes cur) (\<lambda>node.
        bind_res (body cur acc nodes) (\<lambda>(go_on, acc, nodes).
        if go_on then proclist_foreach_modify n body (pnext node) acc nodes else Inr (acc, nodes))))"

text \<open>
  The first loop of \<open>LWLockWakeup\<close>. Its variables are the wait queue, the list of processes to wake,
  \<open>wokeup_somebody\<close> and \<open>new_release_ok\<close>.
\<close>

record wakeup_vars =
  lock_waiters :: proclist_head
  wakeup_list :: proclist_head
  wokeup_somebody :: bool
  new_release_ok :: bool

definition wakeup_body ::
  "(nat \<Rightarrow> LWLockMode) \<Rightarrow> int \<Rightarrow> wakeup_vars \<Rightarrow> proclist_node list \<Rightarrow> (bool \<times> wakeup_vars \<times> proclist_node list) result"
where
  "wakeup_body mode_of cur vs nodes =
     (let mode = mode_of (nat cur) in
      if wokeup_somebody vs \<and> mode = LW_EXCLUSIVE then Inr (True, vs, nodes)
      else
        bind_res (proclist_delete_offset (lock_waiters vs) cur nodes) (\<lambda>(q, nodes).
        bind_res (proclist_push_tail_offset (wakeup_list vs) cur nodes) (\<lambda>(w, nodes).
        let vs = vs\<lparr>lock_waiters := q, wakeup_list := w\<rparr>;
            vs = (if mode \<noteq> LW_WAIT_UNTIL_FREE then vs\<lparr>new_release_ok := False, wokeup_somebody := True\<rparr> else vs)
        in Inr (mode \<noteq> LW_EXCLUSIVE, vs, nodes))))"

definition wakeup_walk ::
  "(nat \<Rightarrow> LWLockMode) \<Rightarrow> proclist_head \<Rightarrow> proclist_node list \<Rightarrow> (wakeup_vars \<times> proclist_node list) result"
where
  "wakeup_walk mode_of lst nodes =
     proclist_foreach_modify (Suc (length nodes)) (wakeup_body mode_of) (phead lst)
       \<lparr>lock_waiters = lst, wakeup_list = proclist_init \<lparr>phead = 0, ptail = 0\<rparr>, wokeup_somebody = False,
        new_release_ok = True\<rparr> nodes"

end
