(* ===== verification/LinkQueue.thy ===== *)
theory LinkQueue
  imports Prog
begin

text \<open>
  What the linked queues of the code promise to the code that uses them: a queue holds a sequence, an element that is in
  no queue can be put at its end, and an element can be taken out wherever it is. \<open>ProcListFacts\<close> and \<open>ShmQueue\<close> provide this
  for the lists of processes and for the queues in shared memory.
\<close>

locale link_queue =
  fixes holds_seq :: "'m \<Rightarrow> 'e list \<Rightarrow> bool" and outside :: "'m \<Rightarrow> 'e \<Rightarrow> bool"
    and put_last :: "'e \<Rightarrow> 'm \<Rightarrow> 'm result" and take_out :: "'e \<Rightarrow> 'm \<Rightarrow> 'm result"
  assumes put_last: "holds_seq m xs \<Longrightarrow> outside m e \<Longrightarrow>
      \<exists>m'. put_last e m = Inr m' \<and> holds_seq m' (xs @ [e]) \<and> (\<forall>a. outside m a \<longrightarrow> a \<noteq> e \<longrightarrow> outside m' a)"
    and take_out: "holds_seq m (ys @ e # zs) \<Longrightarrow>
      \<exists>m'. take_out e m = Inr m' \<and> holds_seq m' (ys @ zs) \<and> (\<forall>a. outside m a \<or> a = e \<longrightarrow> outside m' a)"
begin

lemma put_all:
  assumes "holds_seq m xs" and "distinct es" and "\<forall>e \<in> set es. outside m e"
  shows "\<exists>m'. each_res put_last es m = Inr m' \<and> holds_seq m' (xs @ es)"
  using assms
proof (induction es arbitrary: m xs)
  case (Cons e es)
  then obtain m1 where m1: "put_last e m = Inr m1" "holds_seq m1 (xs @ [e])" "\<forall>a. outside m a \<longrightarrow> a \<noteq> e \<longrightarrow> outside m1 a"
    using put_last [of m xs e] by auto
  from Cons.IH [OF m1(2)] m1(1,3) Cons.prems show ?case by fastforce
qed simp

lemma take_selected:
  assumes "holds_seq m (ys @ xs)"
  shows "\<exists>m'. each_res take_out (filter P xs) m = Inr m' \<and> holds_seq m' (ys @ filter (\<lambda>x. \<not> P x) xs) \<and>
    (\<forall>a. outside m a \<or> a \<in> set xs \<and> P a \<longrightarrow> outside m' a)"
  using assms
proof (induction xs arbitrary: m ys)
  case (Cons x xs)
  show ?case
  proof (cases "P x")
    case True
    obtain m1 where m1: "take_out x m = Inr m1" "holds_seq m1 (ys @ xs)" "\<forall>a. outside m a \<or> a = x \<longrightarrow> outside m1 a"
      using take_out [OF Cons.prems] by blast
    from Cons.IH [OF m1(2)] m1(1,3) True show ?thesis by fastforce
  next
    case False
    then show ?thesis using Cons.IH [of m "ys @ [x]"] Cons.prems by auto
  qed
qed simp

lemma move_to_end:
  assumes "holds_seq m (ys @ e # zs)"
  shows "\<exists>m'. bind_res (take_out e m) (put_last e) = Inr m' \<and> holds_seq m' (ys @ zs @ [e])"
  using take_out [OF assms] put_last [of _ "ys @ zs" e] by fastforce

end

end
