(* ===== verification/ProcListFacts.thy ===== *)
theory ProcListFacts
  imports ProcList LinkQueue
begin

text \<open>
  The linked lists of processes hold sequences of process numbers: \<open>plist nodes lst ps\<close> says that the list
  headed by \<open>lst\<close> is \<open>ps\<close>. Every operation of the lists is the operation on sequences, and the walk of
  \<open>LWLockWakeup\<close> over the links computes \<open>collect_wakeup\<close>, the function that the theory of the
  locks uses.
\<close>

definition first_of :: "nat list \<Rightarrow> int \<Rightarrow> int" where
  "first_of ps d = (case ps of [] \<Rightarrow> d | p # _ \<Rightarrow> int p)"

definition last_of :: "nat list \<Rightarrow> int \<Rightarrow> int" where
  "last_of ps d = (if ps = [] then d else int (last ps))"

lemma first_of_simps [simp]: "first_of [] d = d" "first_of (p # ps) d = int p"
  "first_of (xs @ ys) d = first_of xs (first_of ys d)"
  by (cases xs; simp add: first_of_def)+

lemma last_of_simps [simp]: "last_of [] d = d" "last_of (xs @ [p]) d = int p" "last_of (p # ps) d = last_of ps (int p)"
  by (simp_all add: last_of_def)

lemma last_of_append [simp]: "last_of (xs @ ys) d = last_of ys (last_of xs d)"
  by (simp add: last_of_def)

fun dseg :: "proclist_node list \<Rightarrow> int \<Rightarrow> nat list \<Rightarrow> int \<Rightarrow> bool" where
  "dseg nodes prv [] nxt \<longleftrightarrow> True"
| "dseg nodes prv (p # ps) nxt \<longleftrightarrow> p < length nodes \<and>
     nodes ! p = \<lparr>pnext = first_of ps nxt, pprev = prv\<rparr> \<and> dseg nodes (int p) ps nxt"

lemma dseg_append: "dseg nodes prv (xs @ ys) nxt \<longleftrightarrow> dseg nodes prv xs (first_of ys nxt) \<and> dseg nodes (last_of xs prv) ys nxt"
  by (induction xs arbitrary: prv) auto

lemma dseg_other: "p \<notin> set ps \<Longrightarrow> dseg (nodes[p := n]) prv ps nxt = dseg nodes prv ps nxt"
  by (induction ps arbitrary: prv) auto

lemma dseg_bound: "dseg nodes prv ps nxt \<Longrightarrow> p \<in> set ps \<Longrightarrow> p < length nodes"
  by (induction ps arbitrary: prv) auto

text \<open>The list headed by \<open>lst\<close> is the sequence \<open>ps\<close> of processes.\<close>

definition plist :: "proclist_node list \<Rightarrow> proclist_head \<Rightarrow> nat list \<Rightarrow> bool" where
  "plist nodes lst ps \<longleftrightarrow> distinct ps \<and> int (length nodes) \<le> INVALID_PGPROCNO \<and>
     dseg nodes INVALID_PGPROCNO ps INVALID_PGPROCNO \<and>
     phead lst = first_of ps INVALID_PGPROCNO \<and> ptail lst = last_of ps INVALID_PGPROCNO"

definition unlinked :: "proclist_node list \<Rightarrow> nat \<Rightarrow> bool" where
  "unlinked nodes p \<longleftrightarrow> p < length nodes \<and> nodes ! p = \<lparr>pnext = 0, pprev = 0\<rparr>"

lemma node_get [simp]: "p < length nodes \<Longrightarrow> proclist_node_get nodes (int p) = Inr (nodes ! p)"
  by (simp add: proclist_node_get_def)

lemma node_put [simp]: "p < length nodes \<Longrightarrow> node_put nodes (int p) f = Inr (nodes[p := f (nodes ! p)])"
  by (simp add: node_put_def)

lemma plist_empty: "plist nodes lst ps \<Longrightarrow> proclist_is_empty lst \<longleftrightarrow> ps = []"
  by (cases ps) (auto simp: plist_def proclist_is_empty_def)

lemma plist_init: "int (length nodes) \<le> INVALID_PGPROCNO \<Longrightarrow> plist nodes (proclist_init lst) []"
  by (simp add: plist_def proclist_init_def)

lemma unlinked_notin: "plist nodes lst ps \<Longrightarrow> unlinked nodes p \<Longrightarrow> p \<notin> set ps"
proof
  assume pl: "plist nodes lst ps" and u: "unlinked nodes p" and "p \<in> set ps"
  then obtain ys zs where ps: "ps = ys @ p # zs" by (auto simp: in_set_conv_decomp)
  with pl have "nodes ! p = \<lparr>pnext = first_of zs INVALID_PGPROCNO, pprev = last_of ys INVALID_PGPROCNO\<rparr>" "distinct ps"
    by (auto simp: plist_def dseg_append)
  with u have "first_of zs INVALID_PGPROCNO = 0" "last_of ys INVALID_PGPROCNO = 0" by (auto simp: unlinked_def)
  then have "zs \<noteq> [] \<and> hd zs = 0" "ys \<noteq> [] \<and> last ys = 0"
    by (auto simp: first_of_def last_of_def INVALID_PGPROCNO_def split: list.splits if_splits)
  then have "0 \<in> set zs" "0 \<in> set ys" by (metis hd_in_set, metis last_in_set)
  with \<open>distinct ps\<close> ps show False by auto
qed

subsection \<open>Inserting\<close>

lemma push_tail_plist:
  assumes pl: "plist nodes lst ps" and u: "unlinked nodes p"
  shows "\<exists>lst' nodes'. proclist_push_tail_offset lst (int p) nodes = Inr (lst', nodes') \<and> plist nodes' lst' (ps @ [p]) \<and>
           length nodes' = length nodes \<and> (\<forall>q. q \<notin> set (p # ps) \<longrightarrow> nodes' ! q = nodes ! q)"
proof (cases ps rule: rev_cases)
  case Nil
  with pl u show ?thesis
    by (auto simp: proclist_push_tail_offset_def plist_def unlinked_def nth_list_update)
next
  case (snoc xs t)
  have p: "p \<notin> set ps" by (rule unlinked_notin [OF pl u])
  have t: "t < length nodes" "nodes ! t = \<lparr>pnext = INVALID_PGPROCNO, pprev = last_of xs INVALID_PGPROCNO\<rparr>"
    and d: "distinct ps" "p \<noteq> t" "t \<notin> set xs" "p \<notin> set xs" "int t \<noteq> INVALID_PGPROCNO" "phead lst \<noteq> INVALID_PGPROCNO"
      "phead lst \<noteq> int p" "ptail lst = int t" "dseg nodes INVALID_PGPROCNO xs (int t)"
    using pl p snoc by (cases xs; auto simp: plist_def dseg_append)+
  let ?nodes = "nodes[p := \<lparr>pnext = INVALID_PGPROCNO, pprev = int t\<rparr>, t := \<lparr>pnext = int p, pprev = last_of xs INVALID_PGPROCNO\<rparr>]"
  have "proclist_push_tail_offset lst (int p) nodes = Inr (lst\<lparr>ptail := int p\<rparr>, ?nodes)"
    using u t d by (simp add: proclist_push_tail_offset_def unlinked_def list_update_swap)
  moreover have "plist ?nodes (lst\<lparr>ptail := int p\<rparr>) (ps @ [p])"
    using pl u t d p snoc by (simp add: plist_def dseg_append dseg_other unlinked_def)
  ultimately show ?thesis using snoc by auto
qed

lemma push_head_plist:
  assumes pl: "plist nodes lst ps" and u: "unlinked nodes p"
  shows "\<exists>lst' nodes'. proclist_push_head_offset lst (int p) nodes = Inr (lst', nodes') \<and> plist nodes' lst' (p # ps) \<and>
           length nodes' = length nodes \<and> (\<forall>q. q \<notin> set (p # ps) \<longrightarrow> nodes' ! q = nodes ! q)"
proof (cases ps)
  case Nil
  with pl u show ?thesis
    by (auto simp: proclist_push_head_offset_def plist_def unlinked_def nth_list_update)
next
  case (Cons t xs)
  have p: "p \<notin> set ps" by (rule unlinked_notin [OF pl u])
  have t: "t < length nodes" "nodes ! t = \<lparr>pnext = first_of xs INVALID_PGPROCNO, pprev = INVALID_PGPROCNO\<rparr>"
    and d: "distinct ps" "p \<noteq> t" "t \<notin> set xs" "p \<notin> set xs" "int t \<noteq> INVALID_PGPROCNO" "phead lst = int t"
      "dseg nodes (int t) xs INVALID_PGPROCNO"
    using pl p Cons by (auto simp: plist_def)
  have e: "ptail lst = int (last ps)" "last ps \<in> set ps" using pl Cons by (auto simp: plist_def last_of_def)
  then have tl: "ptail lst \<noteq> int p" "ptail lst \<noteq> INVALID_PGPROCNO"
    using p pl dseg_bound [of nodes _ ps _ "last ps"] by (auto simp: plist_def)
  let ?nodes = "nodes[p := \<lparr>pnext = int t, pprev = INVALID_PGPROCNO\<rparr>, t := \<lparr>pnext = first_of xs INVALID_PGPROCNO, pprev = int p\<rparr>]"
  have "proclist_push_head_offset lst (int p) nodes = Inr (lst\<lparr>phead := int p\<rparr>, ?nodes)"
    using u t d tl by (simp add: proclist_push_head_offset_def unlinked_def list_update_swap)
  moreover have "plist ?nodes (lst\<lparr>phead := int p\<rparr>) (p # ps)"
    using pl u t d p Cons by (simp add: plist_def dseg_other unlinked_def)
  ultimately show ?thesis using Cons by auto
qed

subsection \<open>Deleting\<close>

lemma delete_plist:
  assumes pl: "plist nodes lst (ys @ p # zs)"
  shows "\<exists>lst' nodes'. proclist_delete_offset lst (int p) nodes = Inr (lst', nodes') \<and> plist nodes' lst' (ys @ zs) \<and>
           unlinked nodes' p \<and> length nodes' = length nodes \<and> (\<forall>q. q \<notin> set (ys @ p # zs) \<longrightarrow> nodes' ! q = nodes ! q)"
proof -
  let ?I = INVALID_PGPROCNO
  have p: "p < length nodes" "nodes ! p = \<lparr>pnext = first_of zs ?I, pprev = last_of ys ?I\<rparr>"
    and d: "distinct (ys @ p # zs)" and len: "int (length nodes) \<le> ?I"
    and segs: "dseg nodes ?I ys (int p)" "dseg nodes (int p) zs ?I"
    and fst_link: "phead lst = first_of ys (int p)" and lst_link: "ptail lst = last_of zs (int p)"
    using pl by (auto simp: plist_def dseg_append)
  have ne: "first_of zs ?I \<noteq> 0 \<or> last_of ys ?I \<noteq> 0"
    using unlinked_notin [OF pl, of p] p by (auto simp: unlinked_def)
  have b: "\<And>q. q \<in> set (ys @ zs) \<Longrightarrow> q < length nodes \<and> int q \<noteq> ?I"
    using dseg_bound [OF segs(1)] dseg_bound [OF segs(2)] len by fastforce
  show ?thesis
  proof (cases ys rule: rev_cases)
    case Nil
    note ys = this
    show ?thesis
    proof (cases zs)
      case Nil
      with ys p ne fst_link lst_link len show ?thesis
        by (auto simp: proclist_delete_offset_def plist_def unlinked_def)
    next
      case (Cons n xs)
      with ys p ne fst_link lst_link len d segs b [of n] show ?thesis
        by (auto simp: proclist_delete_offset_def plist_def unlinked_def dseg_other)
    qed
  next
    case (snoc ws m)
    note ys = this
    have m: "nodes ! m = \<lparr>pnext = int p, pprev = last_of ws ?I\<rparr>" "dseg nodes ?I ws (int m)"
      using segs(1) ys by (auto simp: dseg_append)
    show ?thesis
    proof (cases zs)
      case Nil
      with ys p ne fst_link lst_link len d m b [of m] show ?thesis
        by (auto simp: proclist_delete_offset_def plist_def unlinked_def dseg_append dseg_other)
    next
      case (Cons n xs)
      with ys p ne fst_link lst_link len d segs m b [of m] b [of n] show ?thesis
        by (auto simp: proclist_delete_offset_def plist_def unlinked_def dseg_append dseg_other)
    qed
  qed
qed

lemma contains_plist:
  assumes pl: "plist nodes lst ps" and p: "p < length nodes" and "p \<in> set ps \<or> unlinked nodes p"
  shows "proclist_contains_offset lst (int p) nodes = Inr (p \<in> set ps)"
proof (cases "p \<in> set ps")
  case True
  then obtain ys zs where ps: "ps = ys @ p # zs" by (auto simp: in_set_conv_decomp)
  with pl have n: "nodes ! p = \<lparr>pnext = first_of zs INVALID_PGPROCNO, pprev = last_of ys INVALID_PGPROCNO\<rparr>"
    and bd: "\<forall>q \<in> set ps. int q \<noteq> INVALID_PGPROCNO" and ends: "phead lst = first_of ys (int p)" "ptail lst = last_of zs (int p)"
    using dseg_bound [of nodes _ ps] by (fastforce simp: plist_def dseg_append)+
  have "pprev (nodes ! p) \<noteq> INVALID_PGPROCNO \<or> phead lst = int p" "pnext (nodes ! p) \<noteq> INVALID_PGPROCNO \<or> ptail lst = int p"
    using n bd ends ps by (cases ys rule: rev_cases; cases zs; simp)+
  moreover have "\<not> unlinked nodes p" using unlinked_notin [OF pl] True by blast
  ultimately show ?thesis using True p n by (auto simp: proclist_contains_offset_def unlinked_def)
next
  case False
  with assms show ?thesis by (simp add: proclist_contains_offset_def unlinked_def)
qed

lemma pop_head_plist:
  assumes "plist nodes lst (p # ps)"
  shows "\<exists>lst' nodes'. proclist_pop_head_node_offset lst nodes = Inr (int p, lst', nodes') \<and> plist nodes' lst' ps \<and> unlinked nodes' p \<and>
    (\<forall>r. r \<notin> set (p # ps) \<longrightarrow> nodes' ! r = nodes ! r)"
proof -
  have "phead lst = int p" using assms by (simp add: plist_def)
  with delete_plist [of nodes lst "[]" p ps] assms plist_empty [OF assms] show ?thesis
    by (auto simp: proclist_pop_head_node_offset_def)
qed

text \<open>The lists provide what is expected of a queue.\<close>

interpretation proc_queue: link_queue "\<lambda>(lst, nodes). plist nodes lst" "\<lambda>(lst, nodes). unlinked nodes"
  "\<lambda>p (lst, nodes). proclist_push_tail_offset lst (int p) nodes" "\<lambda>p (lst, nodes). proclist_delete_offset lst (int p) nodes"
proof
  fix m :: "proclist_head \<times> proclist_node list" and ps p
  assume "(case m of (lst, nodes) \<Rightarrow> plist nodes lst) ps" and "(case m of (lst, nodes) \<Rightarrow> unlinked nodes) p"
  then obtain lst nodes where m: "m = (lst, nodes)" and pl: "plist nodes lst ps" and u: "unlinked nodes p" by (cases m) auto
  from push_tail_plist [OF pl u] obtain lst' nodes' where r: "proclist_push_tail_offset lst (int p) nodes = Inr (lst', nodes')"
      "plist nodes' lst' (ps @ [p])" "length nodes' = length nodes" "\<forall>q. q \<notin> set (p # ps) \<longrightarrow> nodes' ! q = nodes ! q" by blast
  have "unlinked nodes' a" if "unlinked nodes a" "a \<noteq> p" for a
    using that r(3,4) unlinked_notin [OF pl that(1)] by (auto simp: unlinked_def)
  with r m show "\<exists>m'. (case m of (lst, nodes) \<Rightarrow> proclist_push_tail_offset lst (int p) nodes) = Inr m' \<and>
      (case m' of (lst, nodes) \<Rightarrow> plist nodes lst) (ps @ [p]) \<and>
      (\<forall>a. (case m of (lst, nodes) \<Rightarrow> unlinked nodes) a \<longrightarrow> a \<noteq> p \<longrightarrow> (case m' of (lst, nodes) \<Rightarrow> unlinked nodes) a)"
    by auto
next
  fix m :: "proclist_head \<times> proclist_node list" and ys p zs
  assume "(case m of (lst, nodes) \<Rightarrow> plist nodes lst) (ys @ p # zs)"
  then obtain lst nodes where m: "m = (lst, nodes)" and pl: "plist nodes lst (ys @ p # zs)" by (cases m) auto
  from delete_plist [OF pl] obtain lst' nodes' where r: "proclist_delete_offset lst (int p) nodes = Inr (lst', nodes')"
      "plist nodes' lst' (ys @ zs)" "unlinked nodes' p" "length nodes' = length nodes"
      "\<forall>q. q \<notin> set (ys @ p # zs) \<longrightarrow> nodes' ! q = nodes ! q" by blast
  have "unlinked nodes' a" if "unlinked nodes a" for a
    using that r(4,5) unlinked_notin [OF pl that] by (auto simp: unlinked_def)
  with r m show "\<exists>m'. (case m of (lst, nodes) \<Rightarrow> proclist_delete_offset lst (int p) nodes) = Inr m' \<and>
      (case m' of (lst, nodes) \<Rightarrow> plist nodes lst) (ys @ zs) \<and>
      (\<forall>a. (case m of (lst, nodes) \<Rightarrow> unlinked nodes) a \<or> a = p \<longrightarrow> (case m' of (lst, nodes) \<Rightarrow> unlinked nodes) a)"
    by auto
qed

subsection \<open>The walk that collects the processes to wake\<close>

lemma plist_frame:
  assumes "plist nodes lst ps" and "length nodes' = length nodes" and "\<forall>q \<in> set ps. nodes' ! q = nodes ! q"
  shows "plist nodes' lst ps"
proof -
  have "dseg nodes' prv ps nxt" if "dseg nodes prv ps nxt" for prv nxt
    using that assms(2,3) by (induction ps arbitrary: prv) auto
  with assms show ?thesis by (simp add: plist_def)
qed

lemma move_to_wakeup:
  assumes q: "plist nodes lst (ys @ p # zs)" and w: "plist nodes wk ws" and disj: "set (ys @ p # zs) \<inter> set ws = {}"
  shows "\<exists>lst' n1 wk' n2. proclist_delete_offset lst (int p) nodes = Inr (lst', n1) \<and>
           proclist_push_tail_offset wk (int p) n1 = Inr (wk', n2) \<and> plist n2 lst' (ys @ zs) \<and>
           plist n2 wk' (ws @ [p]) \<and> length n2 = length nodes"
proof -
  from delete_plist [OF q] obtain lst' n1 where
    del: "proclist_delete_offset lst (int p) nodes = Inr (lst', n1)" "plist n1 lst' (ys @ zs)" "unlinked n1 p"
      "length n1 = length nodes" "\<forall>r. r \<notin> set (ys @ p # zs) \<longrightarrow> n1 ! r = nodes ! r"
    by blast
  have w1: "plist n1 wk ws" by (rule plist_frame [OF w del(4)]) (use del(5) disj in blast)
  from push_tail_plist [OF w1 del(3)] obtain wk' n2 where
    push: "proclist_push_tail_offset wk (int p) n1 = Inr (wk', n2)" "plist n2 wk' (ws @ [p])" "length n2 = length n1"
      "\<forall>r. r \<notin> set (p # ws) \<longrightarrow> n2 ! r = n1 ! r"
    by blast
  have "distinct (ys @ p # zs)" using q by (simp add: plist_def)
  then have "plist n2 lst' (ys @ zs)" by (intro plist_frame [OF del(2) push(3)]) (use push(4) disj in auto)
  with del push show ?thesis by auto
qed

text \<open>The body of the loop on a process that is taken out of the queue.\<close>

definition taken_out :: "LWLockMode \<Rightarrow> wakeup_vars \<Rightarrow> proclist_head \<Rightarrow> proclist_head \<Rightarrow> wakeup_vars" where
  "taken_out mode vs q w =
     \<lparr>lock_waiters = q, wakeup_list = w, wokeup_somebody = (mode \<noteq> LW_WAIT_UNTIL_FREE \<or> wokeup_somebody vs),
      new_release_ok = (mode = LW_WAIT_UNTIL_FREE \<and> new_release_ok vs)\<rparr>"

lemma taken_out_flags:
  "wokeup_somebody (taken_out mode vs q w) = (mode \<noteq> LW_WAIT_UNTIL_FREE \<or> wokeup_somebody vs)"
  "new_release_ok (taken_out mode vs q w) = (mode = LW_WAIT_UNTIL_FREE \<and> new_release_ok vs)"
  by (simp_all add: taken_out_def)

lemma wakeup_body_takes:
  assumes "plist nodes (lock_waiters vs) (ys @ p # zs)" and "plist nodes (wakeup_list vs) ws"
    and "set (ys @ p # zs) \<inter> set ws = {}" and "\<not> (wokeup_somebody vs \<and> mode_of p = LW_EXCLUSIVE)"
  shows "\<exists>q w nodes'. wakeup_body mode_of (int p) vs nodes =
             Inr (mode_of p \<noteq> LW_EXCLUSIVE, taken_out (mode_of p) vs q w, nodes') \<and>
           plist nodes' q (ys @ zs) \<and> plist nodes' w (ws @ [p])"
proof -
  from move_to_wakeup [OF assms(1-3)] obtain q n1 w n2 where
    mv: "proclist_delete_offset (lock_waiters vs) (int p) nodes = Inr (q, n1)"
      "proclist_push_tail_offset (wakeup_list vs) (int p) n1 = Inr (w, n2)" "plist n2 q (ys @ zs)" "plist n2 w (ws @ [p])"
    by blast
  have "wakeup_body mode_of (int p) vs nodes = Inr (mode_of p \<noteq> LW_EXCLUSIVE, taken_out (mode_of p) vs q w, n2)"
    using assms(4) mv(1,2)
    by (cases vs; cases "mode_of p = LW_WAIT_UNTIL_FREE") (auto simp: wakeup_body_def Let_def taken_out_def)
  with mv show ?thesis by blast
qed

lemma collect_wakeup_takes:
  assumes "collect_wakeup mode_of (p # zs) b r = (rest, wk, ok)" and "\<not> (b \<and> mode_of p = LW_EXCLUSIVE)"
  shows "\<exists>wk'. wk = p # wk' \<and>
    (if mode_of p = LW_EXCLUSIVE then rest = zs \<and> wk' = [] \<and> \<not> ok
     else collect_wakeup mode_of zs (mode_of p \<noteq> LW_WAIT_UNTIL_FREE \<or> b) (mode_of p = LW_WAIT_UNTIL_FREE \<and> r) = (rest, wk', ok))"
  using assms by (cases "mode_of p = LW_WAIT_UNTIL_FREE") (auto simp: Let_def split: prod.splits if_splits)

lemma wakeup_walk_from:
  assumes "plist nodes (lock_waiters vs) (ys @ zs)" and "plist nodes (wakeup_list vs) ws"
    and "set (ys @ zs) \<inter> set ws = {}" and "length zs < n"
    and "collect_wakeup mode_of zs (wokeup_somebody vs) (new_release_ok vs) = (rest, wk, ok)"
  shows "\<exists>vs' nodes'. proclist_foreach_modify n (wakeup_body mode_of) (first_of zs INVALID_PGPROCNO) vs nodes = Inr (vs', nodes') \<and>
    plist nodes' (lock_waiters vs') (ys @ rest) \<and> plist nodes' (wakeup_list vs') (ws @ wk) \<and> new_release_ok vs' = ok"
  using assms
proof (induction zs arbitrary: n vs nodes ys ws rest wk)
  case Nil
  then show ?case by (cases n) auto
next
  case (Cons p zs)
  let ?nx = "first_of zs INVALID_PGPROCNO"
  obtain n' where n: "n = Suc n'" "length zs < n'" using Cons.prems(4) by (cases n) auto
  have p: "p < length nodes" "nodes ! p = \<lparr>pnext = ?nx, pprev = last_of ys INVALID_PGPROCNO\<rparr>" "int p \<noteq> INVALID_PGPROCNO"
    using Cons.prems(1) by (auto simp: plist_def dseg_append)
  show ?case
  proof (cases "wokeup_somebody vs \<and> mode_of p = LW_EXCLUSIVE")
    case True
    with Cons.prems(5) obtain rest' where r: "rest = p # rest'"
      "collect_wakeup mode_of zs (wokeup_somebody vs) (new_release_ok vs) = (rest', wk, ok)"
      by (auto split: prod.splits)
    from Cons.IH [of nodes vs "ys @ [p]" ws n', OF _ Cons.prems(2) _ n(2) r(2)] Cons.prems(1,3) True n p r(1)
    show ?thesis by (simp add: wakeup_body_def)
  next
    case False
    from wakeup_body_takes [where mode_of = mode_of and p = p, OF Cons.prems(1-3) False] obtain q w n2 where
      body: "wakeup_body mode_of (int p) vs nodes = Inr (mode_of p \<noteq> LW_EXCLUSIVE, taken_out (mode_of p) vs q w, n2)"
      and pl: "plist n2 q (ys @ zs)" "plist n2 w (ws @ [p])"
      by blast
    from collect_wakeup_takes [OF Cons.prems(5) False] obtain wk' where wk: "wk = p # wk'"
      and c: "if mode_of p = LW_EXCLUSIVE then rest = zs \<and> wk' = [] \<and> \<not> ok
        else collect_wakeup mode_of zs (wokeup_somebody (taken_out (mode_of p) vs q w)) (new_release_ok (taken_out (mode_of p) vs q w)) = (rest, wk', ok)"
      unfolding taken_out_flags by auto
    show ?thesis
    proof (cases "mode_of p = LW_EXCLUSIVE")
      case True
      with body pl wk c n p show ?thesis by (auto simp: taken_out_def)
    next
      case sh: False
      have "set (ys @ zs) \<inter> set (ws @ [p]) = {}" using Cons.prems(1,3) by (auto simp: plist_def)
      with Cons.IH [of n2 "taken_out (mode_of p) vs q w" ys "ws @ [p]" n' rest wk'] pl c sh n body p wk show ?thesis
        by (auto simp: taken_out_def)
    qed
  qed
qed

lemma wakeup_walk_list:
  assumes "plist nodes lst ps" and "collect_wakeup mode_of ps False True = (rest, wk, ok)"
  shows "\<exists>vs nodes'. wakeup_walk mode_of lst nodes = Inr (vs, nodes') \<and> plist nodes' (lock_waiters vs) rest \<and>
           plist nodes' (wakeup_list vs) wk \<and> new_release_ok vs = ok"
proof -
  have b: "p < length nodes" if "p \<in> set ps" for p using that assms(1) dseg_bound by (auto simp: plist_def)
  have "length ps \<le> length nodes"
    using assms(1) card_mono [of "{..<length nodes}" "set ps"] b by (auto simp: plist_def distinct_card)
  moreover have "plist nodes (proclist_init \<lparr>phead = 0, ptail = 0\<rparr>) []" using assms(1) by (simp add: plist_def proclist_init_def)
  moreover have "phead lst = first_of ps INVALID_PGPROCNO" using assms(1) by (simp add: plist_def)
  ultimately show ?thesis
    using wakeup_walk_from [of nodes "\<lparr>lock_waiters = lst, wakeup_list = proclist_init \<lparr>phead = 0, ptail = 0\<rparr>,
      wokeup_somebody = False, new_release_ok = True\<rparr>" "[]" ps "[]" "Suc (length nodes)" mode_of rest wk ok] assms
    by (simp add: wakeup_walk_def)
qed
end
