(* ===== verification/LockProps.thy ===== *)
theory LockProps
  imports Startup ProcListFacts
begin

unbundle bit_operations_syntax

text \<open>
  The properties of the lightweight locks: mutual exclusion for every interleaving of the atomic steps,
  the steps that the code makes, taking and giving back, waking waiters, and the initialisation of the
  lock array.
\<close>

subsection \<open>Mutual exclusion\<close>

text \<open>
  C10: mutual exclusion. In every state of a lock that the atomic steps of any number of backends can reach
  from the initialised lock, a backend that holds the lock in exclusive mode is the only holder, and the
  state word counts the holders: bit 24 for the exclusive one, the bits below for the number of shared ones.
\<close>

theorem lw_mutual_exclusion:
  assumes "lw_reachable (w, hs)"
  shows "((p, LW_EXCLUSIVE) \<in> set hs \<longrightarrow> hs = [(p, LW_EXCLUSIVE)]) \<and>
         unat w mod 2 ^ 25 = 2 ^ 24 * exclusives hs + shareds hs"
  using lw_reachable_encodes [OF assms] exclusive_alone [of w hs p] by (simp add: encodes_def)

lemma reach_exclusive: "lw_reachable (LW_FLAG_RELEASE_OK + LW_VAL_EXCLUSIVE, [(0, LW_EXCLUSIVE)])"
  using lw_step.acquire [of LW_EXCLUSIVE LW_FLAG_RELEASE_OK "[]" 0]
  by (simp add: lw_reachable_def MAX_BACKENDS_def lock_value_def r_into_rtranclp)

theorem lw_mutual_exclusion_witness:
  "unat (LW_FLAG_RELEASE_OK + LW_VAL_EXCLUSIVE) mod 2 ^ 25 = 2 ^ 24 * exclusives [(0, LW_EXCLUSIVE)] + shareds [(0, LW_EXCLUSIVE)]"
  using lw_mutual_exclusion [OF reach_exclusive, of 0] by blast

text \<open>
  C33: what the word says. In every reachable state the test that \<open>LWLockAttemptLock\<close> makes for exclusive
  mode succeeds exactly if nobody holds the lock, and the test for shared mode exactly if nobody
  holds it in exclusive mode.
\<close>

theorem lw_free_means_free:
  assumes "lw_reachable (w, hs)"
  shows "(lock_free LW_EXCLUSIVE w \<longleftrightarrow> hs = []) \<and>
         (lock_free LW_SHARED w \<longleftrightarrow> (\<forall>(p, mode) \<in> set hs. mode \<noteq> LW_EXCLUSIVE))"
  using lock_free_iff [OF lw_reachable_encodes [OF assms]] by simp

theorem lw_free_means_free_witness:
  "\<not> lock_free LW_EXCLUSIVE (LW_FLAG_RELEASE_OK + LW_VAL_EXCLUSIVE) \<and> \<not> lock_free LW_SHARED (LW_FLAG_RELEASE_OK + LW_VAL_EXCLUSIVE)"
  using lw_free_means_free [OF reach_exclusive] by auto

text \<open>
  C13: \<open>LWLockAttemptLock\<close> is one atomic step. Whatever the other backends do while its compare-and-exchange
  loop runs, it terminates, and there is a moment, after \<open>k\<close> moves of the others, at which it acts. If the lock
  is free in that mode at that moment, the call adds the value of the mode to the state word and answers
  that there is no need to wait; otherwise it leaves the word as it is and answers that it must wait. It changes nothing else,
  and the change is a step of the protocol, in which the backend becomes a holder exactly if it need not wait.
\<close>

theorem attempt_is_one_step:
  assumes "mode \<noteq> LW_WAIT_UNTIL_FREE" and "lock_stays i s" and "length hs < MAX_BACKENDS"
  shows "\<exists>k. let t = (others ^^ k) s; old = word_of i t; free = lock_free mode old;
                 new = (if free then old + lock_value mode else old)
             in LWLockAttemptLock i mode s = (Inr (\<not> free), set_word i new t) \<and> word_of i (set_word i new t) = new \<and>
                lw_step (old, hs) (new, if free then (p, mode) # hs else hs)"
proof -
  from attempt_one_step [OF assms(1,2)] obtain k where
    *: "let t = (others ^^ k) s; free = lock_free mode (word_of i t) in
         LWLockAttemptLock i mode s =
           (Inr (\<not> free), set_word i (if free then word_of i t + lock_value mode else word_of i t) t)"
    by blast
  let ?t = "(others ^^ k) s"
  have i: "i < length (locks ?t)" using assms(2) by (simp add: lock_stays_def)
  show ?thesis
  proof (cases "lock_free mode (word_of i ?t)")
    case True
    with * i lw_step.acquire [OF assms(1) True assms(3), of p] show ?thesis by (auto simp: Let_def intro!: exI [of _ k])
  next
    case False
    with * i lw_step.refuse [OF False, of hs] show ?thesis by (auto simp: Let_def intro!: exI [of _ k])
  qed
qed

theorem attempt_is_one_step_witness:
  "LWLockAttemptLock 0 LW_SHARED fresh_backend =
     (Inr False, set_word 0 (LW_FLAG_RELEASE_OK + LW_VAL_SHARED) fresh_backend) \<and>
   lw_step (LW_FLAG_RELEASE_OK, []) (LW_FLAG_RELEASE_OK + LW_VAL_SHARED, [(0, LW_SHARED)])"
proof -
  have "lock_stays 0 fresh_backend"
    by (rule lock_stays_alone) (simp_all add: fresh_backend_def NUM_FIXED_LWLOCKS_eq)
  moreover have "(others ^^ k) fresh_backend = fresh_backend" for k
    by (simp add: fresh_backend_def)
  moreover have "word_of 0 fresh_backend = LW_FLAG_RELEASE_OK" by (simp add: fresh_backend_def NUM_FIXED_LWLOCKS_eq fresh_word)
  moreover have "lock_free LW_SHARED LW_FLAG_RELEASE_OK"
    by (simp add: lock_free_def LW_FLAG_RELEASE_OK_def LW_VAL_EXCLUSIVE_def push_bit_of_1)
  ultimately show ?thesis
    using attempt_is_one_step [of LW_SHARED 0 fresh_backend "[]" 0] by (simp add: Let_def MAX_BACKENDS_def lock_value_def)
qed

subsection \<open>Taking and giving back\<close>

text \<open>
  C22: taking a free lock and giving it back is the identity: on a backend that runs alone, \<open>LWLockAcquire\<close>
  followed by \<open>LWLockRelease\<close> restores the state word, the list of held locks and the interrupt holdoff
  count, if there is nobody to wake.
\<close>

theorem acquire_then_release:
  assumes "env s = []" and "i < length (locks s)" and "mode \<noteq> LW_WAIT_UNTIL_FREE"
    and "lock_free mode (word_of i s)" and "length (held_lwlocks s) < MAX_SIMUL_LWLOCKS"
    and "MyProc s \<noteq> None" and "InterruptHoldoffCount s \<noteq> -1"
    and "\<not> bit (word_of i s) 24" and "\<not> must_wake (word_of i s)"
  shows "thenp (LWLockAcquire i mode) (LWLockRelease i) s = (Inr (), s)"
proof -
  let ?t = "(set_word i (word_of i s + lock_value mode) s)
       \<lparr>held_lwlocks := held_lwlocks s @ [(i, mode)],
        InterruptHoldoffCount := InterruptHoldoffCount s + 1\<rparr>"
  have w: "released_word i mode ?t = word_of i s" using assms(2) by (simp add: released_word_def)
  have c: "0 < InterruptHoldoffCount s + 1"
    using assms(7) by (metis add.inverse_inverse add_eq_0_iff2 word_neq_0_conv)
  have "LWLockRelease i ?t =
    (Inr (), (set_word i (word_of i s) ?t)
       \<lparr>held_lwlocks := held_lwlocks s, InterruptHoldoffCount := InterruptHoldoffCount ?t - 1\<rparr>)"
    using release_quiet [of ?t i "held_lwlocks s" mode] assms c w by simp
  also have "(set_word i (word_of i s) ?t)
       \<lparr>held_lwlocks := held_lwlocks s, InterruptHoldoffCount := InterruptHoldoffCount ?t - 1\<rparr> = s"
    using assms(2) by (simp add: set_word_def set_lock_def)
  finally show ?thesis
    by (simp add: thenp_def bindp_def acquire_free_alone [OF assms(1-6)])
qed

theorem acquire_then_release_witness:
  "thenp (LWLockAcquire 7 LW_SHARED) (LWLockRelease 7) fresh_backend = (Inr (), fresh_backend)"
  by (rule acquire_then_release)
    (simp_all add: fresh_backend_def NUM_FIXED_LWLOCKS_eq fresh_word MAX_SIMUL_LWLOCKS_def bit_release_ok)

text \<open>
  C35: a lock that is held stays held. A backend that asks for a lock that somebody else holds and never
  releases does not return with the lock and waits for ever. It waits at the end of the queue of the lock, marked
  as waiting in the mode it asked for, with no count of its semaphore left; the lock says that there are waiters, and
  the list of held locks has not changed.
\<close>

theorem acquire_held_waits:
  assumes "env s = []" and "i < length (locks s)" and "mode \<noteq> LW_WAIT_UNTIL_FREE"
    and "\<not> lock_free mode (word_of i s)" and "length (held_lwlocks s) < MAX_SIMUL_LWLOCKS"
    and "MyProc s = Some p" and "p < length (allProcs (shm s))"
    and "\<not> lwWaiting (allProcs (shm s) ! p)" and "\<not> bit (word_of i s) 28"
  shows "\<exists>t. LWLockAcquire i mode s = (Inl Blocked, t) \<and> waiters (locks t ! i) = waiters (locks s ! i) @ [p] \<and>
           allProcs (shm t) ! p = (allProcs (shm s) ! p)\<lparr>lwWaiting := True, lwWaitMode := mode, sem := 0\<rparr> \<and>
           word_of i t = word_of i s OR LW_FLAG_HAS_WAITERS \<and> held_lwlocks t = held_lwlocks s"
    (is "\<exists>t. _ \<and> ?P t")
proof -
  have m: "mode = LW_SHARED \<or> mode = LW_EXCLUSIVE" using assms(3) by (cases mode) auto
  have w: "((word_of i s OR LW_FLAG_LOCKED) OR LW_FLAG_HAS_WAITERS) AND NOT LW_FLAG_LOCKED = word_of i s OR LW_FLAG_HAS_WAITERS"
    using assms(9) by (intro bit_word_eqI) (auto simp: bit_simps LW_FLAG_LOCKED_def LW_FLAG_HAS_WAITERS_def)
  have wait: "wp (wait_woken p k) Q (\<lambda>e t. e = Blocked \<and> ?P t) u"
    if "env u = []" "p < length (allProcs (shm u))" "lwWaiting (allProcs (shm u) ! p)"
      "\<And>t. locks t = locks u \<Longrightarrow> held_lwlocks t = held_lwlocks u \<Longrightarrow>
         allProcs (shm t) ! p = (allProcs (shm u) ! p)\<lparr>sem := 0\<rparr> \<Longrightarrow> ?P t" for k Q u
    using wait_woken_alone [OF that(1-3), of k] that(4) by (auto simp: wp_result)
  have "wp (LWLockAcquire i mode) (\<lambda>_ _. False) (\<lambda>e t. e = Blocked \<and> ?P t) s"
    using assms m
    by (simp add: LWLockAcquire_def wp_simps ensure_room_def HOLD_INTERRUPTS_def
        wp_attempt_alone queue_self_alone lock_free_flags wait w set_lock_def set_proc_def)
  then show ?thesis by (auto simp: wp_result)
qed

definition held_backend :: backend where
  "held_backend = set_word 7 (LW_FLAG_RELEASE_OK + LW_VAL_EXCLUSIVE) fresh_backend"

theorem acquire_held_waits_witness:
  "\<exists>t. LWLockAcquire 7 LW_SHARED held_backend = (Inl Blocked, t) \<and> waiters (locks t ! 7) = [0] \<and>
     lwWaiting (allProcs (shm t) ! 0) \<and> lwWaitMode (allProcs (shm t) ! 0) = LW_SHARED \<and> held_lwlocks t = []"
proof -
  have "\<exists>t. LWLockAcquire 7 LW_SHARED held_backend = (Inl Blocked, t) \<and> waiters (locks t ! 7) = waiters (locks held_backend ! 7) @ [0] \<and>
    allProcs (shm t) ! 0 = (allProcs (shm held_backend) ! 0)\<lparr>lwWaiting := True, lwWaitMode := LW_SHARED, sem := 0\<rparr> \<and>
    word_of 7 t = word_of 7 held_backend OR LW_FLAG_HAS_WAITERS \<and> held_lwlocks t = held_lwlocks held_backend"
    by (rule acquire_held_waits)
      (simp_all add: held_backend_def, simp_all add: fresh_backend_def NUM_FIXED_LWLOCKS_eq fresh_word MAX_SIMUL_LWLOCKS_def
        fresh_shmem_def fresh_locks(1) fresh_proc_def lock_free_def LW_FLAG_RELEASE_OK_def LW_VAL_EXCLUSIVE_def push_bit_of_1)
  moreover have "waiters (locks held_backend ! 7) = []" "held_lwlocks held_backend = []"
    by (simp_all add: held_backend_def fresh_backend_def NUM_FIXED_LWLOCKS_eq set_word_def fresh_word)
  ultimately show ?thesis by auto
qed

text \<open>
  Giving back a lock that the backend does not hold is reported as an error and changes nothing.
\<close>

lemma release_not_held_fails:
  assumes "i \<notin> fst ` set (held_lwlocks s)"
  shows "LWLockRelease i s = (Inl (Ereport ''lock is not held''), s)"
proof -
  have "find_held (length (held_lwlocks s)) i (held_lwlocks s) = None"
    using assms unfolding find_held_None by (metis image_eqI nth_mem)
  then show ?thesis by (simp add: LWLockRelease_def wp_Inl wp_simps)
qed

subsection \<open>Waking waiters\<close>

text \<open>
  C18: the last release wakes the head of the queue. When a release leaves the lock free, with waiters queued
  and wakeups allowed, the process at the head of the queue is no longer waiting afterwards, its
  semaphore has been raised, it has left the queue, and the lock is not in the list of held locks any more.
\<close>

theorem release_wakes_first:
  assumes "env s = []" and "i < length (locks s)" and "held_lwlocks s = hs @ [(i, mode)]"
    and "\<not> bit (released_word i mode s) 24" and "must_wake (released_word i mode s)"
    and "\<not> bit (released_word i mode s) 28" and "0 < InterruptHoldoffCount s"
    and "\<forall>p \<in> set (waiters (locks s ! i)). p < length (allProcs (shm s))"
    and "waiters (locks s ! i) = q # qs" and "distinct (q # qs)"
  shows "\<exists>t. LWLockRelease i s = (Inr (), t) \<and> held_lwlocks t = hs \<and> q \<notin> set (waiters (locks t ! i)) \<and>
           \<not> lwWaiting (allProcs (shm t) ! q) \<and> sem (allProcs (shm t) ! q) = sem (allProcs (shm s) ! q) + 1"
proof -
  obtain rest ws ok where cw: "collect_wakeup (\<lambda>p. lwWaitMode (allProcs (shm s) ! p)) (q # qs) False True = (rest, ws, ok)"
    by (metis prod_cases3)
  let ?L = "(locks s ! i)\<lparr>waiters := rest, state := wakeup_state ok ws (released_word i mode s OR LW_FLAG_LOCKED)\<rparr>"
  have wl: "woken_lock (allProcs (shm s)) ((locks s ! i)\<lparr>state := released_word i mode s\<rparr>) = (?L, ws)"
    using cw assms(9) by (simp add: woken_lock_def)
  from collect_wakeup_perm [OF cw] assms(8-10) have ws: "distinct (rest @ ws)" "\<forall>p \<in> set ws. p < length (allProcs (shm s))"
    by auto
  obtain vs where "ws = q # vs" using collect_wakeup_first [OF cw] by blast
  with ws have q: "q \<in> set ws" "q \<notin> set rest" by auto
  from release_wakes [OF assms(1-8) wl] obtain t where
    t: "LWLockRelease i s = (Inr (), t)" "held_lwlocks t = hs" "locks t = (locks s)[i := ?L]"
      "allProcs (shm t) = allProcs (shm (fold awoken ws s))"
    by (auto simp: wp_total)
  moreover have "allProcs (shm t) ! q =
      (allProcs (shm s) ! q)\<lparr>lwWaiting := False, sem := sem (allProcs (shm s) ! q) + 1\<rparr>"
    using fold_awoken_proc [of ws s q] ws q t(4) by (simp add: Let_def)
  ultimately show ?thesis using q assms(2) by simp
qed

definition contended_backend :: backend where
  "contended_backend = (set_lock 7 (fresh_lock\<lparr>waiters := [1],
       state := LW_FLAG_HAS_WAITERS + LW_FLAG_RELEASE_OK + LW_VAL_EXCLUSIVE\<rparr>) fresh_backend)
     \<lparr>held_lwlocks := [(7, LW_EXCLUSIVE)], InterruptHoldoffCount := 1\<rparr>"

lemma contended_backend_simps:
  "env contended_backend = []" "locks contended_backend ! 7 = fresh_lock\<lparr>waiters := [1],
     state := LW_FLAG_HAS_WAITERS + LW_FLAG_RELEASE_OK + LW_VAL_EXCLUSIVE\<rparr>"
  "length (locks contended_backend) = 718" "allProcs (shm contended_backend) = [fresh_proc, fresh_proc]"
  "held_lwlocks contended_backend = [] @ [(7, LW_EXCLUSIVE)]" "InterruptHoldoffCount contended_backend = 1"
  by (simp_all add: contended_backend_def fresh_backend_def NUM_FIXED_LWLOCKS_eq fresh_shmem_def fresh_locks(1))

theorem release_wakes_first_witness:
  "\<exists>t. LWLockRelease 7 contended_backend = (Inr (), t) \<and> held_lwlocks t = [] \<and> 1 \<notin> set (waiters (locks t ! 7)) \<and>
     \<not> lwWaiting (allProcs (shm t) ! 1) \<and> sem (allProcs (shm t) ! 1) = sem (allProcs (shm contended_backend) ! 1) + 1"
proof (rule release_wakes_first [where mode = LW_EXCLUSIVE and qs = "[]"])
  have w: "released_word 7 LW_EXCLUSIVE contended_backend = LW_FLAG_HAS_WAITERS + LW_FLAG_RELEASE_OK"
    by (simp add: released_word_def contended_backend_simps lock_value_def)
  have v: "LW_FLAG_HAS_WAITERS + LW_FLAG_RELEASE_OK = (0x60000000 :: uint32)"
    by (simp add: LW_FLAG_HAS_WAITERS_def LW_FLAG_RELEASE_OK_def push_bit_of_1)
  show "\<not> bit (released_word 7 LW_EXCLUSIVE contended_backend) 24" "\<not> bit (released_word 7 LW_EXCLUSIVE contended_backend) 28"
    unfolding w v by simp_all
  show "must_wake (released_word 7 LW_EXCLUSIVE contended_backend)"
    unfolding w v must_wake_def by (simp add: lock_free_def LW_LOCK_MASK_def push_bit_of_1)
qed (simp_all add: contended_backend_simps)

text \<open>
  C34: who is woken. Processes that only wait for the lock to become free are always woken. If the first of the
  others wants the lock in exclusive mode it is woken alone; if it wants it in shared mode, it is woken
  together with all others behind it that do not want exclusive mode. Waking one that will retry forbids
  further wakeups until it has run.
\<close>

theorem wakeup_order:
  assumes "\<forall>p \<in> set us. mode_of p = LW_WAIT_UNTIL_FREE"
  shows "collect_wakeup mode_of us False True = ([], us, True) \<and>
         (mode_of q = LW_EXCLUSIVE \<longrightarrow> collect_wakeup mode_of (us @ q # ps) False True = (ps, us @ [q], False)) \<and>
         (mode_of q = LW_SHARED \<longrightarrow> collect_wakeup mode_of (us @ q # ps) False True =
            (filter (\<lambda>p. mode_of p = LW_EXCLUSIVE) ps, us @ q # filter (\<lambda>p. mode_of p \<noteq> LW_EXCLUSIVE) ps, False))"
  using collect_wakeup_eq [OF assms] by simp

theorem wakeup_order_witness:
  "collect_wakeup (\<lambda>p. if p < 2 then LW_SHARED else LW_EXCLUSIVE) [0, 2, 1, 3] False True = ([2, 3], [0, 1], False)"
  using wakeup_order [of "[]" "\<lambda>p. if p < 2 then LW_SHARED else LW_EXCLUSIVE" 0 "[2, 1, 3]"] by simp

subsection \<open>The array of locks\<close>

text \<open>
  C31: the locks of the second bitmap are not initialised. \<open>InitializeLWLocks\<close> initialises the first
  718 - 256 locks of the main array and leaves the last 256, the partition locks of the second
  bitmap, as the shared memory segment has them.
\<close>

theorem second_bitmap_locks_uninitialised:
  assumes "NUM_FIXED_LWLOCKS \<le> length ls"
  shows "\<exists>ls'. InitializeLWLocks [] counter ls = Inr ([], counter, ls') \<and> length ls' = length ls \<and>
           is_initialised (ls' ! MigrateBitmapPartitionLock e 0) \<and>
           ls' ! MigrateBitmapPartitionLock e 1 = ls ! MigrateBitmapPartitionLock e 1"
proof -
  have "MigrateBitmapPartitionLock e 0 < MIGRATE_BITMAP_OFFSET + NUM_MIGRATE_BITMAP_LOCKS"
    "MIGRATE_BITMAP_OFFSET + NUM_MIGRATE_BITMAP_LOCKS \<le> MigrateBitmapPartitionLock e 1"
    by (simp_all add: MigrateBitmapPartitionLock_def MigrateBitmapPartition_def NUM_MIGRATE_BITMAP_LOCKS_def)
  with InitializeLWLocks_fixed [OF assms] show ?thesis by blast
qed

theorem second_bitmap_locks_uninitialised_witness:
  "\<exists>ls'. InitializeLWLocks [] 71 (replicate NUM_FIXED_LWLOCKS \<lparr>tranche = 0, state = 0, waiters = []\<rparr>) = Inr ([], 71, ls') \<and>
     is_initialised (ls' ! MigrateBitmapPartitionLock 5 0) \<and> state (ls' ! MigrateBitmapPartitionLock 5 1) = 0"
  using second_bitmap_locks_uninitialised [of "replicate NUM_FIXED_LWLOCKS \<lparr>tranche = 0, state = 0, waiters = []\<rparr>" 71 5]
    partition_lock_lt [of 1 5] by auto

text \<open>
  C32: a lock that was never initialised wakes nobody. If the state word of a lock lacks the flag that
  \<open>LWLockInitialize\<close> sets, then a release in exclusive mode leaves the queue and every process as they are, even if
  there are waiters: they sleep on although the lock is free.
\<close>

theorem uninitialised_lock_wakes_nobody:
  assumes "env s = []" and "i < length (locks s)" and "held_lwlocks s = hs @ [(i, LW_EXCLUSIVE)]"
    and "released_word i LW_EXCLUSIVE s = 0 \<or> released_word i LW_EXCLUSIVE s = LW_FLAG_HAS_WAITERS"
    and "0 < InterruptHoldoffCount s"
  shows "\<exists>t. LWLockRelease i s = (Inr (), t) \<and> lock_free LW_EXCLUSIVE (word_of i t) \<and>
           waiters (locks t ! i) = waiters (locks s ! i) \<and> allProcs (shm t) = allProcs (shm s)"
proof -
  let ?w = "released_word i LW_EXCLUSIVE s"
  have b: "\<not> bit ?w 24" "\<not> must_wake ?w"
    using assms(4) by (auto simp: must_wake_def LW_FLAG_HAS_WAITERS_def bit_push_one)
  have "lock_free LW_EXCLUSIVE ?w"
    using assms(4) by (auto simp: lock_free_def LW_FLAG_HAS_WAITERS_def LW_LOCK_MASK_def push_bit_of_1)
  then show ?thesis using release_quiet [OF assms(1-3) b assms(5)] assms(2) by simp
qed

definition zero_lock_backend :: backend where
  "zero_lock_backend = (set_lock 500 (fresh_lock\<lparr>waiters := [1], state := LW_FLAG_HAS_WAITERS + LW_VAL_EXCLUSIVE\<rparr>) fresh_backend)
     \<lparr>held_lwlocks := [(500, LW_EXCLUSIVE)], InterruptHoldoffCount := 1\<rparr>"

theorem uninitialised_lock_wakes_nobody_witness:
  "\<exists>t. LWLockRelease 500 zero_lock_backend = (Inr (), t) \<and> lock_free LW_EXCLUSIVE (word_of 500 t) \<and>
     waiters (locks t ! 500) = waiters (locks zero_lock_backend ! 500) \<and> allProcs (shm t) = allProcs (shm zero_lock_backend)"
  by (rule uninitialised_lock_wakes_nobody [where hs = "[]"])
    (simp_all add: zero_lock_backend_def fresh_backend_def NUM_FIXED_LWLOCKS_eq released_word_def lock_value_def)

text \<open>
  C37: sizes of shared memory are exact or refused. \<open>add_size\<close> and \<open>mul_size\<close> return the sum and the product
  of their arguments as numbers if these fit into 64 bits, and report an error otherwise; they
  never return a value that has wrapped around.
\<close>

theorem shmem_sizes_exact:
  "(if unat a + unat b < 2 ^ 64 then \<exists>c. add_size a b = Inr c \<and> unat c = unat a + unat b
    else add_size a b = Inl (Ereport ''requested shared memory size overflows size_t'')) \<and>
   (if unat a * unat b < 2 ^ 64 then \<exists>c. mul_size a b = Inr c \<and> unat c = unat a * unat b
    else mul_size a b = Inl (Ereport ''requested shared memory size overflows size_t''))"
  using add_size_cases [of a b] mul_size_cases [of a b] by simp

text \<open>
  Names of tranches. A registered tranche is found under its number, the lookup of every other number is
  as before, and the table grows when the number does not fit.
\<close>

lemma register_then_identify:
  assumes "a \<noteq> []"
  shows "\<exists>a'. LWLockRegisterTranche i name (Some a) = Inr (Some a') \<and> length a \<le> length a' \<and>
           GetLWLockIdentifier i a' = name \<and>
           (\<forall>j. j \<noteq> i \<longrightarrow> GetLWLockIdentifier j a' = GetLWLockIdentifier j a)"
proof -
  let ?b = "if i \<ge> length a then a @ replicate (double_to (length a) i - length a) None else a"
  have i: "i < length ?b" using double_to_gt [of "length a" i] assms by auto
  then have "LWLockRegisterTranche i name (Some a) = Inr (Some (?b[i := Some name]))"
    by (simp add: LWLockRegisterTranche_def)
  moreover have "GetLWLockIdentifier j (?b[i := Some name]) = GetLWLockIdentifier j a" if "j \<noteq> i" for j
    using that by (auto simp: GetLWLockIdentifier_def nth_append)
  moreover have "GetLWLockIdentifier i (?b[i := Some name]) = name"
    using i by (simp add: GetLWLockIdentifier_def)
  ultimately show ?thesis by (intro exI [of _ "?b[i := Some name]"]) simp
qed

subsection \<open>Process lists\<close>

text \<open>
  C21: the wait queue of a lock is a doubly linked list threaded through the process table. On any list, empty or
  not, that holds the processes \<open>ps\<close>, a process that is in no list can be inserted at either end, the membership test
  answers whether a process is among \<open>ps\<close>, every process of \<open>ps\<close> can be deleted and is then in no list, and the first one, if
  there is one, can be popped. No link of a process outside of the list is changed; no assertion of proclist.h fails.
\<close>

theorem proclist_refines:
  assumes "plist nodes lst ps" and "unlinked nodes p"
  shows "(\<exists>l n. proclist_push_tail_offset lst (int p) nodes = Inr (l, n) \<and> plist n l (ps @ [p]) \<and>
            (\<forall>r. r \<notin> set (p # ps) \<longrightarrow> n ! r = nodes ! r)) \<and>
         (\<exists>l n. proclist_push_head_offset lst (int p) nodes = Inr (l, n) \<and> plist n l (p # ps) \<and>
            (\<forall>r. r \<notin> set (p # ps) \<longrightarrow> n ! r = nodes ! r)) \<and>
         (\<forall>q\<in>set ps \<union> {r. unlinked nodes r}. proclist_contains_offset lst (int q) nodes = Inr (q \<in> set ps)) \<and>
         (\<forall>ys q zs. ps = ys @ q # zs \<longrightarrow>
            (\<exists>l n. proclist_delete_offset lst (int q) nodes = Inr (l, n) \<and> plist n l (ys @ zs) \<and> unlinked n q \<and>
               (\<forall>r. r \<notin> set ps \<longrightarrow> n ! r = nodes ! r))) \<and>
         (\<forall>h t. ps = h # t \<longrightarrow>
            (\<exists>l n. proclist_pop_head_node_offset lst nodes = Inr (int h, l, n) \<and> plist n l t \<and> unlinked n h \<and>
               (\<forall>r. r \<notin> set ps \<longrightarrow> n ! r = nodes ! r)))"
proof (intro conjI ballI allI impI)
  show "proclist_contains_offset lst (int q) nodes = Inr (q \<in> set ps)" if "q \<in> set ps \<union> {r. unlinked nodes r}" for q
    using contains_plist [OF assms(1), of q] that unlinked_notin [OF assms(1)] assms(1) dseg_bound [of nodes _ ps _ q]
    by (auto simp: unlinked_def plist_def)
  show "\<exists>l n. proclist_pop_head_node_offset lst nodes = Inr (int h, l, n) \<and> plist n l t \<and> unlinked n h \<and>
          (\<forall>r. r \<notin> set ps \<longrightarrow> n ! r = nodes ! r)" if "ps = h # t" for h t
    using pop_head_plist [of nodes lst h t] assms(1) by (simp add: that)
qed (use push_tail_plist [OF assms] push_head_plist [OF assms] delete_plist [of nodes lst] assms(1) in blast)+

text \<open>A process table of four processes, where 2 and then 0 wait.\<close>

definition queue_links :: "proclist_node list" where
  "queue_links = [\<lparr>pnext = INVALID_PGPROCNO, pprev = 2\<rparr>, \<lparr>pnext = 0, pprev = 0\<rparr>,
     \<lparr>pnext = 0, pprev = INVALID_PGPROCNO\<rparr>, \<lparr>pnext = 0, pprev = 0\<rparr>]"

lemma queue_links_plist: "plist queue_links \<lparr>phead = 2, ptail = 0\<rparr> [2, 0]"
  by (simp add: queue_links_def plist_def INVALID_PGPROCNO_def nth_Cons')

theorem proclist_refines_witness:
  "(\<exists>l n. proclist_push_tail_offset \<lparr>phead = 2, ptail = 0\<rparr> 3 queue_links = Inr (l, n) \<and> plist n l [2, 0, 3]) \<and>
   (\<exists>l n. proclist_push_head_offset \<lparr>phead = 2, ptail = 0\<rparr> 3 queue_links = Inr (l, n) \<and> plist n l [3, 2, 0]) \<and>
   (\<exists>l n. proclist_delete_offset \<lparr>phead = 2, ptail = 0\<rparr> 0 queue_links = Inr (l, n) \<and> plist n l [2] \<and> unlinked n 0) \<and>
   (\<exists>l n. proclist_pop_head_node_offset \<lparr>phead = 2, ptail = 0\<rparr> queue_links = Inr (2, l, n) \<and> plist n l [0]) \<and>
   proclist_contains_offset \<lparr>phead = 2, ptail = 0\<rparr> 0 queue_links = Inr True \<and>
   proclist_contains_offset \<lparr>phead = 2, ptail = 0\<rparr> 3 queue_links = Inr False"
proof -
  have u: "unlinked queue_links 3" by (simp add: unlinked_def queue_links_def)
  note f = proclist_refines [OF queue_links_plist u]
  note g = f [THEN conjunct2, THEN conjunct2]
  show ?thesis
    using f [THEN conjunct1] f [THEN conjunct2, THEN conjunct1] g [THEN conjunct1, rule_format, of 0] g [THEN conjunct1, rule_format, of 3] u
      g [THEN conjunct2, THEN conjunct1, rule_format, of "[2]" 0 "[]"] g [THEN conjunct2, THEN conjunct2, rule_format, of 2 "[0]"]
    by simp blast
qed

text \<open>
  C19: the loop of LWLockWakeup over the links of the wait queue, which deletes the processes it wakes while it
  walks, computes what the function on sequences computes: the queue that stays, the
  processes to wake in their order, and whether the lock may wake again. It ends, and no assertion on the links
  fails.
\<close>

theorem wakeup_walk_refines:
  assumes "plist nodes lst ps"
  shows "\<exists>vs nodes'. wakeup_walk mode_of lst nodes = Inr (vs, nodes') \<and>
           (case collect_wakeup mode_of ps False True of (rest, wk, ok) \<Rightarrow>
              plist nodes' (lock_waiters vs) rest \<and> plist nodes' (wakeup_list vs) wk \<and> new_release_ok vs = ok)"
proof (cases "collect_wakeup mode_of ps False True")
  case (fields rest wk ok)
  with wakeup_walk_list [OF assms fields] show ?thesis by simp
qed

theorem wakeup_walk_refines_witness:
  "\<exists>vs nodes'. wakeup_walk (\<lambda>p. if p = 2 then LW_SHARED else LW_EXCLUSIVE) \<lparr>phead = 2, ptail = 0\<rparr> queue_links =
       Inr (vs, nodes') \<and> plist nodes' (lock_waiters vs) [0] \<and> plist nodes' (wakeup_list vs) [2] \<and> \<not> new_release_ok vs"
  using wakeup_walk_refines [OF queue_links_plist, of "\<lambda>p. if p = 2 then LW_SHARED else LW_EXCLUSIVE"]
  by (simp add: Let_def)
end
