(* ===== verification/MigrateRace.thy ===== *)
theory MigrateRace
  imports MigratePlan
begin

unbundle bit_operations_syntax

text \<open>
  Two backends at once. The lock that \<open>MigrateTuple\<close> takes is chosen by the element number modulo 256,
  but thirty-two elements share a word of the bitmap, and the word is updated by a read and a write. Two
  claims on elements of one word take different locks, so one can overwrite the other. The same happens
  when a query ends: \<open>post_query_tasks\<close> sets migrate bits without any lock. The second part follows a call through
  arbitrary changes of the bitmap at each of its accesses, and the third one a sequence of complete calls.
\<close>

subsection \<open>Moves of the others at chosen places\<close>

lemma acquire_idle:
  assumes "env s = id # id # fs" and "i < length (locks s)" and "lock_free LW_EXCLUSIVE (word_of i s)"
    and "length (held_lwlocks s) < MAX_SIMUL_LWLOCKS" and "MyProc s \<noteq> None"
  shows "LWLockAcquire i LW_EXCLUSIVE s = (Inr True, (taken i s)\<lparr>env := fs\<rparr>)"
  unfolding wp_Inr using assms
  by (auto simp: LWLockAcquire_def LWLockAttemptLock_def wp_simps ensure_room_def HOLD_INTERRUPTS_def remember_lock_def
      fix_semaphore_def taken_def set_word_def set_lock_def lock_value_def)

lemma wp_read_idle:
  assumes "env s = id # fs" and "PartialBitmap s = Some b" and "elem_ok (bitmap_of s) b e"
  shows "wp (read_word (getwordid e)) Q E s = Q (bitmap_of s ! (b + unat (getwordid e))) (s\<lparr>env := fs\<rparr>)"
  using assms by (simp add: read_word_def partial_bitmap_def wp_simps elem_ok_def)

lemma wp_write_moved:
  assumes "env s = [f]" and "PartialBitmap s = Some b" and "elem_ok (GlobalBitmap (f (shm s))) b e"
  shows "wp (write_word (getwordid e) w) Q E s =
    Q () (with_bitmap ((GlobalBitmap (f (shm s)))[b + unat (getwordid e) := w]) (s\<lparr>shm := f (shm s), env := []\<rparr>))"
  using assms by (simp add: write_word_def partial_bitmap_def wp_simps elem_ok_def with_bitmap_def)

text \<open>
  The move that a complete call of \<open>MigrateTuple\<close> by the backend \<open>B\<close> makes.
\<close>

definition claim_by :: "backend \<Rightarrow> TupleTableSlot \<Rightarrow> shmem \<Rightarrow> shmem" where
  "claim_by B slot m = shm (snd (MigrateTuple (Some slot) (B\<lparr>shm := m\<rparr>)))"

definition free_elem :: "shmem \<Rightarrow> nat \<Rightarrow> uint32 \<Rightarrow> bool" where
  "free_elem m b e \<longleftrightarrow> elem_ok (GlobalBitmap m) b e \<and> getlockbit (GlobalBitmap m) b e = Inr False \<and>
     getmigratebit (GlobalBitmap m) b e = Inr False"

text \<open>
  The call reads the word twice, takes the lock in two steps, reads the word three times and writes it;
  the move of the others comes right before the write.
\<close>

lemma claim_overwrites:
  assumes r: "lock_ready i A" and b: "PartialBitmap A = Some b" and free: "free_elem (shm A) b e"
    and mv: "f (shm (taken i A)) = (shm (taken i A))\<lparr>GlobalBitmap := m\<rparr>" "length m = length (bitmap_of A)"
    and lists: "local_lists A es0 es1" and room: "2 \<le> room (heap A)"
    and slot: "tts_tuple sl = Some tup" "t_len tup \<noteq> 0" "tuple_eid (t_self tup) = Inr e"
    and i: "i = MigrateBitmapPartitionLock e (BitmapNum A)"
  defines "w \<equiv> bitmap_of A ! (b + unat (getwordid e)) OR push_bit (unat (getlockbitid e)) 1"
  shows "\<exists>t. MigrateTuple (Some sl) (A\<lparr>env := [id, id, id, id, id, id, id, f]\<rparr>) = (Inr True, t) \<and>
           bitmap_of t = m[b + unat (getwordid e) := w]"
proof -
  let ?w = "bitmap_of A ! (b + unat (getwordid e))"
  have ok: "elem_ok (bitmap_of A) b e" and bits: "\<not> bit ?w (unat (getmigratebitid e))" "\<not> bit ?w (unat (getlockbitid e))"
    using free by (auto simp: free_elem_def getmigratebit_eq getlockbit_eq)
  have e0: "env A = []" using r by (simp add: lock_ready_def)
  let ?m = "m[b + unat (getwordid e) := w]"
  have ok': "elem_ok m b e" using ok mv(2) by (simp add: elem_ok_def)
  have "local_lists (with_bitmap ?m A) es0 es1" using lists by (simp add: local_lists_def)
  from append_list0_spec [OF this, of e] room obtain h l where
    app: "append_list0 e (with_bitmap ?m A) = (Inr (), (with_bitmap ?m A)\<lparr>heap := h, InProgLocalList0 := l\<rparr>)"
    by auto
  have acq: "wp (LWLockAcquire i LW_EXCLUSIVE) Q E (A\<lparr>env := id # id # fs\<rparr>) = Q True ((taken i A)\<lparr>env := fs\<rparr>)" for Q E fs
    by (rule wp_of_eq) (use r in \<open>auto simp: acquire_idle lock_ready_def taken_def set_word_def set_lock_def\<close>)
  have same: "(taken i A)\<lparr>env := []\<rparr> = taken i A" using e0 by (simp add: taken_def set_word_def set_lock_def)
  have moved: "(taken i A)\<lparr>shm := f (shm (taken i A)), env := []\<rparr> = with_bitmap m (taken i A)"
    using e0 mv(1) by (simp add: with_bitmap_def taken_def set_word_def set_lock_def)
  have "MigrateTuple (Some sl) (A\<lparr>env := [id, id, id, id, id, id, id, f]\<rparr>) =
      (Inr True, (with_bitmap ?m A)\<lparr>heap := h, InProgLocalList0 := l\<rparr>)"
    unfolding wp_Inr
    using slot bits b ok ok' mv moved
    by (simp add: MigrateTuple_def wp_simps wp_read_idle wp_write_moved acq i [symmetric] same w_def [symmetric]
        wp_release_taken [OF r] wp_of_eq [where m = "append_list0 e", OF app])
  then show ?thesis by simp
qed

subsection \<open>A claim is lost\<close>

definition ready_to_claim :: "backend \<Rightarrow> nat \<Rightarrow> TupleTableSlot \<Rightarrow> uint32 \<Rightarrow> bool" where
  "ready_to_claim A b slot e \<longleftrightarrow> lock_ready (MigrateBitmapPartitionLock e (BitmapNum A)) A \<and> PartialBitmap A = Some b \<and>
     free_elem (shm A) b e \<and> (\<exists>es0 es1. local_lists A es0 es1) \<and> 2 \<le> room (heap A) \<and>
     (\<exists>tup. tts_tuple slot = Some tup \<and> t_len tup \<noteq> 0 \<and> tuple_eid (t_self tup) = Inr e)"

lemma partition_locks_differ:
  assumes "getwordid e = getwordid e'" and "e \<noteq> e'"
  shows "MigrateBitmapPartitionLock e num \<noteq> MigrateBitmapPartitionLock e' num"
proof
  assume "MigrateBitmapPartitionLock e num = MigrateBitmapPartitionLock e' num"
  then have "unat e mod 256 = unat e' mod 256"
    by (simp add: MigrateBitmapPartitionLock_def MigrateBitmapPartition_def NUM_MIGRATE_BITMAP_LOCKS_def)
  then have "unat e mod 256 mod 32 = unat e' mod 256 mod 32" by simp
  then have "unat e mod 32 = unat e' mod 32" by (simp add: mod_mod_cancel)
  moreover have "unat e div 32 = unat e' div 32" using assms(1) unat_getwordid by metis
  ultimately show False using assms(2) unat_div_mod_inj by blast
qed

lemma claim_by_self:
  assumes B: "ready_to_claim B b slot e" and set: "setlockbit (bitmap_of B) b e = Inr m"
  shows "fst (MigrateTuple (Some slot) B) = Inr True"
    and "shm (snd (MigrateTuple (Some slot) B)) = (shm B)\<lparr>GlobalBitmap := m\<rparr>"
proof -
  from B obtain es0 es1 tup where r: "lock_ready (MigrateBitmapPartitionLock e (BitmapNum B)) B"
    and b: "PartialBitmap B = Some b" and free: "free_elem (shm B) b e" and l: "local_lists B es0 es1" and rm: "2 \<le> room (heap B)"
    and slot: "tts_tuple slot = Some tup" "t_len tup \<noteq> 0" "tuple_eid (t_self tup) = Inr e"
    by (auto simp: ready_to_claim_def)
  from claim_alone [OF r b _ _ _ set l rm slot refl] free
  show "fst (MigrateTuple (Some slot) B) = Inr True"
    and "shm (snd (MigrateTuple (Some slot) B)) = (shm B)\<lparr>GlobalBitmap := m\<rparr>"
    by (auto simp: free_elem_def with_bitmap_def)
qed

lemma claim_by_other:
  assumes B: "ready_to_claim B b slot e'" and i: "i \<noteq> MigrateBitmapPartitionLock e' (BitmapNum B)"
    and shm: "shm B = shm A" and set: "setlockbit (bitmap_of A) b e' = Inr m"
  shows "fst (MigrateTuple (Some slot) (B\<lparr>shm := shm (taken i A)\<rparr>)) = Inr True"
    and "claim_by B slot (shm (taken i A)) = (shm (taken i A))\<lparr>GlobalBitmap := m\<rparr>"
proof -
  let ?B = "B\<lparr>shm := shm (taken i A)\<rparr>"
  have "ready_to_claim ?B b slot e'"
    using B i shm by (simp add: ready_to_claim_def lock_ready_def taken_def local_lists_def free_elem_def)
  from claim_by_self [OF this] set
  show "fst (MigrateTuple (Some slot) ?B) = Inr True"
    and "claim_by B slot (shm (taken i A)) = (shm (taken i A))\<lparr>GlobalBitmap := m\<rparr>"
    by (simp_all add: claim_by_def)
qed

subsection \<open>Moves on the bitmap\<close>

text \<open>
  A move of the others that changes the bitmap and nothing else, and a backend in the middle of a call, while the bitmap
  is \<open>m\<close> and the moves \<open>gs\<close> are still to come.
\<close>

definition on_bitmap :: "(uint64 list \<Rightarrow> uint64 list) \<Rightarrow> shmem \<Rightarrow> shmem" where
  "on_bitmap g m = m\<lparr>GlobalBitmap := g (GlobalBitmap m)\<rparr>"

definition keeps_size :: "(uint64 list \<Rightarrow> uint64 list) \<Rightarrow> bool" where
  "keeps_size g \<longleftrightarrow> (\<forall>m. length (g m) = length m)"

definition amid :: "uint64 list \<Rightarrow> (uint64 list \<Rightarrow> uint64 list) list \<Rightarrow> backend \<Rightarrow> backend" where
  "amid m gs s = (with_bitmap m s)\<lparr>env := map on_bitmap gs\<rparr>"

text \<open>The bitmap after the first \<open>k\<close> moves.\<close>

definition bitmap_after :: "(uint64 list \<Rightarrow> uint64 list) list \<Rightarrow> uint64 list \<Rightarrow> nat \<Rightarrow> uint64 list" where
  "bitmap_after gs m k = foldl (\<lambda>m g. g m) m (take k gs)"

lemma amid_simps [simp]:
  "GlobalBitmap (shm (amid m gs s)) = m" "locks (amid m gs s) = locks s" "heap (amid m gs s) = heap s"
  "held_lwlocks (amid m gs s) = held_lwlocks s" "InterruptHoldoffCount (amid m gs s) = InterruptHoldoffCount s"
  "BitmapNum (amid m gs s) = BitmapNum s" "PartialBitmap (amid m gs s) = PartialBitmap s"
  "local_lists (amid m gs s) es0 es1 = local_lists s es0 es1"
  by (simp_all add: amid_def local_lists_def)

lemma env_last: "s\<lparr>env := fs, shm := x\<rparr> = s\<lparr>shm := x, env := fs\<rparr>"
  by simp

lemma others_amid: "others (amid m (g # gs) s) = amid (g m) gs s"
  by (simp add: amid_def others_def on_bitmap_def with_bitmap_def)

lemma others_amid_none: "others (amid m [] s) = amid m [] s"
  by (simp add: amid_def others_def)

lemma wp_read_amid:
  assumes "PartialBitmap s = Some b" and "elem_ok (g m) b e"
  shows "wp (read_word (getwordid e)) Q E (amid m (g # gs) s) = Q (g m ! (b + unat (getwordid e))) (amid (g m) gs s)"
  using assms by (simp add: read_word_def partial_bitmap_def wp_simps elem_ok_def others_amid)

lemma wp_write_amid:
  assumes "PartialBitmap s = Some b" and "elem_ok (g m) b e"
  shows "wp (write_word (getwordid e) w) Q E (amid m (g # gs) s) = Q () (amid ((g m)[b + unat (getwordid e) := w]) gs s)"
  using assms by (simp add: write_word_def partial_bitmap_def wp_simps elem_ok_def others_amid)
    (simp add: amid_def with_bitmap_def env_last)

lemma wp_acquire_amid:
  assumes "lock_ready i s"
  shows "wp (LWLockAcquire i LW_EXCLUSIVE) Q E (amid m (g # g' # gs) s) = Q True (amid (g' (g m)) gs (taken i s))"
proof (rule wp_of_eq)
  show "LWLockAcquire i LW_EXCLUSIVE (amid m (g # g' # gs) s) = (Inr True, amid (g' (g m)) gs (taken i s))"
    unfolding wp_Inr using assms
    by (auto simp: LWLockAcquire_def LWLockAttemptLock_def wp_simps ensure_room_def HOLD_INTERRUPTS_def remember_lock_def
      fix_semaphore_def taken_def set_word_def set_lock_def lock_value_def amid_def with_bitmap_def on_bitmap_def lock_ready_def)
qed

lemma release_amid:
  assumes "lock_ready i s" and o: "\<And>u. others (amid m fs u) = amid m' gs u"
  shows "wp (LWLockRelease i) Q E (amid m fs (taken i s)) = Q () (amid m' gs s)"
proof (rule wp_of_eq)
  have i: "i < length (locks s)" and w: "\<not> bit (word_of i s) 24" "\<not> must_wake (word_of i s)"
    using assms lock_free_exclusive_bit by (auto simp: lock_ready_def)
  have c: "0 < InterruptHoldoffCount s + 1"
    using assms unfolding lock_ready_def by (metis add.inverse_inverse add_eq_0_iff2 word_neq_0_conv)
  have h: "(amid m fs (taken i s))\<lparr>held_lwlocks := held_lwlocks s\<rparr> = amid m fs ((taken i s)\<lparr>held_lwlocks := held_lwlocks s\<rparr>)"
    by (simp add: amid_def with_bitmap_def)
  have t: "held_lwlocks (taken i s) = held_lwlocks s @ [(i, LW_EXCLUSIVE)]" by (simp add: taken_def)
  have l: "word_of i (taken i s) - lock_value LW_EXCLUSIVE = word_of i s" "length (locks (taken i s)) = length (locks s)"
    "InterruptHoldoffCount (taken i s) = InterruptHoldoffCount s + 1" using i by (simp_all add: taken_def)
  have restored: "(set_word i (word_of i s) (amid m' gs ((taken i s)\<lparr>held_lwlocks := held_lwlocks s\<rparr>)))
      \<lparr>InterruptHoldoffCount := InterruptHoldoffCount s\<rparr> = amid m' gs s"
    using i by (simp add: amid_def with_bitmap_def taken_def set_word_def set_lock_def)
  show "LWLockRelease i (amid m fs (taken i s)) = (Inr (), amid m' gs s)"
    unfolding wp_Inr using i w c
    by (auto simp: LWLockRelease_def wp_simps atomic_defs Let_def must_wake_def t h o l restored
      flag_tests both_flags RESUME_INTERRUPTS_def lock_free_def)
qed


lemmas wp_release_amid = release_amid [OF _ others_amid] release_amid [OF _ others_amid_none]

lemma wp_append_amid:
  assumes lists: "local_lists s es0 es1" and room: "2 \<le> room (heap s)"
  shows "(\<And>h l. local_lists (s\<lparr>heap := h, InProgLocalList0 := l\<rparr>) (es0 @ [e]) es1 \<Longrightarrow>
            Q () (amid m gs (s\<lparr>heap := h, InProgLocalList0 := l\<rparr>))) \<Longrightarrow> wp (append_list0 e) Q E (amid m gs s)"
    and "(\<And>h l. local_lists (s\<lparr>heap := h, InProgLocalList1 := l\<rparr>) es0 (es1 @ [e]) \<Longrightarrow>
            Q () (amid m gs (s\<lparr>heap := h, InProgLocalList1 := l\<rparr>))) \<Longrightarrow> wp (append_list1 e) Q E (amid m gs s)"
proof -
  have u: "(amid m gs s)\<lparr>heap := h, InProgLocalList0 := l\<rparr> = amid m gs (s\<lparr>heap := h, InProgLocalList0 := l\<rparr>)"
    "(amid m gs s)\<lparr>heap := h, InProgLocalList1 := l\<rparr> = amid m gs (s\<lparr>heap := h, InProgLocalList1 := l\<rparr>)" for h l
    by (simp_all add: amid_def with_bitmap_def)
  show "wp (append_list0 e) Q E (amid m gs s)"
    if "\<And>h l. local_lists (s\<lparr>heap := h, InProgLocalList0 := l\<rparr>) (es0 @ [e]) es1 \<Longrightarrow> Q () (amid m gs (s\<lparr>heap := h, InProgLocalList0 := l\<rparr>))"
    using append_list0_spec [of "amid m gs s" es0 es1 e] assms that unfolding u amid_simps by (auto simp: wp_of_eq)
  show "wp (append_list1 e) Q E (amid m gs s)"
    if "\<And>h l. local_lists (s\<lparr>heap := h, InProgLocalList1 := l\<rparr>) es0 (es1 @ [e]) \<Longrightarrow> Q () (amid m gs (s\<lparr>heap := h, InProgLocalList1 := l\<rparr>))"
    using append_list1_spec [of "amid m gs s" es0 es1 e] assms that unfolding u amid_simps by (auto simp: wp_of_eq)
qed

text \<open>
  The call reads the word after the first and the second move of the others, takes the lock in two steps, reads the word
  after the fifth, the sixth and the seventh move and writes it after the eighth.
\<close>

lemma wp_migrate_tuple_amid:
  assumes r: "lock_ready (MigrateBitmapPartitionLock e (BitmapNum s)) s" and b: "PartialBitmap s = Some b"
    and slot: "tts_tuple sl = Some tup" "t_len tup \<noteq> 0" "tuple_eid (t_self tup) = Inr e"
    and ok: "elem_ok m b e" and n: "length gs = 8" and g: "\<forall>g \<in> set gs. keeps_size g"
  defines "bm \<equiv> bitmap_after gs m" and "j \<equiv> b + unat (getwordid e)"
  shows "wp (MigrateTuple (Some sl)) Q E (amid m gs s) =
    (if getmigratebit (bm 1) b e = Inr True then Q False (amid (bm 1) (drop 1 gs) s)
     else if getlockbit (bm 2) b e = Inr True then wp (append_list1 e) (\<lambda>_. Q False) E (amid (bm 2) (drop 2 gs) s)
     else if getmigratebit (bm 5) b e = Inr True then Q False (amid (bm 6) (drop 6 gs) s)
     else if getlockbit (bm 6) b e = Inr True then wp (append_list1 e) (\<lambda>_. Q False) E (amid (bm 7) (drop 7 gs) s)
     else wp (append_list0 e) (\<lambda>_. Q True) E
            (amid ((bm 8)[j := bm 7 ! j OR push_bit (unat (getlockbitid e)) 1]) [] s))"
proof -
  from n obtain a1 a2 a3 a4 a5 a6 a7 a8 where gs: "gs = [a1, a2, a3, a4, a5, a6, a7, a8]"
    by (auto simp: length_Suc_conv numeral_nat)
  have len: "\<And>x. length (f x) = length x" if "f \<in> {a1, a2, a3, a4, a5, a6, a7, a8}" for f
    using g that gs by (auto simp: keeps_size_def)
  let ?m2 = "a2 (a1 m)"
  let ?m5 = "a5 (a4 (a3 ?m2))"
  let ?m7 = "a7 (a6 ?m5)"
  have eo: "elem_ok (a1 m) b e" "elem_ok ?m2 b e" "elem_ok ?m5 b e" "elem_ok (a6 ?m5) b e" "elem_ok ?m7 b e" "elem_ok (a8 ?m7) b e"
    using ok by (simp_all add: elem_ok_def len)
  have eta: "(\<lambda>_. wp (ret x) Q E) = (\<lambda>_. Q x)" for x by (simp add: wp_simps fun_eq_iff)
  show ?thesis
    by (simp add: MigrateTuple_def wp_simps Let_def eta slot gs b eo wp_read_amid wp_write_amid wp_acquire_amid [OF r] wp_release_amid [OF r]
        bm_def bitmap_after_def getmigratebit_eq getlockbit_eq j_def)
qed

subsection \<open>Calls one after the other\<close>

text \<open>
  A history of the shared memory: complete calls of \<open>MigrateTuple\<close>, each by some backend, and changes of the bitmap between the
  calls. \<open>run_events\<close> gives the element of each call with its answer, and the shared memory at the end.
\<close>

datatype event = Call backend TupleTableSlot | Change "uint64 list \<Rightarrow> uint64 list"

definition slot_elem :: "TupleTableSlot \<Rightarrow> uint32" where
  "slot_elem sl = (case tts_tuple sl of None \<Rightarrow> 0 | Some tup \<Rightarrow> elem_of tup)"

fun run_events :: "event list \<Rightarrow> shmem \<Rightarrow> ((uint32 \<times> bool) list \<times> shmem) result" where
  "run_events [] m = Inr ([], m)"
| "run_events (Call B sl # evs) m =
     (case MigrateTuple (Some sl) (B\<lparr>shm := m\<rparr>) of
        (Inl e, t) \<Rightarrow> Inl e
      | (Inr r, t) \<Rightarrow> bind_res (run_events evs (shm t)) (\<lambda>(rs, m'). Inr ((slot_elem sl, r) # rs, m')))"
| "run_events (Change g # evs) m = run_events evs (on_bitmap g m)"

fun called :: "event list \<Rightarrow> uint32 list" where
  "called [] = []"
| "called (Call B sl # evs) = slot_elem sl # called evs"
| "called (Change g # evs) = called evs"

text \<open>
  A caller uses the bitmap at \<open>b\<close> and can take its locks; a change keeps the bits that are set.
\<close>

definition keeps_bits :: "nat \<Rightarrow> (uint64 list \<Rightarrow> uint64 list) \<Rightarrow> bool" where
  "keeps_bits b g \<longleftrightarrow> keeps_size g \<and>
     (\<forall>m e. (getlockbit m b e = Inr True \<longrightarrow> getlockbit (g m) b e = Inr True) \<and>
            (getmigratebit m b e = Inr True \<longrightarrow> getmigratebit (g m) b e = Inr True))"

fun event_ok :: "nat \<Rightarrow> shmem \<Rightarrow> event \<Rightarrow> bool" where
  "event_ok b m (Call B sl) \<longleftrightarrow> lock_ready (MigrateBitmapPartitionLock (slot_elem sl) (BitmapNum B)) (B\<lparr>shm := m\<rparr>) \<and>
     PartialBitmap B = Some b \<and> (\<exists>es0 es1. local_lists B es0 es1) \<and> 2 \<le> room (heap B) \<and>
     (\<exists>tup. tts_tuple sl = Some tup \<and> tuple_ok (GlobalBitmap m) b tup)"
| "event_ok b m (Change g) \<longleftrightarrow> keeps_bits b g"

text \<open>What a call does to the shared memory.\<close>

definition bits_grow :: "nat \<Rightarrow> shmem \<Rightarrow> shmem \<Rightarrow> bool" where
  "bits_grow b m m' \<longleftrightarrow> (\<exists>x. m' = m\<lparr>GlobalBitmap := x\<rparr> \<and> length x = length (GlobalBitmap m)) \<and>
     (\<forall>e. (getlockbit (GlobalBitmap m) b e = Inr True \<longrightarrow> getlockbit (GlobalBitmap m') b e = Inr True) \<and>
          (getmigratebit (GlobalBitmap m) b e = Inr True \<longrightarrow> getmigratebit (GlobalBitmap m') b e = Inr True))"

lemma event_ok_grow: "bits_grow b m m' \<Longrightarrow> event_ok b m' ev = event_ok b m ev"
  by (cases ev) (auto simp: bits_grow_def lock_ready_def tuple_ok_def elem_ok_def)

lemma bits_grow_refl [simp]: "bits_grow b m m"
  by (auto simp: bits_grow_def intro!: exI [of _ "GlobalBitmap m"])

lemma bits_grow_trans: "bits_grow b m m' \<Longrightarrow> bits_grow b m' m'' \<Longrightarrow> bits_grow b m m''"
  by (auto simp: bits_grow_def)

lemma local_lists_shm: "local_lists (B\<lparr>shm := m\<rparr>) es0 es1 = local_lists B es0 es1"
  by (simp add: local_lists_def)

lemma call_event:
  assumes "event_ok b m (Call B sl)"
  defines "e \<equiv> slot_elem sl" and "x \<equiv> GlobalBitmap m"
  shows "\<exists>r t. MigrateTuple (Some sl) (B\<lparr>shm := m\<rparr>) = (Inr r, t) \<and> bits_grow b m (shm t) \<and>
    r = (getlockbit x b e = Inr False \<and> getmigratebit x b e = Inr False) \<and>
    (getlockbit (GlobalBitmap (shm t)) b e = Inr True \<or> getmigratebit (GlobalBitmap (shm t)) b e = Inr True)"
proof -
  let ?s = "B\<lparr>shm := m\<rparr>"
  from assms(1) obtain tup es0 es1 where r: "lock_ready (MigrateBitmapPartitionLock e (BitmapNum ?s)) ?s" and b: "PartialBitmap ?s = Some b"
    and l: "local_lists ?s es0 es1" and rm: "2 \<le> room (heap ?s)" and sl: "tts_tuple sl = Some tup" and ok: "tuple_ok x b tup"
    unfolding e_def x_def local_lists_shm event_ok.simps by auto
  have e: "e = elem_of tup" using sl by (simp add: e_def slot_elem_def)
  have tup: "t_len tup \<noteq> 0" "tuple_eid (t_self tup) = Inr e" and eo: "elem_ok (GlobalBitmap (shm ?s)) b e"
    using ok tuple_ok_eid [OF ok] by (simp_all add: tuple_ok_def e x_def)
  have en: "env ?s = []" using r by (simp add: lock_ready_def)
  obtain v u where v: "getmigratebit x b e = Inr v" "getlockbit x b e = Inr u"
    using eo by (auto simp: getmigratebit_eq getlockbit_eq x_def)
  consider "v" | "\<not> v" "u" | "\<not> v" "\<not> u" by blast
  then show ?thesis
  proof cases
    case 1
    with v have "MigrateTuple (Some sl) ?s = (Inr False, ?s)" by (simp add: migrated_alone [OF en b eo _ sl tup] x_def)
    with 1 v show ?thesis by (auto simp: x_def)
  next
    case 2
    with v wait_alone [OF en b eo _ _ l rm sl tup] obtain h k where
      "MigrateTuple (Some sl) ?s = (Inr False, ?s\<lparr>heap := h, InProgLocalList1 := k\<rparr>)" by (auto simp: x_def)
    with 2 v show ?thesis by (auto simp: x_def)
  next
    case 3
    obtain n where n: "setlockbit x b e = Inr n" using eo by (auto simp: setlockbit_eq_Inr x_def)
    with 3 v claim_alone [OF r b eo _ _ _ l rm sl tup refl, of n] obtain h k where
      "MigrateTuple (Some sl) ?s = (Inr True, (with_bitmap n ?s)\<lparr>heap := h, InProgLocalList0 := k\<rparr>)" by (auto simp: x_def)
    moreover have "bits_grow b m (m\<lparr>GlobalBitmap := n\<rparr>)"
      using lock_bits.put_length [OF n] lock_bits.get_put [OF n] migrate_after_setlock [OF n]
      by (auto simp: bits_grow_def x_def)
    ultimately show ?thesis using 3 v lock_bits.get_put [OF n] by (auto simp: x_def with_bitmap_def)
  qed
qed


definition once :: "nat \<Rightarrow> event list \<Rightarrow> shmem \<Rightarrow> (uint32 \<times> bool) list \<Rightarrow> shmem \<Rightarrow> bool" where
  "once b evs m rs m' \<longleftrightarrow> map fst rs = called evs \<and> distinct (map fst (filter snd rs)) \<and>
     (\<forall>e. (e, True) \<in> set rs \<longrightarrow> getlockbit (GlobalBitmap m) b e \<noteq> Inr True \<and> getmigratebit (GlobalBitmap m) b e \<noteq> Inr True) \<and>
     (\<forall>e \<in> set (called evs). getlockbit (GlobalBitmap m') b e = Inr True \<or> getmigratebit (GlobalBitmap m') b e = Inr True)"

lemma run_events_once:
  assumes "\<forall>ev \<in> set evs. event_ok b m ev"
  shows "\<exists>rs m'. run_events evs m = Inr (rs, m') \<and> bits_grow b m m' \<and> once b evs m rs m'"
  using assms
proof (induction evs arbitrary: m)
  case Nil
  then show ?case by (simp add: once_def)
next
  case (Cons ev evs)
  show ?case
  proof (cases ev)
    case (Change g)
    let ?m = "on_bitmap g m"
    have gr: "bits_grow b m ?m"
      using Cons.prems by (auto simp: Change bits_grow_def keeps_bits_def keeps_size_def on_bitmap_def)
    from Cons.IH [of ?m] Cons.prems obtain rs m' where
      *: "run_events evs ?m = Inr (rs, m')" "bits_grow b ?m m'" "once b evs ?m rs m'"
      by (auto simp: event_ok_grow [OF gr])
    have "once b (ev # evs) m rs m'" using *(3) gr by (auto simp: once_def Change bits_grow_def)
    with * bits_grow_trans [OF gr] show ?thesis by (auto simp: Change)
  next
    case (Call B sl)
    let ?e = "slot_elem sl"
    from Cons.prems have "event_ok b m (Call B sl)" by (simp add: Call)
    from call_event [OF this] obtain r t where t: "MigrateTuple (Some sl) (B\<lparr>shm := m\<rparr>) = (Inr r, t)" "bits_grow b m (shm t)"
      "r \<Longrightarrow> getlockbit (GlobalBitmap m) b ?e \<noteq> Inr True \<and> getmigratebit (GlobalBitmap m) b ?e \<noteq> Inr True"
      "getlockbit (GlobalBitmap (shm t)) b ?e = Inr True \<or> getmigratebit (GlobalBitmap (shm t)) b ?e = Inr True" by auto
    from Cons.IH [of "shm t"] Cons.prems obtain rs m' where
      *: "run_events evs (shm t) = Inr (rs, m')" "bits_grow b (shm t) m'" "once b evs (shm t) rs m'"
      by (auto simp: event_ok_grow [OF t(2)])
    have "(?e, True) \<notin> set rs" using *(3) t(4) by (auto simp: once_def)
    then have "once b (ev # evs) m ((?e, r) # rs) m'"
      using *(2,3) t(2-4) by (auto simp: once_def Call bits_grow_def)
    with * t(1) bits_grow_trans [OF t(2)] show ?thesis by (auto simp: Call)
  qed
qed

end
