(* ===== verification/MigrateWait.thy ===== *)
theory MigrateWait
  imports MigratePlan
begin

unbundle bit_operations_syntax

text \<open>
  The end of a query that waits for an element which nobody migrates, while the other backends do anything else: however many moves
  they make, every pass over the second list leaves the element there, so that the loop of \<open>post_query_tasks\<close> is never left.
\<close>

subsection \<open>An element that is not migrated\<close>

definition leaves_unmigrated :: "nat \<Rightarrow> uint32 \<Rightarrow> (shmem \<Rightarrow> shmem) \<Rightarrow> bool" where
  "leaves_unmigrated b w f \<longleftrightarrow> (\<forall>m. length (GlobalBitmap (f m)) = length (GlobalBitmap m) \<and>
     (getmigratebit (GlobalBitmap m) b w = Inr False \<longrightarrow> getmigratebit (GlobalBitmap (f m)) b w = Inr False))"

definition unmigrated :: "nat \<Rightarrow> uint32 \<Rightarrow> uint32 set \<Rightarrow> backend \<Rightarrow> bool" where
  "unmigrated b w es s \<longleftrightarrow> PartialBitmap s = Some b \<and> (\<forall>f \<in> set (env s). leaves_unmigrated b w f) \<and>
     getmigratebit (bitmap_of s) b w = Inr False \<and> (\<forall>e \<in> es. elem_ok (bitmap_of s) b e)"

lemma unmigrated_others: "unmigrated b w es s \<Longrightarrow> unmigrated b w es (others s)"
  by (cases "env s") (auto simp: unmigrated_def leaves_unmigrated_def elem_ok_def)

lemma unmigrated_private [simp]:
  "unmigrated b w es (s\<lparr>heap := h, InProgLocalList1 := l\<rparr>) = unmigrated b w es s"
  by (simp add: unmigrated_def)

lemma wp_get_migrate_bit_any:
  assumes "unmigrated b w es s" and "e \<in> es"
  shows "\<exists>v. (\<forall>Q E. wp (get_migrate_bit e) Q E s = Q v (others s)) \<and> (e = w \<longrightarrow> \<not> v)"
  using unmigrated_others [OF assms(1)] assms(2)
  by (auto simp: unmigrated_def get_migrate_bit_def read_word_def partial_bitmap_def wp_simps elem_ok_def getmigratebit_eq)

lemma set_migrate_bit_any:
  assumes "unmigrated b w es s" and "e \<in> es" and "e \<noteq> w"
  shows "wp (set_migrate_bit e) (\<lambda>_ t. unmigrated b w es t \<and> heap t = heap s \<and> InProgLocalList1 t = InProgLocalList1 s) (\<lambda>_ _. False) s"
proof -
  let ?t = "others s" and ?j = "b + unat (getwordid e)"
  let ?u = "others ?t"
  have t: "unmigrated b w es ?t" and u: "unmigrated b w es ?u" using assms(1) unmigrated_others by blast+
  let ?m = "(bitmap_of ?u)[?j := bitmap_of ?t ! ?j OR push_bit (unat (getmigratebitid e)) 1]"
  have ok: "elem_ok (bitmap_of ?u) b w" "elem_ok (bitmap_of ?u) b e" and clear:
    "\<not> bit (bitmap_of ?t ! (b + unat (getwordid w))) (unat (getmigratebitid w))"
    "\<not> bit (bitmap_of ?u ! (b + unat (getwordid w))) (unat (getmigratebitid w))"
    using t u assms(2) by (auto simp: unmigrated_def getmigratebit_eq split: if_splits)
  have "getmigratebit ?m b w = Inr False"
  proof (cases "getwordid e = getwordid w")
    case True
    then have "unat (getmigratebitid w) \<noteq> unat (getmigratebitid e)" using pos_iffs(2) [of w e] assms(3) by auto
    with True ok clear show ?thesis by (simp add: getmigratebit_eq elem_ok_def bit_set_one bitids_lt_64 del: push_bit_of_1)
  next
    case False
    then have "unat (getwordid e) \<noteq> unat (getwordid w)" by (simp add: word_unat_eq_iff)
    with ok clear show ?thesis by (simp add: getmigratebit_eq elem_ok_def)
  qed
  then show ?thesis
    using t u assms(2)
    by (auto simp: set_migrate_bit_def read_word_def write_word_def partial_bitmap_def wp_simps unmigrated_def elem_ok_def)
qed

subsection \<open>The loop\<close>

text \<open>
  After a pass over the elements \<open>fs\<close>: the list has kept some of them, \<open>w\<close> among them, and the size has been counted down for each
  of the others.
\<close>

definition pass_left where
  "pass_left b w es l0 ws ys fs sz r t \<longleftrightarrow> (\<exists>zs fs'. unmigrated b w es t \<and> list1_is l0 ws (ys @ zs) t \<and>
     map snd zs = map IntValue fs' \<and> set fs' \<subseteq> es \<and> (w \<in> set fs \<longrightarrow> w \<in> set fs') \<and> r = sz - int (length fs) + int (length fs'))"

lemma pass_left_kept:
  assumes "pass_left b w es l0 ws (ys @ [(a, IntValue e)]) fs sz r t" and "e \<in> es"
  shows "pass_left b w es l0 ws ys (e # fs) sz r t"
proof -
  from assms(1) obtain zs fs' where "unmigrated b w es t" "list1_is l0 ws (ys @ (a, IntValue e) # zs) t"
    "map snd ((a, IntValue e) # zs) = map IntValue (e # fs')" "set fs' \<subseteq> es" "w \<in> set fs \<longrightarrow> w \<in> set fs'"
    "r = sz - int (length fs) + int (length fs')"
    by (auto simp: pass_left_def)
  then show ?thesis
    unfolding pass_left_def using assms(2)
    by (intro exI [of _ "(a, IntValue e) # zs"] exI [of _ "e # fs'"]) simp
qed

lemma pass_left_dropped:
  "pass_left b w es l0 ws ys fs (sz - 1) r t \<Longrightarrow> e \<noteq> w \<Longrightarrow> pass_left b w es l0 ws ys (e # fs) sz r t"
  unfolding pass_left_def by (elim exE, intro exI) auto

lemma drop_migrated_any:
  assumes "unmigrated b w es s" and "list1_is l0 ws (ys @ zs) s" and "map snd zs = map IntValue fs" and "set fs \<subseteq> es"
    and "length zs < n"
  shows "wp (drop_migrated n (first_addr zs 0) (last (0 # map fst ys)) sz) (pass_left b w es l0 ws ys fs sz) (\<lambda>_ _. False) s"
  using assms
proof (induction zs arbitrary: n s ys fs sz)
  case Nil
  then show ?case by (cases n) (auto simp: wp_simps pass_left_def intro!: exI [of _ "[]"])
next
  case (Cons z zs)
  from Cons.prems obtain n' where n: "n = Suc n'" "length zs < n'" by (cases n) auto
  from Cons.prems(3) obtain a e gs where z: "z = (a, IntValue e)" and fs: "fs = e # gs" "map snd zs = map IntValue gs"
    by (cases z) (auto simp: Cons_eq_map_conv)
  have "seg (heap s) Malloc (ys @ (a, IntValue e) # zs) 0"
    using Cons.prems(2) rep_seg unfolding list1_is_def z by blast
  then have c: "a \<noteq> 0" "cells (heap s) a = Some (mk_cell (IntValue e) (first_addr zs 0) Malloc)" by (simp_all add: seg_append)
  let ?s = "others s"
  have us: "unmigrated b w es ?s" using Cons.prems(1) by (rule unmigrated_others)
  from wp_get_migrate_bit_any [OF Cons.prems(1), of e] Cons.prems(4) fs obtain v where
    bit: "\<And>Q E. wp (get_migrate_bit e) Q E s = Q v ?s" and v: "e = w \<Longrightarrow> \<not> v" by auto
  have l1: "list1_is l0 ws (ys @ z # zs) ?s" using Cons.prems(2) by (simp add: list1_is_def)
  show ?case
  proof (cases v)
    case False
    have "last (0 # map fst (ys @ [z])) = a" by (simp add: z)
    moreover have "list1_is l0 ws ((ys @ [z]) @ zs) ?s" using l1 by simp
    ultimately have "wp (drop_migrated n' (first_addr zs 0) a sz) (pass_left b w es l0 ws (ys @ [z]) gs sz) (\<lambda>_ _. False) ?s"
      using Cons.IH [OF us, of "ys @ [z]" gs n' sz] Cons.prems(4) n fs by simp
    then have "wp (drop_migrated n' (first_addr zs 0) a sz) (pass_left b w es l0 ws ys fs sz) (\<lambda>_ _. False) ?s"
      by (rule wp_mono) (use pass_left_kept Cons.prems(4) fs z in auto)
    then show ?thesis using n c z bit False by (simp add: wp_simps lfirst_int_def)
  next
    case True
    from delete_list1 [of l0 ws ys a "IntValue e" zs ?s] l1 obtain l h where
      del: "pg_list_delete_cell (InProgLocalList1 s) a (last (0 # map fst ys)) (heap s) = Inr (l, h)"
      and d: "list1_is l0 ws (ys @ zs) (?s\<lparr>heap := h, InProgLocalList1 := l\<rparr>)"
      unfolding z by auto
    let ?t = "?s\<lparr>heap := h, InProgLocalList1 := l\<rparr>"
    have "wp (drop_migrated n' (first_addr zs 0) (last (0 # map fst ys)) (sz - 1)) (pass_left b w es l0 ws ys gs (sz - 1)) (\<lambda>_ _. False) ?t"
      using Cons.IH [of ?t ys gs n' "sz - 1"] us Cons.prems(4) d n fs by simp
    then have "wp (drop_migrated n' (first_addr zs 0) (last (0 # map fst ys)) (sz - 1)) (pass_left b w es l0 ws ys fs sz) (\<lambda>_ _. False) ?t"
      by (rule wp_mono) (use pass_left_dropped [of b w es l0 ws ys gs sz] v True fs in auto)
    then show ?thesis
      using n c z bit True del by (simp add: wp_simps lfirst_int_def del: last.simps)
  qed
qed

lemma wait_migrated_never:
  assumes "unmigrated b w es s" and "list1_is l0 ws xs s" and "map snd xs = map IntValue fs" and "set fs \<subseteq> es" and "w \<in> set fs"
  shows "wp (wait_migrated n (int (length fs))) (\<lambda>_ _. False) (\<lambda>e _. e = Blocked) s"
  using assms
proof (induction n arbitrary: s xs fs)
  case 0
  then show ?case by (auto simp: wait_migrated.simps [of 0] wp_simps)
next
  case (Suc n)
  have rp: "rep (heap s) Malloc T_IntList (InProgLocalList1 s) xs" and wf: "wf_store (heap s)"
    using Suc.prems(2) by (simp_all add: list1_is_def)
  have "wp (drop_migrated (loop_bound (heap s)) (first_addr xs 0) 0 (int (length fs)))
     (pass_left b w es l0 ws [] fs (int (length fs))) (\<lambda>_ _. False) s"
    using drop_migrated_any [OF Suc.prems(1), of l0 ws "[]" xs fs] Suc.prems rep_length_lt [OF wf rp] by simp
  then have "wp (drop_migrated (loop_bound (heap s)) (first_addr xs 0) 0 (int (length fs)))
     (\<lambda>r. wp (wait_migrated n r) (\<lambda>_ _. False) (\<lambda>e _. e = Blocked)) (\<lambda>e _. e = Blocked) s"
    by (rule wp_mono) (use Suc.IH Suc.prems(5) in \<open>auto simp: pass_left_def\<close>)
  moreover have "\<not> int (length fs) \<le> 0" using Suc.prems(5) by (cases fs) auto
  ultimately show ?case by (simp add: wait_migrated.simps [of "Suc n"] wp_simps rep_list_head [OF rp])
qed

lemma post_query_never:
  assumes c: "claims s b es0 es1" and flag: "migrateflag s" and w: "w \<in> set es1" "w \<notin> migrated s b" "w \<notin> set es0"
    and fs: "\<forall>f \<in> set fs. leaves_unmigrated b w f"
  shows "wp post_query_tasks (\<lambda>_ _. False) (\<lambda>e _. e = Blocked) (s\<lparr>env := fs\<rparr>)"
proof -
  let ?es = "set (es0 @ es1)" and ?s = "s\<lparr>env := fs\<rparr>"
  from c have b: "PartialBitmap s = Some b" and l: "local_lists s es0 es1" and ok: "\<forall>e \<in> ?es. elem_ok (bitmap_of s) b e"
    by (auto simp: claims_def list_elems_ok_def)
  have u: "unmigrated b w ?es ?s"
    using b fs ok w by (auto simp: unmigrated_def migrated_def getmigratebit_eq)
  from l obtain xs0 xs1 where wf: "wf_store (heap s)"
    and l0: "holds T_IntList IntValue (heap s) Malloc (InProgLocalList0 s) es0 xs0"
    and l1: "holds T_IntList IntValue (heap s) Malloc (InProgLocalList1 s) es1 xs1"
    and d: "addrs xs0 \<inter> addrs xs1 = {}" "InProgLocalList0 s = InProgLocalList1 s \<longrightarrow> InProgLocalList0 s = 0"
    by (auto simp: local_lists_def)
  let ?I = "\<lambda>_ t. unmigrated b w ?es t \<and> heap t = heap s \<and> InProgLocalList1 t = InProgLocalList1 s"
  have "wp (each_in_list set_migrate_bit (InProgLocalList0 s)) (\<lambda>_. ?I ()) (\<lambda>_ _. False) ?s"
    by (rule wp_each_in_list [where I = "\<lambda>_ t. ?I () t" and es = es0 and xs = xs0 and org = Malloc])
      (use l0 wf u w(3) wp_mono [OF set_migrate_bit_any [of b w ?es]] in auto)
  then have "wp (each_in_list set_migrate_bit (InProgLocalList0 s))
      (\<lambda>_. wp (bindp (gets InProgLocalList1) (\<lambda>l1. bindp (heap_op (list_length l1)) (\<lambda>sz.
               thenp (with_fuel (\<lambda>n. wait_migrated n sz)) k))) (\<lambda>_ _. False) (\<lambda>e _. e = Blocked)) (\<lambda>e _. e = Blocked) ?s" for k
  proof (rule wp_mono)
    fix t assume t: "?I () t"
    then have "list1_is (InProgLocalList0 s) xs0 xs1 t" "map snd xs1 = map IntValue es1"
      using wf l0 l1 d holds_rep by (auto simp: list1_is_def holds_def)
    with wait_migrated_never [of b w ?es t "InProgLocalList0 s" xs0 xs1 es1] t w(1)
    have "wp (wait_migrated n (int (length es1))) (\<lambda>_ _. False) (\<lambda>e _. e = Blocked) t" for n by auto
    then have never: "wp (wait_migrated n (int (length es1))) Q (\<lambda>e _. e = Blocked) t" for n Q by (rule wp_mono) simp_all
    have "list_length (InProgLocalList1 s) (heap s) = Inr (int (length es1))"
      using rep_list_length [OF holds_rep [OF l1]] \<open>map snd xs1 = map IntValue es1\<close> by (metis length_map)
    with t never show "wp (bindp (gets InProgLocalList1) (\<lambda>l1. bindp (heap_op (list_length l1)) (\<lambda>sz.
        thenp (with_fuel (\<lambda>n. wait_migrated n sz)) k))) (\<lambda>_ _. False) (\<lambda>e _. e = Blocked) t"
      by (simp add: wp_simps)
  qed simp
  note rest = this [of "thenp free_lists (modify (\<lambda>s. s\<lparr>InProgLocalList0 := NIL, InProgLocalList1 := NIL,
                      tuplemigratecount := 0, migrateflag := False\<rparr>))"]
  from rest flag show ?thesis by (simp add: post_query_tasks_def wp_thenp wp_bindp wp_gets wp_whenp)
qed

subsection \<open>A query that is never over\<close>

text \<open>The query runs alone until its plan is done; then the others make the moves \<open>fs\<close>.\<close>

definition query_among where
  "query_among fs qs fuel estate node ts =
     thenp (bind_migration qs)
     (bindp (run_plan fuel estate node ts) (\<lambda>(estate, node, dest).
     thenp (modify (\<lambda>s. s\<lparr>env := fs\<rparr>))
     (thenp post_query_tasks (ret dest))))"

lemma query_among_never:
  assumes "binds qs num b" and "idle s num" and "scan_input s b fuel estate node ts"
    and "claim_all (passes node) (locked s b) (migrated s b) ts = (cs, ws)"
    and w: "w \<in> set ws" "w \<notin> migrated s b" "w \<notin> elem_of ` set cs" and fs: "\<forall>f \<in> set fs. leaves_unmigrated b w f"
  shows "wp (query_among fs qs fuel estate node ts) (\<lambda>_ _. False) (\<lambda>e _. e = Blocked) s"
  unfolding query_among_def
proof (rule query_then [OF assms(1-4)])
  fix t
  assume "claims t b (map elem_of cs) ws" "migrateflag t" "migrated t b = migrated s b"
  with post_query_never [of t b "map elem_of cs" ws w fs] w fs
  have "wp post_query_tasks (\<lambda>_ _. False) (\<lambda>e _. e = Blocked) (t\<lparr>env := fs\<rparr>)" by simp
  then show "wp (thenp (modify (\<lambda>s. s\<lparr>env := fs\<rparr>)) (thenp post_query_tasks (ret (map (\<lambda>tup. project node (Some (holding tup))) cs))))
      (\<lambda>_ _. False) (\<lambda>e _. e = Blocked) t"
    by (auto simp: wp_thenp wp_modify elim: wp_mono)
qed

end
