(* ===== verification/PredicateFacts.thy ===== *)
theory PredicateFacts
  imports PredicateEnd
begin

unbundle bit_operations_syntax

text \<open>
  Facts on the conflicts of serializable transactions: an invariant that says which links each queue holds
  (\<open>queues_ok\<close>) and what recording and releasing a conflict do to it; the check of a new conflict said with the relation of
  recorded dependencies; and the check before commit, which dooms every pivot that could complete a
  dangerous structure.
\<close>

subsection \<open>Weakest preconditions\<close>

lemma wp_get_sxact [wp_simps]:
  "wp (get_sxact x) Q E s = (if x < length (element s) then Q (element s ! x) s else E OutOfBounds s)"
  by (simp add: get_sxact_def wp_simps aload_def)

lemma wp_get_conflict [wp_simps]:
  "wp (get_conflict c) Q E s = (if c < length (pool s) then Q (pool s ! c) s else E OutOfBounds s)"
  by (simp add: get_conflict_def wp_simps aload_def)

lemma wp_upd_sxact [wp_simps]:
  "wp (upd_sxact x f) Q E s =
     (if x < length (element s) then Q () (s\<lparr>element := (element s)[x := f (element s ! x)]\<rparr>) else E OutOfBounds s)"
  by (simp add: upd_sxact_def wp_simps)

lemma wp_set_flag [wp_simps]:
  "wp (set_flag x m) Q E s =
     (if x < length (element s)
      then Q () (s\<lparr>element := (element s)[x := (element s ! x)\<lparr>flags := flags (element s ! x) OR m\<rparr>]\<rparr>)
      else E OutOfBounds s)"
  by (simp add: set_flag_def wp_simps)

lemma wp_anyp:
  assumes "\<And>x Q. x \<in> set xs \<Longrightarrow> wp (f x) Q E s = Q (P x) s"
  shows "wp (anyp f xs) Q E s = Q (\<exists>x \<in> set xs. P x) s"
  using assms by (induction xs) (simp_all add: wp_simps)

subsection \<open>Flags\<close>

lemma flag_masks:
  "SXACT_FLAG_COMMITTED = push_bit 0 1" "SXACT_FLAG_PREPARED = push_bit 1 1" "SXACT_FLAG_ROLLED_BACK = push_bit 2 1"
  "SXACT_FLAG_DOOMED = push_bit 3 1" "SXACT_FLAG_CONFLICT_OUT = push_bit 4 1" "SXACT_FLAG_READ_ONLY = push_bit 5 1"
  "SXACT_FLAG_DEFERRABLE_WAITING = push_bit 6 1" "SXACT_FLAG_RO_SAFE = push_bit 7 1" "SXACT_FLAG_RO_UNSAFE = push_bit 8 1"
  "SXACT_FLAG_SUMMARY_CONFLICT_IN = push_bit 9 1" "SXACT_FLAG_SUMMARY_CONFLICT_OUT = push_bit 10 1"
  by (simp_all add: SXACT_FLAG_COMMITTED_def SXACT_FLAG_PREPARED_def SXACT_FLAG_ROLLED_BACK_def
      SXACT_FLAG_DOOMED_def SXACT_FLAG_CONFLICT_OUT_def SXACT_FLAG_READ_ONLY_def SXACT_FLAG_DEFERRABLE_WAITING_def
      SXACT_FLAG_RO_SAFE_def SXACT_FLAG_RO_UNSAFE_def SXACT_FLAG_SUMMARY_CONFLICT_IN_def
      SXACT_FLAG_SUMMARY_CONFLICT_OUT_def push_bit_of_1)

lemma sxact_bits:
  "SxactIsCommitted x \<longleftrightarrow> bit (flags x) 0" "SxactIsPrepared x \<longleftrightarrow> bit (flags x) 1" "SxactIsRolledBack x \<longleftrightarrow> bit (flags x) 2"
  "SxactIsDoomed x \<longleftrightarrow> bit (flags x) 3" "SxactHasConflictOut x \<longleftrightarrow> bit (flags x) 4" "SxactIsReadOnly x \<longleftrightarrow> bit (flags x) 5"
  "SxactIsDeferrableWaiting x \<longleftrightarrow> bit (flags x) 6" "SxactIsROSafe x \<longleftrightarrow> bit (flags x) 7" "SxactIsROUnsafe x \<longleftrightarrow> bit (flags x) 8"
  "SxactHasSummaryConflictIn x \<longleftrightarrow> bit (flags x) 9" "SxactHasSummaryConflictOut x \<longleftrightarrow> bit (flags x) 10"
  unfolding SxactIsCommitted_def SxactIsPrepared_def SxactIsRolledBack_def SxactIsDoomed_def SxactIsReadOnly_def
    SxactHasConflictOut_def SxactIsDeferrableWaiting_def SxactIsROSafe_def SxactIsROUnsafe_def
    SxactHasSummaryConflictIn_def SxactHasSummaryConflictOut_def flag_masks
  by (simp_all only: and_push_one_nonzero)

subsection \<open>The queues\<close>

text \<open>
  The conflicts of the pool are of three kinds: \<open>E\<close> records a dependency, \<open>U\<close> a possible unsafe snapshot, \<open>A\<close> is
  available. The queues hold exactly the links that belong there.
\<close>

definition queues_ok :: "ssi \<Rightarrow> nat set \<Rightarrow> nat set \<Rightarrow> nat set \<Rightarrow> bool" where
  "queues_ok s E U A \<longleftrightarrow>
     E \<inter> U = {} \<and> E \<inter> A = {} \<and> U \<inter> A = {} \<and> (\<forall>c \<in> E \<union> U \<union> A. c < length (pool s)) \<and>
     (\<forall>c \<in> E \<union> U. sxactOut (pool s ! c) < length (element s) \<and> sxactIn (pool s ! c) < length (element s)) \<and>
     (\<forall>x < length (element s).
        set (outConflicts (element s ! x)) = OutLink ` {c \<in> E. sxactOut (pool s ! c) = x} \<and>
        set (inConflicts (element s ! x)) = InLink ` {c \<in> E. sxactIn (pool s ! c) = x} \<and>
        set (possibleUnsafeConflicts (element s ! x)) =
          OutLink ` {c \<in> U. sxactOut (pool s ! c) = x} \<union> InLink ` {c \<in> U. sxactIn (pool s ! c) = x}) \<and>
     set (poolAvailable s) = OutLink ` A"

text \<open>What a transaction is apart from its queues, and what the shared data are apart from queues and conflicts.\<close>

definition strip :: "SERIALIZABLEXACT \<Rightarrow> SERIALIZABLEXACT" where
  "strip x = x\<lparr>outConflicts := [], inConflicts := [], possibleUnsafeConflicts := []\<rparr>"

definition same_xacts :: "ssi \<Rightarrow> ssi \<Rightarrow> bool" where
  "same_xacts s t \<longleftrightarrow> map strip (element t) = map strip (element s) \<and>
     t\<lparr>element := [], poolAvailable := [], pool := []\<rparr> = s\<lparr>element := [], poolAvailable := [], pool := []\<rparr>"

lemma strip_eq:
  assumes "strip x = strip y"
  shows "prepareSeqNo x = prepareSeqNo y" "commitSeqNo x = commitSeqNo y" "SeqNo x = SeqNo y" "topXid x = topXid y"
    "finishedBefore x = finishedBefore y" "xmin x = xmin y" "flags x = flags y" "pid x = pid y"
  using assms by (cases x; cases y; simp add: strip_def)+

lemma same_xacts_fields:
  assumes "same_xacts s t"
  shows "availableList t = availableList s" "activeList t = activeList s"
    "SxactGlobalXmin t = SxactGlobalXmin s" "SxactGlobalXminCount t = SxactGlobalXminCount s"
    "WritableSxactCount t = WritableSxactCount s" "LastSxactCommitSeqNo t = LastSxactCommitSeqNo s"
    "OldCommittedSxact t = OldCommittedSxact s" "FinishedSerializableTransactions t = FinishedSerializableTransactions s"
  using assms by (cases s; cases t; simp add: same_xacts_def)+

lemma same_xacts_length: "same_xacts s t \<Longrightarrow> length (element t) = length (element s)"
  unfolding same_xacts_def by (metis length_map)

lemma same_xacts_flags:
  assumes "same_xacts s t" and "x < length (element s)"
  shows "flags (element t ! x) = flags (element s ! x)" "prepareSeqNo (element t ! x) = prepareSeqNo (element s ! x)"
    "commitSeqNo (element t ! x) = commitSeqNo (element s ! x)" "SeqNo (element t ! x) = SeqNo (element s ! x)"
proof -
  have "strip (element t ! x) = strip (element s ! x)"
    using assms unfolding same_xacts_def by (metis length_map nth_map)
  from strip_eq [OF this]
  show "flags (element t ! x) = flags (element s ! x)" "prepareSeqNo (element t ! x) = prepareSeqNo (element s ! x)"
    "commitSeqNo (element t ! x) = commitSeqNo (element s ! x)" "SeqNo (element t ! x) = SeqNo (element s ! x)"
    by simp_all
qed

subsection \<open>Giving a conflict back\<close>

definition released :: "nat \<Rightarrow> ssi \<Rightarrow> ssi" where
  "released c s = s\<lparr>element := map (unlink_from (OutLink c)) (map (unlink_from (InLink c)) (element s)),
     poolAvailable := removeAll (OutLink c) (removeAll (InLink c) (poolAvailable s)) @ [OutLink c]\<rparr>"

lemma strip_unlink [simp]: "strip (unlink_from l x) = strip x"
  by (simp add: strip_def unlink_from_def)

lemma released_same: "same_xacts s (released c s)" "pool (released c s) = pool s"
  by (simp_all add: same_xacts_def released_def comp_def)

lemma released_queues:
  assumes "queues_ok s E U A" and "c \<in> E \<union> U"
  shows "queues_ok (released c s) (E - {c}) (U - {c}) (insert c A)"
proof -
  have q: "set (outConflicts (element (released c s) ! x)) = set (outConflicts (element s ! x)) - {OutLink c, InLink c}"
    "set (inConflicts (element (released c s) ! x)) = set (inConflicts (element s ! x)) - {OutLink c, InLink c}"
    "set (possibleUnsafeConflicts (element (released c s) ! x)) = set (possibleUnsafeConflicts (element s ! x)) - {OutLink c, InLink c}"
    if "x < length (element s)" for x
    using that by (auto simp: released_def unlink_from_def)
  have "length (element (released c s)) = length (element s)" "pool (released c s) = pool s"
    "set (poolAvailable (released c s)) = insert (OutLink c) (set (poolAvailable s) - {InLink c})"
    by (auto simp: released_def)
  with assms q show ?thesis unfolding queues_ok_def by auto
qed

lemma linked_iff:
  assumes "queues_ok s E U A"
  shows "linked (OutLink c) s \<longleftrightarrow> c \<in> E \<union> U \<union> A" and "linked (InLink c) s \<longleftrightarrow> c \<in> E \<union> U"
proof -
  have ex: "list_ex P (element s) \<longleftrightarrow> (\<exists>x < length (element s). P (element s ! x))" for P
    by (metis in_set_conv_nth list_ex_iff)
  show "linked (OutLink c) s \<longleftrightarrow> c \<in> E \<union> U \<union> A" "linked (InLink c) s \<longleftrightarrow> c \<in> E \<union> U"
    using assms by (auto simp: linked_def ex queues_ok_def)
qed

lemma wp_ReleaseRWConflict:
  assumes "queues_ok s E U A"
  shows "wp (ReleaseRWConflict c) Q Er s = (if c \<in> E \<union> U then Q () (released c s) else Er AssertFail s)"
proof (cases "c \<in> E \<union> U")
  case True
  let ?t = "s\<lparr>element := map (unlink_from (InLink c)) (element s), poolAvailable := removeAll (InLink c) (poolAvailable s)\<rparr>"
  have "linked (OutLink c) ?t"
    using linked_iff(1) [OF assms, of c] True by (auto simp: linked_def list_ex_iff unlink_from_def)
  then show ?thesis
    using linked_iff(2) [OF assms, of c] True
    by (simp add: ReleaseRWConflict_def SHMQueueDelete_link_def wp_simps released_def)
next
  case False
  then show ?thesis
    using linked_iff(2) [OF assms, of c] by (simp add: ReleaseRWConflict_def SHMQueueDelete_link_def wp_simps)
qed


subsection \<open>Recording a conflict\<close>

definition filled :: "nat \<Rightarrow> nat \<Rightarrow> nat \<Rightarrow> ssi \<Rightarrow> ssi" where
  "filled c out inn s = s\<lparr>element := map (unlink_from (OutLink c)) (element s),
     poolAvailable := removeAll (OutLink c) (poolAvailable s), pool := (pool s)[c := \<lparr>sxactOut = out, sxactIn = inn\<rparr>]\<rparr>"

lemma wp_take_conflict:
  assumes "queues_ok s E U A"
    and "\<And>c ls. poolAvailable s = OutLink c # ls \<Longrightarrow> c \<in> A \<Longrightarrow> Q c (filled c out inn s)"
    and "poolAvailable s = [] \<Longrightarrow> Er (Ereport msg) s"
  shows "wp (take_conflict msg out inn) Q Er s"
proof (cases "poolAvailable s")
  case Nil
  with assms(3) show ?thesis by (simp add: take_conflict_def wp_simps)
next
  case (Cons l ls)
  moreover have "set (poolAvailable s) = OutLink ` A" using assms(1) by (simp add: queues_ok_def)
  ultimately have "l \<in> OutLink ` A" by (metis list.set_intros(1))
  then obtain c where l: "l = OutLink c" "c \<in> A" by blast
  moreover have "c < length (pool s)" "linked (OutLink c) s"
    using assms(1) l linked_iff(1) [OF assms(1)] by (auto simp: queues_ok_def)
  ultimately show ?thesis
    using assms(2) [of c ls] Cons by (simp add: take_conflict_def SHMQueueDelete_link_def wp_simps filled_def)
qed

text \<open>The dependency \<open>c\<close> from \<open>r\<close> to \<open>w\<close>, and the possible unsafe conflict of \<open>ro\<close> with \<open>act\<close>.\<close>

definition with_edge :: "nat \<Rightarrow> nat \<Rightarrow> nat \<Rightarrow> ssi \<Rightarrow> ssi" where
  "with_edge c r w s = (let t = filled c r w s in
     t\<lparr>element := (element t)[r := (element t ! r)\<lparr>outConflicts := outConflicts (element t ! r) @ [OutLink c]\<rparr>,
         w := (element t ! w)\<lparr>inConflicts := inConflicts (element t ! w) @ [InLink c]\<rparr>]\<rparr>)"

definition with_unsafe :: "nat \<Rightarrow> nat \<Rightarrow> nat \<Rightarrow> ssi \<Rightarrow> ssi" where
  "with_unsafe c act ro s = (let t = filled c act ro s in
     t\<lparr>element := (element t)[act := (element t ! act)\<lparr>possibleUnsafeConflicts := possibleUnsafeConflicts (element t ! act) @ [OutLink c]\<rparr>,
         ro := (element t ! ro)\<lparr>possibleUnsafeConflicts := possibleUnsafeConflicts (element t ! ro) @ [InLink c]\<rparr>]\<rparr>)"

lemma filled_lists:
  assumes "queues_ok s E U A" and "c \<in> A" and "x < length (element s)"
  shows "set (outConflicts (element (filled c r w s) ! x)) = set (outConflicts (element s ! x))"
    "set (inConflicts (element (filled c r w s) ! x)) = set (inConflicts (element s ! x))"
    "set (possibleUnsafeConflicts (element (filled c r w s) ! x)) = set (possibleUnsafeConflicts (element s ! x))"
  using assms unfolding queues_ok_def by (auto simp: filled_def unlink_from_def)

lemma filled_simps [simp]:
  "length (element (filled c r w s)) = length (element s)" "pool (filled c r w s) = (pool s)[c := \<lparr>sxactOut = r, sxactIn = w\<rparr>]"
  "poolAvailable (filled c r w s) = removeAll (OutLink c) (poolAvailable s)"
  by (simp_all add: filled_def)

lemma with_edge_queues:
  assumes ok: "queues_ok s E U A" and c: "c \<in> A" and rw: "r < length (element s)" "w < length (element s)" "r \<noteq> w"
  shows "queues_ok (with_edge c r w s) (insert c E) U (A - {c})"
proof -
  note l = filled_lists [OF ok c, of _ r w]
  have pool: "pool (with_edge c r w s) = (pool s)[c := \<lparr>sxactOut = r, sxactIn = w\<rparr>]"
    "length (element (with_edge c r w s)) = length (element s)"
    "poolAvailable (with_edge c r w s) = removeAll (OutLink c) (poolAvailable s)"
    by (simp_all add: with_edge_def Let_def)
  have q: "set (outConflicts (element (with_edge c r w s) ! x)) =
      (if x = r then {OutLink c} else {}) \<union> set (outConflicts (element s ! x))"
    "set (inConflicts (element (with_edge c r w s) ! x)) =
      (if x = w then {InLink c} else {}) \<union> set (inConflicts (element s ! x))"
    "set (possibleUnsafeConflicts (element (with_edge c r w s) ! x)) = set (possibleUnsafeConflicts (element s ! x))"
    if "x < length (element s)" for x
    using l [OF that] that rw by (auto simp: with_edge_def Let_def nth_list_update)
  have "c < length (pool s)" "c \<notin> E" "c \<notin> U" using ok c by (auto simp: queues_ok_def)
  then have p: "(pool s)[c := \<lparr>sxactOut = r, sxactIn = w\<rparr>] ! d = (if d = c then \<lparr>sxactOut = r, sxactIn = w\<rparr> else pool s ! d)" for d
    by (simp add: nth_list_update)
  show ?thesis
    using ok c rw q \<open>c \<notin> E\<close> \<open>c \<notin> U\<close> unfolding queues_ok_def pool p by auto
qed

lemma with_unsafe_queues:
  assumes ok: "queues_ok s E U A" and c: "c \<in> A" and rw: "act < length (element s)" "ro < length (element s)" "act \<noteq> ro"
  shows "queues_ok (with_unsafe c act ro s) E (insert c U) (A - {c})"
proof -
  note l = filled_lists [OF ok c, of _ act ro]
  have pool: "pool (with_unsafe c act ro s) = (pool s)[c := \<lparr>sxactOut = act, sxactIn = ro\<rparr>]"
    "length (element (with_unsafe c act ro s)) = length (element s)"
    "poolAvailable (with_unsafe c act ro s) = removeAll (OutLink c) (poolAvailable s)"
    by (simp_all add: with_unsafe_def Let_def)
  have q: "set (outConflicts (element (with_unsafe c act ro s) ! x)) = set (outConflicts (element s ! x))"
    "set (inConflicts (element (with_unsafe c act ro s) ! x)) = set (inConflicts (element s ! x))"
    "set (possibleUnsafeConflicts (element (with_unsafe c act ro s) ! x)) =
      (if x = act then {OutLink c} else if x = ro then {InLink c} else {}) \<union> set (possibleUnsafeConflicts (element s ! x))"
    if "x < length (element s)" for x
    using l [OF that] that rw by (auto simp: with_unsafe_def Let_def nth_list_update)
  have "c < length (pool s)" "c \<notin> E" "c \<notin> U" using ok c by (auto simp: queues_ok_def)
  then have p: "(pool s)[c := \<lparr>sxactOut = act, sxactIn = ro\<rparr>] ! d = (if d = c then \<lparr>sxactOut = act, sxactIn = ro\<rparr> else pool s ! d)" for d
    by (simp add: nth_list_update)
  show ?thesis
    using ok c rw q \<open>c \<notin> E\<close> \<open>c \<notin> U\<close> unfolding queues_ok_def pool p by auto
qed

lemma strip_update [simp]:
  "strip (x\<lparr>outConflicts := ls\<rparr>) = strip x" "strip (x\<lparr>inConflicts := ls\<rparr>) = strip x"
  "strip (x\<lparr>possibleUnsafeConflicts := ls\<rparr>) = strip x"
  by (simp_all add: strip_def)

lemma map_strip_update:
  "x < length xs \<Longrightarrow> strip y = strip (xs ! x) \<Longrightarrow> map strip (xs[x := y]) = map strip xs"
  by (simp add: map_update list_update_same_conv)

lemma filled_same: "same_xacts s (filled c r w s)"
  by (simp add: same_xacts_def filled_def comp_def)

lemma same_xacts_update:
  "same_xacts s t \<Longrightarrow> x < length (element t) \<Longrightarrow> strip y = strip (element t ! x) \<Longrightarrow>
     same_xacts s (t\<lparr>element := (element t)[x := y]\<rparr>)"
  by (simp add: same_xacts_def map_strip_update)

lemma with_edge_same: "r < length (element s) \<Longrightarrow> w < length (element s) \<Longrightarrow> r \<noteq> w \<Longrightarrow> same_xacts s (with_edge c r w s)"
  unfolding with_edge_def Let_def
  using filled_same [of s c r w] by (simp add: same_xacts_def map_strip_update)

lemma with_unsafe_same: "r < length (element s) \<Longrightarrow> w < length (element s) \<Longrightarrow> r \<noteq> w \<Longrightarrow> same_xacts s (with_unsafe c r w s)"
  unfolding with_unsafe_def Let_def
  using filled_same [of s c r w] by (simp add: same_xacts_def map_strip_update)

definition edge_of :: "ssi \<Rightarrow> nat \<Rightarrow> nat \<times> nat" where
  "edge_of s c = (sxactOut (pool s ! c), sxactIn (pool s ! c))"

lemma wp_RWConflictExists:
  assumes ok: "queues_ok s E U A" and r: "r < length (element s)" and w: "w < length (element s)" and "r \<noteq> w"
  shows "wp (RWConflictExists r w) Q Er s =
     Q ((r, w) \<in> edge_of s ` E \<and> \<not> SxactIsDoomed (element s ! r) \<and> \<not> SxactIsDoomed (element s ! w)) s"
proof -
  have o: "set (outConflicts (element s ! r)) = OutLink ` {c \<in> E. sxactOut (pool s ! c) = r}"
    and i: "set (inConflicts (element s ! w)) = InLink ` {c \<in> E. sxactIn (pool s ! c) = w}"
    and b: "\<forall>c \<in> E. c < length (pool s)"
    using ok r w by (auto simp: queues_ok_def)
  let ?P = "\<lambda>l. \<exists>c. l = OutLink c \<and> sxactIn (pool s ! c) = w"
  have any: "wp (anyp (\<lambda>l. bindp (liftp (outLink_conflict l)) (\<lambda>c.
                 bindp (get_conflict c) (\<lambda>conflict. ret (sxactIn conflict = w)))) (outConflicts (element s ! r))) Q Er s =
             Q (\<exists>l \<in> set (outConflicts (element s ! r)). ?P l) s"
    by (rule wp_anyp) (use o b in \<open>auto simp: wp_simps\<close>)
  have "(\<exists>l \<in> set (outConflicts (element s ! r)). ?P l) \<longleftrightarrow> (r, w) \<in> edge_of s ` E"
    by (auto simp: o edge_of_def)
  moreover have "(r, w) \<in> edge_of s ` E \<Longrightarrow> outConflicts (element s ! r) \<noteq> [] \<and> inConflicts (element s ! w) \<noteq> []"
    using o i by (fastforce simp: edge_of_def)
  ultimately show ?thesis
    using r w \<open>r \<noteq> w\<close> any by (auto simp: RWConflictExists_def wp_simps)
qed

lemma wp_SetRWConflict:
  assumes ok: "queues_ok s E U A" and rw: "r < length (element s)" "w < length (element s)" "r \<noteq> w"
    and Q: "\<And>c. c \<in> A \<Longrightarrow> Q () (with_edge c r w s)" and Er: "\<And>e. Er e s"
  shows "wp (SetRWConflict r w) Q Er s"
proof -
  have "wp (take_conflict msg r w) (\<lambda>c. wp (thenp (upd_sxact r (\<lambda>r. r\<lparr>outConflicts := outConflicts r @ [OutLink c]\<rparr>))
     (upd_sxact w (\<lambda>w. w\<lparr>inConflicts := inConflicts w @ [InLink c]\<rparr>))) Q Er) Er s" for msg
    by (rule wp_take_conflict [OF ok])
      (use Q Er rw in \<open>auto simp: wp_simps with_edge_def Let_def nth_list_update\<close>)
  then show ?thesis
    using rw Er by (simp add: SetRWConflict_def wp_simps wp_RWConflictExists [OF ok rw])
qed

subsection \<open>The check of a new conflict\<close>

text \<open>
  When a dependency from \<open>r\<close> to \<open>w\<close> is refused, said with the relation \<open>D\<close> of recorded dependencies.
\<close>

definition dangerous :: "ssi \<Rightarrow> (nat \<times> nat) set \<Rightarrow> nat \<Rightarrow> nat \<Rightarrow> bool" where
  "dangerous s D r w \<longleftrightarrow>
     (SxactIsCommitted (element s ! w) \<and> SxactHasConflictOut (element s ! w)) \<or>
     SxactHasSummaryConflictOut (element s ! w) \<or>
     (\<exists>t2. (w, t2) \<in> D \<and> pivot_out (element s ! r) (element s ! w) (element s ! t2)) \<or>
     (SxactIsPrepared (element s ! w) \<and> \<not> SxactIsReadOnly (element s ! r) \<and>
      (SxactHasSummaryConflictIn (element s ! r) \<or> (\<exists>t0. (t0, r) \<in> D \<and> pivot_in (element s ! t0) (element s ! w))))"

lemma wp_conflict_failure:
  assumes ok: "queues_ok s E U A" and rw: "r < length (element s)" "w < length (element s)"
  shows "wp (conflict_failure r w) Q Er s = Q (dangerous s (edge_of s ` E) r w) s"
proof -
  have o: "set (outConflicts (element s ! w)) = OutLink ` {c \<in> E. sxactOut (pool s ! c) = w}"
    and i: "set (inConflicts (element s ! r)) = InLink ` {c \<in> E. sxactIn (pool s ! c) = r}"
    and b: "\<forall>c \<in> E. c < length (pool s) \<and> sxactOut (pool s ! c) < length (element s) \<and> sxactIn (pool s ! c) < length (element s)"
    using ok rw by (auto simp: queues_ok_def)
  have out: "wp (anyp (\<lambda>l. bindp (liftp (outLink_conflict l)) (\<lambda>c. bindp (get_conflict c) (\<lambda>conflict.
                bindp (get_sxact (sxactIn conflict)) (\<lambda>t2. ret (pivot_out (element s ! r) (element s ! w) t2)))))
                (outConflicts (element s ! w))) Q Er s =
             Q (\<exists>t2. (w, t2) \<in> edge_of s ` E \<and> pivot_out (element s ! r) (element s ! w) (element s ! t2)) s" for Q
    by (subst wp_anyp [where P = "\<lambda>l. \<exists>c. l = OutLink c \<and> pivot_out (element s ! r) (element s ! w) (element s ! sxactIn (pool s ! c))"])
      (use o b in \<open>auto simp: wp_simps edge_of_def image_iff intro!: arg_cong2 [where f = Q]\<close>)
  have inn: "wp (anyp (\<lambda>l. bindp (liftp (inLink_conflict l)) (\<lambda>c. bindp (get_conflict c) (\<lambda>conflict.
                bindp (get_sxact (sxactOut conflict)) (\<lambda>t0. ret (pivot_in t0 (element s ! w))))))
                (inConflicts (element s ! r))) Q Er s =
             Q (\<exists>t0. (t0, r) \<in> edge_of s ` E \<and> pivot_in (element s ! t0) (element s ! w)) s" for Q
    by (subst wp_anyp [where P = "\<lambda>l. \<exists>c. l = InLink c \<and> pivot_in (element s ! sxactOut (pool s ! c)) (element s ! w)"])
      (use i b in \<open>auto simp: wp_simps edge_of_def image_iff intro!: arg_cong2 [where f = Q]\<close>)
  define p2 where "p2 \<longleftrightarrow> (\<exists>t2. (w, t2) \<in> edge_of s ` E \<and> pivot_out (element s ! r) (element s ! w) (element s ! t2))"
  define p0 where "p0 \<longleftrightarrow> (\<exists>t0. (t0, r) \<in> edge_of s ` E \<and> pivot_in (element s ! t0) (element s ! w))"
  show ?thesis
    unfolding dangerous_def p2_def [symmetric] p0_def [symmetric]
    using rw by (cases p2; cases p0; cases "SxactHasSummaryConflictOut (element s ! w)";
        cases "SxactIsCommitted (element s ! w)"; cases "SxactHasConflictOut (element s ! w)";
        cases "SxactIsPrepared (element s ! w)"; cases "SxactIsReadOnly (element s ! r)";
        simp add: conflict_failure_def wp_simps out [folded p2_def] inn [folded p0_def])
qed

text \<open>The recorded dependencies, read off the queues.\<close>

fun conflict_of :: "rwlink \<Rightarrow> nat" where
  "conflict_of (OutLink c) = c"
| "conflict_of (InLink c) = c"

definition recorded :: "ssi \<Rightarrow> (nat \<times> nat) set" where
  "recorded s = (\<Union>x \<in> {..<length (element s)}. (\<lambda>l. (x, sxactIn (pool s ! conflict_of l))) ` set (outConflicts (element s ! x)))"

lemma recorded_edges:
  assumes "queues_ok s E U A"
  shows "recorded s = edge_of s ` E"
proof -
  have "set (outConflicts (element s ! x)) = OutLink ` {c \<in> E. sxactOut (pool s ! c) = x}" if "x < length (element s)" for x
    using assms that by (simp add: queues_ok_def)
  then have "recorded s = (\<Union>x \<in> {..<length (element s)}. (\<lambda>c. (x, sxactIn (pool s ! c))) ` {c \<in> E. sxactOut (pool s ! c) = x})"
    by (simp add: recorded_def image_image)
  moreover have "sxactOut (pool s ! c) < length (element s)" if "c \<in> E" for c using assms that by (simp add: queues_ok_def)
  ultimately show ?thesis by (auto simp: edge_of_def)
qed

subsection \<open>Dooming\<close>

definition doom :: "SERIALIZABLEXACT \<Rightarrow> SERIALIZABLEXACT" where
  "doom x = x\<lparr>flags := flags x OR SXACT_FLAG_DOOMED\<rparr>"

lemma doom_simps [simp]:
  "SxactIsDoomed (doom x)" "SxactIsCommitted (doom x) = SxactIsCommitted x" "SxactIsPrepared (doom x) = SxactIsPrepared x"
  "SxactIsReadOnly (doom x) = SxactIsReadOnly x" "SxactHasConflictOut (doom x) = SxactHasConflictOut x"
  "SxactHasSummaryConflictOut (doom x) = SxactHasSummaryConflictOut x"
  "SxactHasSummaryConflictIn (doom x) = SxactHasSummaryConflictIn x" "SxactIsRolledBack (doom x) = SxactIsRolledBack x"
  "prepareSeqNo (doom x) = prepareSeqNo x" "commitSeqNo (doom x) = commitSeqNo x" "SeqNo (doom x) = SeqNo x"
  "outConflicts (doom x) = outConflicts x" "inConflicts (doom x) = inConflicts x"
  "possibleUnsafeConflicts (doom x) = possibleUnsafeConflicts x"
  by (simp_all add: doom_def sxact_bits flag_masks bit_or_iff bit_push_one)

lemma doom_doom [simp]: "doom (doom x) = doom x"
  by (simp add: doom_def or.assoc)

text \<open>\<open>t\<close> is \<open>s\<close> with more transactions doomed, none of which is prepared.\<close>

definition dooms :: "ssi \<Rightarrow> ssi \<Rightarrow> bool" where
  "dooms s t \<longleftrightarrow> t\<lparr>element := []\<rparr> = s\<lparr>element := []\<rparr> \<and> length (element t) = length (element s) \<and>
     (\<forall>x < length (element s). element t ! x = element s ! x \<or> element t ! x = doom (element s ! x) \<and>
        \<not> SxactIsPrepared (element s ! x) \<and> \<not> SxactIsCommitted (element s ! x))"

lemma dooms_refl [simp]: "dooms s s"
  by (simp add: dooms_def)

lemma dooms_cases:
  assumes "dooms s t" and "x < length (element s)"
  obtains "element t ! x = element s ! x" | "element t ! x = doom (element s ! x)" "\<not> SxactIsPrepared (element s ! x)"
      "\<not> SxactIsCommitted (element s ! x)"
  using assms unfolding dooms_def by blast

lemma dooms_trans:
  assumes "dooms s t" and "dooms t u"
  shows "dooms s u"
proof -
  have "element u ! x = element s ! x \<or> element u ! x = doom (element s ! x) \<and>
      \<not> SxactIsPrepared (element s ! x) \<and> \<not> SxactIsCommitted (element s ! x)" if x: "x < length (element s)" for x
  proof -
    have t: "x < length (element t)" using assms(1) x by (simp add: dooms_def)
    show ?thesis
      by (rule dooms_cases [OF assms(2) t]; rule dooms_cases [OF assms(1) x]) simp_all
  qed
  with assms show ?thesis by (auto simp: dooms_def)
qed

lemma doom_one:
  assumes "x < length (element s)" and "\<not> SxactIsPrepared (element s ! x)" and "\<not> SxactIsCommitted (element s ! x)"
  shows "dooms s (s\<lparr>element := (element s)[x := doom (element s ! x)]\<rparr>)"
  using assms by (auto simp: dooms_def nth_list_update)

lemma dooms_fields:
  assumes "dooms s t"
  shows "pool t = pool s" "availableList t = availableList s" "activeList t = activeList s"
    "LastSxactCommitSeqNo t = LastSxactCommitSeqNo s" "OldCommittedSxact t = OldCommittedSxact s"
    "poolAvailable t = poolAvailable s" "length (element t) = length (element s)"
  using assms by (cases s; cases t; simp add: dooms_def)+

lemma dooms_nth:
  assumes "dooms s t" and "x < length (element s)"
  shows "SxactIsCommitted (element t ! x) = SxactIsCommitted (element s ! x)"
    "SxactIsPrepared (element t ! x) = SxactIsPrepared (element s ! x)"
    "SxactIsReadOnly (element t ! x) = SxactIsReadOnly (element s ! x)"
    "SxactHasConflictOut (element t ! x) = SxactHasConflictOut (element s ! x)"
    "SxactHasSummaryConflictOut (element t ! x) = SxactHasSummaryConflictOut (element s ! x)"
    "SxactHasSummaryConflictIn (element t ! x) = SxactHasSummaryConflictIn (element s ! x)"
    "SxactIsDoomed (element s ! x) \<Longrightarrow> SxactIsDoomed (element t ! x)"
    "prepareSeqNo (element t ! x) = prepareSeqNo (element s ! x)" "commitSeqNo (element t ! x) = commitSeqNo (element s ! x)"
    "SeqNo (element t ! x) = SeqNo (element s ! x)" "outConflicts (element t ! x) = outConflicts (element s ! x)"
    "inConflicts (element t ! x) = inConflicts (element s ! x)"
    "possibleUnsafeConflicts (element t ! x) = possibleUnsafeConflicts (element s ! x)"
  by (rule dooms_cases [OF assms]; simp)+

lemma dooms_queues: "dooms s t \<Longrightarrow> queues_ok s E U A \<Longrightarrow> queues_ok t E U A"
  unfolding queues_ok_def by (simp add: dooms_nth dooms_fields)

subsection \<open>The check before commit\<close>

text \<open>A transaction that can still be the first of a dangerous structure with \<open>me\<close> at its end.\<close>

definition live_far :: "ssi \<Rightarrow> nat \<Rightarrow> nat \<Rightarrow> bool" where
  "live_far s me x \<longleftrightarrow> x = me \<or>
     (\<not> SxactIsCommitted (element s ! x) \<and> \<not> SxactIsReadOnly (element s ! x) \<and> \<not> SxactIsDoomed (element s ! x))"

text \<open>The transaction \<open>x\<close> is no pivot of a dangerous structure that ends in \<open>me\<close>.\<close>

definition no_pivot :: "ssi \<Rightarrow> (nat \<times> nat) set \<Rightarrow> nat \<Rightarrow> nat \<Rightarrow> bool" where
  "no_pivot s D me x \<longleftrightarrow> SxactIsCommitted (element s ! x) \<or> SxactIsDoomed (element s ! x) \<or>
     (\<forall>y. (y, x) \<in> D \<longrightarrow> \<not> live_far s me y)"

lemma wp_far_conflicts:
  assumes ok: "queues_ok s E U A" and x: "x < length (element s)"
  shows "wp (anyp (far_conflict me) (inConflicts (element s ! x))) Q Er s =
           Q (\<exists>y. (y, x) \<in> edge_of s ` E \<and> live_far s me y) s"
proof -
  have i: "set (inConflicts (element s ! x)) = InLink ` {c \<in> E. sxactIn (pool s ! c) = x}"
    and b: "\<forall>c \<in> E. c < length (pool s) \<and> sxactOut (pool s ! c) < length (element s)"
    using ok x by (auto simp: queues_ok_def)
  show ?thesis
    by (subst wp_anyp [where P = "\<lambda>l. \<exists>c. l = InLink c \<and> live_far s me (sxactOut (pool s ! c))"])
      (use i b in \<open>auto simp: far_conflict_def wp_simps edge_of_def image_iff live_far_def intro!: arg_cong2 [where f = Q]\<close>)
qed

lemma no_pivot_dooms:
  assumes "dooms s t" and "no_pivot s D me x" and "D \<subseteq> {..<length (element s)} \<times> {..<length (element s)}" and "x < length (element s)"
  shows "no_pivot t D me x"
proof -
  have far: "\<not> live_far t me y" if "\<not> live_far s me y" and "y < length (element s)" for y
    using that(1) by (rule_tac dooms_cases [OF assms(1) that(2)]) (simp_all add: live_far_def)
  have bound: "y < length (element s)" if "(y, x) \<in> D" for y using that assms(3) by auto
  show ?thesis
  proof (cases "SxactIsCommitted (element s ! x) \<or> SxactIsDoomed (element s ! x)")
    case True
    then show ?thesis using dooms_nth(1,7) [OF assms(1,4)] by (auto simp: no_pivot_def)
  next
    case False
    then have "\<forall>y. (y, x) \<in> D \<longrightarrow> \<not> live_far t me y" using assms(2) far bound by (simp add: no_pivot_def)
    then show ?thesis by (simp add: no_pivot_def)
  qed
qed

lemma wp_near_conflicts:
  assumes "queues_ok s E U A" and "set ls \<subseteq> InLink ` {c \<in> E. sxactIn (pool s ! c) = me}"
  shows "wp (near_conflicts me ls) (\<lambda>give_up t. dooms s t \<and>
     (\<not> give_up \<longrightarrow> (\<forall>c. InLink c \<in> set ls \<longrightarrow> no_pivot t (edge_of s ` E) me (sxactOut (pool s ! c)))) \<and>
     (\<forall>x < length (element s). SxactIsDoomed (element t ! x) \<longrightarrow> SxactIsDoomed (element s ! x) \<or> (x, me) \<in> edge_of s ` E)) Er s"
  using assms
proof (induction ls arbitrary: s)
  case Nil
  then show ?case by (simp add: wp_simps)
next
  case (Cons l ls)
  let ?D = "edge_of s ` E"
  from Cons.prems obtain c where c: "l = InLink c" "c \<in> E" "sxactIn (pool s ! c) = me" by auto
  let ?x = "sxactOut (pool s ! c)"
  have b: "c < length (pool s)" "?x < length (element s)" "?D \<subseteq> {..<length (element s)} \<times> {..<length (element s)}"
    using Cons.prems(1) c by (auto simp: queues_ok_def edge_of_def)
  have e: "(?x, me) \<in> ?D" using c by (auto simp: edge_of_def image_iff)
  note far = wp_far_conflicts [OF Cons.prems(1) b(2), of me]
  have go: "wp (near_conflicts me ls) (\<lambda>give_up t. dooms s t \<and>
     (\<not> give_up \<longrightarrow> (\<forall>d. InLink d \<in> set (l # ls) \<longrightarrow> no_pivot t ?D me (sxactOut (pool s ! d)))) \<and>
     (\<forall>x < length (element s). SxactIsDoomed (element t ! x) \<longrightarrow> SxactIsDoomed (element s ! x) \<or> (x, me) \<in> ?D)) Er u"
    if u: "dooms s u" "no_pivot u ?D me ?x"
      "\<forall>x < length (element s). SxactIsDoomed (element u ! x) \<longrightarrow> SxactIsDoomed (element s ! x) \<or> (x, me) \<in> ?D" for u
  proof -
    have eq: "edge_of u = edge_of s" "pool u = pool s" "length (element u) = length (element s)"
      using dooms_fields [OF u(1)] by (simp_all add: edge_of_def fun_eq_iff)
    have "wp (near_conflicts me ls) (\<lambda>give_up t. dooms u t \<and>
       (\<not> give_up \<longrightarrow> (\<forall>d. InLink d \<in> set ls \<longrightarrow> no_pivot t ?D me (sxactOut (pool s ! d)))) \<and>
       (\<forall>x < length (element s). SxactIsDoomed (element t ! x) \<longrightarrow> SxactIsDoomed (element u ! x) \<or> (x, me) \<in> ?D)) Er u"
      using Cons.IH [OF dooms_queues [OF u(1) Cons.prems(1)]] Cons.prems(2) by (simp add: eq)
    then show ?thesis
    proof (rule wp_mono)
      fix g t
      assume t: "dooms u t \<and> (\<not> g \<longrightarrow> (\<forall>d. InLink d \<in> set ls \<longrightarrow> no_pivot t ?D me (sxactOut (pool s ! d)))) \<and>
       (\<forall>x < length (element s). SxactIsDoomed (element t ! x) \<longrightarrow> SxactIsDoomed (element u ! x) \<or> (x, me) \<in> ?D)"
      moreover have "no_pivot t ?D me ?x" using no_pivot_dooms [of u t ?D me ?x] t u(2) b by (simp add: eq)
      ultimately show "dooms s t \<and> (\<not> g \<longrightarrow> (\<forall>d. InLink d \<in> set (l # ls) \<longrightarrow> no_pivot t ?D me (sxactOut (pool s ! d)))) \<and>
        (\<forall>x < length (element s). SxactIsDoomed (element t ! x) \<longrightarrow> SxactIsDoomed (element s ! x) \<or> (x, me) \<in> ?D)"
        using dooms_trans [OF u(1)] u(3) c(1) by auto
    qed
  qed
  show ?case
  proof (cases "no_pivot s ?D me ?x")
    case True
    then show ?thesis using go [of s] b c(1) by (auto simp: wp_simps far no_pivot_def)
  next
    case False
    let ?u = "s\<lparr>element := (element s)[?x := doom (element s ! ?x)]\<rparr>"
    have "\<not> SxactIsPrepared (element s ! ?x) \<Longrightarrow> dooms s ?u" using doom_one [OF b(2)] False by (simp add: no_pivot_def)
    moreover have "no_pivot ?u ?D me ?x" using b(2) by (simp add: no_pivot_def)
    ultimately show ?thesis
      using False go [of ?u] b c(1) e by (auto simp: wp_simps far no_pivot_def doom_def nth_list_update)
  qed
qed
end
