(* ===== verification/PredicateRelease.thy ===== *)
theory PredicateRelease
  imports PredicateFacts
begin

unbundle bit_operations_syntax

text \<open>
  Releasing conflicts, one after the other: the loops of \<open>ReleasePredicateLocks\<close> and \<open>FlagSxactUnsafe\<close> take conflicts out
  of the queues and change nothing else of other transactions than the flags for safe snapshots.
\<close>

subsection \<open>Runs that return\<close>

text \<open>A failed assertion stops the server; what follows is about the runs in which none fails.\<close>

abbreviation wpl :: "('s, 'a) prog \<Rightarrow> ('a \<Rightarrow> 's \<Rightarrow> bool) \<Rightarrow> 's \<Rightarrow> bool" where
  "wpl m Q s \<equiv> wp m Q (\<lambda>_ _. True) s"

lemma wpl_bindp: "wpl m P s \<Longrightarrow> (\<And>x t. P x t \<Longrightarrow> wpl (f x) Q t) \<Longrightarrow> wpl (bindp m f) Q s"
  unfolding wp_bindp by (erule wp_mono) auto

lemma wpl_thenp: "wpl m P s \<Longrightarrow> (\<And>x t. P x t \<Longrightarrow> wpl n Q t) \<Longrightarrow> wpl (thenp m n) Q s"
  unfolding wp_thenp by (erule wp_mono) auto

lemma wpl_get_sxact: "(x < length (element t) \<Longrightarrow> wpl (f (element t ! x)) Q t) \<Longrightarrow> wpl (bindp (get_sxact x) f) Q t"
  by (simp add: wp_simps)

lemma wpl_get_conflict: "(c < length (pool t) \<Longrightarrow> wpl (f (pool t ! c)) Q t) \<Longrightarrow> wpl (bindp (get_conflict c) f) Q t"
  by (simp add: wp_simps)

lemma wpl_gets: "wpl (f (g t)) Q t \<Longrightarrow> wpl (bindp (gets g) f) Q t"
  by (simp add: wp_simps)

lemma wpl_liftp: "(\<And>v. r = Inr v \<Longrightarrow> wpl (f v) Q t) \<Longrightarrow> wpl (bindp (liftp r) f) Q t"
  by (cases r) (simp_all add: wp_simps)

lemma wpl_assertp: "(b \<Longrightarrow> wpl m Q t) \<Longrightarrow> wpl (thenp (assertp b) m) Q t"
  by (simp add: wp_simps)

lemma wpl_if: "(b \<Longrightarrow> wpl m Q t) \<Longrightarrow> (\<not> b \<Longrightarrow> wpl n Q t) \<Longrightarrow> wpl (if b then m else n) Q t"
  by simp

lemma wpl_whenp: "(b \<Longrightarrow> wpl m Q t) \<Longrightarrow> (\<not> b \<Longrightarrow> Q () t) \<Longrightarrow> wpl (whenp b m) Q t"
  by (simp add: wp_simps)

lemma liftp_Inr: "bindp (liftp (Inr c)) f = f c"
  by (simp add: bindp_def liftp_def fun_eq_iff)

lemmas wpl_reads = wpl_get_sxact wpl_get_conflict wpl_gets wpl_liftp wpl_assertp

subsection \<open>What the end of another transaction leaves alone\<close>

definition core :: "SERIALIZABLEXACT \<Rightarrow> SERIALIZABLEXACT" where
  "core x = (strip x)\<lparr>flags := flags x AND NOT (SXACT_FLAG_RO_SAFE OR SXACT_FLAG_RO_UNSAFE)\<rparr>"

lemma core_bit: "core x = core y \<Longrightarrow> k \<noteq> 7 \<Longrightarrow> k \<noteq> 8 \<Longrightarrow> bit (flags x) k = bit (flags y) k"
proof -
  assume "core x = core y" and k: "k \<noteq> 7" "k \<noteq> 8"
  then have "flags x AND NOT (SXACT_FLAG_RO_SAFE OR SXACT_FLAG_RO_UNSAFE) = flags y AND NOT (SXACT_FLAG_RO_SAFE OR SXACT_FLAG_RO_UNSAFE)"
    by (cases x; cases y) (simp add: core_def strip_def)
  then have "bit (flags x AND NOT (push_bit 7 1 OR push_bit 8 1)) k = bit (flags y AND NOT (push_bit 7 1 OR push_bit 8 1)) k"
    unfolding flag_masks by simp
  with k show ?thesis
    by (auto simp: bit_and_iff bit_not_iff bit_or_iff bit_push_one dest: bit_imp_le_length)
qed

lemma core_eq:
  assumes "core x = core y"
  shows "SxactIsCommitted x = SxactIsCommitted y" "SxactIsPrepared x = SxactIsPrepared y"
    "SxactIsRolledBack x = SxactIsRolledBack y" "SxactIsDoomed x = SxactIsDoomed y"
    "SxactHasConflictOut x = SxactHasConflictOut y" "SxactIsReadOnly x = SxactIsReadOnly y"
    "SxactHasSummaryConflictIn x = SxactHasSummaryConflictIn y"
    "SxactHasSummaryConflictOut x = SxactHasSummaryConflictOut y"
    "prepareSeqNo x = prepareSeqNo y" "commitSeqNo x = commitSeqNo y" "SeqNo x = SeqNo y"
  unfolding sxact_bits using assms core_bit [OF assms] by (simp_all add: core_def strip_def) (cases x; cases y; simp)+

lemma core_strip: "strip x = strip y \<Longrightarrow> core x = core y"
  using strip_eq(7) [of x y] by (simp add: core_def)

definition same_core :: "ssi \<Rightarrow> ssi \<Rightarrow> bool" where
  "same_core s t \<longleftrightarrow> map core (element t) = map core (element s) \<and> pool t = pool s \<and>
     availableList t = availableList s \<and> activeList t = activeList s \<and>
     LastSxactCommitSeqNo t = LastSxactCommitSeqNo s \<and> OldCommittedSxact t = OldCommittedSxact s \<and>
     FinishedSerializableTransactions t = FinishedSerializableTransactions s"

lemma same_core_refl [simp]: "same_core s s"
  by (simp add: same_core_def)

lemma same_core_trans: "same_core s t \<Longrightarrow> same_core t u \<Longrightarrow> same_core s u"
  by (simp add: same_core_def)

lemma same_core_length: "same_core s t \<Longrightarrow> length (element t) = length (element s)"
  unfolding same_core_def by (metis length_map)

lemma same_core_nth: "same_core s t \<Longrightarrow> x < length (element s) \<Longrightarrow> core (element t ! x) = core (element s ! x)"
  unfolding same_core_def by (metis length_map nth_map)

lemma same_core_released: "same_core s (released c s)"
  unfolding same_core_def using core_strip [OF strip_unlink] by (simp add: released_def comp_def)

subsection \<open>Releasing conflicts one after the other\<close>

text \<open>
  \<open>t\<close> is \<open>s\<close> with fewer conflicts: the dependencies that are left are \<open>E\<close> and the possible unsafe conflicts \<open>U\<close>.
\<close>

definition shrunk :: "ssi \<Rightarrow> ssi \<Rightarrow> nat set \<Rightarrow> nat set \<Rightarrow> bool" where
  "shrunk s t E U \<longleftrightarrow> (\<exists>A. queues_ok t E U A) \<and> same_core s t"

lemma shrunkD:
  assumes "shrunk s t E U"
  shows "length (element t) = length (element s)" "pool t = pool s" "E \<inter> U = {}"
    "\<forall>c \<in> E \<union> U. c < length (pool s) \<and> sxactOut (pool s ! c) < length (element s) \<and> sxactIn (pool s ! c) < length (element s)"
  using assms same_core_length [of s t] by (auto simp: shrunk_def same_core_def queues_ok_def)

lemma shrunk_refl: "queues_ok s E U A \<Longrightarrow> shrunk s s E U"
  by (auto simp: shrunk_def)

lemma shrunk_trans: "same_core s t \<Longrightarrow> shrunk t u E U \<Longrightarrow> shrunk s u E U"
  by (auto simp: shrunk_def intro: same_core_trans)

lemma shrunk_core: "shrunk s t E U \<Longrightarrow> same_core s t"
  by (simp add: shrunk_def)

lemma wpl_release:
  assumes "shrunk s t E U"
  shows "wpl (ReleaseRWConflict c) (\<lambda>_ t. c \<in> E \<union> U \<and> shrunk s t (E - {c}) (U - {c})) t"
proof -
  from assms obtain A where ok: "queues_ok t E U A" and core: "same_core s t" by (auto simp: shrunk_def)
  show ?thesis
    using released_queues [OF ok, of c] same_core_trans [OF core same_core_released, of c]
    by (auto simp: wp_ReleaseRWConflict [OF ok] shrunk_def)
qed

text \<open>An update that touches neither queues nor the core of a transaction.\<close>

lemma queues_ok_update:
  assumes "queues_ok t E U A" and "x < length (element t) \<longrightarrow> outConflicts y = outConflicts (element t ! x) \<and> inConflicts y = inConflicts (element t ! x) \<and>
      possibleUnsafeConflicts y = possibleUnsafeConflicts (element t ! x)"
  shows "queues_ok (t\<lparr>element := (element t)[x := y]\<rparr>) E U A"
proof -
  have "set (outConflicts ((element t)[x := y] ! z)) = set (outConflicts (element t ! z))"
    "set (inConflicts ((element t)[x := y] ! z)) = set (inConflicts (element t ! z))"
    "set (possibleUnsafeConflicts ((element t)[x := y] ! z)) = set (possibleUnsafeConflicts (element t ! z))"
    if "z < length (element t)" for z
    using assms(2) that by (cases "z = x"; simp)+
  then show ?thesis using assms(1) unfolding queues_ok_def by simp
qed

lemma map_core_update:
  "x < length xs \<Longrightarrow> core y = core (xs ! x) \<Longrightarrow> map core (xs[x := y]) = map core xs"
  by (simp add: map_update list_update_same_conv)

lemma core_safe_flag [simp]:
  "core (x\<lparr>flags := flags x OR SXACT_FLAG_RO_SAFE\<rparr>) = core x" "core (x\<lparr>flags := flags x OR SXACT_FLAG_RO_UNSAFE\<rparr>) = core x"
proof -
  have "(w OR a) AND NOT (a OR b) = w AND NOT (a OR b)" "(w OR b) AND NOT (a OR b) = w AND NOT (a OR b)" for w a b :: uint32
    by (auto intro!: bit_eqI simp: bit_and_iff bit_or_iff bit_not_iff)
  then show "core (x\<lparr>flags := flags x OR SXACT_FLAG_RO_SAFE\<rparr>) = core x" "core (x\<lparr>flags := flags x OR SXACT_FLAG_RO_UNSAFE\<rparr>) = core x"
    by (cases x; simp add: core_def strip_def)+
qed

lemma shrunk_flag:
  assumes "shrunk s t E U" and "x < length (element t)" and "core (f (element t ! x)) = core (element t ! x)"
    and "outConflicts (f (element t ! x)) = outConflicts (element t ! x)" "inConflicts (f (element t ! x)) = inConflicts (element t ! x)"
      "possibleUnsafeConflicts (f (element t ! x)) = possibleUnsafeConflicts (element t ! x)"
  shows "shrunk s (t\<lparr>element := (element t)[x := f (element t ! x)]\<rparr>) E U"
proof -
  from assms(1) obtain A where "queues_ok t E U A" "same_core s t" by (auto simp: shrunk_def)
  with queues_ok_update [of t E U A x "f (element t ! x)"] assms(2-) map_core_update [OF assms(2,3)] show ?thesis
    by (auto simp: shrunk_def same_core_def)
qed

lemma wpl_release_unsafe_in:
  assumes "shrunk s t E U" and "\<forall>c. l = InLink c \<longrightarrow> c \<notin> E"
  shows "wpl (release_unsafe_in x l) (\<lambda>_ t. \<exists>c. l = InLink c \<and> shrunk s t E (U - {c})) t"
proof (cases l)
  case (InLink c)
  then have "E - {c} = E" using assms(2) by simp
  have "wpl (ReleaseRWConflict c) (\<lambda>_ t. shrunk s t E (U - {c})) t"
    by (rule wp_mono [OF wpl_release [OF assms(1)]]) (simp_all add: \<open>E - {c} = E\<close>)
  with InLink show ?thesis by (simp add: release_unsafe_in_def wp_simps)
qed (simp add: release_unsafe_in_def wp_simps)

text \<open>A loop whose body takes the conflict of the current link out of \<open>U\<close>.\<close>

lemma wpl_clear_loop:
  assumes "shrunk s t E U"
    and body: "\<And>l u V. l \<in> set ls \<Longrightarrow> shrunk s u E V \<Longrightarrow>
      wpl (body l) (\<lambda>_ v. \<exists>W c. shrunk s v E W \<and> W \<subseteq> V \<and> l = lnk c \<and> c \<notin> W) u"
  shows "wpl (eachp body ls) (\<lambda>_ t. \<exists>V. shrunk s t E V \<and> V \<subseteq> U \<and> (\<forall>l \<in> set ls. \<exists>c. l = lnk c \<and> c \<notin> V)) t"
proof -
  let ?I = "\<lambda>ys t. \<exists>V. shrunk s t E V \<and> V \<subseteq> U \<and> (\<forall>l \<in> set ys. \<exists>c. l = lnk c \<and> c \<notin> V)"
  have "wpl (eachp body ls) (\<lambda>_. ?I ls) t"
  proof (rule wp_eachp [where I = ?I])
    show "?I [] t" using assms(1) by auto
  next
    fix ys l zs u assume ls: "ls = ys @ l # zs" and "?I ys u"
    then obtain V where u: "shrunk s u E V" "V \<subseteq> U" "\<forall>l \<in> set ys. \<exists>c. l = lnk c \<and> c \<notin> V" by blast
    have "l \<in> set ls" using ls by simp
    from body [OF this u(1)] show "wpl (body l) (\<lambda>_. ?I (ys @ [l])) u"
    proof (rule wp_mono)
      fix y v assume "\<exists>W c. shrunk s v E W \<and> W \<subseteq> V \<and> l = lnk c \<and> c \<notin> W"
      then obtain W c where v: "shrunk s v E W" "W \<subseteq> V" "l = lnk c" "c \<notin> W" by blast
      have "\<forall>l \<in> set (ys @ [l]). \<exists>c. l = lnk c \<and> c \<notin> W" using u(3) v by auto
      with v(1,2) u(2) show "?I (ys @ [l]) v" by blast
    qed simp
  qed
  then show ?thesis .
qed

lemma wpl_unsafe_loop:
  assumes "shrunk s t E U" and "\<forall>c. InLink c \<in> set ls \<longrightarrow> c \<notin> E"
  shows "wpl (eachp (release_unsafe_in x) ls)
     (\<lambda>_ t. \<exists>V. shrunk s t E V \<and> V \<subseteq> U \<and> (\<forall>l \<in> set ls. \<exists>c. l = InLink c \<and> c \<notin> V)) t"
proof (rule wpl_clear_loop [OF assms(1)])
  fix l u V assume "l \<in> set ls" and u: "shrunk s u E V"
  then have "\<forall>c. l = InLink c \<longrightarrow> c \<notin> E" using assms(2) by auto
  from wpl_release_unsafe_in [OF u this]
  show "wpl (release_unsafe_in x l) (\<lambda>_ v. \<exists>W c. shrunk s v E W \<and> W \<subseteq> V \<and> l = InLink c \<and> c \<notin> W) u"
    by (rule wp_mono) blast+
qed

text \<open>A queue of possible unsafe conflicts holds links of \<open>U\<close>, none of \<open>E\<close>.\<close>

lemma unsafe_links:
  assumes "shrunk s t E U" and "x < length (element s)"
  shows "set (possibleUnsafeConflicts (element t ! x)) =
     OutLink ` {c \<in> U. sxactOut (pool s ! c) = x} \<union> InLink ` {c \<in> U. sxactIn (pool s ! c) = x}"
  using assms shrunkD(1,2) [OF assms(1)] by (auto simp: shrunk_def queues_ok_def)

lemma unsafe_not_edges:
  assumes "shrunk s t E U" and "x < length (element s)" and "l \<in> set (possibleUnsafeConflicts (element t ! x))"
  shows "l = InLink c \<Longrightarrow> c \<notin> E" "l = OutLink c \<Longrightarrow> c \<notin> E"
  using assms(3) shrunkD(3) [OF assms(1)] unfolding unsafe_links [OF assms(1,2)] by auto

lemma unsafe_cleared:
  assumes "shrunk s t E U" and "x < length (element s)" and "U' \<subseteq> U"
    and "\<forall>l \<in> set (possibleUnsafeConflicts (element t ! x)). \<exists>c. (l = InLink c \<or> l = OutLink c) \<and> c \<notin> U'"
  shows "\<forall>c \<in> U'. sxactOut (pool s ! c) \<noteq> x \<and> sxactIn (pool s ! c) \<noteq> x"
  using assms(3,4) unfolding unsafe_links [OF assms(1,2)] by blast

lemma wpl_FlagSxactUnsafe:
  assumes sh: "shrunk s t E U"
  shows "wpl (FlagSxactUnsafe x) (\<lambda>_ t. \<exists>U'. shrunk s t E U' \<and> U' \<subseteq> U \<and>
     (\<forall>c \<in> U'. sxactOut (pool s ! c) \<noteq> x \<and> sxactIn (pool s ! c) \<noteq> x)) t"
proof (cases "x < length (element t)")
  case True
  let ?f = "\<lambda>v. v\<lparr>flags := flags v OR SXACT_FLAG_RO_UNSAFE\<rparr>"
  let ?t = "t\<lparr>element := (element t)[x := ?f (element t ! x)]\<rparr>"
  have sh': "shrunk s ?t E U" using shrunk_flag [OF sh True, of ?f] by simp
  have x: "x < length (element s)" using True shrunkD(1) [OF sh] by simp
  have "\<forall>c. InLink c \<in> set (possibleUnsafeConflicts (element t ! x)) \<longrightarrow> c \<notin> E" using unsafe_not_edges(1) [OF sh x] by blast
  from wpl_unsafe_loop [OF sh' this, of x]
  have "wpl (eachp (release_unsafe_in x) (possibleUnsafeConflicts (element t ! x)))
     (\<lambda>_ t. \<exists>U'. shrunk s t E U' \<and> U' \<subseteq> U \<and> (\<forall>c \<in> U'. sxactOut (pool s ! c) \<noteq> x \<and> sxactIn (pool s ! c) \<noteq> x)) ?t"
  proof (rule wp_mono)
    fix y u assume "\<exists>U'. shrunk s u E U' \<and> U' \<subseteq> U \<and> (\<forall>l \<in> set (possibleUnsafeConflicts (element t ! x)). \<exists>c. l = InLink c \<and> c \<notin> U')"
    then obtain U' where u: "shrunk s u E U'" "U' \<subseteq> U"
      "\<forall>l \<in> set (possibleUnsafeConflicts (element t ! x)). \<exists>c. l = InLink c \<and> c \<notin> U'" by blast
    from u(3) have "\<forall>c \<in> U'. sxactOut (pool s ! c) \<noteq> x \<and> sxactIn (pool s ! c) \<noteq> x"
      by (intro unsafe_cleared [OF sh x u(2)]) blast
    with u show "\<exists>U'. shrunk s u E U' \<and> U' \<subseteq> U \<and> (\<forall>c \<in> U'. sxactOut (pool s ! c) \<noteq> x \<and> sxactIn (pool s ! c) \<noteq> x)" by blast
  qed simp
  with True show ?thesis by (simp add: FlagSxactUnsafe_def wp_simps)
qed (simp add: FlagSxactUnsafe_def wp_simps)

lemma queues_ok_other [simp]:
  "queues_ok (t\<lparr>signals := p\<rparr>) = queues_ok t" "queues_ok (t\<lparr>WritableSxactCount := n\<rparr>) = queues_ok t"
  "queues_ok (t\<lparr>SxactGlobalXminCount := n\<rparr>) = queues_ok t" "queues_ok (t\<lparr>CanPartialClearThrough := k\<rparr>) = queues_ok t"
  "queues_ok (t\<lparr>LastSxactCommitSeqNo := k\<rparr>) = queues_ok t"
  by (simp_all add: queues_ok_def fun_eq_iff)

lemma shrunk_other [simp]:
  "shrunk s (t\<lparr>signals := p\<rparr>) = shrunk s t" "shrunk s (t\<lparr>WritableSxactCount := n\<rparr>) = shrunk s t"
  "shrunk s (t\<lparr>SxactGlobalXminCount := n\<rparr>) = shrunk s t" "shrunk s (t\<lparr>CanPartialClearThrough := k\<rparr>) = shrunk s t"
  by (simp_all add: shrunk_def same_core_def fun_eq_iff)

lemma wpl_signal:
  assumes "shrunk s t E U"
  shows "wpl (bindp (get_sxact x) (\<lambda>ro. whenp (P ro) (ProcSendSignal (pid ro)))) (\<lambda>_ t. shrunk s t E U) t"
  using assms by (simp add: wp_simps ProcSendSignal_def)

lemma wpl_safe:
  assumes "shrunk s t E U"
  shows "wpl (bindp (get_sxact x) (\<lambda>ro. whenp (P ro) (set_flag x SXACT_FLAG_RO_SAFE))) (\<lambda>_ t. shrunk s t E U) t"
  using shrunk_flag [OF assms, of x "\<lambda>v. v\<lparr>flags := flags v OR SXACT_FLAG_RO_SAFE\<rparr>"] assms by (simp add: wp_simps)

lemma wpl_finish_unsafe:
  assumes sh: "shrunk s t E U" and "\<forall>c. l = OutLink c \<longrightarrow> c \<notin> E"
  shows "wpl (finish_unsafe isCommit didWrite me l) (\<lambda>_ t. \<exists>U' c. shrunk s t E U' \<and> U' \<subseteq> U \<and> l = OutLink c \<and> c \<notin> U') t"
proof (cases l)
  case (OutLink c)
  let ?Q = "\<lambda>t. \<exists>U'. shrunk s t E U' \<and> U' \<subseteq> U \<and> c \<notin> U'"
  have flag: "wpl (FlagSxactUnsafe (sxactIn (pool t ! c))) (\<lambda>_. ?Q) t"
    by (rule wp_mono [OF wpl_FlagSxactUnsafe [OF sh]]) (use shrunkD(2) [OF sh] in auto)
  have E: "E - {c} = E" using assms(2) OutLink by simp
  have rel: "wpl (ReleaseRWConflict c) (\<lambda>_. ?Q) t"
    by (rule wp_mono [OF wpl_release [OF sh]]) (use E in auto)
  have safe: "wpl (bindp (get_sxact x) (\<lambda>ro. whenp (P ro) (set_flag x SXACT_FLAG_RO_SAFE))) (\<lambda>_. ?Q) u" if "?Q u" for u x P
    using that by (auto intro: wp_mono [OF wpl_safe])
  have signal: "wpl (bindp (get_sxact x) (\<lambda>ro. whenp (P ro) (ProcSendSignal (pid ro)))) (\<lambda>_. ?Q) u" if "?Q u" for u x P
    using that by (auto intro: wp_mono [OF wpl_signal])
  have body: "wpl (if b then FlagSxactUnsafe (sxactIn (pool t ! c)) else thenp (ReleaseRWConflict c)
      (bindp (get_sxact x) (\<lambda>ro. whenp (P ro) (set_flag x SXACT_FLAG_RO_SAFE)))) (\<lambda>_. ?Q) t" for b x P
    by (rule wpl_if, rule flag, rule wpl_thenp [OF rel], rule safe)
  have "wpl (finish_unsafe isCommit didWrite me (OutLink c)) (\<lambda>_. ?Q) t"
    unfolding finish_unsafe_def Let_def outLink_conflict.simps liftp_Inr
    by (rule wpl_get_conflict, rule wpl_assertp, rule wpl_get_sxact, rule wpl_assertp, rule wpl_get_sxact,
        rule wpl_thenp [OF body signal])
  then show ?thesis using OutLink by simp
qed (simp add: finish_unsafe_def wp_simps)

lemma wpl_finish_unsafe_loop:
  assumes sh: "shrunk s t E U" and "\<forall>c. OutLink c \<in> set ls \<longrightarrow> c \<notin> E"
  shows "wpl (eachp (finish_unsafe isCommit didWrite me) ls)
     (\<lambda>_ t. \<exists>V. shrunk s t E V \<and> V \<subseteq> U \<and> (\<forall>l \<in> set ls. \<exists>c. l = OutLink c \<and> c \<notin> V)) t"
proof (rule wpl_clear_loop [OF sh])
  fix l u V assume "l \<in> set ls" and u: "shrunk s u E V"
  then have "\<forall>c. l = OutLink c \<longrightarrow> c \<notin> E" using assms(2) by auto
  from wpl_finish_unsafe [OF u this]
  show "wpl (finish_unsafe isCommit didWrite me l) (\<lambda>_ v. \<exists>W c. shrunk s v E W \<and> W \<subseteq> V \<and> l = OutLink c \<and> c \<notin> W) u" .
qed

lemma wpl_finish_in_loop:
  assumes sh: "shrunk s t E U" and "\<forall>c. InLink c \<in> set ls \<longrightarrow> c \<notin> U"
  shows "wpl (eachp (finish_in isCommit) ls)
     (\<lambda>_ t. \<exists>E'. shrunk s t E' U \<and> E' \<subseteq> E \<and> (\<forall>c \<in> E - E'. InLink c \<in> set ls \<and> (isCommit \<longrightarrow>
          SxactIsCommitted (element s ! sxactOut (pool s ! c)) \<or> SxactIsReadOnly (element s ! sxactOut (pool s ! c)))) \<and>
        (\<not> isCommit \<longrightarrow> (\<forall>l \<in> set ls. \<exists>c. l = InLink c \<and> c \<notin> E'))) t"
proof -
  let ?ok = "\<lambda>c. SxactIsCommitted (element s ! sxactOut (pool s ! c)) \<or> SxactIsReadOnly (element s ! sxactOut (pool s ! c))"
  let ?I = "\<lambda>ys t. \<exists>E'. shrunk s t E' U \<and> E' \<subseteq> E \<and> (\<forall>c \<in> E - E'. InLink c \<in> set ls \<and> (isCommit \<longrightarrow> ?ok c)) \<and>
     (\<not> isCommit \<longrightarrow> (\<forall>l \<in> set ys. \<exists>c. l = InLink c \<and> c \<notin> E'))"
  have "wpl (eachp (finish_in isCommit) ls) (\<lambda>_. ?I ls) t"
  proof (rule wp_eachp [where I = ?I])
    show "?I [] t" using sh by auto
  next
    fix ys l zs u assume ls: "ls = ys @ l # zs" and "?I ys u"
    then obtain E' where u: "shrunk s u E' U" "E' \<subseteq> E" "\<forall>c \<in> E - E'. InLink c \<in> set ls \<and> (isCommit \<longrightarrow> ?ok c)"
      "\<not> isCommit \<longrightarrow> (\<forall>l \<in> set ys. \<exists>c. l = InLink c \<and> c \<notin> E')" by blast
    show "wpl (finish_in isCommit l) (\<lambda>_. ?I (ys @ [l])) u"
    proof (cases l)
      case (InLink c)
      let ?x = "sxactOut (pool u ! c)"
      have U: "U - {c} = U" using assms(2) ls InLink by auto
      have rel: "wpl (ReleaseRWConflict c) (\<lambda>_. ?I (ys @ [l])) u" if "isCommit \<longrightarrow> ?ok c"
      proof (rule wp_mono [OF wpl_release [OF u(1)]])
        fix y v assume v: "c \<in> E' \<union> U \<and> shrunk s v (E' - {c}) (U - {c})"
        have "\<forall>d \<in> E - (E' - {c}). InLink d \<in> set ls \<and> (isCommit \<longrightarrow> ?ok d)" using u(3) that ls InLink by auto
        moreover have "\<not> isCommit \<longrightarrow> (\<forall>l \<in> set (ys @ [l]). \<exists>d. l = InLink d \<and> d \<notin> E' - {c})" using u(4) InLink by auto
        ultimately show "?I (ys @ [l]) v" using v u(2) U by (intro exI [of _ "E' - {c}"]) auto
      qed simp
      have core: "core (element u ! ?x) = core (element s ! sxactOut (pool s ! c))" if "?x < length (element u)"
        using same_core_nth [OF shrunk_core [OF u(1)]] shrunkD(1,2) [OF u(1)] that by simp
      have skip: "?I (ys @ [l]) u" if isCommit using u that by blast
      show ?thesis
        unfolding InLink finish_in_def inLink_conflict.simps liftp_Inr unfolding InLink [symmetric]
        by (rule wpl_get_conflict, rule wpl_get_sxact, rule wpl_whenp)
          (use rel skip core_eq(1,6) [OF core] in blast)+
    qed (simp add: finish_in_def wp_simps)
  qed
  then show ?thesis .
qed

end
