(* ===== verification/PredicateEndFacts.thy ===== *)
theory PredicateEndFacts
  imports PredicateRelease
begin

unbundle bit_operations_syntax

text \<open>
  The end of a transaction (\<open>end_xact\<close>): which of its conflicts are released, that a commit notes the conflicts out
  to committed transactions, and that a rollback leaves no conflict of the transaction behind.
\<close>

subsection \<open>The conflicts out of the transaction that ends\<close>

text \<open>What noting a conflict out leaves alone in the transaction that commits.\<close>

definition core_out :: "SERIALIZABLEXACT \<Rightarrow> SERIALIZABLEXACT" where
  "core_out x = (core x)\<lparr>SeqNo := 0, flags := flags (core x) AND NOT SXACT_FLAG_CONFLICT_OUT\<rparr>"

definition note_out :: "SerCommitSeqNo \<Rightarrow> SERIALIZABLEXACT \<Rightarrow> SERIALIZABLEXACT" where
  "note_out n x = (if flags x AND SXACT_FLAG_CONFLICT_OUT = 0 \<or> n < SeqNo x then x\<lparr>SeqNo := n\<rparr> else x)
     \<lparr>flags := flags x OR SXACT_FLAG_CONFLICT_OUT\<rparr>"

lemma core_out_bit: "core_out x = core_out y \<Longrightarrow> k \<noteq> 4 \<Longrightarrow> k \<noteq> 7 \<Longrightarrow> k \<noteq> 8 \<Longrightarrow> bit (flags x) k = bit (flags y) k"
proof -
  assume "core_out x = core_out y" and k: "k \<noteq> 4" "k \<noteq> 7" "k \<noteq> 8"
  then have "flags (core_out x) = flags (core_out y)" by simp
  then have "bit ((flags x AND NOT (push_bit 7 1 OR push_bit 8 1)) AND NOT (push_bit 4 1)) k =
      bit ((flags y AND NOT (push_bit 7 1 OR push_bit 8 1)) AND NOT (push_bit 4 1)) k"
    by (simp add: core_out_def core_def flag_masks)
  with k show ?thesis
    by (auto simp: bit_and_iff bit_not_iff bit_or_iff bit_push_one dest: bit_imp_le_length)
qed

lemma core_out_eq:
  assumes "core_out x = core_out y"
  shows "SxactIsCommitted x = SxactIsCommitted y" "SxactIsPrepared x = SxactIsPrepared y"
    "SxactIsRolledBack x = SxactIsRolledBack y" "SxactIsDoomed x = SxactIsDoomed y" "SxactIsReadOnly x = SxactIsReadOnly y"
    "SxactHasSummaryConflictIn x = SxactHasSummaryConflictIn y"
    "SxactHasSummaryConflictOut x = SxactHasSummaryConflictOut y"
    "prepareSeqNo x = prepareSeqNo y" "commitSeqNo x = commitSeqNo y"
  unfolding sxact_bits using assms core_out_bit [OF assms]
  by (simp_all add: core_out_def core_def strip_def) (cases x; cases y; simp)+

lemma core_out_core: "core x = core y \<Longrightarrow> core_out x = core_out y"
  by (simp add: core_out_def)

lemma note_out_simps [simp]:
  "outConflicts (note_out n x) = outConflicts x" "inConflicts (note_out n x) = inConflicts x"
  "possibleUnsafeConflicts (note_out n x) = possibleUnsafeConflicts x" "SxactHasConflictOut (note_out n x)"
  "core_out (note_out n x) = core_out x"
proof -
  have "((w OR m) AND a) AND NOT m = (w AND a) AND NOT m" for w m a :: uint32
    by (auto intro!: bit_eqI simp: bit_and_iff bit_or_iff bit_not_iff)
  then show "core_out (note_out n x) = core_out x" by (cases x) (simp add: note_out_def core_out_def core_def strip_def)
  show "SxactHasConflictOut (note_out n x)"
    by (simp add: note_out_def sxact_bits flag_masks bit_or_iff bit_push_one)
qed (simp_all add: note_out_def)

lemma note_out_le: "n \<le> k \<Longrightarrow> SeqNo x \<le> k \<Longrightarrow> SeqNo (note_out n x) \<le> k"
  by (simp add: note_out_def)

text \<open>\<open>t\<close> is \<open>s\<close> up to queues and to what is noted in \<open>me\<close>, if that is not read-only.\<close>

definition fin :: "nat \<Rightarrow> ssi \<Rightarrow> ssi \<Rightarrow> bool" where
  "fin me s t \<longleftrightarrow> length (element t) = length (element s) \<and> pool t = pool s \<and>
     availableList t = availableList s \<and> activeList t = activeList s \<and>
     LastSxactCommitSeqNo t = LastSxactCommitSeqNo s \<and> OldCommittedSxact t = OldCommittedSxact s \<and>
     FinishedSerializableTransactions t = FinishedSerializableTransactions s \<and>
     (\<forall>x < length (element s). x \<noteq> me \<longrightarrow> core (element t ! x) = core (element s ! x)) \<and>
     core_out (element t ! me) = core_out (element s ! me) \<and>
     (SxactIsReadOnly (element s ! me) \<longrightarrow> core (element t ! me) = core (element s ! me))"

lemma fin_refl [simp]: "fin me s s"
  by (simp add: fin_def)

lemma same_core_fin: "same_core s t \<Longrightarrow> me < length (element s) \<Longrightarrow> fin me s t"
  using same_core_length [of s t] same_core_nth [of s t] by (auto simp: fin_def same_core_def intro: core_out_core)

lemma fin_trans: "fin me s t \<Longrightarrow> fin me t u \<Longrightarrow> fin me s u"
  unfolding fin_def using core_out_eq(5) by metis

lemma fin_note:
  assumes "fin me s t" and "me < length (element s)" and "\<not> SxactIsReadOnly (element s ! me)"
  shows "fin me s (t\<lparr>element := (element t)[me := note_out n (element t ! me)]\<rparr>)"
  using assms by (simp add: fin_def)

lemma finish_out_eq:
  "finish_out isCommit me (OutLink c) =
     bindp (get_conflict c) (\<lambda>conflict.
     bindp (get_sxact me) (\<lambda>sxact.
     bindp (get_sxact (sxactIn conflict)) (\<lambda>inn.
     thenp (whenp (isCommit \<and> \<not> SxactIsReadOnly sxact \<and> SxactIsCommitted inn) (upd_sxact me (note_out (prepareSeqNo inn))))
     (bindp (gets LastSxactCommitSeqNo) (\<lambda>lastSeqNo.
     whenp (\<not> isCommit \<or> SxactIsCommitted inn \<or> SeqNo inn \<ge> lastSeqNo) (ReleaseRWConflict c))))))"
  by (simp add: finish_out_def liftp_Inr note_out_def [abs_def])

text \<open>
  The state in the loop over the conflicts out: the dependencies left are \<open>E'\<close>; in a commit all that have gone
  lead to committed transactions, and these are noted.
\<close>

definition out_loop :: "bool \<Rightarrow> nat \<Rightarrow> ssi \<Rightarrow> nat set \<Rightarrow> nat set \<Rightarrow> rwlink list \<Rightarrow> rwlink list \<Rightarrow> ssi \<Rightarrow> bool" where
  "out_loop isCommit me s E U ls ys t \<longleftrightarrow> (\<exists>E' A. queues_ok t E' U A \<and> fin me s t \<and> E' \<subseteq> E \<and>
     SeqNo (element t ! me) \<le> LastSxactCommitSeqNo s \<and>
     (\<forall>c \<in> E - E'. OutLink c \<in> set ls \<and> (isCommit \<longrightarrow> SxactIsCommitted (element s ! sxactIn (pool s ! c)))) \<and>
     (\<not> isCommit \<longrightarrow> (\<forall>l \<in> set ys. \<exists>c. l = OutLink c \<and> c \<notin> E')) \<and>
     (isCommit \<and> \<not> SxactIsReadOnly (element s ! me) \<longrightarrow>
       (\<forall>c. OutLink c \<in> set ys \<and> SxactIsCommitted (element s ! sxactIn (pool s ! c)) \<longrightarrow> SxactHasConflictOut (element t ! me))))"

lemma wpl_finish_out:
  assumes loop: "out_loop isCommit me s E U ls ys t" and ls: "OutLink c \<in> set ls" "c \<notin> U"
    and me: "me < length (element s)" and inn: "sxactIn (pool s ! c) \<noteq> me" "sxactIn (pool s ! c) < length (element s)"
    and prep: "SxactIsCommitted (element s ! sxactIn (pool s ! c)) \<longrightarrow> prepareSeqNo (element s ! sxactIn (pool s ! c)) \<le> LastSxactCommitSeqNo s"
    and snap: "isCommit \<longrightarrow> \<not> SxactIsCommitted (element s ! sxactIn (pool s ! c)) \<longrightarrow> SeqNo (element s ! sxactIn (pool s ! c)) < LastSxactCommitSeqNo s"
  shows "wpl (finish_out isCommit me (OutLink c)) (\<lambda>_. out_loop isCommit me s E U ls (ys @ [OutLink c])) t"
proof -
  let ?x = "sxactIn (pool s ! c)"
  let ?n = "\<lambda>t. if isCommit \<and> \<not> SxactIsReadOnly (element s ! me) \<and> SxactIsCommitted (element s ! ?x)
                then t\<lparr>element := (element t)[me := note_out (prepareSeqNo (element s ! ?x)) (element t ! me)]\<rparr> else t"
  from loop obtain E' A where q: "queues_ok t E' U A" and f: "fin me s t" and E': "E' \<subseteq> E"
    and le: "SeqNo (element t ! me) \<le> LastSxactCommitSeqNo s"
    and gone: "\<forall>c \<in> E - E'. OutLink c \<in> set ls \<and> (isCommit \<longrightarrow> SxactIsCommitted (element s ! sxactIn (pool s ! c)))"
    and all: "\<not> isCommit \<longrightarrow> (\<forall>l \<in> set ys. \<exists>c. l = OutLink c \<and> c \<notin> E')"
    and noted: "isCommit \<and> \<not> SxactIsReadOnly (element s ! me) \<longrightarrow>
       (\<forall>c. OutLink c \<in> set ys \<and> SxactIsCommitted (element s ! sxactIn (pool s ! c)) \<longrightarrow> SxactHasConflictOut (element t ! me))"
    unfolding out_loop_def by blast
  have len: "length (element t) = length (element s)" and pool: "pool t = pool s" and lst: "LastSxactCommitSeqNo t = LastSxactCommitSeqNo s"
    and x: "core (element t ! ?x) = core (element s ! ?x)" and co: "core_out (element t ! me) = core_out (element s ! me)"
    using f inn by (simp_all add: fin_def)
  note ro = core_out_eq(5) [OF co]
  define u where "u = ?n t"
  have t1: "queues_ok u E' U A" unfolding u_def using q queues_ok_update [OF q, of me] by simp
  have t2: "fin me s u" unfolding u_def using f fin_note [OF f me] by simp
  have lu: "length (element u) = length (element s)" using t2 by (simp add: fin_def)
  have t3: "SeqNo (element u ! me) \<le> LastSxactCommitSeqNo s" unfolding u_def using le prep me len by (simp add: note_out_le)
  have t4: "SxactHasConflictOut (element t ! me) \<longrightarrow> SxactHasConflictOut (element u ! me)"
    "isCommit \<and> \<not> SxactIsReadOnly (element s ! me) \<and> SxactIsCommitted (element s ! ?x) \<longrightarrow> SxactHasConflictOut (element u ! me)"
    unfolding u_def using me len by simp_all
  have kept: "out_loop isCommit me s E U ls (ys @ [OutLink c]) u" if "isCommit" "\<not> SxactIsCommitted (element s ! ?x)"
    unfolding out_loop_def using t1 t2 t3 t4 E' gone noted that by (rule_tac exI [of _ E'], rule_tac exI [of _ A]) auto
  have rel: "wpl (ReleaseRWConflict c) (\<lambda>_. out_loop isCommit me s E U ls (ys @ [OutLink c])) u"
    if ok: "isCommit \<longrightarrow> SxactIsCommitted (element s ! ?x)"
  proof -
    have "out_loop isCommit me s E U ls (ys @ [OutLink c]) (released c u)" if c: "c \<in> E' \<union> U"
    proof -
      have "queues_ok (released c u) (E' - {c}) U (insert c A)" using released_queues [OF t1 c] ls(2) by simp
      moreover have "fin me s (released c u)" using fin_trans [OF t2] same_core_fin [OF same_core_released, of me u c] me lu by simp
      moreover have "core (element (released c u) ! me) = core (element u ! me)"
        using same_core_nth [OF same_core_released, of me u c] me lu by simp
      then have "SeqNo (element (released c u) ! me) = SeqNo (element u ! me)"
        "SxactHasConflictOut (element (released c u) ! me) = SxactHasConflictOut (element u ! me)"
        by (rule core_eq)+
      moreover have "\<forall>d \<in> E - (E' - {c}). OutLink d \<in> set ls \<and> (isCommit \<longrightarrow> SxactIsCommitted (element s ! sxactIn (pool s ! d)))"
        using gone ok ls(1) by auto
      moreover have "\<not> isCommit \<longrightarrow> (\<forall>l \<in> set (ys @ [OutLink c]). \<exists>d. l = OutLink d \<and> d \<notin> E' - {c})" using all by auto
      moreover have "isCommit \<and> \<not> SxactIsReadOnly (element s ! me) \<longrightarrow> (\<forall>d. OutLink d \<in> set (ys @ [OutLink c]) \<and>
          SxactIsCommitted (element s ! sxactIn (pool s ! d)) \<longrightarrow> SxactHasConflictOut (element u ! me))"
        using noted t4 by (simp only: set_append Un_iff) auto
      ultimately show ?thesis
        unfolding out_loop_def using t3 E' by (rule_tac exI [of _ "E' - {c}"], rule_tac exI [of _ "insert c A"]) auto
    qed
    then show ?thesis by (simp add: wp_ReleaseRWConflict [OF t1])
  qed
  show ?thesis
    unfolding finish_out_eq
    using kept rel snap me inn len core_eq(1,9,11) [OF x]
    by (auto simp: wp_simps pool ro lst u_def split: if_splits)
qed

lemma wpl_finish_out_loop:
  assumes q: "queues_ok s E U A" and me: "me < length (element s)" "SeqNo (element s ! me) \<le> LastSxactCommitSeqNo s"
    and irr: "\<forall>c \<in> E. sxactOut (pool s ! c) \<noteq> sxactIn (pool s ! c)"
    and prep: "\<forall>x < length (element s). SxactIsCommitted (element s ! x) \<longrightarrow> prepareSeqNo (element s ! x) \<le> LastSxactCommitSeqNo s"
    and snap: "isCommit \<longrightarrow> (\<forall>x < length (element s). x \<noteq> me \<longrightarrow> SeqNo (element s ! x) < LastSxactCommitSeqNo s)"
  defines "ls \<equiv> outConflicts (element s ! me)"
  shows "wpl (eachp (finish_out isCommit me) ls) (\<lambda>_. out_loop isCommit me s E U ls ls) s"
proof (rule wp_eachp [where I = "out_loop isCommit me s E U ls"])
  show "out_loop isCommit me s E U ls [] s" using q me by (auto simp: out_loop_def)
next
  fix ys l zs u assume ls: "ls = ys @ l # zs" and u: "out_loop isCommit me s E U ls ys u"
  have "set ls = OutLink ` {c \<in> E. sxactOut (pool s ! c) = me}" using q me by (simp add: queues_ok_def ls_def)
  then have "l \<in> OutLink ` {c \<in> E. sxactOut (pool s ! c) = me}" using ls by (metis in_set_conv_decomp)
  then obtain c where c: "l = OutLink c" "c \<in> E" "sxactOut (pool s ! c) = me" by blast
  have cs: "OutLink c \<in> set ls" using ls c(1) by simp
  have "c \<notin> U" "sxactIn (pool s ! c) < length (element s)" using q c(2) by (auto simp: queues_ok_def)
  moreover have "sxactIn (pool s ! c) \<noteq> me" using irr c by metis
  ultimately show "wpl (finish_out isCommit me l) (\<lambda>_. out_loop isCommit me s E U ls (ys @ [l])) u"
    unfolding c(1) using prep snap by (intro wpl_finish_out [OF u cs _ me(1)]) auto
qed

subsection \<open>The end of a transaction\<close>

definition marked :: "bool \<Rightarrow> bool \<Rightarrow> nat \<Rightarrow> ssi \<Rightarrow> ssi \<Rightarrow> bool" where
  "marked isCommit didWrite me s t \<longleftrightarrow> (let x = element s ! me; y = element t ! me in
     t = s\<lparr>element := (element s)[me := y],
           LastSxactCommitSeqNo := if isCommit then LastSxactCommitSeqNo s + 1 else LastSxactCommitSeqNo s\<rparr> \<and>
     outConflicts y = outConflicts x \<and> inConflicts y = inConflicts x \<and> possibleUnsafeConflicts y = possibleUnsafeConflicts x \<and>
     SxactHasConflictOut y = SxactHasConflictOut x \<and> SxactHasSummaryConflictIn y = SxactHasSummaryConflictIn x \<and>
     SxactHasSummaryConflictOut y = SxactHasSummaryConflictOut x \<and> prepareSeqNo y = prepareSeqNo x \<and> SeqNo y = SeqNo x \<and>
     SxactIsCommitted y = (isCommit \<or> SxactIsCommitted x) \<and> SxactIsDoomed y = (\<not> isCommit \<or> SxactIsDoomed x) \<and>
     SxactIsPrepared y = (isCommit \<and> SxactIsPrepared x) \<and>
     SxactIsReadOnly y = (SxactIsReadOnly x \<or> isCommit \<and> \<not> didWrite) \<and>
     (isCommit \<longrightarrow> commitSeqNo y = LastSxactCommitSeqNo s + 1))"

lemma wpl_mark:
  "me < length (element s) \<Longrightarrow>
   wpl (thenp (upd_sxact me (\<lambda>sxact. sxact\<lparr>finishedBefore := nxid\<rparr>))
     (if isCommit then mark_committed didWrite me else mark_rolled_back me)) (\<lambda>_. marked isCommit didWrite me s) s"
  by (cases didWrite)
    (auto simp: mark_committed_def mark_rolled_back_def wp_simps marked_def Let_def sxact_bits flag_masks bit_or_iff bit_and_iff
      bit_not_iff bit_push_one)

lemma wpl_marked:
  assumes "me < length (element s)" and "\<And>t. marked isCommit didWrite me s t \<Longrightarrow> wpl rest Q t"
  shows "wpl (thenp (upd_sxact me (\<lambda>sxact. sxact\<lparr>finishedBefore := nxid\<rparr>))
     (thenp (if isCommit then mark_committed didWrite me else mark_rolled_back me) rest)) Q s"
  using wpl_thenp [OF wpl_mark [OF assms(1)] assms(2)] unfolding wp_thenp by blast

lemma wpl_count_writable:
  "queues_ok s E U A \<Longrightarrow> wpl count_writable (\<lambda>_ t. shrunk s t E U) s"
  by (auto simp: count_writable_def wp_simps shrunk_refl)

lemma wpl_cleared:
  assumes sh: "shrunk s s E U" and me: "me < length (element s)" and "lnk = InLink \<or> lnk = OutLink"
    and "wpl m (\<lambda>_ t. \<exists>V. shrunk s t E V \<and> V \<subseteq> U \<and>
      (\<forall>l \<in> set (possibleUnsafeConflicts (element s ! me)). \<exists>c. l = lnk c \<and> c \<notin> V)) s"
  shows "wpl m (\<lambda>_ t. \<exists>V. shrunk s t E V \<and> V \<subseteq> U \<and> (\<forall>c \<in> V. sxactOut (pool s ! c) \<noteq> me \<and> sxactIn (pool s ! c) \<noteq> me)) s"
  using assms(4)
proof (rule wp_mono)
  fix y u assume "\<exists>V. shrunk s u E V \<and> V \<subseteq> U \<and> (\<forall>l \<in> set (possibleUnsafeConflicts (element s ! me)). \<exists>c. l = lnk c \<and> c \<notin> V)"
  then obtain V where V: "shrunk s u E V" "V \<subseteq> U" "\<forall>l \<in> set (possibleUnsafeConflicts (element s ! me)). \<exists>c. l = lnk c \<and> c \<notin> V"
    by blast
  then have "\<forall>c \<in> V. sxactOut (pool s ! c) \<noteq> me \<and> sxactIn (pool s ! c) \<noteq> me"
    using assms(3) by (intro unsafe_cleared [OF sh me V(2)]) blast
  with V show "\<exists>V. shrunk s u E V \<and> V \<subseteq> U \<and> (\<forall>c \<in> V. sxactOut (pool s ! c) \<noteq> me \<and> sxactIn (pool s ! c) \<noteq> me)" by blast
qed simp

lemma wpl_declared_ro:
  assumes q: "queues_ok s E U A" and me: "me < length (element s)"
  shows "wpl (bindp (get_sxact me) (\<lambda>sxact. eachp (release_unsafe_in me) (possibleUnsafeConflicts sxact)))
    (\<lambda>_ t. \<exists>V. shrunk s t E V \<and> V \<subseteq> U \<and> (\<forall>c \<in> V. sxactOut (pool s ! c) \<noteq> me \<and> sxactIn (pool s ! c) \<noteq> me)) s"
proof (rule wpl_get_sxact)
  note sh = shrunk_refl [OF q]
  have "\<forall>c. InLink c \<in> set (possibleUnsafeConflicts (element s ! me)) \<longrightarrow> c \<notin> E" using unsafe_not_edges(1) [OF sh me] by blast
  from wpl_cleared [OF sh me _ wpl_unsafe_loop [OF sh this]]
  show "wpl (eachp (release_unsafe_in me) (possibleUnsafeConflicts (element s ! me)))
    (\<lambda>_ t. \<exists>V. shrunk s t E V \<and> V \<subseteq> U \<and> (\<forall>c \<in> V. sxactOut (pool s ! c) \<noteq> me \<and> sxactIn (pool s ! c) \<noteq> me)) s"
    by simp
qed

lemma wpl_finish_possible:
  assumes q: "queues_ok s E U A" and me: "me < length (element s)"
  shows "wpl (bindp (get_sxact me) (\<lambda>sxact. eachp (finish_unsafe isCommit didWrite me) (possibleUnsafeConflicts sxact)))
    (\<lambda>_ t. \<exists>V. shrunk s t E V \<and> V \<subseteq> U \<and> (\<forall>c \<in> V. sxactOut (pool s ! c) \<noteq> me \<and> sxactIn (pool s ! c) \<noteq> me)) s"
proof (rule wpl_get_sxact)
  note sh = shrunk_refl [OF q]
  have "\<forall>c. OutLink c \<in> set (possibleUnsafeConflicts (element s ! me)) \<longrightarrow> c \<notin> E" using unsafe_not_edges(2) [OF sh me] by blast
  from wpl_cleared [OF sh me _ wpl_finish_unsafe_loop [OF sh this]]
  show "wpl (eachp (finish_unsafe isCommit didWrite me) (possibleUnsafeConflicts (element s ! me)))
    (\<lambda>_ t. \<exists>V. shrunk s t E V \<and> V \<subseteq> U \<and> (\<forall>c \<in> V. sxactOut (pool s ! c) \<noteq> me \<and> sxactIn (pool s ! c) \<noteq> me)) s"
    by simp
qed

lemma wpl_leave_xmin: "shrunk s t E U \<Longrightarrow> wpl (leave_xmin me) (\<lambda>_ t. shrunk s t E U) t"
  unfolding leave_xmin_def by (auto simp: wp_simps split: prod.splits)

text \<open>What is left of the conflicts when \<open>me\<close> has ended, and what is known of \<open>me\<close> then.\<close>

definition gone_ok :: "bool \<Rightarrow> nat \<Rightarrow> ssi \<Rightarrow> nat \<Rightarrow> bool" where
  "gone_ok isCommit me s c \<longleftrightarrow>
     sxactOut (pool s ! c) = me \<and> (isCommit \<longrightarrow> SxactIsCommitted (element s ! sxactIn (pool s ! c))) \<or>
     sxactIn (pool s ! c) = me \<and> (isCommit \<longrightarrow> SxactIsCommitted (element s ! sxactOut (pool s ! c)) \<or>
       SxactIsReadOnly (element s ! sxactOut (pool s ! c)))"

definition xact_ended :: "bool \<Rightarrow> nat \<Rightarrow> ssi \<Rightarrow> nat set \<Rightarrow> nat set \<Rightarrow> ssi \<Rightarrow> bool" where
  "xact_ended isCommit me s E U t \<longleftrightarrow> (\<exists>E' U' A. queues_ok t E' U' A \<and> E' \<subseteq> E \<and> U' \<subseteq> U \<and> fin me s t \<and>
     (\<forall>c \<in> U'. sxactOut (pool s ! c) \<noteq> me \<and> sxactIn (pool s ! c) \<noteq> me) \<and>
     (\<forall>c \<in> E - E'. gone_ok isCommit me s c) \<and>
     (\<not> isCommit \<longrightarrow> (\<forall>c \<in> E'. sxactOut (pool s ! c) \<noteq> me \<and> sxactIn (pool s ! c) \<noteq> me)) \<and>
     SeqNo (element t ! me) \<le> LastSxactCommitSeqNo s \<and>
     (isCommit \<and> \<not> SxactIsReadOnly (element s ! me) \<longrightarrow>
       (\<forall>c \<in> E. sxactOut (pool s ! c) = me \<and> SxactIsCommitted (element s ! sxactIn (pool s ! c)) \<longrightarrow>
          SxactHasConflictOut (element t ! me))))"

lemma fin_fields:
  assumes "fin me s t"
  shows "length (element t) = length (element s)" "pool t = pool s" "LastSxactCommitSeqNo t = LastSxactCommitSeqNo s"
    "SxactIsReadOnly (element t ! me) = SxactIsReadOnly (element s ! me)"
    "x \<noteq> me \<Longrightarrow> x < length (element s) \<Longrightarrow> core (element t ! x) = core (element s ! x)"
  using assms core_out_eq(5) [of "element t ! me" "element s ! me"] by (simp_all add: fin_def)

text \<open>The loops over the conflicts out and in, one after the other.\<close>

definition conflicts_done :: "bool \<Rightarrow> nat \<Rightarrow> ssi \<Rightarrow> nat set \<Rightarrow> nat set \<Rightarrow> ssi \<Rightarrow> bool" where
  "conflicts_done isCommit me s E U t \<longleftrightarrow> (\<exists>E' A. queues_ok t E' U A \<and> E' \<subseteq> E \<and> fin me s t \<and>
     (\<forall>c \<in> E - E'. gone_ok isCommit me s c) \<and>
     (\<not> isCommit \<longrightarrow> (\<forall>c \<in> E'. sxactOut (pool s ! c) \<noteq> me \<and> sxactIn (pool s ! c) \<noteq> me)) \<and>
     SeqNo (element t ! me) \<le> LastSxactCommitSeqNo s \<and>
     (isCommit \<and> \<not> SxactIsReadOnly (element s ! me) \<longrightarrow>
       (\<forall>c \<in> E. sxactOut (pool s ! c) = me \<and> SxactIsCommitted (element s ! sxactIn (pool s ! c)) \<longrightarrow>
          SxactHasConflictOut (element t ! me))))"

lemma in_after_out:
  assumes out: "out_loop isCommit me s E U ls ls t" and ls: "set ls = OutLink ` {c \<in> E. sxactOut (pool s ! c) = me}"
    and me: "me < length (element s)" and irr: "\<forall>c \<in> E. sxactOut (pool s ! c) \<noteq> sxactIn (pool s ! c)"
    and bnd: "\<forall>c \<in> E. sxactOut (pool s ! c) < length (element s)"
  shows "wpl (bindp (get_sxact me) (\<lambda>sxact. eachp (finish_in isCommit) (inConflicts sxact))) (\<lambda>_. conflicts_done isCommit me s E U) t"
proof (rule wpl_get_sxact)
  from out obtain E1 A where q: "queues_ok t E1 U A" and f: "fin me s t" and E1: "E1 \<subseteq> E"
    and le: "SeqNo (element t ! me) \<le> LastSxactCommitSeqNo s"
    and gone: "\<forall>c \<in> E - E1. OutLink c \<in> set ls \<and> (isCommit \<longrightarrow> SxactIsCommitted (element s ! sxactIn (pool s ! c)))"
    and all: "\<not> isCommit \<longrightarrow> (\<forall>l \<in> set ls. \<exists>c. l = OutLink c \<and> c \<notin> E1)"
    and noted: "isCommit \<and> \<not> SxactIsReadOnly (element s ! me) \<longrightarrow>
       (\<forall>c. OutLink c \<in> set ls \<and> SxactIsCommitted (element s ! sxactIn (pool s ! c)) \<longrightarrow> SxactHasConflictOut (element t ! me))"
    unfolding out_loop_def by blast
  note ff = fin_fields [OF f]
  have ins: "set (inConflicts (element t ! me)) = InLink ` {c \<in> E1. sxactIn (pool s ! c) = me}"
    using q me ff(1,2) by (simp add: queues_ok_def)
  have "\<forall>c. InLink c \<in> set (inConflicts (element t ! me)) \<longrightarrow> c \<notin> U" using ins shrunkD(3) [OF shrunk_refl [OF q]] by auto
  from wpl_finish_in_loop [OF shrunk_refl [OF q] this]
  show "wpl (eachp (finish_in isCommit) (inConflicts (element t ! me))) (\<lambda>_. conflicts_done isCommit me s E U) t"
  proof (rule wp_mono)
    fix y u
    let ?ok = "\<lambda>t c. SxactIsCommitted (element t ! sxactOut (pool t ! c)) \<or> SxactIsReadOnly (element t ! sxactOut (pool t ! c))"
    assume "\<exists>E'. shrunk t u E' U \<and> E' \<subseteq> E1 \<and>
        (\<forall>c \<in> E1 - E'. InLink c \<in> set (inConflicts (element t ! me)) \<and> (isCommit \<longrightarrow> ?ok t c)) \<and>
        (\<not> isCommit \<longrightarrow> (\<forall>l \<in> set (inConflicts (element t ! me)). \<exists>c. l = InLink c \<and> c \<notin> E'))"
    then obtain E2 where u: "shrunk t u E2 U" "E2 \<subseteq> E1"
      "\<forall>c \<in> E1 - E2. InLink c \<in> set (inConflicts (element t ! me)) \<and> (isCommit \<longrightarrow> ?ok t c)"
      "\<not> isCommit \<longrightarrow> (\<forall>l \<in> set (inConflicts (element t ! me)). \<exists>c. l = InLink c \<and> c \<notin> E2)" by blast
    note cu = same_core_nth [OF shrunk_core [OF u(1)]]
    have "fin me s u" using fin_trans [OF f same_core_fin [OF shrunk_core [OF u(1)]]] me ff(1) by simp
    moreover have "SeqNo (element u ! me) = SeqNo (element t ! me)" "SxactHasConflictOut (element u ! me) = SxactHasConflictOut (element t ! me)"
      using core_eq(5,11) [OF cu [of me]] me ff(1) by simp_all
    moreover have "gone_ok isCommit me s c" if c: "c \<in> E - E2" for c
    proof (cases "c \<in> E1")
      case True
      then have i: "sxactIn (pool s ! c) = me" "isCommit \<longrightarrow> ?ok t c" using u(3) c ins by auto
      then have "sxactOut (pool s ! c) \<noteq> me" "sxactOut (pool s ! c) < length (element s)" using irr bnd c by auto
      from core_eq(1,6) [OF ff(5) [OF this]] i show ?thesis by (simp add: gone_ok_def ff(2))
    next
      case False
      then show ?thesis using gone c ls by (auto simp: gone_ok_def)
    qed
    moreover have "\<not> isCommit \<longrightarrow> (\<forall>c \<in> E2. sxactOut (pool s ! c) \<noteq> me \<and> sxactIn (pool s ! c) \<noteq> me)"
      using all u(2,4) E1 ls ins by blast
    moreover obtain B where "queues_ok u E2 U B" using u(1) by (auto simp: shrunk_def)
    ultimately show "conflicts_done isCommit me s E U u"
      unfolding conflicts_done_def using E1 u(2) le noted ls by (rule_tac exI [of _ E2], rule_tac exI [of _ B]) auto
  qed simp
qed

text \<open>What the end of a transaction relies on.\<close>

definition endable :: "bool \<Rightarrow> nat \<Rightarrow> ssi \<Rightarrow> nat set \<Rightarrow> bool" where
  "endable isCommit me s E \<longleftrightarrow> me < length (element s) \<and> SeqNo (element s ! me) \<le> LastSxactCommitSeqNo s \<and>
     \<not> SxactHasSummaryConflictOut (element s ! me) \<and>
     (\<forall>c \<in> E. sxactOut (pool s ! c) \<noteq> sxactIn (pool s ! c)) \<and>
     (\<forall>x < length (element s). SxactIsCommitted (element s ! x) \<longrightarrow> prepareSeqNo (element s ! x) \<le> LastSxactCommitSeqNo s) \<and>
     (isCommit \<longrightarrow> (\<forall>x < length (element s). x \<noteq> me \<longrightarrow> SeqNo (element s ! x) < LastSxactCommitSeqNo s))"

lemma endable_core:
  assumes "endable isCommit me s E" and "same_core s t"
  shows "endable isCommit me t E"
proof -
  have "core (element t ! x) = core (element s ! x)" if "x < length (element s)" for x by (rule same_core_nth [OF assms(2) that])
  note c = core_eq [OF this]
  have "pool t = pool s" "LastSxactCommitSeqNo t = LastSxactCommitSeqNo s" "length (element t) = length (element s)"
    using assms(2) same_core_length [OF assms(2)] by (simp_all add: same_core_def)
  with assms(1) c show ?thesis unfolding endable_def by simp
qed

lemma wpl_conflicts:
  assumes q: "queues_ok s E U A" and e: "endable isCommit me s E"
  shows "wpl (thenp (summary_out isCommit me)
     (thenp (bindp (get_sxact me) (\<lambda>sxact. eachp (finish_out isCommit me) (outConflicts sxact)))
     (bindp (get_sxact me) (\<lambda>sxact. eachp (finish_in isCommit) (inConflicts sxact))))) (\<lambda>_. conflicts_done isCommit me s E U) s"
proof -
  have me: "me < length (element s)" "SeqNo (element s ! me) \<le> LastSxactCommitSeqNo s"
    and irr: "\<forall>c \<in> E. sxactOut (pool s ! c) \<noteq> sxactIn (pool s ! c)" using e by (auto simp: endable_def)
  have out: "wpl (bindp (get_sxact me) (\<lambda>sxact. eachp (finish_out isCommit me) (outConflicts sxact)))
      (\<lambda>_. out_loop isCommit me s E U (outConflicts (element s ! me)) (outConflicts (element s ! me))) s"
    by (rule wpl_get_sxact, rule wpl_finish_out_loop [OF q]) (use e in \<open>auto simp: endable_def\<close>)
  have ls: "set (outConflicts (element s ! me)) = OutLink ` {c \<in> E. sxactOut (pool s ! c) = me}"
    and bnd: "\<forall>c \<in> E. sxactOut (pool s ! c) < length (element s)"
    using q me(1) by (auto simp: queues_ok_def)
  have "wpl (summary_out isCommit me) (\<lambda>_ t. t = s) s" using e by (auto simp: summary_out_def wp_simps endable_def)
  then show ?thesis
    by (rule wpl_thenp) (auto intro!: wpl_thenp [OF out] in_after_out [OF _ ls me(1) irr bnd])
qed

lemma conflicts_done_core:
  assumes "same_core s t" and "me < length (element s)" and "\<forall>c \<in> E. sxactOut (pool s ! c) < length (element s) \<and> sxactIn (pool s ! c) < length (element s)"
    and "conflicts_done isCommit me t E U u"
  shows "conflicts_done isCommit me s E U u"
proof -
  have p: "pool t = pool s" "LastSxactCommitSeqNo t = LastSxactCommitSeqNo s" using assms(1) by (simp_all add: same_core_def)
  note c = core_eq [OF same_core_nth [OF assms(1)]]
  have "gone_ok isCommit me s d" if "d \<in> E" "gone_ok isCommit me t d" for d
    using that assms(3) c by (auto simp: gone_ok_def p)
  moreover have "fin me t u \<Longrightarrow> fin me s u" using fin_trans [OF same_core_fin [OF assms(1,2)]] .
  ultimately show ?thesis using assms(2-4) c unfolding conflicts_done_def p by (elim exE conjE) (rule exI, rule exI, auto)
qed

lemma ended_from:
  assumes "conflicts_done isCommit me s E V t" and "V \<subseteq> U" and "me < length (element s)" and "shrunk t u E' W" and "W \<subseteq> V"
    and "\<And>F A. queues_ok t F V A \<Longrightarrow> E' = F"
    and "\<forall>c \<in> W. sxactOut (pool s ! c) \<noteq> me \<and> sxactIn (pool s ! c) \<noteq> me"
  shows "xact_ended isCommit me s E U u"
proof -
  from assms(1) obtain F A where t: "queues_ok t F V A" "F \<subseteq> E" "fin me s t" "\<forall>c \<in> E - F. gone_ok isCommit me s c"
    "\<not> isCommit \<longrightarrow> (\<forall>c \<in> F. sxactOut (pool s ! c) \<noteq> me \<and> sxactIn (pool s ! c) \<noteq> me)"
    "SeqNo (element t ! me) \<le> LastSxactCommitSeqNo s"
    "isCommit \<and> \<not> SxactIsReadOnly (element s ! me) \<longrightarrow>
       (\<forall>c \<in> E. sxactOut (pool s ! c) = me \<and> SxactIsCommitted (element s ! sxactIn (pool s ! c)) \<longrightarrow> SxactHasConflictOut (element t ! me))"
    unfolding conflicts_done_def by blast
  have me: "me < length (element t)" using fin_fields(1) [OF t(3)] assms(3) by simp
  note c = core_eq [OF same_core_nth [OF shrunk_core [OF assms(4)] me]]
  have "fin me s u" by (rule fin_trans [OF t(3) same_core_fin [OF shrunk_core [OF assms(4)] me]])
  moreover obtain B where "queues_ok u F W B" using assms(4) assms(6) [OF t(1)] by (auto simp: shrunk_def)
  ultimately show ?thesis
    unfolding xact_ended_def using t(2,4-7) assms(2,5,7) c(5,11)
    by (rule_tac exI [of _ F], rule_tac exI [of _ W], rule_tac exI [of _ B]) auto
qed

lemma queues_ok_E:
  assumes "queues_ok s E U A" and "queues_ok s F U B"
  shows "E = F"
proof -
  have "c \<in> F" if "c \<in> E" and "queues_ok s E U A" "queues_ok s F V B" for c E F V A B
  proof -
    have "sxactOut (pool s ! c) < length (element s)" "OutLink c \<in> set (outConflicts (element s ! sxactOut (pool s ! c)))"
      using that(1,2) by (auto simp: queues_ok_def)
    with that(3) show ?thesis by (auto simp: queues_ok_def)
  qed
  with assms show ?thesis by blast
qed

lemma wpl_end_rest:
  assumes q: "queues_ok s E U A" and e: "endable isCommit me s E"
  shows "wpl (thenp (if \<not> ro then count_writable
             else bindp (get_sxact me) (\<lambda>sxact. eachp (release_unsafe_in me) (possibleUnsafeConflicts sxact)))
     (thenp (summary_out isCommit me)
     (thenp (bindp (get_sxact me) (\<lambda>sxact. eachp (finish_out isCommit me) (outConflicts sxact)))
     (thenp (bindp (get_sxact me) (\<lambda>sxact. eachp (finish_in isCommit) (inConflicts sxact)))
     (thenp (whenp (\<not> ro)
              (bindp (get_sxact me) (\<lambda>sxact. eachp (finish_unsafe isCommit didWrite me) (possibleUnsafeConflicts sxact))))
     (leave_xmin me)))))) (\<lambda>_. xact_ended isCommit me s E U) s"
proof -
  have me: "me < length (element s)" using e by (simp add: endable_def)
  have bnd: "\<forall>c \<in> E. sxactOut (pool s ! c) < length (element s) \<and> sxactIn (pool s ! c) < length (element s)"
    using q by (auto simp: queues_ok_def)
  let ?no = "\<lambda>V. \<forall>c \<in> V. sxactOut (pool s ! c) \<noteq> me \<and> sxactIn (pool s ! c) \<noteq> me"
  let ?P = "\<lambda>t. \<exists>V. shrunk s t E V \<and> V \<subseteq> U \<and> (ro \<longrightarrow> ?no V)"
  have first: "wpl (if \<not> ro then count_writable
             else bindp (get_sxact me) (\<lambda>sxact. eachp (release_unsafe_in me) (possibleUnsafeConflicts sxact))) (\<lambda>_. ?P) s"
    using wpl_count_writable [OF q] wpl_declared_ro [OF q me] by (cases ro) (auto elim: wp_mono)
  have "wpl (thenp (thenp (summary_out isCommit me)
       (thenp (bindp (get_sxact me) (\<lambda>sxact. eachp (finish_out isCommit me) (outConflicts sxact)))
       (bindp (get_sxact me) (\<lambda>sxact. eachp (finish_in isCommit) (inConflicts sxact)))))
     (thenp (whenp (\<not> ro)
              (bindp (get_sxact me) (\<lambda>sxact. eachp (finish_unsafe isCommit didWrite me) (possibleUnsafeConflicts sxact))))
     (leave_xmin me))) (\<lambda>_. xact_ended isCommit me s E U) t" if "?P t" for t
  proof -
    from that obtain V where V: "shrunk s t E V" "V \<subseteq> U" "ro \<longrightarrow> ?no V" by blast
    then obtain B where qt: "queues_ok t E V B" by (auto simp: shrunk_def)
    note core = shrunk_core [OF V(1)]
    show ?thesis
    proof (rule wpl_thenp [OF wpl_conflicts [OF qt endable_core [OF e core]]])
      fix x u assume "conflicts_done isCommit me t E V u"
      then have u: "conflicts_done isCommit me s E V u" by (rule conflicts_done_core [OF core me bnd])
      then obtain F D where qu: "queues_ok u F V D" and fu: "fin me s u" by (auto simp: conflicts_done_def)
      have mu: "me < length (element u)" and pu: "pool u = pool s" using me fin_fields [OF fu] by simp_all
      have "wpl (whenp (\<not> ro) (bindp (get_sxact me) (\<lambda>sxact. eachp (finish_unsafe isCommit didWrite me) (possibleUnsafeConflicts sxact))))
          (\<lambda>_ v. \<exists>W. shrunk u v F W \<and> W \<subseteq> V \<and> ?no W) u"
        using wpl_finish_possible [OF qu mu] V(3) shrunk_refl [OF qu] by (cases ro) (auto simp: wp_simps pu elim: wp_mono)
      then show "wpl (thenp (whenp (\<not> ro)
              (bindp (get_sxact me) (\<lambda>sxact. eachp (finish_unsafe isCommit didWrite me) (possibleUnsafeConflicts sxact))))
            (leave_xmin me)) (\<lambda>_. xact_ended isCommit me s E U) u"
      proof (rule wpl_thenp)
        fix y v assume "\<exists>W. shrunk u v F W \<and> W \<subseteq> V \<and> ?no W"
        then obtain W where W: "shrunk u v F W" "W \<subseteq> V" "?no W" by blast
        have "xact_ended isCommit me s E U w" if "shrunk u w F W" for w
          by (rule ended_from [OF u V(2) me that W(2) _ W(3)]) (use queues_ok_E [OF qu] in blast)
        with wpl_leave_xmin [OF W(1)] show "wpl (leave_xmin me) (\<lambda>_. xact_ended isCommit me s E U) v" by (rule wp_mono) simp_all
      qed
    qed
  qed
  with wpl_thenp [OF first] show ?thesis unfolding wp_thenp by blast
qed
end
