(* ===== verification/PredicateInv.thy ===== *)
theory PredicateInv
  imports PredicateEndFacts
begin

unbundle bit_operations_syntax

text \<open>
  The invariant of the data of serializable transactions, over the set of dependencies that have been flagged, and that a new
  dependency and the preparation to commit keep it. A dependency that is no longer recorded is one whose writer has
  committed; a transaction that has committed after one it depends on is marked so; and no structure of two dependencies
  is such that it would be dangerous if all its transactions committed.
\<close>

subsection \<open>The invariant\<close>

abbreviation sx :: "ssi \<Rightarrow> nat \<Rightarrow> SERIALIZABLEXACT" where
  "sx s x \<equiv> element s ! x"

definition in_use :: "ssi \<Rightarrow> nat \<Rightarrow> bool" where
  "in_use s x \<longleftrightarrow> x \<in> set (activeList s) \<and> x \<noteq> OldCommittedSxact s"

definition slots_ok :: "ssi \<Rightarrow> bool" where
  "slots_ok s \<longleftrightarrow> set (activeList s) \<subseteq> {..<length (element s)} \<and> set (availableList s) \<subseteq> {..<length (element s)} \<and>
     distinct (availableList s) \<and> set (activeList s) \<inter> set (availableList s) = {} \<and> OldCommittedSxact s \<in> set (activeList s) \<and>
     SxactIsCommitted (sx s (OldCommittedSxact s))"

definition numbers_ok :: "ssi \<Rightarrow> bool" where
  "numbers_ok s \<longleftrightarrow> (\<forall>x < length (element s). SeqNo (sx s x) \<le> LastSxactCommitSeqNo s \<and>
     (SxactIsCommitted (sx s x) \<longrightarrow> prepareSeqNo (sx s x) \<le> LastSxactCommitSeqNo s)) \<and>
     (\<forall>x. in_use s x \<longrightarrow> \<not> SxactHasSummaryConflictIn (sx s x) \<and> \<not> SxactHasSummaryConflictOut (sx s x) \<and>
       (SxactIsPrepared (sx s x) \<longrightarrow> prepareSeqNo (sx s x) \<le> LastSxactCommitSeqNo s \<and> \<not> SxactIsDoomed (sx s x)) \<and>
       (SxactIsCommitted (sx s x) \<longrightarrow> SxactIsPrepared (sx s x) \<and> prepareSeqNo (sx s x) \<le> commitSeqNo (sx s x) \<and>
          commitSeqNo (sx s x) \<le> LastSxactCommitSeqNo s))"

definition conflicts_ok :: "ssi \<Rightarrow> nat set \<Rightarrow> nat set \<Rightarrow> (nat \<times> nat) set \<Rightarrow> bool" where
  "conflicts_ok s E U H \<longleftrightarrow> (\<exists>A. queues_ok s E U A) \<and> edge_of s ` E \<subseteq> H \<and>
     (\<forall>c \<in> E \<union> U. in_use s (sxactOut (pool s ! c)) \<and> in_use s (sxactIn (pool s ! c)) \<and> sxactOut (pool s ! c) \<noteq> sxactIn (pool s ! c)) \<and>
     (\<forall>(a, b) \<in> H. in_use s a \<and> in_use s b \<and> a \<noteq> b \<and> \<not> SxactIsReadOnly (sx s b))"

text \<open>
  A structure of two dependencies that is dangerous if all three transactions commit: the last one is about to commit or has
  committed first.
\<close>

definition risky :: "ssi \<Rightarrow> nat \<Rightarrow> nat \<Rightarrow> nat \<Rightarrow> bool" where
  "risky s a b c \<longleftrightarrow> SxactIsPrepared (sx s c) \<and> \<not> SxactIsDoomed (sx s a) \<and> \<not> SxactIsDoomed (sx s b) \<and>
     (\<not> SxactIsCommitted (sx s a) \<or> SxactIsCommitted (sx s c) \<and> commitSeqNo (sx s c) < commitSeqNo (sx s a)) \<and>
     (\<not> SxactIsCommitted (sx s b) \<or> SxactIsCommitted (sx s c) \<and> commitSeqNo (sx s c) < commitSeqNo (sx s b)) \<and>
     (SxactIsReadOnly (sx s a) \<longrightarrow> prepareSeqNo (sx s c) \<le> SeqNo (sx s a))"

definition history_ok :: "ssi \<Rightarrow> (nat \<times> nat) set \<Rightarrow> (nat \<times> nat) set \<Rightarrow> bool" where
  "history_ok s D H \<longleftrightarrow>
     (\<forall>a b. (a, b) \<in> H \<longrightarrow> (a, b) \<notin> D \<longrightarrow> SxactIsCommitted (sx s b) \<and> (SxactIsCommitted (sx s a) \<or> SxactIsReadOnly (sx s a))) \<and>
     (\<forall>a b. (a, b) \<in> H \<longrightarrow> \<not> SxactIsReadOnly (sx s a) \<longrightarrow> SxactIsCommitted (sx s a) \<longrightarrow> SxactIsCommitted (sx s b) \<longrightarrow>
        commitSeqNo (sx s b) < commitSeqNo (sx s a) \<longrightarrow> SxactHasConflictOut (sx s a)) \<and>
     (\<forall>a b c. (a, b) \<in> H \<longrightarrow> (b, c) \<in> H \<longrightarrow> \<not> risky s a b c)"

definition ssi_inv :: "ssi \<Rightarrow> (nat \<times> nat) set \<Rightarrow> bool" where
  "ssi_inv s H \<longleftrightarrow> slots_ok s \<and> numbers_ok s \<and> (\<exists>E U. conflicts_ok s E U H \<and> history_ok s (edge_of s ` E) H)"

lemma in_use_lt: "slots_ok s \<Longrightarrow> in_use s x \<Longrightarrow> x < length (element s)"
  by (auto simp: slots_ok_def in_use_def)

lemma historyD:
  assumes "conflicts_ok s E U H" and "(a, b) \<in> H"
  shows "in_use s a" "in_use s b" "a \<noteq> b" "\<not> SxactIsReadOnly (sx s b)"
  using assms by (auto simp: conflicts_ok_def)

lemma conflictsD:
  assumes "conflicts_ok s E U H" and "c \<in> E \<union> U"
  shows "in_use s (sxactOut (pool s ! c))" "in_use s (sxactIn (pool s ! c))" "sxactOut (pool s ! c) \<noteq> sxactIn (pool s ! c)"
  using assms unfolding conflicts_ok_def by blast+

subsection \<open>Dooming\<close>

lemma dooms_in_use: "dooms s t \<Longrightarrow> in_use t = in_use s"
  by (simp add: in_use_def dooms_fields fun_eq_iff)

lemma dooms_edge_of: "dooms s t \<Longrightarrow> edge_of t = edge_of s"
  by (simp add: edge_of_def dooms_fields fun_eq_iff)

lemma dooms_risky:
  assumes "dooms s t" and "risky t a b c" and "a < length (element s)" "b < length (element s)" "c < length (element s)"
  shows "risky s a b c"
proof -
  note na = dooms_nth [OF assms(1,3)] and nb = dooms_nth [OF assms(1,4)] and nc = dooms_nth [OF assms(1,5)]
  show ?thesis using assms(2) na(7) nb(7) by (auto simp: risky_def na(1-6,8-10) nb(1-6,8-10) nc(1-6,8-10))
qed

lemma dooms_slots:
  assumes "dooms s t" and "slots_ok s"
  shows "slots_ok t"
proof -
  have "OldCommittedSxact s < length (element s)" using assms(2) by (auto simp: slots_ok_def)
  with assms(2) show ?thesis unfolding slots_ok_def by (simp add: dooms_fields [OF assms(1)] dooms_nth [OF assms(1)])
qed

lemma dooms_numbers:
  assumes d: "dooms s t" and "slots_ok s" and n: "numbers_ok s"
  shows "numbers_ok t"
proof -
  have "\<not> SxactIsDoomed (sx t x)" if "in_use s x" "SxactIsPrepared (sx t x)" for x
  proof -
    have x: "x < length (element s)" using in_use_lt assms(2) that(1) by blast
    from dooms_nth(2) [OF d x] that(2) have "SxactIsPrepared (sx s x)" by simp
    with n that(1) show ?thesis by (cases rule: dooms_cases [OF d x]) (auto simp: numbers_ok_def)
  qed
  moreover have "x < length (element s)" if "in_use s x" for x using in_use_lt assms(2) that by blast
  ultimately show ?thesis
    using n unfolding numbers_ok_def dooms_in_use [OF d] dooms_fields(4,7) [OF d] by (simp add: dooms_nth [OF d])
qed

lemma dooms_conflicts:
  assumes d: "dooms s t" and "slots_ok s" and c: "conflicts_ok s E U H"
  shows "conflicts_ok t E U H"
proof -
  have "x < length (element s)" if "in_use s x" for x using in_use_lt assms(2) that by blast
  then have "\<not> SxactIsReadOnly (sx t y)" if "(x, y) \<in> H" for x y using historyD [OF c that] dooms_nth(3) [OF d] by simp
  then show ?thesis
    using c dooms_queues [OF d] unfolding conflicts_ok_def dooms_in_use [OF d] dooms_edge_of [OF d] dooms_fields(1) [OF d] by fast
qed

lemma dooms_history:
  assumes d: "dooms s t" and sl: "slots_ok s" and c: "conflicts_ok s E U H" and h: "history_ok s D H"
  shows "history_ok t D H"
proof -
  have lt: "a < length (element s) \<and> b < length (element s)" if "(a, b) \<in> H" for a b using that historyD [OF c] in_use_lt [OF sl] by blast
  have "\<not> risky t a b c" if "(a, b) \<in> H" "(b, c) \<in> H" for a b c
    using h that dooms_risky [OF d, of a b c] lt unfolding history_ok_def by blast
  with h show ?thesis unfolding history_ok_def using lt by (simp add: dooms_nth [OF d])
qed

lemma dooms_inv: "dooms s t \<Longrightarrow> ssi_inv s H \<Longrightarrow> ssi_inv t H"
  unfolding ssi_inv_def using dooms_slots dooms_numbers dooms_conflicts dooms_history dooms_edge_of by metis

subsection \<open>What the invariant looks at\<close>

definition look :: "SERIALIZABLEXACT \<Rightarrow> (bool \<times> bool \<times> bool \<times> bool \<times> bool \<times> bool \<times> bool) \<times> SerCommitSeqNo \<times> SerCommitSeqNo \<times> SerCommitSeqNo" where
  "look x = ((SxactIsCommitted x, SxactIsPrepared x, SxactIsDoomed x, SxactIsReadOnly x, SxactHasConflictOut x,
     SxactHasSummaryConflictIn x, SxactHasSummaryConflictOut x), prepareSeqNo x, commitSeqNo x, SeqNo x)"

definition same_look :: "ssi \<Rightarrow> ssi \<Rightarrow> bool" where
  "same_look s t \<longleftrightarrow> length (element t) = length (element s) \<and> availableList t = availableList s \<and> activeList t = activeList s \<and>
     LastSxactCommitSeqNo t = LastSxactCommitSeqNo s \<and> OldCommittedSxact t = OldCommittedSxact s \<and>
     (\<forall>x < length (element s). look (sx t x) = look (sx s x))"

lemma look_eq:
  assumes "look x = look y"
  shows "SxactIsCommitted x = SxactIsCommitted y" "SxactIsPrepared x = SxactIsPrepared y" "SxactIsDoomed x = SxactIsDoomed y"
    "SxactIsReadOnly x = SxactIsReadOnly y" "SxactHasConflictOut x = SxactHasConflictOut y"
    "SxactHasSummaryConflictIn x = SxactHasSummaryConflictIn y" "SxactHasSummaryConflictOut x = SxactHasSummaryConflictOut y"
    "prepareSeqNo x = prepareSeqNo y" "commitSeqNo x = commitSeqNo y" "SeqNo x = SeqNo y"
  using assms by (simp_all add: look_def)

lemma same_look_slots:
  assumes "same_look s t"
  shows "slots_ok t = slots_ok s" "in_use t = in_use s"
proof -
  have f: "length (element t) = length (element s)" "availableList t = availableList s" "activeList t = activeList s"
    "OldCommittedSxact t = OldCommittedSxact s" and k: "x < length (element s) \<Longrightarrow> look (sx t x) = look (sx s x)" for x
    using assms by (simp_all add: same_look_def)
  show "in_use t = in_use s" by (simp add: in_use_def fun_eq_iff f)
  show "slots_ok t = slots_ok s"
    unfolding slots_ok_def f using look_eq(1) [OF k [of "OldCommittedSxact s"]] by auto
qed

lemma same_look_numbers:
  assumes l: "same_look s t" and "slots_ok s"
  shows "numbers_ok t = numbers_ok s"
proof -
  have "x < length (element s)" if "in_use s x" for x using in_use_lt assms(2) that by blast
  moreover have "length (element t) = length (element s)" "LastSxactCommitSeqNo t = LastSxactCommitSeqNo s" using l by (simp_all add: same_look_def)
  moreover have "look (sx t x) = look (sx s x)" if "x < length (element s)" for x using l that by (simp add: same_look_def)
  note look_eq [OF this]
  ultimately show ?thesis unfolding numbers_ok_def same_look_slots(2) [OF l] by simp
qed

lemma same_look_history:
  assumes l: "same_look s t" and H: "\<And>a b. (a, b) \<in> H \<Longrightarrow> a < length (element s) \<and> b < length (element s)"
  shows "history_ok t D H = history_ok s D H"
proof -
  have "look (sx t x) = look (sx s x)" if "x < length (element s)" for x using l that by (simp add: same_look_def)
  note k = look_eq [OF this]
  have "risky t a b c = risky s a b c" if "(a, b) \<in> H" "(b, c) \<in> H" for a b c
    using H [OF that(1)] H [OF that(2)] by (simp add: risky_def k)
  then show ?thesis unfolding history_ok_def using H by (simp add: k)
qed

lemma same_xacts_look:
  assumes "same_xacts s t"
  shows "same_look s t"
  using same_xacts_flags [OF assms] same_xacts_fields [OF assms] same_xacts_length [OF assms]
  by (simp add: same_look_def look_def SxactIsCommitted_def SxactIsPrepared_def SxactIsDoomed_def SxactIsReadOnly_def
    SxactHasConflictOut_def SxactHasSummaryConflictIn_def SxactHasSummaryConflictOut_def)

subsection \<open>A new dependency\<close>

lemma numbersD:
  assumes "numbers_ok s" and "in_use s x"
  shows "\<not> SxactHasSummaryConflictIn (sx s x)" "\<not> SxactHasSummaryConflictOut (sx s x)"
    "SxactIsPrepared (sx s x) \<Longrightarrow> prepareSeqNo (sx s x) \<le> LastSxactCommitSeqNo s"
    "SxactIsPrepared (sx s x) \<Longrightarrow> \<not> SxactIsDoomed (sx s x)" "SxactIsCommitted (sx s x) \<Longrightarrow> SxactIsPrepared (sx s x)"
    "SxactIsCommitted (sx s x) \<Longrightarrow> prepareSeqNo (sx s x) \<le> commitSeqNo (sx s x)"
    "SxactIsCommitted (sx s x) \<Longrightarrow> commitSeqNo (sx s x) \<le> LastSxactCommitSeqNo s"
  using assms by (simp_all add: numbers_ok_def)

lemma safe_out:
  assumes h: "history_ok s D H" and n: "numbers_ok s" and w: "\<not> SxactIsReadOnly (sx s w)"
    and c: "(w, c) \<in> H" "in_use s c" and safe: "\<not> dangerous s D r w"
  shows "\<not> risky s r w c"
proof
  assume k: "risky s r w c"
  have pc: "SxactIsCommitted (sx s c) \<Longrightarrow> prepareSeqNo (sx s c) \<le> commitSeqNo (sx s c)" using numbersD [OF n c(2)] by simp
  show False
  proof (cases "(w, c) \<in> D")
    case True
    have "pivot_out (sx s r) (sx s w) (sx s c)" using k pc unfolding risky_def pivot_out_def by auto
    with True safe show False unfolding dangerous_def by blast
  next
    case False
    with h c(1) w have "SxactIsCommitted (sx s w)" "SxactIsCommitted (sx s c)" unfolding history_ok_def by blast+
    moreover from this k have "SxactHasConflictOut (sx s w)" using h c(1) w unfolding history_ok_def risky_def by blast
    ultimately show False using safe unfolding dangerous_def by blast
  qed
qed

lemma safe_in:
  assumes h: "history_ok s D H" and n: "numbers_ok s" and r: "\<not> SxactIsReadOnly (sx s r)" "SxactIsPrepared (sx s w) \<Longrightarrow> \<not> SxactIsCommitted (sx s r)"
    and a: "(a, r) \<in> H" "in_use s w" and safe: "\<not> dangerous s D r w"
  shows "\<not> risky s a r w"
proof
  assume k: "risky s a r w"
  then have p: "SxactIsPrepared (sx s w)" by (simp add: risky_def)
  with h a r have "(a, r) \<in> D" unfolding history_ok_def by blast
  moreover have "pivot_in (sx s a) (sx s w)" using k numbersD(6) [OF n a(2)] unfolding risky_def pivot_in_def by auto
  ultimately show False using safe p r(1) unfolding dangerous_def by blast
qed

lemma with_edge_edges:
  assumes "queues_ok s E U A" and "c \<in> A"
  shows "edge_of (with_edge c r w s) ` insert c E = insert (r, w) (edge_of s ` E)"
proof -
  have "c < length (pool s)" "c \<notin> E" using assms by (auto simp: queues_ok_def)
  moreover have "pool (with_edge c r w s) = (pool s)[c := \<lparr>sxactOut = r, sxactIn = w\<rparr>]" by (simp add: with_edge_def Let_def)
  ultimately show ?thesis by (auto simp: edge_of_def nth_list_update image_iff)
qed

lemma with_edge_conflicts:
  assumes con: "conflicts_ok s E U H" and sl: "slots_ok s" and c: "queues_ok s E U A" "c \<in> A"
    and rw: "in_use s r" "in_use s w" "r \<noteq> w" "\<not> SxactIsReadOnly (sx s w)"
  shows "conflicts_ok (with_edge c r w s) (insert c E) U (insert (r, w) H)"
proof -
  let ?t = "with_edge c r w s" and ?H = "insert (r, w) H"
  have lt: "r < length (element s)" "w < length (element s)" using in_use_lt [OF sl] rw by simp_all
  have look: "same_look s ?t" by (rule same_xacts_look [OF with_edge_same [OF lt rw(3)]])
  have pool: "pool ?t = (pool s)[c := \<lparr>sxactOut = r, sxactIn = w\<rparr>]" by (simp add: with_edge_def Let_def)
  have cA: "c < length (pool s)" using c by (auto simp: queues_ok_def)
  have ends: "in_use s a \<and> in_use s b \<and> a \<noteq> b \<and> \<not> SxactIsReadOnly (sx s b)" if "(a, b) \<in> ?H" for a b
    using that rw historyD [OF con, of a b] by auto
  then have "SxactIsReadOnly (sx ?t b) = SxactIsReadOnly (sx s b)" if "(a, b) \<in> ?H" for a b
    using that look in_use_lt [OF sl, of b] by (auto simp: same_look_def look_def)
  note ro = this
  have "in_use s (sxactOut (pool ?t ! d)) \<and> in_use s (sxactIn (pool ?t ! d)) \<and> sxactOut (pool ?t ! d) \<noteq> sxactIn (pool ?t ! d)"
    if "d \<in> insert c E \<union> U" for d
    using that conflictsD [OF con, of d] rw(1-3) cA unfolding pool by (cases "d = c") simp_all
  moreover have "insert (r, w) (edge_of s ` E) \<subseteq> ?H" using con unfolding conflicts_ok_def by blast
  moreover have "\<forall>(a, b) \<in> ?H. in_use s a \<and> in_use s b \<and> a \<noteq> b \<and> \<not> SxactIsReadOnly (sx ?t b)"
  proof (intro ballI case_prodI2)
    fix p a b assume "p \<in> ?H" "p = (a, b)"
    then show "in_use s a \<and> in_use s b \<and> a \<noteq> b \<and> \<not> SxactIsReadOnly (sx ?t b)" using ends [of a b] ro [of a b] by simp
  qed
  ultimately show ?thesis
    unfolding conflicts_ok_def with_edge_edges [OF c] same_look_slots(2) [OF look] using with_edge_queues [OF c lt rw(3)] by blast
qed

lemma flag_history:
  assumes inv: "slots_ok s" "numbers_ok s" "conflicts_ok s E U H" "history_ok s D H"
    and rw: "in_use s r" "in_use s w" "r \<noteq> w" "\<not> SxactIsReadOnly (sx s w)"
    and live: "SxactIsPrepared (sx s w) \<Longrightarrow> \<not> SxactIsCommitted (sx s r)" "\<not> SxactIsCommitted (sx s r) \<or> \<not> SxactIsCommitted (sx s w)"
    and u: "dooms s u" "u = s \<and> \<not> dangerous s D r w \<or> \<not> SxactIsPrepared (sx s w) \<and> SxactIsDoomed (sx u w)"
  shows "history_ok u (insert (r, w) D) (insert (r, w) H)"
proof -
  let ?H = "insert (r, w) H"
  have lts: "r < length (element s)" "w < length (element s)" using in_use_lt [OF inv(1)] rw by simp_all
  have hu: "history_ok u D H" by (rule dooms_history [OF u(1) inv(1,3,4)])
  have "\<not> risky u x y z" if "(x, y) \<in> ?H" "(y, z) \<in> ?H" for x y z
  proof -
    have old: ?thesis if "(x, y) \<in> H" "(y, z) \<in> H" using hu that unfolding history_ok_def by blast
    have dm: ?thesis if "y = w \<and> SxactIsDoomed (sx u w) \<or> z = w \<and> \<not> SxactIsPrepared (sx s w)"
      using that dooms_nth(2) [OF u(1) lts(2)] unfolding risky_def by auto
    have o: ?thesis if "x = r" "y = w" "(w, z) \<in> H"
      using u(2) dm that safe_out [OF inv(4,2) rw(4) that(3) historyD(2) [OF inv(3) that(3)]] by blast
    have i: ?thesis if "y = r" "z = w" "(x, r) \<in> H"
      using u(2) dm that safe_in [OF inv(4,2) historyD(4) [OF inv(3) that(3)] live(1) that(3) rw(2)] by blast
    show ?thesis using that old o i rw(3) by blast
  qed
  moreover have "\<not> SxactIsCommitted (sx u r) \<or> \<not> SxactIsCommitted (sx u w)" using live(2) by (simp add: dooms_nth [OF u(1)] lts)
  ultimately show ?thesis using hu unfolding history_ok_def by auto
qed

lemma flag_inv:
  assumes inv: "slots_ok s" "numbers_ok s" "conflicts_ok s E U H" "history_ok s (edge_of s ` E) H"
    and rw: "in_use s r" "in_use s w" "r \<noteq> w" "\<not> SxactIsReadOnly (sx s w)"
    and live: "SxactIsPrepared (sx s w) \<Longrightarrow> \<not> SxactIsCommitted (sx s r)" "\<not> SxactIsCommitted (sx s r) \<or> \<not> SxactIsCommitted (sx s w)"
    and u: "dooms s u" "u = s \<and> \<not> dangerous s (edge_of s ` E) r w \<or> \<not> SxactIsPrepared (sx s w) \<and> SxactIsDoomed (sx u w)"
    and c: "queues_ok u E U A" "c \<in> A"
  shows "ssi_inv (with_edge c r w u) (insert (r, w) H)"
proof -
  let ?t = "with_edge c r w u" and ?H = "insert (r, w) H"
  note iu = dooms_slots [OF u(1) inv(1)] dooms_numbers [OF u(1) inv(1,2)] dooms_conflicts [OF u(1) inv(1,3)]
  have use: "in_use u r" "in_use u w" "\<not> SxactIsReadOnly (sx u w)"
    using rw in_use_lt [OF inv(1)] dooms_nth(3) [OF u(1)] by (simp_all add: dooms_in_use [OF u(1)])
  have lt: "r < length (element u)" "w < length (element u)" using in_use_lt [OF iu(1)] use by simp_all
  have look: "same_look u ?t" by (rule same_xacts_look [OF with_edge_same [OF lt rw(3)]])
  note con = with_edge_conflicts [OF iu(3,1) c use(1,2) rw(3) use(3)]
  have "a < length (element u) \<and> b < length (element u)" if "(a, b) \<in> ?H" for a b
    using that historyD(1,2) [OF iu(3), of a b] in_use_lt [OF iu(1)] lt by auto
  from same_look_history [OF look this] flag_history [OF inv rw live u]
  have "history_ok ?t (edge_of ?t ` insert c E) ?H"
    unfolding with_edge_edges [OF c] dooms_edge_of [OF u(1)] by blast
  then show ?thesis
    unfolding ssi_inv_def using con iu(1,2) same_look_slots(1) [OF look] same_look_numbers [OF look iu(1)] by blast
qed

subsection \<open>Preparing to commit\<close>

definition prepared_as :: "nat \<Rightarrow> ssi \<Rightarrow> ssi" where
  "prepared_as me s = s\<lparr>LastSxactCommitSeqNo := LastSxactCommitSeqNo s + 1,
     element := (element s)[me := (sx s me)\<lparr>prepareSeqNo := LastSxactCommitSeqNo s + 1, flags := flags (sx s me) OR SXACT_FLAG_PREPARED\<rparr>]\<rparr>"

lemma prepared_as_nth:
  assumes "me < length (element s)"
  shows "SxactIsCommitted (sx (prepared_as me s) x) = SxactIsCommitted (sx s x)"
    "SxactIsPrepared (sx (prepared_as me s) x) = (x = me \<or> SxactIsPrepared (sx s x))"
    "SxactIsDoomed (sx (prepared_as me s) x) = SxactIsDoomed (sx s x)"
    "SxactIsReadOnly (sx (prepared_as me s) x) = SxactIsReadOnly (sx s x)"
    "SxactHasConflictOut (sx (prepared_as me s) x) = SxactHasConflictOut (sx s x)"
    "SxactHasSummaryConflictIn (sx (prepared_as me s) x) = SxactHasSummaryConflictIn (sx s x)"
    "SxactHasSummaryConflictOut (sx (prepared_as me s) x) = SxactHasSummaryConflictOut (sx s x)"
    "prepareSeqNo (sx (prepared_as me s) x) = (if x = me then LastSxactCommitSeqNo s + 1 else prepareSeqNo (sx s x))"
    "commitSeqNo (sx (prepared_as me s) x) = commitSeqNo (sx s x)" "SeqNo (sx (prepared_as me s) x) = SeqNo (sx s x)"
    "outConflicts (sx (prepared_as me s) x) = outConflicts (sx s x)" "inConflicts (sx (prepared_as me s) x) = inConflicts (sx s x)"
    "possibleUnsafeConflicts (sx (prepared_as me s) x) = possibleUnsafeConflicts (sx s x)"
  using assms by (simp_all add: prepared_as_def nth_list_update sxact_bits flag_masks bit_or_iff bit_push_one)

lemma prepared_as_fields [simp]:
  "length (element (prepared_as me s)) = length (element s)" "pool (prepared_as me s) = pool s"
  "availableList (prepared_as me s) = availableList s" "activeList (prepared_as me s) = activeList s"
  "OldCommittedSxact (prepared_as me s) = OldCommittedSxact s" "poolAvailable (prepared_as me s) = poolAvailable s"
  "LastSxactCommitSeqNo (prepared_as me s) = LastSxactCommitSeqNo s + 1" "edge_of (prepared_as me s) = edge_of s"
  "in_use (prepared_as me s) = in_use s"
  by (simp_all add: prepared_as_def edge_of_def in_use_def fun_eq_iff)

lemma prepared_as_slots: "me < length (element s) \<Longrightarrow> slots_ok (prepared_as me s) = slots_ok s"
  by (simp add: slots_ok_def prepared_as_nth)

lemma prepared_as_numbers:
  assumes n: "numbers_ok s" and me: "me < length (element s)" "\<not> SxactIsCommitted (sx s me)" "\<not> SxactIsDoomed (sx s me)"
    and wrap: "LastSxactCommitSeqNo s < LastSxactCommitSeqNo s + 1"
  shows "numbers_ok (prepared_as me s)"
proof -
  have le: "k \<le> LastSxactCommitSeqNo s \<Longrightarrow> k \<le> LastSxactCommitSeqNo s + 1" for k using wrap by simp
  show ?thesis
    using n me unfolding numbers_ok_def by (auto simp: prepared_as_nth [OF me(1)] intro: le)
qed

lemma prepared_as_history:
  assumes h: "history_ok s D H" and n: "numbers_ok s" and con: "conflicts_ok s E U H" and sl: "slots_ok s"
    and me: "in_use s me" "\<not> SxactIsCommitted (sx s me)"
    and wrap: "LastSxactCommitSeqNo s < LastSxactCommitSeqNo s + 1"
    and np: "\<And>x. (x, me) \<in> D \<Longrightarrow> no_pivot s D me x"
  shows "history_ok (prepared_as me s) D H"
proof -
  have lt: "me < length (element s)" by (rule in_use_lt [OF sl me(1)])
  note nth = prepared_as_nth [OF lt]
  have "\<not> risky (prepared_as me s) a b c" if ab: "(a, b) \<in> H" and bc: "(b, c) \<in> H" for a b c
  proof
    assume k: "risky (prepared_as me s) a b c"
    show False
    proof (cases "c = me")
      case False
      with k have "risky s a b c" by (simp add: risky_def nth)
      then show False using h ab bc unfolding history_ok_def by blast
    next
      case True
      with k me(2) have b: "\<not> SxactIsCommitted (sx s b)" "\<not> SxactIsDoomed (sx s b)" "\<not> SxactIsCommitted (sx s a)" "\<not> SxactIsDoomed (sx s a)"
        and ro: "SxactIsReadOnly (sx s a) \<longrightarrow> LastSxactCommitSeqNo s + 1 \<le> SeqNo (sx s a)"
        by (auto simp: risky_def nth)
      have "(a, b) \<in> D" "(b, me) \<in> D" using h ab bc b(1) me(2) True unfolding history_ok_def by blast+
      with np [of b] b have "\<not> live_far s me a" unfolding no_pivot_def by blast
      then have "SxactIsReadOnly (sx s a)" using b(3,4) by (auto simp: live_far_def)
      moreover have "SeqNo (sx s a) \<le> LastSxactCommitSeqNo s"
        using n in_use_lt [OF sl historyD(1) [OF con ab]] by (simp add: numbers_ok_def)
      ultimately show False using ro wrap by simp
    qed
  qed
  then show ?thesis using h unfolding history_ok_def nth by blast
qed

lemma prepared_as_inv:
  assumes inv: "slots_ok s" "numbers_ok s" "conflicts_ok s E U H" "history_ok s (edge_of s ` E) H"
    and me: "in_use s me" "\<not> SxactIsCommitted (sx s me)" "\<not> SxactIsDoomed (sx s me)"
    and wrap: "LastSxactCommitSeqNo s < LastSxactCommitSeqNo s + 1"
    and np: "\<And>x. (x, me) \<in> edge_of s ` E \<Longrightarrow> no_pivot s (edge_of s ` E) me x"
  shows "ssi_inv (prepared_as me s) H"
proof -
  have lt: "me < length (element s)" by (rule in_use_lt [OF inv(1) me(1)])
  note nth = prepared_as_nth [OF lt]
  have "queues_ok (prepared_as me s) E U = queues_ok s E U" by (simp add: queues_ok_def nth fun_eq_iff)
  then have "conflicts_ok (prepared_as me s) E U H" using inv(3) unfolding conflicts_ok_def by (simp add: nth)
  then show ?thesis
    unfolding ssi_inv_def using inv(1) prepared_as_slots [OF lt] prepared_as_numbers [OF inv(2) lt me(2,3) wrap]
      prepared_as_history [OF inv(4,2,3,1) me(1,2) wrap np] by auto
qed

subsection \<open>The end of a transaction\<close>

lemma core_look:
  assumes "core x = core y"
  shows "look x = look y"
  using core_eq [OF assms] by (simp add: look_def)

lemma ended_me:
  assumes m: "marked isCommit didWrite me s s1" and e: "xact_ended isCommit me s1 E U t" and me: "me < length (element s)"
  shows "SxactIsCommitted (sx t me) = (isCommit \<or> SxactIsCommitted (sx s me))"
    "SxactIsPrepared (sx t me) = (isCommit \<and> SxactIsPrepared (sx s me))" "SxactIsDoomed (sx t me) = (\<not> isCommit \<or> SxactIsDoomed (sx s me))"
    "SxactIsReadOnly (sx t me) = (SxactIsReadOnly (sx s me) \<or> isCommit \<and> \<not> didWrite)"
    "SxactHasSummaryConflictIn (sx t me) = SxactHasSummaryConflictIn (sx s me)"
    "SxactHasSummaryConflictOut (sx t me) = SxactHasSummaryConflictOut (sx s me)"
    "prepareSeqNo (sx t me) = prepareSeqNo (sx s me)" "isCommit \<Longrightarrow> commitSeqNo (sx t me) = LastSxactCommitSeqNo s + 1"
    "SxactIsReadOnly (sx t me) \<Longrightarrow> SeqNo (sx t me) = SeqNo (sx s me)"
    "SeqNo (sx t me) \<le> LastSxactCommitSeqNo t"
proof -
  have f: "fin me s1 t" and le: "SeqNo (sx t me) \<le> LastSxactCommitSeqNo s1" using e unfolding xact_ended_def by blast+
  have c: "core_out (sx t me) = core_out (sx s1 me)" "SxactIsReadOnly (sx s1 me) \<Longrightarrow> core (sx t me) = core (sx s1 me)"
    "LastSxactCommitSeqNo t = LastSxactCommitSeqNo s1"
    using f unfolding fin_def by blast+
  note o = core_out_eq [OF c(1)]
  show "SxactIsCommitted (sx t me) = (isCommit \<or> SxactIsCommitted (sx s me))"
    "SxactIsPrepared (sx t me) = (isCommit \<and> SxactIsPrepared (sx s me))" "SxactIsDoomed (sx t me) = (\<not> isCommit \<or> SxactIsDoomed (sx s me))"
    "SxactIsReadOnly (sx t me) = (SxactIsReadOnly (sx s me) \<or> isCommit \<and> \<not> didWrite)"
    "SxactHasSummaryConflictIn (sx t me) = SxactHasSummaryConflictIn (sx s me)"
    "SxactHasSummaryConflictOut (sx t me) = SxactHasSummaryConflictOut (sx s me)"
    "prepareSeqNo (sx t me) = prepareSeqNo (sx s me)" "isCommit \<Longrightarrow> commitSeqNo (sx t me) = LastSxactCommitSeqNo s + 1"
    "SeqNo (sx t me) \<le> LastSxactCommitSeqNo t"
    using m le c(3) unfolding marked_def Let_def by (simp_all add: o)
  show "SxactIsReadOnly (sx t me) \<Longrightarrow> SeqNo (sx t me) = SeqNo (sx s me)"
    using m core_eq [OF c(2)] o unfolding marked_def Let_def by simp
qed

lemma marked_fields:
  assumes "marked isCommit didWrite me s s1"
  shows "length (element s1) = length (element s)" "pool s1 = pool s" "availableList s1 = availableList s" "activeList s1 = activeList s"
    "OldCommittedSxact s1 = OldCommittedSxact s" "poolAvailable s1 = poolAvailable s"
    "LastSxactCommitSeqNo s1 = (if isCommit then LastSxactCommitSeqNo s + 1 else LastSxactCommitSeqNo s)"
    "x \<noteq> me \<Longrightarrow> sx s1 x = sx s x"
proof -
  from assms obtain y where "s1 = s\<lparr>element := (element s)[me := y],
     LastSxactCommitSeqNo := if isCommit then LastSxactCommitSeqNo s + 1 else LastSxactCommitSeqNo s\<rparr>"
    unfolding marked_def Let_def by blast
  then show "length (element s1) = length (element s)" "pool s1 = pool s" "availableList s1 = availableList s" "activeList s1 = activeList s"
    "OldCommittedSxact s1 = OldCommittedSxact s" "poolAvailable s1 = poolAvailable s"
    "LastSxactCommitSeqNo s1 = (if isCommit then LastSxactCommitSeqNo s + 1 else LastSxactCommitSeqNo s)"
    "x \<noteq> me \<Longrightarrow> sx s1 x = sx s x" by simp_all
qed

lemma ended_other:
  assumes m: "marked isCommit didWrite me s s1" and e: "xact_ended isCommit me s1 E U t" and me: "me < length (element s)"
  shows "length (element t) = length (element s)" "pool t = pool s" "availableList t = availableList s" "activeList t = activeList s"
    "OldCommittedSxact t = OldCommittedSxact s"
    "LastSxactCommitSeqNo t = (if isCommit then LastSxactCommitSeqNo s + 1 else LastSxactCommitSeqNo s)"
    "x < length (element s) \<Longrightarrow> x \<noteq> me \<Longrightarrow> look (sx t x) = look (sx s x)"
proof -
  have f: "fin me s1 t" using e unfolding xact_ended_def by blast
  note mf = marked_fields [OF m]
  show "length (element t) = length (element s)" "pool t = pool s" "availableList t = availableList s" "activeList t = activeList s"
    "OldCommittedSxact t = OldCommittedSxact s"
    "LastSxactCommitSeqNo t = (if isCommit then LastSxactCommitSeqNo s + 1 else LastSxactCommitSeqNo s)"
    using f mf(1-7) unfolding fin_def by simp_all
  show "x < length (element s) \<Longrightarrow> x \<noteq> me \<Longrightarrow> look (sx t x) = look (sx s x)"
    using f mf(1) mf(8) [of x] core_look [of "sx t x" "sx s x"] unfolding fin_def by simp
qed

end
