(* ===== verification/PredicateCommit.thy ===== *)
theory PredicateCommit
  imports PredicateInv
begin

text \<open>
  The end of a transaction keeps the invariant, whether it commits or rolls back, in terms of what the facts about
  \<open>ReleasePredicateLocks\<close> say of the states before and after.
\<close>

lemma commit_not_risky:
  assumes inv: "slots_ok s" "numbers_ok s" "conflicts_ok s E U H" "history_ok s (edge_of s ` E) H"
    and me: "in_use s me" "SxactIsPrepared (sx s me)" "\<not> SxactIsCommitted (sx s me)"
    and wrote: "didWrite \<or> (\<forall>a. (a, me) \<notin> H)" and wrap: "LastSxactCommitSeqNo s < LastSxactCommitSeqNo s + 1"
    and m: "marked True didWrite me s s1" and e: "xact_ended True me s1 E U t"
    and ab: "(a, b) \<in> H" and bc: "(b, c) \<in> H"
  shows "\<not> risky t a b c"
proof
  assume k: "risky t a b c"
  have lt: "me < length (element s)" by (rule in_use_lt [OF inv(1) me(1)])
  note em = ended_me [OF m e lt] and eo = ended_other [OF m e lt]
  note use = historyD(1,2) [OF inv(3) ab] historyD(2) [OF inv(3) bc]
  note l = in_use_lt [OF inv(1)]
  have o: "look (sx t x) = look (sx s x)" if "in_use s x" "x \<noteq> me" for x using eo(7) [OF l [OF that(1)] that(2)] .
  note lo = look_eq [OF o]
  have less: "commitSeqNo (sx s x) < LastSxactCommitSeqNo s + 1" if "in_use s x" "SxactIsCommitted (sx s x)" for x
    using numbersD(7) [OF inv(2) that] wrap by simp
  have "\<not> risky s a b c" using inv(4) ab bc unfolding history_ok_def by blast
  moreover have "risky s a b c" if c: "c \<noteq> me"
  proof -
    note lc = lo [OF use(3) c]
    have "\<not> SxactIsDoomed (sx s a) \<and>
        (\<not> SxactIsCommitted (sx s a) \<or> SxactIsCommitted (sx s c) \<and> commitSeqNo (sx s c) < commitSeqNo (sx s a)) \<and>
        (SxactIsReadOnly (sx s a) \<longrightarrow> prepareSeqNo (sx s c) \<le> SeqNo (sx s a))"
      using k me(3) em(3,4,9) lo [OF use(1)] lc unfolding risky_def by (cases "a = me") simp_all
    moreover have "\<not> SxactIsDoomed (sx s b) \<and>
        (\<not> SxactIsCommitted (sx s b) \<or> SxactIsCommitted (sx s c) \<and> commitSeqNo (sx s c) < commitSeqNo (sx s b))"
      using k me(3) em(3) lo [OF use(2)] lc unfolding risky_def by (cases "b = me") simp_all
    ultimately show ?thesis using k lc unfolding risky_def by simp
  qed
  moreover have "risky s a b c" if c: "c = me"
  proof -
    have n: "a \<noteq> me" "b \<noteq> me" using k em(1,8) c unfolding risky_def by auto
    note la = lo [OF use(1) n(1)] and lb = lo [OF use(2) n(2)]
    have "\<not> SxactIsCommitted (sx s a)" "\<not> SxactIsCommitted (sx s b)"
      using k c em(8) la(1,9) lb(1,9) less [OF use(1)] less [OF use(2)] unfolding risky_def by auto
    then show ?thesis using k c me(2) em(7) la lb unfolding risky_def by simp
  qed
  ultimately show False by blast
qed


lemma ended_numbers:
  assumes inv: "slots_ok s" "numbers_ok s" and me: "in_use s me" "isCommit \<Longrightarrow> SxactIsPrepared (sx s me)"
    and wrap: "LastSxactCommitSeqNo s < LastSxactCommitSeqNo s + 1" and nc: "\<not> SxactIsCommitted (sx s me)"
    and m: "marked isCommit didWrite me s s1" and e: "xact_ended isCommit me s1 E U t"
  shows "numbers_ok t"
proof -
  have lt: "me < length (element s)" by (rule in_use_lt [OF inv(1) me(1)])
  note em = ended_me [OF m e lt] and eo = ended_other [OF m e lt]
  have "LastSxactCommitSeqNo s \<le> LastSxactCommitSeqNo t" using wrap eo(6) by (cases isCommit) simp_all
  note le = order_trans [OF _ this]
  have use: "in_use t = in_use s" by (simp add: in_use_def fun_eq_iff eo)
  have p: "isCommit \<Longrightarrow> prepareSeqNo (sx s me) \<le> LastSxactCommitSeqNo s" using numbersD(3) [OF inv(2) me(1)] me(2) by simp
  have all: "SeqNo (sx t x) \<le> LastSxactCommitSeqNo t \<and> (SxactIsCommitted (sx t x) \<longrightarrow> prepareSeqNo (sx t x) \<le> LastSxactCommitSeqNo t)"
    if x: "x < length (element s)" for x
  proof (cases "x = me")
    case True
    then show ?thesis using em(1,7,10) p le nc by auto
  next
    case False
    then show ?thesis using look_eq [OF eo(7) [OF x False]] inv(2) le x by (simp add: numbers_ok_def)
  qed
  have "\<not> SxactHasSummaryConflictIn (sx t x) \<and> \<not> SxactHasSummaryConflictOut (sx t x) \<and>
       (SxactIsPrepared (sx t x) \<longrightarrow> prepareSeqNo (sx t x) \<le> LastSxactCommitSeqNo t \<and> \<not> SxactIsDoomed (sx t x)) \<and>
       (SxactIsCommitted (sx t x) \<longrightarrow> SxactIsPrepared (sx t x) \<and> prepareSeqNo (sx t x) \<le> commitSeqNo (sx t x) \<and>
          commitSeqNo (sx t x) \<le> LastSxactCommitSeqNo t)" if x: "in_use s x" for x
  proof (cases "x = me")
    case True
    then show ?thesis using em(1-8) p le nc numbersD [OF inv(2) me(1)] eo(6) me(2) by (cases isCommit) simp_all
  next
    case False
    then show ?thesis using look_eq [OF eo(7) [OF in_use_lt [OF inv(1) x] False]] numbersD [OF inv(2) x] le by simp
  qed
  with all show ?thesis unfolding numbers_ok_def use eo(1) by blast
qed

lemma commit_conflict_out:
  assumes inv: "slots_ok s" "numbers_ok s" "conflicts_ok s E U H" "history_ok s (edge_of s ` E) H"
    and me: "in_use s me" "\<not> SxactIsCommitted (sx s me)" and wrap: "LastSxactCommitSeqNo s < LastSxactCommitSeqNo s + 1"
    and m: "marked True didWrite me s s1" and e: "xact_ended True me s1 E U t"
    and xy: "(x, y) \<in> H" "\<not> SxactIsReadOnly (sx t x)" "SxactIsCommitted (sx t x)" "SxactIsCommitted (sx t y)"
      "commitSeqNo (sx t y) < commitSeqNo (sx t x)"
  shows "SxactHasConflictOut (sx t x)"
proof -
  have lt: "me < length (element s)" by (rule in_use_lt [OF inv(1) me(1)])
  note em = ended_me [OF m e lt] and eo = ended_other [OF m e lt]
  note use = historyD(1-3) [OF inv(3) xy(1)]
  have lx: "x \<noteq> me \<Longrightarrow> look (sx t x) = look (sx s x)" and ly: "y \<noteq> me \<Longrightarrow> look (sx t y) = look (sx s y)"
    using eo(7) in_use_lt [OF inv(1)] use by blast+
  show ?thesis
  proof (cases "x = me")
    case True
    with use have y: "y \<noteq> me" by simp
    have c: "SxactIsCommitted (sx s y)" using xy(4) look_eq(1) [OF ly [OF y]] by simp
    have "SxactIsReadOnly (sx t me) = SxactIsReadOnly (sx s1 me)" using e fin_fields(4) unfolding xact_ended_def by blast
    then have ro: "\<not> SxactIsReadOnly (sx s1 me)" "\<not> SxactIsReadOnly (sx s me)" using xy(2) True em(4) by simp_all
    have "(me, y) \<in> edge_of s ` E" using inv(4) xy(1) True me(2) ro(2) unfolding history_ok_def by blast
    then obtain c where "c \<in> E" "sxactOut (pool s1 ! c) = me" "sxactIn (pool s1 ! c) = y"
      using marked_fields(2) [OF m] by (auto simp: edge_of_def)
    then show ?thesis using e ro(1) c marked_fields(8) [OF m y] True unfolding xact_ended_def by auto
  next
    case False
    note kx = look_eq [OF lx [OF False]]
    have "commitSeqNo (sx s x) < LastSxactCommitSeqNo s + 1"
      using numbersD(7) [OF inv(2) use(1)] xy(3) kx(1) wrap by simp
    then have y: "y \<noteq> me" using xy(5) em(8) kx(9) by auto
    note ky = look_eq [OF ly [OF y]]
    have "SxactHasConflictOut (sx s x)"
      using inv(4) xy unfolding kx ky history_ok_def by blast
    then show ?thesis using kx(5) by simp
  qed
qed

lemma commit_history:
  assumes inv: "slots_ok s" "numbers_ok s" "conflicts_ok s E U H" "history_ok s (edge_of s ` E) H"
    and me: "in_use s me" "SxactIsPrepared (sx s me)" "\<not> SxactIsCommitted (sx s me)"
    and wrote: "didWrite \<or> (\<forall>a. (a, me) \<notin> H)" and wrap: "LastSxactCommitSeqNo s < LastSxactCommitSeqNo s + 1"
    and m: "marked True didWrite me s s1" and e: "xact_ended True me s1 E U t" and gone: "\<forall>c \<in> E - E'. gone_ok True me s1 c"
  shows "history_ok t (edge_of s ` E') H"
proof -
  have lt: "me < length (element s)" by (rule in_use_lt [OF inv(1) me(1)])
  note em = ended_me [OF m e lt] and eo = ended_other [OF m e lt]
  have lo: "look (sx t x) = look (sx s x)" if "(x, y) \<in> H \<or> (y, x) \<in> H" "x \<noteq> me" for x y
    using eo(7) [OF in_use_lt [OF inv(1)] that(2)] historyD(1,2) [OF inv(3)] that(1) by blast
  have mono: "SxactIsCommitted (sx s x) \<Longrightarrow> SxactIsCommitted (sx t x)" "SxactIsReadOnly (sx s x) \<Longrightarrow> SxactIsReadOnly (sx t x)"
    if "(x, y) \<in> H \<or> (y, x) \<in> H" for x y
    using em(1,4) look_eq [OF lo [OF that]] by (cases "x = me"; simp)+
  have old: "SxactIsCommitted (sx s y) \<and> (SxactIsCommitted (sx s x) \<or> SxactIsReadOnly (sx s x))" if "(x, y) \<in> H" "(x, y) \<notin> edge_of s ` E" for x y
    using inv(4) that unfolding history_ok_def by blast
  have "SxactIsCommitted (sx t y) \<and> (SxactIsCommitted (sx t x) \<or> SxactIsReadOnly (sx t x))" if xy: "(x, y) \<in> H" "(x, y) \<notin> edge_of s ` E'" for x y
  proof (cases "(x, y) \<in> edge_of s ` E")
    case False
    then show ?thesis using old [OF xy(1) False] mono [of x y] mono [of y x] xy(1) by blast
  next
    case True
    then obtain c where c: "c \<in> E - E'" "(x, y) = edge_of s c" using xy(2) by blast
    have ne: "x \<noteq> y" using historyD(3) [OF inv(3) xy(1)] .
    have "x = me \<and> SxactIsCommitted (sx s1 y) \<or> y = me \<and> (SxactIsCommitted (sx s1 x) \<or> SxactIsReadOnly (sx s1 x))"
      using gone c marked_fields(2) [OF m] by (auto simp: gone_ok_def edge_of_def)
    then have "x = me \<and> SxactIsCommitted (sx s y) \<or> y = me \<and> (SxactIsCommitted (sx s x) \<or> SxactIsReadOnly (sx s x))"
      using marked_fields(8) [OF m, of x] marked_fields(8) [OF m, of y] ne by auto
    then show ?thesis using em(1) mono [of x y] mono [of y x] xy(1) by auto
  qed
  then show ?thesis
    unfolding history_ok_def using commit_not_risky [OF inv me wrote wrap m e] commit_conflict_out [OF inv me(1,3) wrap m e] by blast
qed

lemma conflicts_fewer:
  assumes con: "conflicts_ok s E U H" and q: "queues_ok t E' U' A" "E' \<subseteq> E" "U' \<subseteq> U"
    and pool: "pool t = pool s" and use: "\<And>x. in_use s x \<Longrightarrow> P x \<Longrightarrow> in_use t x"
    and P: "\<And>c. c \<in> E' \<union> U' \<Longrightarrow> P (sxactOut (pool s ! c)) \<and> P (sxactIn (pool s ! c))"
    and ro: "\<And>a b. (a, b) \<in> H \<Longrightarrow> P a \<Longrightarrow> P b \<Longrightarrow> \<not> SxactIsReadOnly (sx t b)"
  shows "conflicts_ok t E' U' {(a, b) \<in> H. P a \<and> P b}"
proof -
  have edge: "edge_of t = edge_of s" by (simp add: edge_of_def pool fun_eq_iff)
  have "edge_of s ` E' \<subseteq> {(a, b) \<in> H. P a \<and> P b}"
  proof
    fix p assume "p \<in> edge_of s ` E'"
    then obtain c where c: "c \<in> E'" "p = edge_of s c" by blast
    moreover have "edge_of s c \<in> H" using con q(2) c(1) unfolding conflicts_ok_def by blast
    ultimately show "p \<in> {(a, b) \<in> H. P a \<and> P b}" using P [of c] by (simp add: edge_of_def)
  qed
  moreover have "in_use t (sxactOut (pool s ! c)) \<and> in_use t (sxactIn (pool s ! c)) \<and> sxactOut (pool s ! c) \<noteq> sxactIn (pool s ! c)"
    if "c \<in> E' \<union> U'" for c using conflictsD [OF con, of c] that P [OF that] use q(2,3) by blast
  moreover have "\<forall>(a, b) \<in> {(a, b) \<in> H. P a \<and> P b}. in_use t a \<and> in_use t b \<and> a \<noteq> b \<and> \<not> SxactIsReadOnly (sx t b)"
  proof (intro ballI case_prodI2)
    fix p a b assume "p \<in> {(a, b) \<in> H. P a \<and> P b}" "p = (a, b)"
    then show "in_use t a \<and> in_use t b \<and> a \<noteq> b \<and> \<not> SxactIsReadOnly (sx t b)"
      using historyD [OF con, of a b] use ro [of a b] by simp
  qed
  ultimately show ?thesis unfolding conflicts_ok_def edge pool using q(1) by blast
qed

lemma ended_slots:
  assumes sl: "slots_ok s" and me: "in_use s me" and m: "marked isCommit didWrite me s s1" and e: "xact_ended isCommit me s1 E U t"
  shows "slots_ok t"
proof -
  have lt: "me < length (element s)" by (rule in_use_lt [OF sl me])
  note eo = ended_other [OF m e lt]
  have "OldCommittedSxact s < length (element s)" "OldCommittedSxact s \<noteq> me" using sl me by (auto simp: slots_ok_def in_use_def)
  from look_eq(1) [OF eo(7) [OF this]] show ?thesis using sl unfolding slots_ok_def eo(1,3-5) by simp
qed

lemma commit_inv:
  assumes inv: "slots_ok s" "numbers_ok s" "conflicts_ok s E U H" "history_ok s (edge_of s ` E) H"
    and me: "in_use s me" "SxactIsPrepared (sx s me)" "\<not> SxactIsCommitted (sx s me)"
    and wrote: "didWrite \<or> (\<forall>a. (a, me) \<notin> H)" and wrap: "LastSxactCommitSeqNo s < LastSxactCommitSeqNo s + 1"
    and m: "marked True didWrite me s s1" and e: "xact_ended True me s1 E U t"
  shows "ssi_inv t H"
proof -
  have lt: "me < length (element s)" by (rule in_use_lt [OF inv(1) me(1)])
  note em = ended_me [OF m e lt] and eo = ended_other [OF m e lt]
  from e obtain E' U' A where q: "queues_ok t E' U' A" "E' \<subseteq> E" "U' \<subseteq> U" and gone: "\<forall>c \<in> E - E'. gone_ok True me s1 c"
    unfolding xact_ended_def by blast
  have ro: "\<not> SxactIsReadOnly (sx t b)" if "(a, b) \<in> H" for a b
  proof (cases "b = me")
    case True
    then show ?thesis using em(4) wrote historyD(4) [OF inv(3) that] that by auto
  next
    case False
    then show ?thesis
      using look_eq(4) [OF eo(7) [OF in_use_lt [OF inv(1) historyD(2) [OF inv(3) that]] False]] historyD(4) [OF inv(3) that] by simp
  qed
  have use: "in_use t = in_use s" by (simp add: in_use_def fun_eq_iff eo)
  have "conflicts_ok t E' U' H"
    using conflicts_fewer [OF inv(3) q eo(2), where P = "\<lambda>_. True"] ro by (simp add: use)
  moreover have "edge_of t = edge_of s" by (simp add: edge_of_def fun_eq_iff eo(2))
  moreover have "slots_ok t" by (rule ended_slots [OF inv(1) me(1) m e])
  ultimately show ?thesis
    unfolding ssi_inv_def
    using ended_numbers [OF inv(1,2) me(1,2) wrap me(3) m e] commit_history [OF inv me wrote wrap m e gone] by metis
qed

definition slot_freed :: "nat \<Rightarrow> ssi \<Rightarrow> ssi \<Rightarrow> bool" where
  "slot_freed me s t \<longleftrightarrow> element t = element s \<and> pool t = pool s \<and> poolAvailable t = poolAvailable s \<and>
     LastSxactCommitSeqNo t = LastSxactCommitSeqNo s \<and> OldCommittedSxact t = OldCommittedSxact s \<and>
     set (activeList t) = set (activeList s) - {me} \<and> set (availableList t) = insert me (set (availableList s)) \<and>
     distinct (availableList t)"

lemma history_okD:
  assumes "history_ok s D H" and "(a, b) \<in> H"
  shows "(a, b) \<notin> D \<Longrightarrow> SxactIsCommitted (sx s b) \<and> (SxactIsCommitted (sx s a) \<or> SxactIsReadOnly (sx s a))"
    "\<not> SxactIsReadOnly (sx s a) \<Longrightarrow> SxactIsCommitted (sx s a) \<Longrightarrow> SxactIsCommitted (sx s b) \<Longrightarrow>
      commitSeqNo (sx s b) < commitSeqNo (sx s a) \<Longrightarrow> SxactHasConflictOut (sx s a)"
  using assms unfolding history_ok_def by blast+

lemma history_fewer:
  assumes h: "history_ok s D H" and P: "\<And>a b. (a, b) \<in> H \<Longrightarrow> P a \<Longrightarrow> P b \<Longrightarrow> look (sx v a) = look (sx s a) \<and> look (sx v b) = look (sx s b)"
    and D: "\<And>a b. (a, b) \<in> H \<Longrightarrow> P a \<Longrightarrow> P b \<Longrightarrow> (a, b) \<in> D \<Longrightarrow> (a, b) \<in> D'"
  shows "history_ok v D' {(a, b) \<in> H. P a \<and> P b}"
proof -
  have "look (sx v a) = look (sx s a)" if "(a, b) \<in> H \<or> (b, a) \<in> H" "P a" "P b" for a b using that P by blast
  note lk = look_eq [OF this]
  have "\<not> risky v a b c" if "(a, b) \<in> H" "(b, c) \<in> H" "P a" "P b" "P c" for a b c
  proof -
    have "\<not> risky s a b c" using h that unfolding history_ok_def by blast
    then show ?thesis using lk [of a b] lk [of b a] lk [of c b] that by (simp add: risky_def)
  qed
  moreover have "SxactIsCommitted (sx v b) \<and> (SxactIsCommitted (sx v a) \<or> SxactIsReadOnly (sx v a))"
    if "(a, b) \<in> H" "(a, b) \<notin> D'" "P a" "P b" for a b
    using history_okD(1) [OF h, of a b] D [of a b] lk [of a b] lk [of b a] that by (metis (no_types))
  moreover have "SxactHasConflictOut (sx v a)"
    if "(a, b) \<in> H" "\<not> SxactIsReadOnly (sx v a)" "SxactIsCommitted (sx v a)" "SxactIsCommitted (sx v b)"
      "commitSeqNo (sx v b) < commitSeqNo (sx v a)" "P a" "P b" for a b
    using history_okD(2) [OF h, of a b] lk [of a b] lk [of b a] that by simp
  ultimately show ?thesis unfolding history_ok_def by blast
qed

lemma numbers_fewer:
  assumes n: "numbers_ok t" and v: "element v = element t" "LastSxactCommitSeqNo v = LastSxactCommitSeqNo t" and use: "\<And>x. in_use v x \<Longrightarrow> in_use t x"
  shows "numbers_ok v"
  using n use unfolding numbers_ok_def v by blast

lemma rollback_inv:
  assumes inv: "slots_ok s" "numbers_ok s" "conflicts_ok s E U H" "history_ok s (edge_of s ` E) H"
    and me: "in_use s me" "\<not> SxactIsCommitted (sx s me)" and wrap: "LastSxactCommitSeqNo s < LastSxactCommitSeqNo s + 1"
    and m: "marked False didWrite me s s1" and e: "xact_ended False me s1 E U t" and f: "slot_freed me t v"
  shows "ssi_inv v {(a, b) \<in> H. a \<noteq> me \<and> b \<noteq> me}"
proof -
  let ?H = "{(a, b) \<in> H. a \<noteq> me \<and> b \<noteq> me}"
  have lt: "me < length (element s)" by (rule in_use_lt [OF inv(1) me(1)])
  note em = ended_me [OF m e lt] and eo = ended_other [OF m e lt]
  from e obtain E' U' A where q: "queues_ok t E' U' A" "E' \<subseteq> E" "U' \<subseteq> U" and gone: "\<forall>c \<in> E - E'. gone_ok False me s1 c"
    and no: "\<forall>c \<in> E' \<union> U'. sxactOut (pool s1 ! c) \<noteq> me \<and> sxactIn (pool s1 ! c) \<noteq> me"
    unfolding xact_ended_def by blast
  have use: "in_use v x \<longleftrightarrow> in_use s x \<and> x \<noteq> me" for x using f by (auto simp: in_use_def slot_freed_def eo)
  have fv: "element v = element t" "pool v = pool s" "LastSxactCommitSeqNo v = LastSxactCommitSeqNo t" "OldCommittedSxact v = OldCommittedSxact t"
    using f by (simp_all add: slot_freed_def eo)
  have lo: "look (sx v x) = look (sx s x)" if "in_use s x" "x \<noteq> me" for x
    using eo(7) [OF in_use_lt [OF inv(1) that(1)] that(2)] fv(1) by simp
  have qv: "queues_ok v E' U' A" using q(1) f unfolding queues_ok_def slot_freed_def by simp
  have con: "conflicts_ok v E' U' ?H"
    by (rule conflicts_fewer [OF inv(3) qv q(2,3) fv(2)])
      (use no marked_fields(2) [OF m] use historyD(2,4) [OF inv(3)] look_eq(4) [OF lo] in simp_all)
  have "(a, b) \<in> edge_of s ` E'" if "(a, b) \<in> edge_of s ` E" "a \<noteq> me" "b \<noteq> me" for a b
    using that gone marked_fields(2) [OF m] by (fastforce simp: gone_ok_def edge_of_def)
  moreover have "edge_of v = edge_of s" by (simp add: edge_of_def fun_eq_iff fv(2))
  ultimately have his: "history_ok v (edge_of v ` E') ?H"
    by (intro history_fewer [OF inv(4)]) (use lo historyD(1,2) [OF inv(3)] in simp_all)
  have tv: "in_use t x" if "in_use v x" for x using that use [of x] unfolding in_use_def eo(4,5) by blast
  have num: "numbers_ok v"
    by (rule numbers_fewer [OF ended_numbers [OF inv(1,2) me(1) _ wrap me(2) m e] fv(1,3) tv]) simp
  have "length (element v) = length (element t)" by (simp add: fv(1))
  moreover have "me < length (element t)" "me \<noteq> OldCommittedSxact t" using lt me(1) eo(1,5) by (simp_all add: in_use_def)
  ultimately have "slots_ok v" using ended_slots [OF inv(1) me(1) m e] f unfolding slots_ok_def slot_freed_def by auto
  with num his con show ?thesis unfolding ssi_inv_def by blast
qed

end
