(* ===== verification/PredicateOpen.thy ===== *)
theory PredicateOpen
  imports PredicateCommit PredicateBegin
begin

text \<open>
  The beginning of a transaction keeps the invariant: its structure gets into use, and a read-only transaction is registered
  with every transaction that could make its snapshot unsafe.
\<close>

subsection \<open>The beginning of a transaction\<close>

definition opened :: "nat \<Rightarrow> SERIALIZABLEXACT \<Rightarrow> ssi \<Rightarrow> ssi \<Rightarrow> bool" where
  "opened x y s t \<longleftrightarrow> x \<in> set (availableList s) \<and> element t = (element s)[x := y] \<and> pool t = pool s \<and> poolAvailable t = poolAvailable s \<and>
     LastSxactCommitSeqNo t = LastSxactCommitSeqNo s \<and> OldCommittedSxact t = OldCommittedSxact s \<and>
     set (activeList t) = insert x (set (activeList s)) \<and> set (availableList t) = set (availableList s) - {x} \<and>
     distinct (availableList t) \<and> outConflicts y = [] \<and> inConflicts y = [] \<and> possibleUnsafeConflicts y = [] \<and>
     \<not> SxactIsCommitted y \<and> \<not> SxactIsPrepared y \<and> \<not> SxactHasSummaryConflictIn y \<and> \<not> SxactHasSummaryConflictOut y \<and>
     SeqNo y = LastSxactCommitSeqNo s"

lemma openedD:
  assumes "slots_ok s" and "opened x y s t"
  shows "x < length (element s)" "x \<noteq> OldCommittedSxact s" "\<not> in_use s x" "sx t z = (if z = x then y else sx s z)"
    "length (element t) = length (element s)" "pool t = pool s" "LastSxactCommitSeqNo t = LastSxactCommitSeqNo s"
    "OldCommittedSxact t = OldCommittedSxact s" "poolAvailable t = poolAvailable s" "in_use t z \<longleftrightarrow> in_use s z \<or> z = x"
proof -
  have x: "x < length (element s)" "x \<notin> set (activeList s)" "x \<noteq> OldCommittedSxact s" using assms by (auto simp: slots_ok_def opened_def)
  then show "x < length (element s)" "x \<noteq> OldCommittedSxact s" "\<not> in_use s x" by (simp_all add: in_use_def)
  show "sx t z = (if z = x then y else sx s z)" using assms(2) x(1) by (simp add: opened_def)
  show "length (element t) = length (element s)" "pool t = pool s" "LastSxactCommitSeqNo t = LastSxactCommitSeqNo s"
    "OldCommittedSxact t = OldCommittedSxact s" "poolAvailable t = poolAvailable s" using assms(2) by (simp_all add: opened_def)
  show "in_use t z \<longleftrightarrow> in_use s z \<or> z = x" using assms(2) x by (auto simp: in_use_def opened_def)
qed

lemma opened_numbers:
  assumes sl: "slots_ok s" and n: "numbers_ok s" and t: "opened x y s t"
  shows "numbers_ok t"
proof -
  note f = openedD [OF sl t]
  have y: "SeqNo y = LastSxactCommitSeqNo s" "\<not> SxactIsCommitted y" "\<not> SxactIsPrepared y" "\<not> SxactHasSummaryConflictIn y"
    "\<not> SxactHasSummaryConflictOut y" using t by (simp_all add: opened_def)
  show ?thesis
    unfolding numbers_ok_def f(5,7,10)
  proof (intro conjI allI impI)
    fix z assume z: "z < length (element s)"
    show "SeqNo (sx t z) \<le> LastSxactCommitSeqNo s" using n z y(1) unfolding f(4) numbers_ok_def by simp
    show "SxactIsCommitted (sx t z) \<Longrightarrow> prepareSeqNo (sx t z) \<le> LastSxactCommitSeqNo s"
      using n z y(2) unfolding f(4) numbers_ok_def by (cases "z = x") simp_all
  next
    fix z assume z: "in_use s z \<or> z = x"
    show "\<not> SxactHasSummaryConflictIn (sx t z)" "\<not> SxactHasSummaryConflictOut (sx t z)"
      "SxactIsPrepared (sx t z) \<Longrightarrow> prepareSeqNo (sx t z) \<le> LastSxactCommitSeqNo s" "SxactIsPrepared (sx t z) \<Longrightarrow> \<not> SxactIsDoomed (sx t z)"
      "SxactIsCommitted (sx t z) \<Longrightarrow> SxactIsPrepared (sx t z)" "SxactIsCommitted (sx t z) \<Longrightarrow> prepareSeqNo (sx t z) \<le> commitSeqNo (sx t z)"
      "SxactIsCommitted (sx t z) \<Longrightarrow> commitSeqNo (sx t z) \<le> LastSxactCommitSeqNo s"
      using z numbersD [OF n, of z] y unfolding f(4) by (cases "z = x"; simp)+
  qed
qed

lemma opened_inv:
  assumes inv: "slots_ok s" "numbers_ok s" "conflicts_ok s E U H" "history_ok s (edge_of s ` E) H" and t: "opened x y s t"
  shows "slots_ok t \<and> numbers_ok t \<and> conflicts_ok t E U H \<and> history_ok t (edge_of t ` E) H"
proof -
  note f = openedD [OF inv(1) t]
  have edge: "edge_of t = edge_of s" by (simp add: edge_of_def fun_eq_iff f(6))
  have sl: "slots_ok t" using inv(1) t f(1,2) unfolding slots_ok_def opened_def by auto
  have ends: "sxactOut (pool s ! c) \<noteq> x" "sxactIn (pool s ! c) \<noteq> x" if "c \<in> E \<union> U" for c using conflictsD [OF inv(3) that] f(3) by auto
  from inv(3) obtain A where A: "queues_ok s E U A" unfolding conflicts_ok_def by blast
  have q: "queues_ok t E U A"
  proof -
    have "{c \<in> E. sxactOut (pool s ! c) = x} = {}" "{c \<in> E. sxactIn (pool s ! c) = x} = {}"
      "{c \<in> U. sxactOut (pool s ! c) = x} = {}" "{c \<in> U. sxactIn (pool s ! c) = x} = {}" using ends by blast+
    moreover have "outConflicts y = []" "inConflicts y = []" "possibleUnsafeConflicts y = []" using t by (simp_all add: opened_def)
    ultimately show ?thesis using A unfolding queues_ok_def f(4-6,9) by simp
  qed
  have con: "conflicts_ok t E U {(a, b) \<in> H. True \<and> True}"
    by (rule conflicts_fewer [OF inv(3) q subset_refl subset_refl f(6), where P = "\<lambda>_. True"])
      (use f(3,4,10) historyD(2,4) [OF inv(3)] in auto)
  have "history_ok t (edge_of s ` E) {(a, b) \<in> H. True \<and> True}"
    by (rule history_fewer [OF inv(4), where P = "\<lambda>_. True"]) (use historyD(1,2) [OF inv(3)] f(3,4) in auto)
  with sl opened_numbers [OF inv(1,2) t] con edge show ?thesis by simp
qed

lemma with_unsafe_inv:
  assumes inv: "slots_ok s" "numbers_ok s" "conflicts_ok s E U H" "history_ok s (edge_of s ` E) H" and c: "queues_ok s E U A" "c \<in> A"
    and ar: "in_use s act" "in_use s ro" "act \<noteq> ro"
  shows "ssi_inv (with_unsafe c act ro s) H \<and> same_look s (with_unsafe c act ro s)"
proof -
  let ?t = "with_unsafe c act ro s"
  have lt: "act < length (element s)" "ro < length (element s)" using in_use_lt [OF inv(1)] ar by simp_all
  have look: "same_look s ?t" by (rule same_xacts_look [OF with_unsafe_same [OF lt ar(3)]])
  have pool: "pool ?t = (pool s)[c := \<lparr>sxactOut = act, sxactIn = ro\<rparr>]" by (simp add: with_unsafe_def Let_def)
  have cA: "c < length (pool s)" "c \<notin> E" using c by (auto simp: queues_ok_def)
  have edge: "edge_of ?t ` E = edge_of s ` E" using cA by (auto simp: edge_of_def pool nth_list_update image_iff)
  have hlt: "a < length (element s) \<and> b < length (element s)" if "(a, b) \<in> H" for a b
    using that historyD(1,2) [OF inv(3)] in_use_lt [OF inv(1)] by blast
  have "in_use s (sxactOut (pool ?t ! d)) \<and> in_use s (sxactIn (pool ?t ! d)) \<and> sxactOut (pool ?t ! d) \<noteq> sxactIn (pool ?t ! d)"
    if "d \<in> E \<union> insert c U" for d
    using that conflictsD [OF inv(3), of d] ar cA unfolding pool by (cases "d = c") simp_all
  moreover have "\<forall>(a, b) \<in> H. in_use s a \<and> in_use s b \<and> a \<noteq> b \<and> \<not> SxactIsReadOnly (sx ?t b)"
  proof (intro ballI case_prodI2)
    fix p a b assume "p \<in> H" "p = (a, b)"
    then show "in_use s a \<and> in_use s b \<and> a \<noteq> b \<and> \<not> SxactIsReadOnly (sx ?t b)"
      using historyD [OF inv(3), of a b] look hlt [of a b] by (simp add: same_look_def look_def)
  qed
  ultimately have "conflicts_ok ?t E (insert c U) H"
    using with_unsafe_queues [OF c lt ar(3)] inv(3) unfolding conflicts_ok_def edge same_look_slots(2) [OF look] by blast
  moreover have "history_ok ?t (edge_of ?t ` E) H" unfolding edge using same_look_history [OF look hlt] inv(4) by blast
  ultimately show ?thesis
    unfolding ssi_inv_def using inv(1,2) same_look_slots(1) [OF look] same_look_numbers [OF look inv(1)] look by blast
qed

lemma wpl_SetPossibleUnsafeConflict:
  assumes q: "queues_ok s E U A" and lt: "act < length (element s)" "ro < length (element s)"
    and Q: "\<And>c. c \<in> A \<Longrightarrow> act \<noteq> ro \<Longrightarrow> Q () (with_unsafe c act ro s)"
  shows "wpl (SetPossibleUnsafeConflict ro act) Q s"
proof -
  have take: "wpl (take_conflict msg act ro) (\<lambda>c t. c \<in> A \<and> t = filled c act ro s) s" for msg
    by (rule wp_take_conflict [OF q]) simp_all
  show ?thesis
    unfolding SetPossibleUnsafeConflict_def
    by (intro wpl_assertp wpl_get_sxact wpl_bindp [OF take])
      (use Q lt in \<open>auto simp: wp_simps with_unsafe_def Let_def nth_list_update\<close>)
qed

lemma same_look_refl [simp]: "same_look s s"
  by (simp add: same_look_def)

lemma same_look_trans:
  assumes "same_look s t" and "same_look t u"
  shows "same_look s u"
  using assms by (simp add: same_look_def)

lemma wpl_register_unsafe:
  assumes inv: "ssi_inv s H" and x: "in_use s x" and oth: "oth \<in> set (activeList s)"
  shows "wpl (register_unsafe x oth) (\<lambda>_ t. ssi_inv t H \<and> same_look s t) s"
proof -
  from inv obtain E U A where i: "slots_ok s" "numbers_ok s" "conflicts_ok s E U H" "history_ok s (edge_of s ` E) H" and q: "queues_ok s E U A"
    unfolding ssi_inv_def conflicts_ok_def by blast
  have lt: "oth < length (element s)" "x < length (element s)" using i(1) oth in_use_lt [OF i(1) x] by (auto simp: slots_ok_def)
  have "in_use s oth" if "\<not> SxactIsCommitted (sx s oth)" using that i(1) oth by (auto simp: in_use_def slots_ok_def)
  then show ?thesis
    unfolding register_unsafe_def
    by (intro wpl_get_sxact wpl_whenp wpl_SetPossibleUnsafeConflict [OF q lt])
      (use inv with_unsafe_inv [OF i q _ _ x] in auto)
qed

lemma wpl_register_loop:
  assumes inv: "ssi_inv s H" and x: "in_use s x" and xs: "set xs \<subseteq> set (activeList s)"
  shows "wpl (eachp (register_unsafe x) xs) (\<lambda>_ t. ssi_inv t H \<and> same_look s t) s"
proof -
  have "wpl (register_unsafe x oth) (\<lambda>_ u. ssi_inv u H \<and> same_look s u) t" if "ssi_inv t H \<and> same_look s t" "oth \<in> set xs" for oth t
  proof -
    have "in_use t x" "oth \<in> set (activeList t)" using x xs that same_look_slots(2) [of s t] by (auto simp: same_look_def)
    from wpl_register_unsafe [OF conjunct1 [OF that(1)] this] show ?thesis
      by (rule wp_mono) (use that(1) same_look_trans [of s t] in auto)
  qed
  then show ?thesis by (intro wp_eachp [where I = "\<lambda>_ t. ssi_inv t H \<and> same_look s t"]) (use inv in auto)
qed

end
