(* ===== verification/LWLockView.thy ===== *)
theory LWLockView
  imports LWLock
begin

text \<open>
  Taking and releasing lightweight locks, whatever happens meanwhile, changes no part of the shared memory besides
  locks and processes, and no variable of the backend that has nothing to do with locks. The locale
  \<open>lock_view\<close> has this once for every part of the shared memory; it is interpreted for the data of serializable
  transactions and for the bitmap.
\<close>

subsection \<open>What taking and releasing locks leaves alone\<close>

text \<open>
  A view \<open>v\<close> of the shared memory that no other backend changes, and a view \<open>p\<close> of the variables of this backend.
\<close>

definition kept :: "(shmem \<Rightarrow> 'v) \<Rightarrow> (backend \<Rightarrow> 'p) \<Rightarrow> backend \<Rightarrow> backend \<Rightarrow> bool" where
  "kept v p s t \<longleftrightarrow> v (shm t) = v (shm s) \<and> rely (\<lambda>a b. v b = v a) t \<and> p t = p s"

definition keeps :: "(shmem \<Rightarrow> 'v) \<Rightarrow> (backend \<Rightarrow> 'p) \<Rightarrow> (backend, 'a) prog \<Rightarrow> bool" where
  "keeps v p m \<longleftrightarrow> (\<forall>s. rely (\<lambda>a b. v b = v a) s \<longrightarrow> wp m (\<lambda>_. kept v p s) (\<lambda>_. kept v p s) s)"

text \<open>What a query knows of its migration, and what a backend knows of its transaction.\<close>

definition query_vars where
  "query_vars s = (heap s, migrateflag s, tuplemigratecount s, BitmapNum s, PartialBitmap s, InProgLocalList0 s, InProgLocalList1 s)"

definition xact_vars where
  "xact_vars s = (XactIsoLevel s, MySerializableXact s, MyXactDidWrite s, RecoveryInProgress s)"

lemma keeps_bindp: "keeps v p m \<Longrightarrow> (\<And>x. keeps v p (f x)) \<Longrightarrow> keeps v p (bindp m f)"
  unfolding keeps_def wp_bindp
proof (intro allI impI)
  fix s assume m: "\<forall>s. rely (\<lambda>a b. v b = v a) s \<longrightarrow> wp m (\<lambda>_. kept v p s) (\<lambda>_. kept v p s) s"
    and f: "\<And>x. \<forall>s. rely (\<lambda>a b. v b = v a) s \<longrightarrow> wp (f x) (\<lambda>_. kept v p s) (\<lambda>_. kept v p s) s" and s: "rely (\<lambda>a b. v b = v a) s"
  from m s have "wp m (\<lambda>_. kept v p s) (\<lambda>_. kept v p s) s" by blast
  then show "wp m (\<lambda>x. wp (f x) (\<lambda>_. kept v p s) (\<lambda>_. kept v p s)) (\<lambda>_. kept v p s) s"
  proof (rule wp_mono)
    fix x t assume t: "kept v p s t"
    then have "wp (f x) (\<lambda>_. kept v p t) (\<lambda>_. kept v p t) t" using f [of x] by (simp add: kept_def)
    then show "wp (f x) (\<lambda>_. kept v p s) (\<lambda>_. kept v p s) t" by (rule wp_mono) (use t in \<open>simp_all add: kept_def\<close>)
  qed
qed

lemma keeps_thenp: "keeps v p m \<Longrightarrow> keeps v p n \<Longrightarrow> keeps v p (thenp m n)"
  by (simp add: thenp_def keeps_bindp)

lemma keeps_basic: "keeps v p (ret x)" "keeps v p (throw e)" "keeps v p (gets g)" "keeps v p (assertp b)" "keeps v p (liftp r)"
  by (auto simp: keeps_def wp_simps kept_def split: sum.splits)

lemma keeps_if: "keeps v p m \<Longrightarrow> keeps v p n \<Longrightarrow> keeps v p (if b then m else n)"
  by simp

lemma keeps_whenp: "keeps v p m \<Longrightarrow> keeps v p (whenp b m)"
  by (simp add: whenp_def keeps_basic)

lemma keeps_option: "keeps v p m \<Longrightarrow> (\<And>x. keeps v p (n x)) \<Longrightarrow> keeps v p (case o1 of None \<Rightarrow> m | Some x \<Rightarrow> n x)"
  by (cases o1) simp_all

lemma keeps_prod: "(\<And>x y. keeps v p (f x y)) \<Longrightarrow> keeps v p (case q of (x, y) \<Rightarrow> f x y)"
  by (cases q) simp

lemma keeps_let: "(\<And>y. keeps v p (f y)) \<Longrightarrow> keeps v p (let y = x in f y)"
  by simp

lemma keeps_eachp: "(\<And>x. keeps v p (f x)) \<Longrightarrow> keeps v p (eachp f xs)"
  by (induction xs) (simp_all add: keeps_basic keeps_thenp)

lemma keeps_timesp: "keeps v p m \<Longrightarrow> keeps v p (timesp n m)"
  by (induction n) (simp_all add: keeps_basic keeps_thenp)

lemma keeps_with_fuel: "(\<And>n. keeps v p (f n)) \<Longrightarrow> keeps v p (with_fuel f)"
  by (simp add: with_fuel_def keeps_bindp keeps_basic)

lemmas keeps_intros = keeps_bindp keeps_thenp keeps_basic keeps_if keeps_whenp keeps_option keeps_prod keeps_let
  keeps_eachp keeps_timesp keeps_with_fuel

locale private_view =
  fixes pv :: "backend \<Rightarrow> 'p"
  assumes of_shm: "pv (s\<lparr>shm := m\<rparr>) = pv s" and of_env: "pv (s\<lparr>env := fs\<rparr>) = pv s"
begin

lemma of_others: "pv (others s) = pv s"
  by (cases "env s") (simp_all add: of_shm of_env)

lemma keeps_interfere: "keeps v pv interfere"
  unfolding keeps_def
proof (intro allI impI)
  fix s assume "rely (\<lambda>a b. v b = v a) s"
  then show "wp interfere (\<lambda>_. kept v pv s) (\<lambda>_. kept v pv s) s"
    using rely_others rely_step [of "\<lambda>a b. v b = v a" s] by (auto simp: wp_simps kept_def of_others)
qed

end

locale lock_view = private_view pv for pv :: "backend \<Rightarrow> 'p" +
  fixes v :: "shmem \<Rightarrow> 'v"
  assumes of_locks: "v (m\<lparr>MainLWLockArray := ls\<rparr>) = v m" and of_procs: "v (m\<lparr>allProcs := ps\<rparr>) = v m"
    and of_held: "pv (s\<lparr>held_lwlocks := hs\<rparr>) = pv s" and of_holdoff: "pv (s\<lparr>InterruptHoldoffCount := n\<rparr>) = pv s"
begin

lemma keeps_put_lock: "keeps v pv (put_lock i L)"
  by (auto simp: keeps_def put_lock_def wp_simps kept_def rely_def of_locks of_shm)

lemma keeps_lock_at: "keeps v pv (lock_at i)"
  unfolding lock_at_def by (intro keeps_intros keeps_interfere)

lemma keeps_proc_at: "keeps v pv (proc_at p)"
  unfolding proc_at_def by (intro keeps_intros keeps_interfere)

lemma keeps_update_proc: "keeps v pv (update_proc p f)"
  unfolding update_proc_def
  by (intro keeps_bindp keeps_proc_at) (auto simp: keeps_def wp_simps kept_def rely_def of_procs of_shm)

lemma keeps_my_proc: "keeps v pv my_proc"
  unfolding my_proc_def by (intro keeps_intros)

lemma keeps_atomics:
  "keeps v pv (pg_atomic_read_u32 i)" "keeps v pv (atomic_update i f)" "keeps v pv (pg_atomic_fetch_or_u32 i w)"
  "keeps v pv (pg_atomic_fetch_and_u32 i w)" "keeps v pv (pg_atomic_sub_fetch_u32 i w)"
  "keeps v pv (pg_atomic_compare_exchange_u32 i w w')" "keeps v pv (PGSemaphoreUnlock p)"
  unfolding pg_atomic_read_u32_def pg_atomic_fetch_or_u32_def pg_atomic_fetch_and_u32_def pg_atomic_sub_fetch_u32_def
    pg_atomic_compare_exchange_u32_def atomic_update_def PGSemaphoreUnlock_def
  by (intro keeps_intros keeps_interfere keeps_put_lock keeps_lock_at keeps_update_proc)+

lemma kept_trans: "kept v pv s t \<Longrightarrow> kept v pv t u \<Longrightarrow> kept v pv s u"
  by (simp add: kept_def)

lemma kept_others: "rely (\<lambda>a b. v b = v a) s \<Longrightarrow> kept v pv s (others s)"
  using keeps_interfere [of v] by (simp add: keeps_def wp_simps)

lemma kept_take_count: "rely (\<lambda>a b. v b = v a) s \<Longrightarrow> kept v pv s (take_count p s)"
  by (simp add: kept_def take_count_def rely_def of_procs of_shm)

lemma kept_wait_woken: "rely (\<lambda>a b. v b = v a) s \<Longrightarrow> kept v pv s (snd (wait_woken p k s))"
proof (induction p k s rule: wait_woken.induct)
  case (1 p k s)
  have o: "kept v pv s (others s)" by (rule kept_others [OF 1(3)])
  then have "kept v pv (others s) (take_count p (others s))" by (intro kept_take_count) (simp add: kept_def)
  moreover from this have "kept v pv (take_count p (others s)) (others (take_count p (others s)))"
    by (intro kept_others) (simp add: kept_def)
  ultimately have t: "kept v pv s (others (take_count p (others s)))" using o kept_trans by blast
  let ?s = "others s" and ?t = "others (take_count p (others s))"
  have ro: "rely (\<lambda>a b. v b = v a) ?s" "rely (\<lambda>a b. v b = v a) ?t" using o t by (simp_all add: kept_def)
  have slept: "kept v pv s (snd (wait_woken p k ?s))"
    if "p < length (allProcs (shm ?s))" "sem (allProcs (shm ?s) ! p) = 0" "env ?s \<noteq> []"
    using kept_trans [OF o 1(1) [OF refl _ that(2,3) ro(1)]] that(1) by simp
  have woken: "kept v pv s (snd (wait_woken p (k + 1) ?t))"
    if "p < length (allProcs (shm ?s))" "sem (allProcs (shm ?s) ! p) \<noteq> 0" "p < length (allProcs (shm ?t))" "lwWaiting (allProcs (shm ?t) ! p)"
    using kept_trans [OF t 1(2) [OF refl _ that(2) refl _ _ ro(2)]] that(1,3,4) by simp
  show ?case
    unfolding wait_woken.simps [of p k s] Let_def using slept woken o t by (simp del: others_alone env_others)
qed

lemma keeps_wait_woken: "keeps v pv (wait_woken p k)"
  unfolding keeps_def wp_def using kept_wait_woken by (auto split: prod.splits sum.splits) (metis snd_conv)+

lemmas keeps_locks = keeps_atomics keeps_put_lock keeps_lock_at keeps_proc_at keeps_update_proc keeps_my_proc keeps_wait_woken keeps_interfere

lemma keeps_attempt_loop: "keeps v pv (attempt_loop n i mode w)"
  by (induction n arbitrary: w) (simp_all only: attempt_loop.simps Let_def, (intro keeps_intros keeps_locks | assumption)+)

lemma keeps_AttemptLock: "keeps v pv (LWLockAttemptLock i mode)"
  unfolding LWLockAttemptLock_def by (intro keeps_intros keeps_locks keeps_attempt_loop)

lemma keeps_waitlist: "keeps v pv (LWLockWaitListLock i)" "keeps v pv (LWLockWaitListUnlock i)" "keeps v pv (get_waiters i)" "keeps v pv (set_waiters i ps)"
proof -
  have spin: "keeps v pv (waitlist_spin n i)" for n
    by (induction n) (simp_all only: waitlist_spin.simps, (intro keeps_intros keeps_locks | assumption)+)
  have "keeps v pv (waitlist_loop n i)" for n
    by (induction n) (simp_all only: waitlist_loop.simps, (intro keeps_intros keeps_locks spin | assumption)+)
  then show "keeps v pv (LWLockWaitListLock i)" unfolding LWLockWaitListLock_def by (intro keeps_intros)
qed (unfold LWLockWaitListUnlock_def get_waiters_def set_waiters_def, (intro keeps_intros keeps_locks)+)

lemma keeps_update_loop: "keeps v pv (update_loop n i f w)"
  by (induction n arbitrary: w) (simp_all only: update_loop.simps, (intro keeps_intros keeps_locks | assumption)+)

lemma keeps_queue:
  "keeps v pv (LWLockWakeup i)" "keeps v pv (LWLockQueueSelf i mode)" "keeps v pv (LWLockDequeueSelf i)"
  unfolding LWLockWakeup_def LWLockQueueSelf_def LWLockDequeueSelf_def awaken_def
  by (intro keeps_intros keeps_locks keeps_waitlist keeps_update_loop)+

lemma keeps_holdoff: "keeps v pv HOLD_INTERRUPTS" "keeps v pv RESUME_INTERRUPTS" "keeps v pv (remember_lock i mode)" "keeps v pv ensure_room"
  by (auto simp: keeps_def HOLD_INTERRUPTS_def RESUME_INTERRUPTS_def remember_lock_def ensure_room_def wp_simps kept_def rely_def of_held of_holdoff)

lemma keeps_acquire_loop: "keeps v pv (acquire_loop n i mode r k)"
  by (induction n arbitrary: r k)
    (simp_all only: acquire_loop.simps, (intro keeps_intros keeps_locks keeps_queue keeps_AttemptLock | assumption)+)

lemma keeps_Acquire: "keeps v pv (LWLockAcquire i mode)"
  unfolding LWLockAcquire_def fix_semaphore_def
  by (intro keeps_intros keeps_locks keeps_holdoff keeps_acquire_loop)

lemma keeps_Release: "keeps v pv (LWLockRelease i)"
proof -
  have "keeps v pv (modify (\<lambda>s. s\<lparr>held_lwlocks := hs\<rparr>))" for hs by (auto simp: keeps_def wp_simps kept_def rely_def of_held)
  then show ?thesis
    unfolding LWLockRelease_def by (intro keeps_intros keeps_locks keeps_queue keeps_holdoff)
qed

end

interpretation ssi_view: lock_view xact_vars PredXact
  by unfold_locales (simp_all add: xact_vars_def)

interpretation bitmap_view: lock_view query_vars GlobalBitmap
  by unfold_locales (simp_all add: query_vars_def)

end
