(* ===== verification/PredicateOps.thy ===== *)
theory PredicateOps
  imports PredicateOpen LWLockView
begin

text \<open>
  The checks as programs of a backend, locks included: what \<open>FlagRWConflict\<close> and
  \<open>PreCommit_CheckForSerializationFailure\<close> leave behind, whether they succeed or cancel the transaction.
\<close>

subsection \<open>Operations of a backend\<close>

text \<open>
  A backend that has come from \<open>b\<close> to \<open>b'\<close>, where the shared data are \<open>p\<close>, and that nobody interferes with.
\<close>

definition at_ssi :: "backend \<Rightarrow> ssi \<Rightarrow> backend \<Rightarrow> bool" where
  "at_ssi b p b' \<longleftrightarrow> PredXact (shm b') = p \<and> rely (\<lambda>m m'. PredXact m' = PredXact m) b' \<and> xact_vars b' = xact_vars b"

abbreviation keeps_ssi :: "(backend, 'a) prog \<Rightarrow> bool" where
  "keeps_ssi m \<equiv> keeps PredXact xact_vars m"

lemma at_keeps:
  assumes "at_ssi b p b1" and "keeps_ssi m" and "\<And>x b2. at_ssi b p b2 \<Longrightarrow> wp (f x) Q Er b2" and "\<And>e b2. at_ssi b p b2 \<Longrightarrow> Er e b2"
  shows "wp (bindp m f) Q Er b1"
proof -
  from assms(1,2) have "wp m (\<lambda>_. kept PredXact xact_vars b1) (\<lambda>_. kept PredXact xact_vars b1) b1" by (simp add: keeps_def at_ssi_def)
  then show ?thesis unfolding wp_bindp by (rule wp_mono) (use assms in \<open>auto simp: at_ssi_def kept_def\<close>)
qed

lemma at_keeps_then:
  assumes "at_ssi b p b1" and "keeps_ssi m" and "\<And>b2. at_ssi b p b2 \<Longrightarrow> wp n Q Er b2" and "\<And>e b2. at_ssi b p b2 \<Longrightarrow> Er e b2"
  shows "wp (thenp m n) Q Er b1"
  unfolding thenp_def using assms by (rule at_keeps)

lemma at_keeps_last:
  assumes "at_ssi b p b1" and "keeps_ssi m" and "\<And>x b2. at_ssi b p b2 \<Longrightarrow> Q x b2" and "\<And>e b2. at_ssi b p b2 \<Longrightarrow> Er e b2"
  shows "wp m Q Er b1"
proof -
  from assms(1,2) have "wp m (\<lambda>_. kept PredXact xact_vars b1) (\<lambda>_. kept PredXact xact_vars b1) b1" by (simp add: keeps_def at_ssi_def)
  then show ?thesis by (rule wp_mono) (use assms in \<open>auto simp: at_ssi_def kept_def\<close>)
qed

lemma at_in_ssi_last:
  assumes a: "at_ssi b p b1" and m: "wp m P PE p"
    and Q: "\<And>x p' b2. P x p' \<Longrightarrow> at_ssi b p' b2 \<Longrightarrow> Q x b2" and Er: "\<And>e p' b2. PE e p' \<Longrightarrow> at_ssi b p' b2 \<Longrightarrow> Er e b2"
  shows "wp (in_ssi m) Q Er b1"
proof -
  have o: "PredXact (shm (others b1)) = p" "rely (\<lambda>m m'. PredXact m' = PredXact m) (others b1)" "xact_vars (others b1) = xact_vars b"
    using a rely_others rely_step [of "\<lambda>m m'. PredXact m' = PredXact m" b1] by (auto simp: at_ssi_def xact_vars_def)
  have at: "at_ssi b p' ((others b1)\<lparr>shm := (shm (others b1))\<lparr>PredXact := p'\<rparr>\<rparr>)" for p'
    using o(2,3) by (simp add: at_ssi_def rely_def xact_vars_def)
  show ?thesis
    unfolding in_ssi_def wp_thenp wp_interfere using m Q [OF _ at] Er [OF _ at]
    unfolding wp_def o(1) by (auto split: prod.splits sum.splits)
qed

lemma at_in_ssi:
  assumes "at_ssi b p b1" and "wp m P PE p"
    and "\<And>x p' b2. P x p' \<Longrightarrow> at_ssi b p' b2 \<Longrightarrow> wp (f x) Q Er b2" and "\<And>e p' b2. PE e p' \<Longrightarrow> at_ssi b p' b2 \<Longrightarrow> Er e b2"
  shows "wp (bindp (in_ssi m) f) Q Er b1"
  unfolding wp_bindp using assms by (rule at_in_ssi_last)

lemma at_in_ssi_then:
  assumes "at_ssi b p b1" and "wp m P PE p"
    and "\<And>p' b2. P () p' \<Longrightarrow> at_ssi b p' b2 \<Longrightarrow> wp n Q Er b2" and "\<And>e p' b2. PE e p' \<Longrightarrow> at_ssi b p' b2 \<Longrightarrow> Er e b2"
  shows "wp (thenp (in_ssi m) n) Q Er b1"
  unfolding wp_thenp by (rule at_in_ssi_last [OF assms(1,2)]) (use assms(3,4) in auto)

lemma wp_gets_bind: "wp (f (g s)) Q Er s \<Longrightarrow> wp (bindp (gets g) f) Q Er s"
  by (simp add: wp_simps)

lemma wp_assert_then: "(c \<Longrightarrow> wp m Q Er s) \<Longrightarrow> (\<not> c \<Longrightarrow> Er AssertFail s) \<Longrightarrow> wp (thenp (assertp c) m) Q Er s"
  by (simp add: wp_simps)

lemma wp_ifI: "(c \<Longrightarrow> wp m Q Er s) \<Longrightarrow> (\<not> c \<Longrightarrow> wp n Q Er s) \<Longrightarrow> wp (if c then m else n) Q Er s"
  by simp

lemma wp_retI: "Q x s \<Longrightarrow> wp (ret x) Q Er s"
  by (simp add: wp_simps)

lemma wp_throwI: "Er e s \<Longrightarrow> wp (throw e) Q Er s"
  by (simp add: wp_simps)

lemma keeps_txn_error: "keeps_ssi txn_error_handling"
proof -
  have h: "keeps_ssi (heap_op f)" for f :: "store \<Rightarrow> 'a result" unfolding heap_op_def by (intro keeps_intros)
  have peek: "keeps_ssi (peek f)" for f :: "shmem \<Rightarrow> 'a" unfolding peek_def by (intro keeps_intros ssi_view.keeps_interfere)
  have m: "keeps_ssi (modify (\<lambda>s. s\<lparr>heap := g\<rparr>))"
    "keeps_ssi (modify (\<lambda>s. s\<lparr>tuplemigratecount := k, migrateflag := False\<rparr>))" "keeps_ssi (modify (\<lambda>s. s\<lparr>InProgLocalList0 := NIL, InProgLocalList1 := NIL\<rparr>))"
    "keeps_ssi (modify (\<lambda>s. s\<lparr>shm := (shm s)\<lparr>GlobalBitmap := mem\<rparr>\<rparr>))" for g k mem
    by (auto simp: keeps_def wp_simps kept_def xact_vars_def rely_def)
  have r: "keeps_ssi (reset_lock_bit e)" for e
    unfolding reset_lock_bit_def read_word_def write_word_def partial_bitmap_def by (intro keeps_intros peek m)
  have f: "keeps_ssi (foreach_int n reset_lock_bit c)" for n c
    by (induction n arbitrary: c) (simp_all only: foreach_int.simps, (intro keeps_intros h r | assumption)+)
  show ?thesis
    unfolding txn_error_handling_def each_in_list_def free_lists_def free_list_def by (intro keeps_intros h f m)
qed

lemma wp_OnConflict:
  assumes b: "at_ssi b s b1" and q: "queues_ok s E U A" and rw: "r < length (element s)" "w < length (element s)"
    and c: "SxactIsCommitted (sx s w) \<Longrightarrow> SxactIsPrepared (sx s w)"
  shows "wp (OnConflict_CheckForSerializationFailure r w)
     (\<lambda>_ b'. \<exists>u. at_ssi b u b' \<and> dooms s u \<and> (u = s \<and> \<not> dangerous s (edge_of s ` E) r w \<or> \<not> SxactIsPrepared (sx s w) \<and> SxactIsDoomed (sx u w)))
     (\<lambda>e b'. at_ssi b s b') b1"
proof -
  have check: "wp (conflict_failure r w) (\<lambda>f p. p = s \<and> f = dangerous s (edge_of s ` E) r w) (\<lambda>_ _. False) s"
    by (simp add: wp_conflict_failure [OF q rw])
  have get: "wp (get_sxact w) (\<lambda>x p. p = s \<and> x = sx s w) (\<lambda>_ _. False) s" using rw by (simp add: wp_simps)
  have flag: "wp (set_flag w SXACT_FLAG_DOOMED) (\<lambda>_ u. dooms s u \<and> SxactIsDoomed (sx u w)) (\<lambda>_ _. False) s" if "\<not> SxactIsPrepared (sx s w)"
  proof -
    have "dooms s (s\<lparr>element := (element s)[w := doom (sx s w)]\<rparr>)" using that c doom_one [OF rw(2)] by blast
    then show ?thesis using rw by (simp add: wp_simps doom_def [symmetric])
  qed
  note rel = ssi_view.keeps_Release [of SerializableXactHashLock]
  show ?thesis
    unfolding OnConflict_CheckForSerializationFailure_def LWLockHeldByMe_def whenp_def
    apply (rule wp_gets_bind, rule wp_assert_then)
     apply (rule at_in_ssi [OF b check])
      apply (elim conjE, hypsubst)
      apply (intro wp_ifI wp_gets_bind)
    subgoal by (intro at_keeps_then [OF _ keeps_txn_error] at_keeps_then [OF _ rel] wp_throwI)
    subgoal
      apply (rule at_in_ssi [OF _ get], assumption)
       apply (elim conjE, hypsubst)
       apply (intro wp_ifI)
      subgoal by (intro at_keeps_then [OF _ rel] wp_assert_then wp_throwI)
      subgoal by (rule at_in_ssi_last [OF _ flag]) auto
      apply simp
      done
    subgoal by (auto intro!: wp_retI)
    apply simp
    using b apply simp
    done
qed

definition at_inv :: "backend \<Rightarrow> (nat \<times> nat) set \<Rightarrow> backend \<Rightarrow> bool" where
  "at_inv b H b' \<longleftrightarrow> (\<exists>s. at_ssi b s b' \<and> ssi_inv s H)"

lemma at_invI: "at_ssi b s b' \<Longrightarrow> ssi_inv s H \<Longrightarrow> at_inv b H b'"
  by (auto simp: at_inv_def)

lemma ssi_invE:
  assumes "ssi_inv s H"
  obtains E U A where "slots_ok s" "numbers_ok s" "conflicts_ok s E U H" "history_ok s (edge_of s ` E) H" "queues_ok s E U A"
  using assms unfolding ssi_inv_def conflicts_ok_def by blast

lemma wp_FlagRWConflict:
  assumes b: "at_ssi b s b1" and inv: "ssi_inv s H" and rw: "in_use s r" "in_use s w" "\<not> SxactIsReadOnly (sx s w)"
    and live: "SxactIsPrepared (sx s w) \<Longrightarrow> \<not> SxactIsCommitted (sx s r)" "\<not> SxactIsCommitted (sx s r) \<or> \<not> SxactIsCommitted (sx s w)"
  shows "wp (FlagRWConflict r w) (\<lambda>_. at_inv b (insert (r, w) H)) (\<lambda>_. at_inv b H) b1"
proof -
  from inv obtain E U A where i: "slots_ok s" "numbers_ok s" "conflicts_ok s E U H" "history_ok s (edge_of s ` E) H" and q: "queues_ok s E U A"
    by (rule ssi_invE)
  have lt: "r < length (element s)" "w < length (element s)" using in_use_lt [OF i(1)] rw by simp_all
  have old: "wp (gets OldCommittedSxact) (\<lambda>x p. p = u \<and> x = OldCommittedSxact u) (\<lambda>_ _. False) u" for u by (simp add: wp_simps)
  have "wp (bindp (in_ssi (gets OldCommittedSxact)) (\<lambda>old.
     if r = old then in_ssi (set_flag w SXACT_FLAG_SUMMARY_CONFLICT_IN)
     else if w = old then in_ssi (set_flag r SXACT_FLAG_SUMMARY_CONFLICT_OUT)
     else in_ssi (SetRWConflict r w))) (\<lambda>_. at_inv b (insert (r, w) H)) (\<lambda>_. at_inv b H) b2"
    if ne: "r \<noteq> w" and u: "at_ssi b u b2" "dooms s u" "u = s \<and> \<not> dangerous s (edge_of s ` E) r w \<or> \<not> SxactIsPrepared (sx s w) \<and> SxactIsDoomed (sx u w)" for u b2
  proof -
    have uo: "OldCommittedSxact u \<noteq> r" "OldCommittedSxact u \<noteq> w" using rw dooms_fields(5) [OF u(2)] by (auto simp: in_use_def)
    have qu: "queues_ok u E U A" by (rule dooms_queues [OF u(2) q])
    have ltu: "r < length (element u)" "w < length (element u)" using lt dooms_fields(7) [OF u(2)] by simp_all
    have set: "wp (SetRWConflict r w) (\<lambda>_ t. ssi_inv t (insert (r, w) H)) (\<lambda>_ t. ssi_inv t H) u"
      by (rule wp_SetRWConflict [OF qu ltu ne])
        (use flag_inv [OF i rw(1,2) ne rw(3) live u(2,3) qu] dooms_inv [OF u(2) inv] in auto)
    have "wp (if r = OldCommittedSxact u then in_ssi (set_flag w SXACT_FLAG_SUMMARY_CONFLICT_IN)
       else if w = OldCommittedSxact u then in_ssi (set_flag r SXACT_FLAG_SUMMARY_CONFLICT_OUT)
       else in_ssi (SetRWConflict r w)) (\<lambda>_. at_inv b (insert (r, w) H)) (\<lambda>_. at_inv b H) b3" if "at_ssi b u b3" for b3
      using uo at_in_ssi_last [OF that set at_invI at_invI] by auto
    then show ?thesis by (intro at_in_ssi [OF u(1) old]) auto
  qed
  note rest = this
  have c: "SxactIsCommitted (sx s w) \<Longrightarrow> SxactIsPrepared (sx s w)" using numbersD(5) [OF i(2) rw(2)] .
  show ?thesis
    unfolding FlagRWConflict_def
    by (rule wp_assert_then, unfold wp_thenp, rule wp_mono [OF wp_OnConflict [OF b q lt c]])
      (use rest at_invI [OF b inv] at_invI [OF _ inv] in \<open>auto simp: wp_thenp\<close>)
qed

lemma wp_mark_prepared: "me < length (element s) \<Longrightarrow> wp (mark_prepared me) (\<lambda>_ t. t = prepared_as me s) (\<lambda>_ _. False) s"
  by (simp add: mark_prepared_def wp_simps prepared_as_def)

lemma near_conflicts_inv:
  assumes inv: "ssi_inv s H" and me: "in_use s me" "\<not> SxactIsCommitted (sx s me)" "\<not> SxactIsDoomed (sx s me)"
    and wrap: "LastSxactCommitSeqNo s < LastSxactCommitSeqNo s + 1"
  shows "wp (near_conflicts me (inConflicts (sx s me)))
     (\<lambda>give_up u. ssi_inv u H \<and> me < length (element u) \<and> (\<not> give_up \<longrightarrow> ssi_inv (prepared_as me u) H)) (\<lambda>_ _. False) s"
proof -
  from inv obtain E U A where i: "slots_ok s" "numbers_ok s" "conflicts_ok s E U H" "history_ok s (edge_of s ` E) H" and q: "queues_ok s E U A"
    by (rule ssi_invE)
  have lt: "me < length (element s)" by (rule in_use_lt [OF i(1) me(1)])
  have ls: "set (inConflicts (sx s me)) = InLink ` {c \<in> E. sxactIn (pool s ! c) = me}" using q lt by (auto simp: queues_ok_def)
  have ne: "(me, me) \<notin> edge_of s ` E" using conflictsD(3) [OF i(3)] by (fastforce simp: edge_of_def)
  have "ssi_inv (prepared_as me u) H" if d: "dooms s u"
    and np: "\<forall>c. InLink c \<in> set (inConflicts (sx s me)) \<longrightarrow> no_pivot u (edge_of s ` E) me (sxactOut (pool s ! c))"
    and dm: "\<forall>x < length (element s). SxactIsDoomed (sx u x) \<longrightarrow> SxactIsDoomed (sx s x) \<or> (x, me) \<in> edge_of s ` E" for u
  proof (rule prepared_as_inv [OF dooms_slots [OF d i(1)] dooms_numbers [OF d i(1,2)] dooms_conflicts [OF d i(1,3)]])
    show "history_ok u (edge_of u ` E) H" using dooms_history [OF d i(1,3,4)] dooms_edge_of [OF d] by simp
    show "in_use u me" "\<not> SxactIsCommitted (sx u me)" "LastSxactCommitSeqNo u < LastSxactCommitSeqNo u + 1"
      using me wrap dooms_nth(1) [OF d lt] by (simp_all add: dooms_in_use [OF d] dooms_fields [OF d])
    show "\<not> SxactIsDoomed (sx u me)" using dm lt me(3) ne by blast
    show "no_pivot u (edge_of u ` E) me x" if "(x, me) \<in> edge_of u ` E" for x
      using that np ls unfolding dooms_edge_of [OF d] by (auto simp: edge_of_def)
  qed
  then show ?thesis
    by (intro wp_mono [OF wp_near_conflicts [OF q]]) (use ls lt dooms_inv [OF _ inv] dooms_fields(7) in auto)
qed

lemma wp_PreCommit:
  assumes b: "at_ssi b s b1" and inv: "ssi_inv s H" and mine: "MySerializableXact b = Some me" and me: "in_use s me" "\<not> SxactIsCommitted (sx s me)"
    and wrap: "LastSxactCommitSeqNo s < LastSxactCommitSeqNo s + 1"
  shows "wp PreCommit_CheckForSerializationFailure (\<lambda>_. at_inv b H) (\<lambda>_. at_inv b H) b1"
proof -
  have lt: "me < length (element s)" using inv me(1) in_use_lt by (auto simp: ssi_inv_def)
  have m1: "MySerializableXact b1 = Some me" using b mine by (simp add: at_ssi_def xact_vars_def)
  have get: "wp (get_sxact me) (\<lambda>x p. p = s \<and> x = sx s me) (\<lambda>_ _. False) s" using lt by (simp add: wp_simps)
  note rel = ssi_view.keeps_Release [of SerializableXactHashLock] and acq = ssi_view.keeps_Acquire [of SerializableXactHashLock LW_EXCLUSIVE]
  have check: "wp (bindp (in_ssi (near_conflicts me (inConflicts (sx s me)))) (\<lambda>give_up.
      if give_up then thenp (LWLockRelease SerializableXactHashLock)
        (throw (serialization_failure ''Canceled on commit attempt with conflict in from prepared pivot.''))
      else thenp (in_ssi (mark_prepared me)) (LWLockRelease SerializableXactHashLock))) (\<lambda>_. at_inv b H) (\<lambda>_. at_inv b H) b2"
    if "at_ssi b s b2" "\<not> SxactIsDoomed (sx s me)" for b2
  proof (rule at_in_ssi [OF that(1) near_conflicts_inv [OF inv me that(2) wrap]])
    fix give_up u b3
    assume u: "ssi_inv u H \<and> me < length (element u) \<and> (\<not> give_up \<longrightarrow> ssi_inv (prepared_as me u) H)" and b3: "at_ssi b u b3"
    then show "wp (if give_up then thenp (LWLockRelease SerializableXactHashLock)
        (throw (serialization_failure ''Canceled on commit attempt with conflict in from prepared pivot.''))
      else thenp (in_ssi (mark_prepared me)) (LWLockRelease SerializableXactHashLock)) (\<lambda>_. at_inv b H) (\<lambda>_. at_inv b H) b3"
      by (intro wp_ifI at_keeps_then [OF b3 rel] wp_throwI at_in_ssi_then [OF b3 wp_mark_prepared] at_keeps_last [OF _ rel])
        (auto intro: at_invI)
  qed simp
  show ?thesis
    unfolding PreCommit_CheckForSerializationFailure_def
    apply (rule wp_gets_bind)
    apply (simp only: m1 option.case)
    apply (rule wp_gets_bind, rule wp_assert_then, rule at_keeps_then [OF b acq])
       apply (rule at_in_ssi [OF _ get], assumption)
        apply (elim conjE, hypsubst)
        apply (intro wp_ifI check at_keeps_then [OF _ rel] wp_throwI)
    apply (auto intro: at_invI [OF _ inv] at_invI [OF b inv])
    done
qed

end
