(* ===== verification/PredicateFinish.thy ===== *)
theory PredicateFinish
  imports PredicateOps
begin

text \<open>
  \<open>ReleasePredicateLocks\<close> as a program of a backend. As long as another transaction is as old as the one that ends,
  nothing is cleared away.
\<close>

subsection \<open>Nothing old to clear\<close>

definition oldest :: "ssi \<Rightarrow> TransactionId \<times> int \<times> TransactionId list" where
  "oldest s = (SxactGlobalXmin s, SxactGlobalXminCount s, map xmin (element s))"

definition frames :: "(ssi, 'a) prog \<Rightarrow> bool" where
  "frames m \<longleftrightarrow> (\<forall>s. wpl m (\<lambda>_ t. oldest t = oldest s) s)"

lemma frames_bindp: "frames m \<Longrightarrow> (\<And>x. frames (f x)) \<Longrightarrow> frames (bindp m f)"
  unfolding frames_def wp_bindp
proof
  fix s assume m: "\<forall>s. wpl m (\<lambda>_ t. oldest t = oldest s) s" and f: "\<And>x. \<forall>s. wpl (f x) (\<lambda>_ t. oldest t = oldest s) s"
  from m have "wpl m (\<lambda>_ t. oldest t = oldest s) s" by blast
  then show "wpl m (\<lambda>x. wpl (f x) (\<lambda>_ t. oldest t = oldest s)) s"
  proof (rule wp_mono)
    fix x t assume t: "oldest t = oldest s"
    from f show "wpl (f x) (\<lambda>_ u. oldest u = oldest s) t" unfolding t [symmetric] by blast
  qed
qed

lemma frames_thenp: "frames m \<Longrightarrow> frames n \<Longrightarrow> frames (thenp m n)"
  by (simp add: thenp_def frames_bindp)

lemma frames_basic: "frames (ret x)" "frames (throw e)" "frames (gets g)" "frames (assertp c)" "frames (liftp r)"
  by (auto simp: frames_def wp_simps split: sum.splits)

lemma frames_if: "frames m \<Longrightarrow> frames n \<Longrightarrow> frames (if c then m else n)"
  by simp

lemma frames_whenp: "frames m \<Longrightarrow> frames (whenp c m)"
  by (simp add: whenp_def frames_basic)

lemma frames_let: "(\<And>y. frames (f y)) \<Longrightarrow> frames (let y = x in f y)"
  by simp

lemma frames_eachp: "(\<And>x. frames (f x)) \<Longrightarrow> frames (eachp f xs)"
  by (induction xs) (simp_all add: frames_basic frames_thenp)

lemma frames_get: "frames (get_sxact x)" "frames (get_conflict c)"
  by (auto simp: frames_def wp_simps)

lemma frames_modify: "(\<And>s. oldest (f s) = oldest s) \<Longrightarrow> frames (modify f)"
  by (simp add: frames_def wp_simps)

lemma map_xmin_update: "x < length l \<Longrightarrow> xmin y = xmin (l ! x) \<Longrightarrow> map xmin (l[x := y]) = map xmin l"
  by (metis list_update_id map_update)

lemma frames_upd: "(\<And>y. xmin (f y) = xmin y) \<Longrightarrow> frames (upd_sxact x f)"
  by (auto simp: frames_def wp_simps oldest_def map_xmin_update)

lemma frames_flag: "frames (set_flag x m)"
  unfolding set_flag_def by (rule frames_upd) simp

lemma frames_delete: "frames (SHMQueueDelete_link l)"
  unfolding SHMQueueDelete_link_def by (auto simp: frames_def wp_simps oldest_def unlink_from_def comp_def)

lemmas frames_intros = frames_bindp frames_thenp frames_basic frames_if frames_whenp frames_let frames_eachp frames_get
  frames_flag frames_delete

lemma frames_release: "frames (ReleaseRWConflict c)"
  unfolding ReleaseRWConflict_def by (intro frames_intros frames_modify) (simp add: oldest_def)

lemma frames_ends:
  "frames count_writable" "frames (summary_out ic me)" "frames (finish_out ic me l)" "frames (finish_in ic l)" "frames (finish_unsafe ic dw me l)"
  "frames (release_unsafe_in me l)" "frames (mark_committed dw me)" "frames (mark_rolled_back me)"
  unfolding count_writable_def summary_out_def finish_out_def finish_in_def finish_unsafe_def release_unsafe_in_def mark_committed_def
    mark_rolled_back_def FlagSxactUnsafe_def ProcSendSignal_def
  by (intro frames_intros frames_release frames_upd frames_modify; simp add: oldest_def)+

lemma wpl_frames:
  assumes "frames m" and "oldest s = k" and "\<And>x t. oldest t = k \<Longrightarrow> wpl (f x) Q t"
  shows "wpl (bindp m f) Q s"
proof -
  have "wpl m (\<lambda>_ t. oldest t = k) s" using assms(1,2) unfolding frames_def by blast
  then show ?thesis by (rule wpl_bindp) (rule assms(3))
qed

lemma wpl_frames_then:
  assumes "frames m" and "oldest s = k" and "\<And>t. oldest t = k \<Longrightarrow> wpl n Q t"
  shows "wpl (thenp m n) Q s"
  unfolding thenp_def using assms by (rule wpl_frames)

lemma wpl_leave_oldest:
  assumes "oldest t = oldest s" and "me < length (element s)"
  shows "wpl (leave_xmin me) (\<lambda>need _. need \<longrightarrow> xmin (sx s me) = SxactGlobalXmin s \<and> SxactGlobalXminCount s = 1) t"
proof -
  have "map xmin (element t) = map xmin (element s)" "SxactGlobalXmin t = SxactGlobalXmin s" "SxactGlobalXminCount t = SxactGlobalXminCount s"
    using assms(1) by (simp_all add: oldest_def)
  moreover from this have "xmin (sx t me) = xmin (sx s me)" "length (element t) = length (element s)"
    using assms(2) by (metis length_map nth_map, metis length_map)
  ultimately show ?thesis using assms(2) by (auto simp: leave_xmin_def wp_simps)
qed

lemma wpl_end_need:
  assumes "me < length (element s)"
  shows "wpl (end_xact ser isCommit dw me) (\<lambda>need _. need \<longrightarrow> xmin (sx s me) = SxactGlobalXmin s \<and> SxactGlobalXminCount s = 1) s"
  unfolding end_xact_def Let_def
  by (intro wpl_get_sxact wpl_assertp wpl_gets)
    (rule wpl_frames_then [where k = "oldest s"] wpl_leave_oldest frames_intros frames_ends frames_upd assms refl | assumption | simp)+


subsection \<open>The end\<close>

lemma marked_queues:
  assumes m: "marked isCommit dw me s s1" and q: "queues_ok s E U A"
  shows "queues_ok s1 E U A"
proof -
  have "outConflicts (sx s1 x) = outConflicts (sx s x)" "inConflicts (sx s1 x) = inConflicts (sx s x)"
    "possibleUnsafeConflicts (sx s1 x) = possibleUnsafeConflicts (sx s x)" for x
    using m marked_fields(8) [OF m, of x] unfolding marked_def Let_def by (cases "x = me"; simp)+
  then show ?thesis using q unfolding queues_ok_def marked_fields(1,2,6) [OF m] by simp
qed

lemma marked_endable:
  assumes inv: "slots_ok s" "numbers_ok s" "conflicts_ok s E U H" and me: "in_use s me" "\<not> SxactIsCommitted (sx s me)" "isCommit \<Longrightarrow> SxactIsPrepared (sx s me)"
    and wrap: "LastSxactCommitSeqNo s < LastSxactCommitSeqNo s + 1" and m: "marked isCommit dw me s s1"
  shows "endable isCommit me s1 E"
proof -
  have lt: "me < length (element s)" by (rule in_use_lt [OF inv(1) me(1)])
  note mf = marked_fields [OF m]
  have mm: "SeqNo (sx s1 me) = SeqNo (sx s me)" "SxactHasSummaryConflictOut (sx s1 me) = SxactHasSummaryConflictOut (sx s me)"
    "SxactIsCommitted (sx s1 me) = isCommit" "prepareSeqNo (sx s1 me) = prepareSeqNo (sx s me)"
    using m me(2) unfolding marked_def Let_def by simp_all
  have up: "LastSxactCommitSeqNo s \<le> LastSxactCommitSeqNo s1" "isCommit \<Longrightarrow> LastSxactCommitSeqNo s < LastSxactCommitSeqNo s1"
    using mf(7) wrap by (cases isCommit; simp)+
  have sq: "SeqNo (sx s x) \<le> LastSxactCommitSeqNo s" "SxactIsCommitted (sx s x) \<Longrightarrow> prepareSeqNo (sx s x) \<le> LastSxactCommitSeqNo s" if "x < length (element s)" for x
    using inv(2) that unfolding numbers_ok_def by simp_all
  have "prepareSeqNo (sx s1 x) \<le> LastSxactCommitSeqNo s1" if "x < length (element s)" "SxactIsCommitted (sx s1 x)" for x
  proof (cases "x = me")
    case True
    then show ?thesis using that(2) mm(3,4) order_trans [OF numbersD(3) [OF inv(2) me(1)] up(1)] me(3) by simp
  next
    case False
    then show ?thesis using that mf(8) [OF False] order_trans [OF sq(2) [of x] up(1)] by simp
  qed
  moreover have "SeqNo (sx s1 x) < LastSxactCommitSeqNo s1" if "isCommit" "x < length (element s)" "x \<noteq> me" for x
    using le_less_trans [OF sq(1) [OF that(2)] up(2) [OF that(1)]] mf(8) [OF that(3)] by simp
  moreover have "sxactOut (pool s ! c) \<noteq> sxactIn (pool s ! c)" if "c \<in> E" for c using conflictsD(3) [OF inv(3)] that by blast
  ultimately show ?thesis
    using lt mm(1,2) order_trans [OF sq(1) [OF lt] up(1)] numbersD(2) [OF inv(2) me(1)] unfolding endable_def mf(1,2) by simp
qed

lemma wpl_end_xact:
  assumes inv: "slots_ok s" "numbers_ok s" "conflicts_ok s E U H" "queues_ok s E U A" and me: "in_use s me"
    and wrap: "LastSxactCommitSeqNo s < LastSxactCommitSeqNo s + 1"
  shows "wpl (end_xact ser isCommit dw me) (\<lambda>_ t. (\<exists>s1. marked isCommit dw me s s1 \<and> xact_ended isCommit me s1 E U t) \<and>
     \<not> SxactIsCommitted (sx s me) \<and> (isCommit \<longrightarrow> SxactIsPrepared (sx s me))) s"
proof -
  have lt: "me < length (element s)" by (rule in_use_lt [OF inv(1) me])
  have rest: "wpl m (\<lambda>_. xact_ended isCommit me s1 E U) s1 \<Longrightarrow> marked isCommit dw me s s1 \<Longrightarrow>
      \<not> SxactIsCommitted (sx s me) \<Longrightarrow> \<not> isCommit \<or> SxactIsPrepared (sx s me) \<Longrightarrow>
      wpl m (\<lambda>_ t. (\<exists>s1. marked isCommit dw me s s1 \<and> xact_ended isCommit me s1 E U t) \<and> \<not> SxactIsCommitted (sx s me) \<and>
        (isCommit \<longrightarrow> SxactIsPrepared (sx s me))) s1" for m :: "(ssi, bool) prog" and s1
    by (erule wp_mono) auto
  show ?thesis
    unfolding end_xact_def Let_def
    by (intro wpl_get_sxact wpl_assertp wpl_gets wpl_marked [OF lt] rest
        wpl_end_rest [OF marked_queues [OF _ inv(4)] marked_endable [OF inv(1-3) me _ _ wrap]]) auto
qed

lemma wpl_release_conflicts:
  assumes e: "xact_ended False me s1 E U t" and sl: "slots_ok t" and me: "in_use t me" and lt: "length (element t) = length (element s1)" "pool t = pool s1"
  shows "wpl (release_conflicts me False False) (\<lambda>_. slot_freed me t) t"
proof -
  from e obtain E' U' A where q: "queues_ok t E' U' A" and no: "\<forall>c \<in> E'. sxactOut (pool s1 ! c) \<noteq> me \<and> sxactIn (pool s1 ! c) \<noteq> me"
    unfolding xact_ended_def by blast
  have l: "me < length (element t)" by (rule in_use_lt [OF sl me])
  then have "set (outConflicts (sx t me)) = {}" "set (inConflicts (sx t me)) = {}"
    using q no lt(2) unfolding queues_ok_def by auto
  then have emp: "outConflicts (sx t me) = []" "inConflicts (sx t me) = []" by simp_all
  have "me \<in> set (activeList t)" "me \<notin> set (availableList t)" "distinct (availableList t)" using sl me by (auto simp: slots_ok_def in_use_def)
  then show ?thesis using l by (auto simp: release_conflicts_def ReleasePredXact_def emp wp_simps slot_freed_def)
qed

lemma wpl_at_in_ssi:
  assumes "at_ssi b p b1" and "wpl m P p" and "\<And>x p' b2. P x p' \<Longrightarrow> at_ssi b p' b2 \<Longrightarrow> wpl (f x) Q b2"
  shows "wpl (bindp (in_ssi m) f) Q b1"
  by (rule at_in_ssi [OF assms]) simp_all

lemma wpl_at_in_ssi_then:
  assumes "at_ssi b p b1" and "wpl m P p" and "\<And>p' b2. P () p' \<Longrightarrow> at_ssi b p' b2 \<Longrightarrow> wpl n Q b2"
  shows "wpl (thenp (in_ssi m) n) Q b1"
  by (rule at_in_ssi_then [OF assms]) simp_all

lemma wpl_at_keeps_then:
  assumes "at_ssi b p b1" and "keeps_ssi m" and "\<And>b2. at_ssi b p b2 \<Longrightarrow> wpl n Q b2"
  shows "wpl (thenp m n) Q b1"
  by (rule at_keeps_then [OF assms]) simp_all

lemma wpl_at_keeps:
  assumes "at_ssi b p b1" and "keeps_ssi m" and "\<And>x b2. at_ssi b p b2 \<Longrightarrow> Q x b2"
  shows "wpl m Q b1"
  by (rule at_keeps_last [OF assms]) simp_all

lemma wpl_ReleaseOne:
  assumes a: "at_ssi b t b1" and e: "xact_ended False me s1 E U t" and sl: "slots_ok t" and me: "in_use t me"
    and lt: "length (element t) = length (element s1)" "pool t = pool s1" and drop: "\<And>x f. keeps_ssi (drop_locks x f)"
  shows "wpl (ReleaseOneSerializableXact drop_locks me False False) (\<lambda>_ b'. \<exists>v. slot_freed me t v \<and> at_ssi b v b') b1"
proof -
  have get: "wpl (get_sxact me) (\<lambda>_ p. p = t) t" "wpl (gets g) (\<lambda>_ p. p = t) t" for g :: "ssi \<Rightarrow> nat list" by (auto simp: wp_simps)
  note rel = ssi_view.keeps_Release and acq = ssi_view.keeps_Acquire
  show ?thesis
    unfolding ReleaseOneSerializableXact_def LWLockHeldByMe_def
    apply (rule wpl_at_in_ssi [OF a get(1)], hypsubst, rule wpl_assertp)
    apply (rule wpl_at_in_ssi [OF _ get(2)], assumption, hypsubst, rule wpl_assertp, rule wpl_gets, rule wpl_assertp)
    apply (rule wpl_at_keeps_then [OF _ drop], assumption, rule wpl_at_keeps_then [OF _ acq], assumption)
    apply (rule wpl_at_in_ssi_then [OF _ wpl_release_conflicts [OF e sl me lt]], assumption)
    apply (rule wpl_at_keeps [OF _ rel], assumption)
    apply blast
    done
qed

definition others_older :: "ssi \<Rightarrow> nat \<Rightarrow> bool" where
  "others_older s me \<longleftrightarrow> (xmin (sx s me) = SxactGlobalXmin s \<longrightarrow> SxactGlobalXminCount s \<noteq> 1)"

definition left :: "bool \<Rightarrow> nat \<Rightarrow> (nat \<times> nat) set \<Rightarrow> (nat \<times> nat) set" where
  "left isCommit me H = (if isCommit then H else {(a, b) \<in> H. a \<noteq> me \<and> b \<noteq> me})"

lemma ssi_inv_finished [simp]: "ssi_inv (s\<lparr>FinishedSerializableTransactions := xs\<rparr>) H = ssi_inv s H"
proof -
  have "edge_of (s\<lparr>FinishedSerializableTransactions := xs\<rparr>) = edge_of s" "in_use (s\<lparr>FinishedSerializableTransactions := xs\<rparr>) = in_use s"
    by (simp_all add: edge_of_def in_use_def fun_eq_iff)
  then show ?thesis
    by (simp add: ssi_inv_def slots_ok_def numbers_ok_def conflicts_ok_def history_ok_def risky_def queues_ok_def)
qed

lemma wpl_end_all:
  assumes i: "slots_ok s" "numbers_ok s" "conflicts_ok s E U H" "queues_ok s E U A" and me: "in_use s me" "others_older s me"
    and wrap: "LastSxactCommitSeqNo s < LastSxactCommitSeqNo s + 1"
  shows "wpl (end_xact ser isCommit dw me) (\<lambda>need t. \<not> need \<and> (\<exists>s1. marked isCommit dw me s s1 \<and> xact_ended isCommit me s1 E U t) \<and>
     \<not> SxactIsCommitted (sx s me) \<and> (isCommit \<longrightarrow> SxactIsPrepared (sx s me))) s"
proof -
  have lt: "me < length (element s)" by (rule in_use_lt [OF i(1) me(1)])
  from wp_conj [OF wpl_end_need [OF lt] wpl_end_xact [OF i me(1) wrap]]
  show ?thesis by (rule wp_mono) (use me(2) in \<open>auto simp: others_older_def\<close>)
qed

lemma wpl_second_section:
  assumes i: "slots_ok s" "numbers_ok s" "conflicts_ok s E U H" "history_ok s (edge_of s ` E) H" and me: "in_use s me"
    and wrap: "LastSxactCommitSeqNo s < LastSxactCommitSeqNo s + 1" and wrote: "isCommit \<Longrightarrow> dw \<or> (\<forall>a. (a, me) \<notin> H)"
    and drop: "\<And>x f. keeps_ssi (drop_locks x f)" and a: "at_ssi b t b1"
    and m: "marked isCommit dw me s s1" and e: "xact_ended isCommit me s1 E U t"
    and ok: "\<not> SxactIsCommitted (sx s me)" "isCommit \<Longrightarrow> SxactIsPrepared (sx s me)"
  shows "wpl (if isCommit
              then in_ssi (modify (\<lambda>s. s\<lparr>FinishedSerializableTransactions := FinishedSerializableTransactions s @ [me]\<rparr>))
              else ReleaseOneSerializableXact drop_locks me False False) (\<lambda>_. at_inv b (left isCommit me H)) b1"
proof (cases isCommit)
  case True
  have "ssi_inv t H" using commit_inv [OF i me ok(2) ok(1) wrote wrap] m e True by simp
  then have fin: "wpl (modify (\<lambda>s. s\<lparr>FinishedSerializableTransactions := FinishedSerializableTransactions s @ [me]\<rparr>)) (\<lambda>_ t. ssi_inv t H) t"
    by (simp add: wp_simps)
  have "wpl (in_ssi (modify (\<lambda>s. s\<lparr>FinishedSerializableTransactions := FinishedSerializableTransactions s @ [me]\<rparr>))) (\<lambda>_. at_inv b H) b1"
    by (rule at_in_ssi_last [OF a fin]) (auto intro: at_invI)
  then show ?thesis using True by (simp add: left_def)
next
  case False
  have lt: "me < length (element s)" by (rule in_use_lt [OF i(1) me])
  note eo = ended_other [OF m e lt] and mf = marked_fields [OF m]
  have "in_use t me" using me by (simp add: in_use_def eo)
  moreover have "slots_ok t" by (rule ended_slots [OF i(1) me m e])
  moreover have "xact_ended False me s1 E U t" "marked False dw me s s1" using e m False by simp_all
  ultimately have "wpl (ReleaseOneSerializableXact drop_locks me False False) (\<lambda>_ b'. \<exists>v. slot_freed me t v \<and> at_ssi b v b') b1"
    by (intro wpl_ReleaseOne [OF a _ _ _ _ _ drop, of me s1 E U]) (simp_all add: eo mf)
  then have "wpl (ReleaseOneSerializableXact drop_locks me False False) (\<lambda>_. at_inv b (left isCommit me H)) b1"
    by (rule wp_mono)
      (use rollback_inv [OF i me ok(1) wrap] m e False in \<open>auto simp: left_def intro: at_invI\<close>)
  then show ?thesis using False by simp
qed

lemma wpl_ReleasePredicateLocks:
  assumes b: "at_ssi b s b1" and inv: "ssi_inv s H" and mine: "MySerializableXact b = Some me" and me: "in_use s me" "others_older s me"
    and wrap: "LastSxactCommitSeqNo s < LastSxactCommitSeqNo s + 1"
    and wrote: "isCommit \<Longrightarrow> MyXactDidWrite b \<or> (\<forall>a. (a, me) \<notin> H)" and drop: "\<And>x f. keeps_ssi (drop_locks x f)"
  shows "wpl (ReleasePredicateLocks drop_locks drop_old isCommit) (\<lambda>_ b'. ssi_inv (PredXact (shm b')) (left isCommit me H)) b1"
proof -
  from inv obtain E U A where i: "slots_ok s" "numbers_ok s" "conflicts_ok s E U H" "history_ok s (edge_of s ` E) H" and q: "queues_ok s E U A"
    by (rule ssi_invE)
  have m1: "MySerializableXact b1 = Some me" using b mine by (simp add: at_ssi_def xact_vars_def)
  have d2: "MyXactDidWrite b2 = MyXactDidWrite b" if "at_ssi b p b2" for p b2 using that by (simp add: at_ssi_def xact_vars_def)
  note rel = ssi_view.keeps_Release and acq = ssi_view.keeps_Acquire
  have end_: "wpl (modify (\<lambda>s. s\<lparr>MySerializableXact := None, MyXactDidWrite := False, LocalPredicateLockHash := None\<rparr>)) (\<lambda>_ b'. ssi_inv (PredXact (shm b')) K) b2"
    if "at_inv b K b2" for K b2 using that by (auto simp: wp_simps at_inv_def at_ssi_def)
  have fin: "wpl (thenp (LWLockRelease SerializableFinishedListLock) (thenp (whenp False (ClearOldPredicateLocks drop_locks drop_old))
      (modify (\<lambda>s. s\<lparr>MySerializableXact := None, MyXactDidWrite := False, LocalPredicateLockHash := None\<rparr>)))) (\<lambda>_ b'. ssi_inv (PredXact (shm b')) K) b2" if "at_inv b K b2" for K b2
  proof -
    from that obtain p where p: "at_ssi b p b2" "ssi_inv p K" by (auto simp: at_inv_def)
    show ?thesis
      by (rule wpl_at_keeps_then [OF p(1) rel]) (use end_ at_invI [OF _ p(2)] in \<open>auto simp: whenp_def wp_simps\<close>)
  qed
  have rest: "wpl (thenp (whenp need SetNewSxactGlobalXmin)
      (thenp (LWLockRelease SerializableXactHashLock)
      (thenp (LWLockAcquire SerializableFinishedListLock LW_EXCLUSIVE)
      (thenp (if isCommit
              then in_ssi (modify (\<lambda>s. s\<lparr>FinishedSerializableTransactions := FinishedSerializableTransactions s @ [me]\<rparr>))
              else ReleaseOneSerializableXact drop_locks me False False)
      (thenp (LWLockRelease SerializableFinishedListLock) (thenp (whenp need (ClearOldPredicateLocks drop_locks drop_old))
      (modify (\<lambda>s. s\<lparr>MySerializableXact := None, MyXactDidWrite := False, LocalPredicateLockHash := None\<rparr>)))))))) (\<lambda>_ b'. ssi_inv (PredXact (shm b')) (left isCommit me H)) b2"
    if t: "\<not> need \<and> (\<exists>s1. marked isCommit (MyXactDidWrite b) me s s1 \<and> xact_ended isCommit me s1 E U t) \<and>
     \<not> SxactIsCommitted (sx s me) \<and> (isCommit \<longrightarrow> SxactIsPrepared (sx s me))" "at_ssi b t b2" for need t b2
  proof -
    from t(1) obtain s1 where s1: "marked isCommit (MyXactDidWrite b) me s s1" "xact_ended isCommit me s1 E U t" by blast
    have need: "need = False" "\<not> SxactIsCommitted (sx s me)" "isCommit \<Longrightarrow> SxactIsPrepared (sx s me)" using t(1) by simp_all
    have none: "keeps_ssi (whenp False SetNewSxactGlobalXmin)" by (simp add: whenp_def keeps_basic)
    show ?thesis
      unfolding need(1)
      apply (rule wpl_at_keeps_then [OF t(2) none], rule wpl_at_keeps_then [OF _ rel], assumption, rule wpl_at_keeps_then [OF _ acq], assumption)
      apply (rule wpl_thenp [OF wpl_second_section [OF i me(1) wrap wrote drop _ s1 need(2,3)]], assumption+)
      apply (erule fin)
      done
  qed
  show ?thesis
    unfolding ReleasePredicateLocks_def
    apply (rule wpl_gets, simp only: m1 option.case)
    apply (rule wpl_at_keeps_then [OF b acq], rule wpl_gets, simp only: prod.case d2)
    apply (rule wpl_at_in_ssi [OF _ wpl_end_all [OF i(1-3) q me wrap]], assumption)
    apply (erule rest, assumption)
    done
qed

end
