(* ===== verification/PredicateStart.thy ===== *)
theory PredicateStart
  imports PredicateFinish
begin

unbundle bit_operations_syntax

text \<open>
  \<open>GetSerializableTransactionSnapshotInt\<close> as a program of a backend.
\<close>

subsection \<open>The beginning in a backend\<close>

definition slot_taken :: "nat \<Rightarrow> ssi \<Rightarrow> ssi \<Rightarrow> bool" where
  "slot_taken x s p \<longleftrightarrow> (\<exists>xs. availableList s = x # xs \<and> availableList p = xs \<and> activeList p = activeList s @ [x]) \<and>
     element p = element s \<and> pool p = pool s \<and> poolAvailable p = poolAvailable s \<and>
     LastSxactCommitSeqNo p = LastSxactCommitSeqNo s \<and> OldCommittedSxact p = OldCommittedSxact s"

lemma wpl_CreatePredXact:
  "availableList s \<noteq> [] \<Longrightarrow> wpl CreatePredXact (\<lambda>r p. \<exists>x. r = Some x \<and> slot_taken x s p) s"
  by (cases "availableList s") (auto simp: CreatePredXact_def wp_simps slot_taken_def)

lemma ssi_inv_cong:
  assumes "element t = element s" "pool t = pool s" "poolAvailable t = poolAvailable s" "LastSxactCommitSeqNo t = LastSxactCommitSeqNo s"
    "OldCommittedSxact t = OldCommittedSxact s" "set (activeList t) = set (activeList s)" "set (availableList t) = set (availableList s)"
    "distinct (availableList t) = distinct (availableList s)"
  shows "ssi_inv t H = ssi_inv s H"
proof -
  have "edge_of t = edge_of s" "in_use t = in_use s" using assms by (simp_all add: edge_of_def in_use_def fun_eq_iff)
  then show ?thesis
    using assms by (simp add: ssi_inv_def slots_ok_def numbers_ok_def conflicts_ok_def history_ok_def risky_def queues_ok_def)
qed

lemma wpl_release_taken:
  assumes inv: "ssi_inv s H" and x: "slot_taken x s p"
  shows "wpl (ReleasePredXact x) (\<lambda>_ t. ssi_inv t H) p"
proof -
  from x obtain xs where xs: "availableList s = x # xs" "availableList p = xs" "activeList p = activeList s @ [x]" by (auto simp: slot_taken_def)
  have sl: "x \<notin> set xs" "distinct xs" "x \<notin> set (activeList s)" using inv xs(1) by (auto simp: ssi_inv_def slots_ok_def)
  have "ssi_inv (p\<lparr>activeList := removeAll x (activeList p), availableList := removeAll x (availableList p) @ [x]\<rparr>) H = ssi_inv s H"
    by (rule ssi_inv_cong) (use x sl xs in \<open>auto simp: slot_taken_def\<close>)
  then show ?thesis using inv by (simp add: ReleasePredXact_def wp_simps)
qed

lemma wpl_init_sxact:
  assumes inv: "ssi_inv s H" and x: "slot_taken x s p"
  shows "wpl (init_sxact x ro xid sxmin mypid limit) (\<lambda>_ t. ssi_inv t H) p"
proof -
  from inv obtain E U A where i: "slots_ok s" "numbers_ok s" "conflicts_ok s E U H" "history_ok s (edge_of s ` E) H" and q: "queues_ok s E U A"
    by (rule ssi_invE)
  from x obtain xs where xs: "availableList s = x # xs" "availableList p = xs" "activeList p = activeList s @ [x]" by (auto simp: slot_taken_def)
  have sl: "x < length (element s)" "distinct xs" "x \<notin> set xs" "x \<noteq> OldCommittedSxact s" using i(1) xs(1) by (auto simp: slots_ok_def)
  let ?y = "new_sxact xid sxmin mypid (LastSxactCommitSeqNo p)" and ?ro = "\<lambda>y. y\<lparr>flags := flags y OR SXACT_FLAG_READ_ONLY\<rparr>"
  have new: "opened x y s t" if "y = ?y \<or> y = ?ro ?y" "element t = (element p)[x := y]" "pool t = pool p" "poolAvailable t = poolAvailable p"
      "LastSxactCommitSeqNo t = LastSxactCommitSeqNo p" "OldCommittedSxact t = OldCommittedSxact p" "activeList t = activeList p" "availableList t = availableList p" for y t
    using that x xs sl(2,3) by (auto simp: opened_def slot_taken_def new_sxact_def sxact_bits flag_masks bit_or_iff bit_push_one)
  have good: "ssi_inv t H" if "opened x y s t" for y t using opened_inv [OF i that] unfolding ssi_inv_def by blast
  define t1 where "t1 = p\<lparr>element := (element p)[x := ?ro ?y]\<rparr>"
  have o1: "opened x (?ro ?y) s t1" by (rule new) (simp_all add: t1_def)
  then have u1: "in_use t1 x" using sl(4) by (auto simp: opened_def in_use_def)
  have "wpl (eachp (register_unsafe x) (activeList t1)) (\<lambda>_ t. ssi_inv t H) t1"
    by (rule wp_mono [OF wpl_register_loop [OF good [OF o1] u1]]) auto
  moreover have "ssi_inv (p\<lparr>element := (element p)[x := ?y], WritableSxactCount := WritableSxactCount p + 1\<rparr>) H"
    by (rule good [OF new]) simp_all
  moreover have "x < length (element p)" using sl(1) x by (simp add: slot_taken_def)
  ultimately show ?thesis by (simp add: init_sxact_def wp_simps t1_def)
qed


lemma taken_other [simp]:
  "slot_taken x s (p\<lparr>tailXid := v\<rparr>) = slot_taken x s p" "slot_taken x s (p\<lparr>headXid := v\<rparr>) = slot_taken x s p"
  "slot_taken x s (p\<lparr>SxactGlobalXmin := v\<rparr>) = slot_taken x s p" "slot_taken x s (p\<lparr>SxactGlobalXminCount := n\<rparr>) = slot_taken x s p"
  by (simp_all add: slot_taken_def)

lemma wpl_modify_taken:
  assumes "at_ssi b p b1" and "slot_taken x s p" and "\<And>p. slot_taken x s (f p) = slot_taken x s p" and "\<And>p b2. at_ssi b p b2 \<Longrightarrow> slot_taken x s p \<Longrightarrow> wpl n Q b2"
  shows "wpl (thenp (in_ssi (modify f)) n) Q b1"
proof -
  have "wpl (modify f) (\<lambda>_ q. slot_taken x s q) p" using assms(2,3) by (simp add: wp_simps)
  then show ?thesis by (rule wpl_at_in_ssi_then [OF assms(1)]) (use assms(4) in auto)
qed

lemma wpl_OldSerXidSetActiveSerXmin:
  assumes a: "at_ssi b p b1" and t: "slot_taken x s p"
  shows "wpl (OldSerXidSetActiveSerXmin sxmin) (\<lambda>_ b'. \<exists>p. at_ssi b p b' \<and> slot_taken x s p) b1"
proof -
  note rel = ssi_view.keeps_Release and acq = ssi_view.keeps_Acquire
  have get: "wpl (gets g) (\<lambda>_ q. q = p) p" for g :: "ssi \<Rightarrow> 'c" and p by (simp add: wp_simps)
  have last: "wpl (LWLockRelease OldSerXidLock) (\<lambda>_ b'. \<exists>p. at_ssi b p b' \<and> slot_taken x s p) b2" if "at_ssi b p b2" "slot_taken x s p" for p b2
    by (rule wpl_at_keeps [OF that(1) rel]) (use that(2) in blast)
  show ?thesis
    unfolding OldSerXidSetActiveSerXmin_def
    apply (rule wpl_at_keeps_then [OF a acq], rule wpl_gets, intro wpl_if)
      apply (rule wpl_modify_taken [OF _ t], assumption, simp, erule last, assumption)
     apply (rule wpl_at_in_ssi [OF _ get], assumption, rule wpl_assertp, hypsubst)
     apply (rule wpl_modify_taken [OF _ t], assumption, simp, erule last, assumption)
    apply (rule wpl_at_in_ssi [OF _ get], assumption, rule wpl_assertp, hypsubst)
    apply (rule wpl_modify_taken [OF _ t], assumption, simp, erule last, assumption)
    done
qed

lemma wpl_join_xmin:
  assumes a: "at_ssi b p b1" and t: "slot_taken x s p"
  shows "wpl (join_xmin sxmin gxmin gcount) (\<lambda>_ b'. \<exists>p. at_ssi b p b' \<and> slot_taken x s p) b1"
proof -
  have c: "wpl (modify (\<lambda>s. s\<lparr>SxactGlobalXminCount := SxactGlobalXminCount s + 1\<rparr>)) (\<lambda>_ q. slot_taken x s q) p" using t by (simp add: wp_simps)
  have count: "wpl (in_ssi (modify (\<lambda>s. s\<lparr>SxactGlobalXminCount := SxactGlobalXminCount s + 1\<rparr>))) (\<lambda>_ b'. \<exists>p. at_ssi b p b' \<and> slot_taken x s p) b1"
    by (rule at_in_ssi_last [OF a c]) auto
  have same: "wpl (assertp k) (\<lambda>_ b'. \<exists>p. at_ssi b p b' \<and> slot_taken x s p) b1" for k using assms by (auto simp: wp_simps)
  show ?thesis
    unfolding join_xmin_def
    by (intro wpl_if wpl_assertp wpl_modify_taken [OF assms] count same) (simp_all add: wpl_OldSerXidSetActiveSerXmin)
qed

lemma wpl_begin:
  assumes b: "at_ssi b s b1" and inv: "ssi_inv s H" and av: "availableList s \<noteq> []"
  shows "wpl (GetSerializableTransactionSnapshotInt summarize parallel imported ro sxmin xid mypid limit) (\<lambda>_ b'. ssi_inv (PredXact (shm b')) H) b1"
proof -
  note rel = ssi_view.keeps_Release and acq = ssi_view.keeps_Acquire
  have get: "wpl (gets g) (\<lambda>_ q. q = p) p" for g :: "ssi \<Rightarrow> 'c" and p by (simp add: wp_simps)
  have last: "wpl (LWLockRelease SerializableXactHashLock) (\<lambda>_ b'. ssi_inv (PredXact (shm b')) H) b2" if "at_ssi b' p b2" "ssi_inv p H" for p b' b2
    by (rule wpl_at_keeps [OF that(1) rel]) (use that(2) in \<open>simp add: at_ssi_def\<close>)
  have start: "wpl (thenp (modify (\<lambda>s. s\<lparr>MySerializableXact := Some x, MyXactDidWrite := False\<rparr>)) (thenp (LWLockRelease SerializableXactHashLock) create_local_table))
      (\<lambda>_ b'. ssi_inv (PredXact (shm b')) H) b2" if "at_ssi b p b2" "ssi_inv p H" for x p b2
  proof -
    let ?b = "b2\<lparr>MySerializableXact := Some x, MyXactDidWrite := False\<rparr>"
    have "at_ssi ?b p ?b" using that(1) by (simp add: at_ssi_def rely_def)
    have "wpl (thenp (LWLockRelease SerializableXactHashLock) create_local_table) (\<lambda>_ b'. ssi_inv (PredXact (shm b')) H) ?b"
      by (rule wpl_at_keeps_then [OF \<open>at_ssi ?b p ?b\<close> rel]) (use that(2) in \<open>auto simp: create_local_table_def at_ssi_def wp_simps\<close>)
    then show ?thesis by (simp add: wp_thenp wp_modify)
  qed
  have init: "wpl (thenp (in_ssi (init_sxact x ro xid sxmin mypid limit))
      (thenp (modify (\<lambda>s. s\<lparr>MySerializableXact := Some x, MyXactDidWrite := False\<rparr>)) (thenp (LWLockRelease SerializableXactHashLock) create_local_table)))
      (\<lambda>_ b'. ssi_inv (PredXact (shm b')) H) b2" if "at_ssi b p b2" "slot_taken x s p" for x p b2
    by (rule wpl_at_in_ssi_then [OF that(1) wpl_init_sxact [OF inv that(2)]]) (erule start, assumption)
  have first: "wpl (with_fuel (\<lambda>n. create_loop (Suc n) summarize)) (\<lambda>x b'. \<exists>p. at_ssi b p b' \<and> slot_taken x s p) b2" if "at_ssi b s b2" for b2
    unfolding with_fuel_def
    by (rule wpl_gets, simp only: create_loop.simps, rule wpl_at_in_ssi [OF that wpl_CreatePredXact [OF av]]) (auto simp: wp_simps)
  let ?Q = "\<lambda>_ b'. ssi_inv (PredXact (shm b')) H"
  have body: "wpl (bindp (in_ssi (gets (\<lambda>s. (WritableSxactCount s, SxactGlobalXmin s, SxactGlobalXminCount s)))) (\<lambda>(writable, gxmin, gcount).
          if ro \<and> writable = 0 then thenp (in_ssi (ReleasePredXact x)) (LWLockRelease SerializableXactHashLock)
          else thenp (join_xmin sxmin gxmin gcount)
            (thenp (in_ssi (init_sxact x ro xid sxmin mypid limit))
            (thenp (modify (\<lambda>s. s\<lparr>MySerializableXact := Some x, MyXactDidWrite := False\<rparr>))
            (thenp (LWLockRelease SerializableXactHashLock) create_local_table))))) ?Q b2" if p: "at_ssi b p b2" "slot_taken x s p" for x p b2
    apply (rule wpl_at_in_ssi [OF p(1) get], hypsubst, simp only: split_beta)
    apply (intro wpl_if)
     apply (rule wpl_at_in_ssi_then [OF _ wpl_release_taken [OF inv p(2)]], assumption, erule last, assumption)
    apply (rule wpl_thenp [OF wpl_join_xmin [OF _ p(2)]], assumption, elim exE conjE, erule init, assumption)
    done
  show ?thesis
    unfolding GetSerializableTransactionSnapshotInt_def
    apply (rule wpl_gets, simp only: split_beta)
    apply (intro wpl_assertp wpl_if)
     apply (simp add: wp_simps)
    apply (rule wpl_at_keeps_then [OF b acq], rule wpl_bindp [OF first], assumption, elim exE conjE)
    apply (intro wpl_if)
     apply (rule wpl_at_in_ssi_then [OF _ wpl_release_taken [OF inv]], assumption, assumption)
     apply (rule wpl_at_keeps_then [OF _ rel], assumption, simp add: wp_simps)
    apply (rule body, assumption, assumption)
    done
qed

end
