(* ===== verification/PredicateRuns.thy ===== *)
theory PredicateRuns
  imports PredicateStart
begin

unbundle bit_operations_syntax

text \<open>
  Runs of serializable transactions: one step is a call of one of the operations by a backend. In every state of every
  run the invariant holds, so that there is no dangerous structure among the transactions that have committed.
\<close>

subsection \<open>Runs\<close>

text \<open>
  A history is the shared data, the dependencies that have been flagged between transactions that are not rolled back,
  and the transactions that have been told to give up, which can only roll back. A step is one call by one backend, whose
  transaction is \<open>me\<close>; the calls follow one another, since they are made under \<open>SerializableXactHashLock\<close>.
\<close>

type_synonym history = "ssi \<times> (nat \<times> nat) set \<times> nat set"

definition undisturbed :: "backend \<Rightarrow> ssi \<Rightarrow> bool" where
  "undisturbed b s \<longleftrightarrow> PredXact (shm b) = s \<and> rely (\<lambda>m m'. PredXact m' = PredXact m) b"

definition running :: "ssi \<Rightarrow> nat set \<Rightarrow> nat \<Rightarrow> bool" where
  "running s F me \<longleftrightarrow> in_use s me \<and> me \<notin> F \<and> \<not> SxactIsPrepared (sx s me) \<and> LastSxactCommitSeqNo s < InvalidSerCommitSeqNo - 1"

inductive ssi_step :: "history \<Rightarrow> history \<Rightarrow> bool" where
  begin_xact: "undisturbed b s \<Longrightarrow> availableList s \<noteq> [] \<Longrightarrow>
    GetSerializableTransactionSnapshotInt summarize parallel imported ro sxmin xid mypid limit b = (Inr (), b') \<Longrightarrow>
    ssi_step (s, H, F) (PredXact (shm b'), H, F)"
| flag: "undisturbed b s \<Longrightarrow> running s F me \<Longrightarrow> me = r \<or> me = w \<Longrightarrow> in_use s r \<Longrightarrow> in_use s w \<Longrightarrow> \<not> SxactIsReadOnly (sx s w) \<Longrightarrow>
    MySerializableXact b = Some me \<Longrightarrow> FlagRWConflict r w b = (Inr (), b') \<Longrightarrow>
    ssi_step (s, H, F) (PredXact (shm b'), insert (r, w) H, F)"
| flag_failed: "undisturbed b s \<Longrightarrow> running s F me \<Longrightarrow> me = r \<or> me = w \<Longrightarrow> in_use s r \<Longrightarrow> in_use s w \<Longrightarrow> \<not> SxactIsReadOnly (sx s w) \<Longrightarrow>
    MySerializableXact b = Some me \<Longrightarrow> FlagRWConflict r w b = (Inl (Ereport msg), b') \<Longrightarrow>
    ssi_step (s, H, F) (PredXact (shm b'), H, insert me F)"
| precommit: "undisturbed b s \<Longrightarrow> running s F me \<Longrightarrow> MySerializableXact b = Some me \<Longrightarrow>
    PreCommit_CheckForSerializationFailure b = (Inr (), b') \<Longrightarrow>
    ssi_step (s, H, F) (PredXact (shm b'), H, F)"
| precommit_failed: "undisturbed b s \<Longrightarrow> running s F me \<Longrightarrow> MySerializableXact b = Some me \<Longrightarrow>
    PreCommit_CheckForSerializationFailure b = (Inl (Ereport msg), b') \<Longrightarrow>
    ssi_step (s, H, F) (PredXact (shm b'), H, insert me F)"
| commit: "undisturbed b s \<Longrightarrow> in_use s me \<Longrightarrow> me \<notin> F \<Longrightarrow> others_older s me \<Longrightarrow> LastSxactCommitSeqNo s < InvalidSerCommitSeqNo - 1 \<Longrightarrow>
    MySerializableXact b = Some me \<Longrightarrow> MyXactDidWrite b \<or> me \<notin> snd ` H \<Longrightarrow> (\<And>x f. keeps_ssi (drop_locks x f)) \<Longrightarrow>
    ReleasePredicateLocks drop_locks drop_old True b = (Inr (), b') \<Longrightarrow>
    ssi_step (s, H, F) (PredXact (shm b'), H, F)"
| rollback: "undisturbed b s \<Longrightarrow> in_use s me \<Longrightarrow> others_older s me \<Longrightarrow> LastSxactCommitSeqNo s < InvalidSerCommitSeqNo - 1 \<Longrightarrow>
    MySerializableXact b = Some me \<Longrightarrow> (\<And>x f. keeps_ssi (drop_locks x f)) \<Longrightarrow>
    ReleasePredicateLocks drop_locks drop_old False b = (Inr (), b') \<Longrightarrow>
    ssi_step (s, H, F) (PredXact (shm b'), {(x, y) \<in> H. x \<noteq> me \<and> y \<noteq> me}, F - {me})"

inductive ssi_reachable :: "nat \<Rightarrow> history \<Rightarrow> bool" for n where
  init: "0 < n \<Longrightarrow> ssi_reachable n (InitPredicateLocks n, {}, {})"
| step: "ssi_reachable n h \<Longrightarrow> ssi_step h h' \<Longrightarrow> ssi_reachable n h'"

subsection \<open>The invariant holds\<close>

lemma no_wrap:
  assumes "(k :: SerCommitSeqNo) < InvalidSerCommitSeqNo - 1"
  shows "k < k + 1"
  using assms by (simp add: word_less_nat_alt unat_word_ariths InvalidSerCommitSeqNo_def)

lemma undisturbed_at: "undisturbed b s = at_ssi b s b"
  by (auto simp: undisturbed_def at_ssi_def)

lemma running_live:
  assumes "running s F me" and "ssi_inv s H"
  shows "in_use s me" "\<not> SxactIsPrepared (sx s me)" "\<not> SxactIsCommitted (sx s me)" "LastSxactCommitSeqNo s < LastSxactCommitSeqNo s + 1"
  using assms numbersD(5) no_wrap by (auto simp: running_def ssi_inv_def)

lemma running_flag:
  assumes "undisturbed b s" and "running s F me" and "me = r \<or> me = w" and "in_use s r" "in_use s w" "\<not> SxactIsReadOnly (sx s w)"
    and "ssi_inv s H"
  shows "wp (FlagRWConflict r w) (\<lambda>_ b'. ssi_inv (PredXact (shm b')) (insert (r, w) H)) (\<lambda>_ b'. ssi_inv (PredXact (shm b')) H) b"
proof -
  note live = running_live [OF assms(2,7)]
  have "wp (FlagRWConflict r w) (\<lambda>_. at_inv b (insert (r, w) H)) (\<lambda>_. at_inv b H) b"
    using wp_FlagRWConflict [OF _ assms(7,4,5,6), of b b] assms(1,3) live by (auto simp: undisturbed_at)
  then show ?thesis by (rule wp_mono) (auto simp: at_inv_def at_ssi_def)
qed

lemma running_precommit:
  assumes "undisturbed b s" and "running s F me" and "MySerializableXact b = Some me" and "ssi_inv s H"
  shows "wp PreCommit_CheckForSerializationFailure (\<lambda>_ b'. ssi_inv (PredXact (shm b')) H) (\<lambda>_ b'. ssi_inv (PredXact (shm b')) H) b"
proof -
  note live = running_live [OF assms(2,4)]
  have "wp PreCommit_CheckForSerializationFailure (\<lambda>_. at_inv b H) (\<lambda>_. at_inv b H) b"
    using wp_PreCommit [OF _ assms(4,3) live(1,3,4)] assms(1) by (simp add: undisturbed_at)
  then show ?thesis by (rule wp_mono) (auto simp: at_inv_def at_ssi_def)
qed

lemma ssi_step_inv:
  assumes "ssi_step h h'" and "ssi_inv (fst h) (fst (snd h))"
  shows "ssi_inv (fst h') (fst (snd h'))"
  using assms
proof (induction rule: ssi_step.induct)
  case (begin_xact b s summarize parallel imported ro sxmin xid mypid limit b' H F)
  then show ?case
    using wpl_begin [of b s b H summarize parallel imported ro sxmin xid mypid limit] by (simp add: undisturbed_at wp_def)
next
  case (flag b s F me r w b' H)
  then show ?case using running_flag [OF flag(1-6)] by (simp add: wp_def)
next
  case (flag_failed b s F me r w msg b' H)
  then show ?case using running_flag [OF flag_failed(1-6)] by (simp add: wp_def)
next
  case (precommit b s F me b' H)
  then show ?case using running_precommit [OF precommit(1-3)] by (simp add: wp_def)
next
  case (precommit_failed b s F me msg b' H)
  then show ?case using running_precommit [OF precommit_failed(1-3)] by (simp add: wp_def)
next
  case (commit b s me F H drop_locks drop_old b')
  have i: "ssi_inv s H" and w: "MyXactDidWrite b \<or> (\<forall>a. (a, me) \<notin> H)" using commit by (auto simp: image_iff)
  have "wpl (ReleasePredicateLocks drop_locks drop_old True) (\<lambda>_ b'. ssi_inv (PredXact (shm b')) (left True me H)) b"
    by (rule wpl_ReleasePredicateLocks [OF commit(1) [unfolded undisturbed_at] i commit(6,2,4) no_wrap [OF commit(5)] w commit(8)])
  with commit(9) show ?case by (simp add: wp_def left_def)
next
  case (rollback b s me drop_locks drop_old b' H F)
  have i: "ssi_inv s H" using rollback by simp
  have "wpl (ReleasePredicateLocks drop_locks drop_old False) (\<lambda>_ b'. ssi_inv (PredXact (shm b')) (left False me H)) b"
    by (rule wpl_ReleasePredicateLocks [OF rollback(1) [unfolded undisturbed_at] i rollback(5,2,3) no_wrap [OF rollback(4)] _ rollback(6)]) simp
  with rollback(7) show ?case by (simp add: wp_def left_def)
qed

lemma InitPredicateLocks_fields:
  assumes "0 < n"
  shows "element (InitPredicateLocks n) = (replicate (n * 10) blank_sxact)[0 := blank_sxact\<lparr>flags := SXACT_FLAG_COMMITTED\<rparr>]"
    "availableList (InitPredicateLocks n) = [1..<n * 10]" "activeList (InitPredicateLocks n) = [0]" "OldCommittedSxact (InitPredicateLocks n) = 0"
    "LastSxactCommitSeqNo (InitPredicateLocks n) = 1" "pool (InitPredicateLocks n) = replicate (n * 10 * 5) \<lparr>sxactOut = 0, sxactIn = 0\<rparr>"
    "poolAvailable (InitPredicateLocks n) = map OutLink [0..<n * 10 * 5]" "SxactGlobalXmin (InitPredicateLocks n) = 0"
    "SxactGlobalXminCount (InitPredicateLocks n) = 0" "tailXid (InitPredicateLocks n) = 0" "WritableSxactCount (InitPredicateLocks n) = 0"
proof -
  have "[0..<n * 10] = 0 # [1..<n * 10]" using assms by (simp add: upt_conv_Cons)
  then show "element (InitPredicateLocks n) = (replicate (n * 10) blank_sxact)[0 := blank_sxact\<lparr>flags := SXACT_FLAG_COMMITTED\<rparr>]"
    "availableList (InitPredicateLocks n) = [1..<n * 10]" "activeList (InitPredicateLocks n) = [0]" "OldCommittedSxact (InitPredicateLocks n) = 0"
    "LastSxactCommitSeqNo (InitPredicateLocks n) = 1" "pool (InitPredicateLocks n) = replicate (n * 10 * 5) \<lparr>sxactOut = 0, sxactIn = 0\<rparr>"
    "poolAvailable (InitPredicateLocks n) = map OutLink [0..<n * 10 * 5]" "SxactGlobalXmin (InitPredicateLocks n) = 0"
    "SxactGlobalXminCount (InitPredicateLocks n) = 0" "tailXid (InitPredicateLocks n) = 0" "WritableSxactCount (InitPredicateLocks n) = 0"
    by (simp_all add: InitPredicateLocks_def Let_def CreatePredXact_def bindp_def gets_def thenp_def modify_def ret_def
        FirstNormalSerCommitSeqNo_def InvalidTransactionId_def)
qed

lemma InitPredicateLocks_inv:
  assumes "0 < n"
  shows "ssi_inv (InitPredicateLocks n) {}"
proof -
  let ?s = "InitPredicateLocks n"
  note f = InitPredicateLocks_fields [OF assms]
  have x: "SeqNo (sx ?s x) = 0" "prepareSeqNo (sx ?s x) = 0" "outConflicts (sx ?s x) = []" "inConflicts (sx ?s x) = []"
    "possibleUnsafeConflicts (sx ?s x) = []" if "x < n * 10" for x
    using that by (simp_all add: f nth_list_update blank_sxact_def)
  have old: "SxactIsCommitted (sx ?s 0)"
    using assms by (simp add: f SxactIsCommitted_def SXACT_FLAG_COMMITTED_def)
  have use: "\<not> in_use ?s x" for x by (auto simp: in_use_def f(3,4))
  have "slots_ok ?s" using assms old by (auto simp: slots_ok_def f)
  moreover have "numbers_ok ?s" using x use by (simp add: numbers_ok_def f(1,5))
  moreover have "queues_ok ?s {} {} {0..<n * 10 * 5}" using x by (auto simp: queues_ok_def f)
  then have "conflicts_ok ?s {} {} {}" by (auto simp: conflicts_ok_def)
  moreover have "history_ok ?s (edge_of ?s ` {}) {}" by (simp add: history_ok_def)
  ultimately show ?thesis unfolding ssi_inv_def by blast
qed

lemma ssi_reachable_inv: "ssi_reachable n h \<Longrightarrow> ssi_inv (fst h) (fst (snd h))"
  by (induction rule: ssi_reachable.induct) (auto simp: InitPredicateLocks_inv intro: ssi_step_inv)

subsection \<open>Dangerous structures\<close>

definition dangerous_structure :: "ssi \<Rightarrow> (nat \<times> nat) set \<Rightarrow> bool" where
  "dangerous_structure s H \<longleftrightarrow> (\<exists>(a, b) \<in> H. \<exists>(b', c) \<in> H. b = b' \<and>
     SxactIsCommitted (sx s a) \<and> SxactIsCommitted (sx s b) \<and> SxactIsCommitted (sx s c) \<and>
     commitSeqNo (sx s c) < commitSeqNo (sx s a) \<and> commitSeqNo (sx s c) < commitSeqNo (sx s b) \<and>
     (SxactIsReadOnly (sx s a) \<longrightarrow> commitSeqNo (sx s c) \<le> SeqNo (sx s a)))"

lemma inv_not_dangerous:
  assumes "ssi_inv s H"
  shows "\<not> dangerous_structure s H"
proof
  assume "dangerous_structure s H"
  then obtain a b c where h: "(a, b) \<in> H" "(b, c) \<in> H" and
    k: "SxactIsCommitted (sx s a)" "SxactIsCommitted (sx s b)" "SxactIsCommitted (sx s c)" "commitSeqNo (sx s c) < commitSeqNo (sx s a)"
      "commitSeqNo (sx s c) < commitSeqNo (sx s b)" "SxactIsReadOnly (sx s a) \<longrightarrow> commitSeqNo (sx s c) \<le> SeqNo (sx s a)"
    unfolding dangerous_structure_def by blast
  from assms obtain E U A where i: "slots_ok s" "numbers_ok s" "conflicts_ok s E U H" "history_ok s (edge_of s ` E) H" "queues_ok s E U A"
    by (rule ssi_invE)
  note d = numbersD(4-6) [OF i(2)] and u = historyD(1,2) [OF i(3)]
  have "risky s a b c"
    unfolding risky_def using k d [OF u(1) [OF h(1)]] d [OF u(2) [OF h(1)]] d [OF u(2) [OF h(2)]] by auto
  then show False using i(4) h unfolding history_ok_def by blast
qed

end
