(* ===== verification/PredicateAlone.thy ===== *)
theory PredicateAlone
  imports PredicateRuns Startup
begin

text \<open>
  A backend that runs alone and finds its locks free: what \<open>GetSerializableTransactionSnapshotInt\<close> and
  \<open>FlagRWConflict\<close> do then, in full, and a run in which two transactions begin and one reads what the other writes.
\<close>

subsection \<open>A backend that runs alone\<close>

definition with_ssi :: "ssi \<Rightarrow> backend \<Rightarrow> backend" where
  "with_ssi p b = b\<lparr>shm := (shm b)\<lparr>PredXact := p\<rparr>\<rparr>"

lemma with_ssi_simps [simp]:
  "PredXact (shm (with_ssi p b)) = p" "env (with_ssi p b) = env b" "MainLWLockArray (shm (with_ssi p b)) = MainLWLockArray (shm b)"
  "held_lwlocks (with_ssi p b) = held_lwlocks b" "InterruptHoldoffCount (with_ssi p b) = InterruptHoldoffCount b"
  "MyProc (with_ssi p b) = MyProc b" "MySerializableXact (with_ssi p b) = MySerializableXact b"
  "RecoveryInProgress (with_ssi p b) = RecoveryInProgress b" "XactIsoLevel (with_ssi p b) = XactIsoLevel b"
  "MyXactDidWrite (with_ssi p b) = MyXactDidWrite b" "LocalPredicateLockHash (with_ssi p b) = LocalPredicateLockHash b"
  "with_ssi q (with_ssi p b) = with_ssi q b" "word_of i (with_ssi p b) = word_of i b" "taken i (with_ssi p b) = with_ssi p (taken i b)"
  "lock_ready i (with_ssi p b) = lock_ready i b"
  by (simp_all add: with_ssi_def taken_def set_word_def set_lock_def lock_ready_def)

lemma taken_more [simp]:
  "MySerializableXact (taken i b) = MySerializableXact b" "RecoveryInProgress (taken i b) = RecoveryInProgress b"
  "PredXact (shm (taken i b)) = PredXact (shm b)" "MyProc (taken i b) = MyProc b" "XactIsoLevel (taken i b) = XactIsoLevel b"
  "MyXactDidWrite (taken i b) = MyXactDidWrite b" "held_lwlocks (taken i b) = held_lwlocks b @ [(i, LW_EXCLUSIVE)]"
  by (simp_all add: taken_def set_word_def set_lock_def)

lemma own_xact:
  "(with_ssi p b)\<lparr>MySerializableXact := me, MyXactDidWrite := wrote\<rparr> = with_ssi p (b\<lparr>MySerializableXact := me, MyXactDidWrite := wrote\<rparr>)"
  "(taken i b)\<lparr>MySerializableXact := me, MyXactDidWrite := wrote\<rparr> = taken i (b\<lparr>MySerializableXact := me, MyXactDidWrite := wrote\<rparr>)"
  "lock_ready i (b\<lparr>MySerializableXact := me, MyXactDidWrite := wrote\<rparr>) = lock_ready i b"
  by (simp_all add: with_ssi_def taken_def set_word_def set_lock_def lock_ready_def)

lemma wp_in_ssi_alone: "env b = [] \<Longrightarrow> wp (in_ssi m) Q Er (with_ssi p b) = wp m (\<lambda>x q. Q x (with_ssi q b)) (\<lambda>e q. Er e (with_ssi q b)) p"
  by (simp add: in_ssi_def wp_simps) (simp add: wp_def with_ssi_def split: prod.splits sum.splits)

lemma wp_release_ssi:
  assumes "lock_ready i b"
  shows "wp (LWLockRelease i) Q Er (with_ssi p (taken i b)) = Q () (with_ssi p b)"
proof -
  have "LWLockRelease i (with_bitmap (GlobalBitmap (shm b)) (taken i (with_ssi p b))) = (Inr (), with_bitmap (GlobalBitmap (shm b)) (with_ssi p b))"
    using assms by (intro release_taken) simp
  moreover have "with_bitmap (GlobalBitmap (shm b)) (taken i (with_ssi p b)) = with_ssi p (taken i b)" 
    by (simp add: with_bitmap_def with_ssi_def taken_def set_word_def set_lock_def)
  moreover have "with_bitmap (GlobalBitmap (shm b)) (with_ssi p b) = with_ssi p b" by (simp add: with_bitmap_def with_ssi_def)
  ultimately show ?thesis by (simp add: wp_def)
qed


definition joined :: "TransactionId \<Rightarrow> ssi \<Rightarrow> ssi" where
  "joined sxmin s = (if SxactGlobalXmin s = 0 then s\<lparr>SxactGlobalXmin := sxmin, SxactGlobalXminCount := 1, tailXid := sxmin\<rparr>
     else if sxmin = SxactGlobalXmin s then s\<lparr>SxactGlobalXminCount := SxactGlobalXminCount s + 1\<rparr> else s)"

definition begun :: "TransactionId \<Rightarrow> TransactionId \<Rightarrow> int \<Rightarrow> ssi \<Rightarrow> ssi" where
  "begun xid sxmin mypid s = (let x = hd (availableList s);
     t = joined sxmin (s\<lparr>availableList := tl (availableList s), activeList := activeList s @ [x]\<rparr>) in
     t\<lparr>element := (element t)[x := new_sxact xid sxmin mypid (LastSxactCommitSeqNo t)], WritableSxactCount := WritableSxactCount t + 1\<rparr>)"

definition joinable :: "TransactionId \<Rightarrow> ssi \<Rightarrow> bool" where
  "joinable sxmin s \<longleftrightarrow> sxmin \<noteq> 0 \<and>
     (if SxactGlobalXmin s = 0 then SxactGlobalXminCount s = 0 \<and> (tailXid s = 0 \<or> TransactionIdFollows sxmin (tailXid s))
      else if sxmin = SxactGlobalXmin s then 0 < SxactGlobalXminCount s else TransactionIdFollows sxmin (SxactGlobalXmin s))"

lemma wp_OldSerXid_alone:
  assumes r: "lock_ready OldSerXidLock b" and n: "\<not> RecoveryInProgress b" and x: "sxmin \<noteq> 0" "tailXid p = 0 \<or> TransactionIdFollows sxmin (tailXid p)"
  shows "wp (OldSerXidSetActiveSerXmin sxmin) Q Er (with_ssi p b) = Q () (with_ssi (p\<lparr>tailXid := sxmin\<rparr>) b)"
proof -
  have e: "env b = []" using r by (simp add: lock_ready_def)
  show ?thesis
    using n x by (simp add: OldSerXidSetActiveSerXmin_def wp_thenp wp_bindp wp_acquire_ready r wp_gets TransactionIdIsValid_def InvalidTransactionId_def
        wp_in_ssi_alone e wp_if wp_assertp wp_modify wp_release_ssi)
qed

lemma wp_join_alone:
  assumes r: "lock_ready OldSerXidLock b" and n: "\<not> RecoveryInProgress b" and j: "joinable sxmin p"
  shows "wp (join_xmin sxmin (SxactGlobalXmin p) (SxactGlobalXminCount p)) Q Er (with_ssi p b) = Q () (with_ssi (joined sxmin p) b)"
proof -
  have e: "env b = []" using r by (simp add: lock_ready_def)
  show ?thesis
    using j by (auto simp: join_xmin_def joined_def joinable_def wp_thenp wp_in_ssi_alone e wp_if wp_assertp wp_modify wp_OldSerXid_alone [OF r n]
        TransactionIdIsValid_def InvalidTransactionId_def split: if_splits)
qed

lemma wp_create_alone:
  assumes e: "env b = []" and av: "availableList p = x # xs"
  shows "wp (with_fuel (\<lambda>n. create_loop (Suc n) summarize)) Q Er (with_ssi p b) =
    Q x (with_ssi (p\<lparr>availableList := xs, activeList := activeList p @ [x]\<rparr>) b)"
  using e av by (simp add: with_fuel_def wp_bindp wp_gets wp_in_ssi_alone CreatePredXact_def wp_thenp wp_modify wp_ret)

lemma begin_alone:
  assumes r: "lock_ready SerializableXactHashLock b" "lock_ready OldSerXidLock (taken SerializableXactHashLock b)"
    and b: "MySerializableXact b = None" "\<not> RecoveryInProgress b" "LocalPredicateLockHash b = None" and av: "availableList s = x # xs" "x < length (element s)" and j: "joinable sxmin s"
    and lim: "WritableSxactCount s + 1 \<le> limit"
  shows "wp (GetSerializableTransactionSnapshotInt summarize False None False sxmin xid mypid limit)
     (\<lambda>_ b'. PredXact (shm b') = begun xid sxmin mypid s) (\<lambda>_ _. False) (with_ssi s b)"
proof -
  have e: "env b = []" "MyProc b \<noteq> None" using r(1) by (simp_all add: lock_ready_def)
  let ?p = "s\<lparr>availableList := xs, activeList := activeList s @ [x]\<rparr>"
  have j': "joinable sxmin ?p" using j by (simp add: joinable_def)
  have l: "x < length (element (joined sxmin ?p))" "WritableSxactCount (joined sxmin ?p) = WritableSxactCount s" using av(2) by (simp_all add: joined_def)
  have p: "SxactGlobalXmin ?p = SxactGlobalXmin s" "SxactGlobalXminCount ?p = SxactGlobalXminCount s" by simp_all
  note join = wp_join_alone [OF r(2) _ j', unfolded p]
  show ?thesis
    using b e l lim
    by (simp add: GetSerializableTransactionSnapshotInt_def wp_thenp wp_bindp wp_gets wp_assertp wp_acquire_ready r(1) wp_create_alone [OF _ av(1)]
        wp_in_ssi_alone join init_sxact_def wp_modify begun_def Let_def av(1) wp_upd_sxact wp_if own_xact wp_release_ssi r(1) create_local_table_def
        del: create_loop.simps)
qed

text \<open>The first dependency of all is recorded without a failure.\<close>

lemma first_flag_alone:
  assumes b: "env b = []" "held_lwlocks b = [(SerializableXactHashLock, LW_EXCLUSIVE)]" and inv: "ssi_inv s {}"
    and rw: "in_use s r" "in_use s w" "r \<noteq> w" "\<not> SxactIsPrepared (sx s w)" and pool: "poolAvailable s \<noteq> []"
  shows "wp (FlagRWConflict r w) (\<lambda>_ _. True) (\<lambda>_ _. False) (with_ssi s b)"
proof -
  from inv obtain E U A where i: "slots_ok s" "numbers_ok s" "conflicts_ok s E U {}" "history_ok s (edge_of s ` E) {}" and q: "queues_ok s E U A"
    by (rule ssi_invE)
  have E: "edge_of s ` E = {}" using i(3) unfolding conflicts_ok_def by blast
  have lt: "r < length (element s)" "w < length (element s)" using in_use_lt [OF i(1)] rw by simp_all
  have "\<not> dangerous s {} r w" using rw(4) numbersD(2,5) [OF i(2) rw(2)] by (auto simp: dangerous_def)
  then have check: "wp (conflict_failure r w) Q Er s = Q False s" for Q Er using wp_conflict_failure [OF q lt] E by simp
  have take: "wp (take_conflict msg r w) (\<lambda>c. wp (thenp (upd_sxact r (\<lambda>r. r\<lparr>outConflicts := outConflicts r @ [OutLink c]\<rparr>))
      (upd_sxact w (\<lambda>w. w\<lparr>inConflicts := inConflicts w @ [InLink c]\<rparr>))) (\<lambda>_ _. True) (\<lambda>_ _. False)) (\<lambda>_ _. False) s" for msg
    by (rule wp_take_conflict [OF q]) (use lt pool in \<open>auto simp: wp_simps\<close>)
  have set: "wp (SetRWConflict r w) (\<lambda>_ _. True) (\<lambda>_ _. False) s"
    using take rw(3) by (simp only: SetRWConflict_def wp_thenp wp_bindp wp_assertp wp_RWConflictExists [OF q lt rw(3)] E) simp
  have old: "OldCommittedSxact s \<noteq> r" "OldCommittedSxact s \<noteq> w" using rw(1,2) by (auto simp: in_use_def)
  show ?thesis
    using b rw(3) set old
    by (simp add: FlagRWConflict_def OnConflict_CheckForSerializationFailure_def LWLockHeldByMe_def wp_thenp wp_bindp wp_gets wp_assertp
        wp_in_ssi_alone check wp_whenp wp_if)
qed

definition ssi_example :: "ssi" where
  "ssi_example = begun 0 5 1 (begun 0 5 1 (InitPredicateLocks 1))"

lemma fresh_ssi_ready: "lock_ready SerializableXactHashLock fresh_backend" "lock_ready OldSerXidLock (taken SerializableXactHashLock fresh_backend)"
  by (simp_all add: lock_ready_def fresh_backend_def fresh_quiet MAX_SIMUL_LWLOCKS_def SerializableXactHashLock_def OldSerXidLock_def
      NUM_FIXED_LWLOCKS_eq taken_def)

lemma ssi_begins:
  assumes "ssi_reachable n (s, H, F)" and "availableList s = x # xs" "x < length (element s)" and "joinable 5 s" and "WritableSxactCount s < 20"
  shows "ssi_reachable n (begun 0 5 1 s, H, F)"
proof -
  let ?b = "with_ssi s fresh_backend"
  have u: "undisturbed ?b s" by (simp add: undisturbed_def rely_def fresh_backend_def)
  have "wp (GetSerializableTransactionSnapshotInt (ret ()) False None False 5 0 1 20) (\<lambda>_ b'. PredXact (shm b') = begun 0 5 1 s) (\<lambda>_ _. False) ?b"
    using assms by (intro begin_alone [OF fresh_ssi_ready]) (simp_all add: fresh_backend_def)
  then obtain b' where b': "GetSerializableTransactionSnapshotInt (ret ()) False None False 5 0 1 20 ?b = (Inr (), b')" "PredXact (shm b') = begun 0 5 1 s"
    by (auto simp: wp_total)
  have "ssi_step (s, H, F) (PredXact (shm b'), H, F)" by (rule ssi_step.begin_xact [OF u _ b'(1)]) (use assms(2) in simp)
  with ssi_reachable.step [OF assms(1)] b'(2) show ?thesis by simp
qed

lemma ssi_example_reachable: "ssi_reachable 1 (ssi_example, {}, {})"
  unfolding ssi_example_def
  by (intro ssi_begins [of _ _ _ _ 2 "[3..<10]"] ssi_begins [of _ _ _ _ 1 "[2..<10]"] ssi_reachable.init)
    (simp_all add: InitPredicateLocks_fields begun_def joined_def Let_def joinable_def upt_conv_Cons upt_rec)

lemma ssi_example_fields:
  "activeList ssi_example = [0, 1, 2]" "OldCommittedSxact ssi_example = 0" "LastSxactCommitSeqNo ssi_example = 1"
  "sx ssi_example (Suc 0) = new_sxact 0 5 1 1" "sx ssi_example 2 = new_sxact 0 5 1 1" "poolAvailable ssi_example = map OutLink [0..<50]"
  by (simp_all add: ssi_example_def begun_def joined_def Let_def InitPredicateLocks_fields upt_rec numeral_2_eq_2)

lemma ssi_example_length: "length (element ssi_example) = 10"
  by (simp add: ssi_example_def begun_def joined_def Let_def InitPredicateLocks_fields)

lemma ssi_example_flags: "\<exists>s. ssi_reachable 1 (s, {(1, 2)}, {})"
proof -
  let ?b = "with_ssi ssi_example (taken SerializableXactHashLock (fresh_backend\<lparr>MySerializableXact := Some 1\<rparr>))"
  have u: "undisturbed ?b ssi_example" by (simp add: undisturbed_def rely_def fresh_backend_def)
  have i: "in_use ssi_example 1" "in_use ssi_example 2" by (simp_all add: in_use_def ssi_example_fields)
  have n: "flags (new_sxact 0 5 1 1) = 0" by (simp add: new_sxact_def)
  have r: "running ssi_example {} 1" "\<not> SxactIsReadOnly (sx ssi_example 2)" "\<not> SxactIsPrepared (sx ssi_example 2)"
    using i by (simp_all add: running_def ssi_example_fields SxactIsPrepared_def SxactIsReadOnly_def n InvalidSerCommitSeqNo_def)
  have "wp (FlagRWConflict 1 2) (\<lambda>_ _. True) (\<lambda>_ _. False) ?b"
    by (rule first_flag_alone) (use ssi_reachable_inv [OF ssi_example_reachable] i r in \<open>simp_all add: ssi_example_fields fresh_backend_def\<close>)
  then obtain b' where b': "FlagRWConflict 1 2 ?b = (Inr (), b')" by (auto simp: wp_total)
  have "ssi_step (ssi_example, {}, {}) (PredXact (shm b'), {(1, 2)}, {})"
    by (rule ssi_step.flag [OF u r(1) _ i r(2) _ b']) simp_all
  then show ?thesis using ssi_reachable.step [OF ssi_example_reachable] by blast
qed

end
