(* ===== verification/SsiProps.thy ===== *)
theory SsiProps
  imports PredicateAlone
begin

text \<open>
  The properties of serializable transactions.
\<close>

section \<open>Serializable transactions\<close>

text \<open>
  C2: no dangerous structure commits. In every state that runs of serializable transactions reach, there are no three
  transactions that have all committed, of which the first has a read/write dependency on the second and the second on the
  third, where the third has committed before the other two and, if the first is read-only, before the snapshot of the
  first: the structure that every anomaly of snapshot isolation contains. The dependencies are all that have been flagged
  between transactions that are not rolled back, whether they are still recorded or not.
\<close>

theorem ssi_no_dangerous_structure:
  assumes "ssi_reachable n (s, H, F)"
  shows "\<not> dangerous_structure s H"
  using inv_not_dangerous ssi_reachable_inv [OF assms] by simp

theorem ssi_no_dangerous_structure_witness:
  "\<exists>s. ssi_reachable 1 (s, {(1, 2)}, {}) \<and> \<not> dangerous_structure s {(1, 2)}"
  using ssi_no_dangerous_structure ssi_example_flags by blast

text \<open>
  C12: the shared data stay well-formed. In every state that is reached, the structures in use and the free ones are
  apart, every recorded dependency is in the queue of its reader and in that of its writer and in no other queue, every free
  conflict is in the list of free conflicts, the ends of a recorded dependency are two different transactions in
  use, the writer is not read-only, and the numbers of a transaction are in order: a committed transaction is prepared and not
  doomed, it was prepared before it committed, and no number is beyond the counter.
\<close>

theorem ssi_well_formed:
  assumes "ssi_reachable n (s, H, F)"
  shows "slots_ok s \<and> numbers_ok s \<and> (\<exists>E U. conflicts_ok s E U H)"
  using ssi_reachable_inv [OF assms] by (auto simp: ssi_inv_def)

theorem ssi_well_formed_witness: "slots_ok ssi_example \<and> numbers_ok ssi_example \<and> (\<exists>E U. conflicts_ok ssi_example E U {})"
  by (rule ssi_well_formed [OF ssi_example_reachable])

text \<open>
  Two dependencies, of \<open>a\<close> on \<open>b\<close> and of \<open>b\<close> on \<open>c\<close>, are dangerous if \<open>c\<close> may be the first of the three to commit: it is prepared,
  neither of the others has committed before it was, and \<open>a\<close>, if it is read-only, has taken its snapshot
  afterwards. The definition is on the order of the numbers alone and the same for all three places that a new dependency can have.
\<close>

definition commits_first :: "ssi \<Rightarrow> nat \<Rightarrow> nat \<Rightarrow> nat \<Rightarrow> bool" where
  "commits_first s a b c \<longleftrightarrow> SxactIsPrepared (sx s c) \<and>
     (\<forall>x \<in> {a, b}. SxactIsCommitted (sx s x) \<longrightarrow> prepareSeqNo (sx s c) \<le> commitSeqNo (sx s x)) \<and>
     (SxactIsReadOnly (sx s a) \<longrightarrow> prepareSeqNo (sx s c) \<le> SeqNo (sx s a))"

text \<open>The new dependency of \<open>r\<close> on \<open>w\<close> completes such a structure with those of \<open>D\<close>, as its first or as its second half.\<close>

definition completes :: "ssi \<Rightarrow> (nat \<times> nat) set \<Rightarrow> nat \<Rightarrow> nat \<Rightarrow> bool" where
  "completes s D r w \<longleftrightarrow> (\<exists>a b c. (a, b) \<in> insert (r, w) D \<and> (b, c) \<in> insert (r, w) D \<and>
     ((a, b) = (r, w) \<or> (b, c) = (r, w) \<and> \<not> SxactIsDoomed (sx s a)) \<and> commits_first s a b c)"

lemma dangerous_completes:
  assumes n: "numbers_ok s" "in_use s r" "in_use s w" and D: "\<And>a b. (a, b) \<in> D \<Longrightarrow> \<not> SxactIsReadOnly (sx s b)" and ne: "r \<noteq> w"
    and live: "SxactIsPrepared (sx s w) \<Longrightarrow> \<not> SxactIsCommitted (sx s r)"
  shows "dangerous s D r w \<longleftrightarrow> (SxactIsCommitted (sx s w) \<and> SxactHasConflictOut (sx s w)) \<or> completes s D r w"
proof -
  have out: "pivot_out (sx s r) (sx s w) (sx s c) \<longleftrightarrow> commits_first s r w c" for c
    by (auto simp: pivot_out_def commits_first_def)
  have into: "SxactIsPrepared (sx s w) \<and> pivot_in (sx s a) (sx s w) \<longleftrightarrow> \<not> SxactIsDoomed (sx s a) \<and> commits_first s a r w" for a
    using live by (auto simp: pivot_in_def commits_first_def)
  have "completes s D r w \<longleftrightarrow> (\<exists>c. (w, c) \<in> D \<and> commits_first s r w c) \<or>
      (\<exists>a. (a, r) \<in> D \<and> \<not> SxactIsDoomed (sx s a) \<and> commits_first s a r w)"
    using ne unfolding completes_def by blast
  then show ?thesis
    using numbersD(1) [OF n(1,2)] numbersD(2) [OF n(1,3)] D into unfolding dangerous_def out by blast
qed

text \<open>
  C11: the check of a new conflict is the condition it stands for. In every state that is reached, let a running
  transaction flag a dependency of \<open>r\<close> on \<open>w\<close>, of which it is one. The walk over the queues of the two returns and changes nothing. It answers
  true if and only if the writer has committed with its flag for a conflict out, or the new dependency completes a structure
  that may become dangerous with the recorded ones. It misses nothing that has been released: if
  with all dependencies ever flagged the new one makes a structure that can still be dangerous, the answer is true.
\<close>

theorem conflict_check_decides:
  assumes "ssi_reachable n (s, H, F)" and "running s F me" and "me = r \<or> me = w" and "r \<noteq> w"
    and "in_use s r" and "in_use s w" and "\<not> SxactIsReadOnly (sx s w)"
  shows "\<exists>answer. conflict_failure r w s = (Inr answer, s) \<and>
    (answer \<longleftrightarrow> (SxactIsCommitted (sx s w) \<and> SxactHasConflictOut (sx s w)) \<or> completes s (recorded s) r w) \<and>
    ((\<exists>a b c. (a, b) \<in> insert (r, w) H \<and> (b, c) \<in> insert (r, w) H \<and> risky s a b c) \<longrightarrow> answer)"
proof -
  from ssi_reachable_inv [OF assms(1)] obtain E U A where inv: "slots_ok s" "numbers_ok s" "conflicts_ok s E U H"
    "history_ok s (edge_of s ` E) H" "queues_ok s E U A" by (auto elim: ssi_invE)
  note rec = recorded_edges [OF inv(5)]
  have live: "SxactIsPrepared (sx s w) \<Longrightarrow> \<not> SxactIsCommitted (sx s r)"
    using assms(2,3) numbersD(5) [OF inv(2) assms(5)] by (auto simp: running_def)
  have "conflict_failure r w s = (Inr (dangerous s (recorded s) r w), s)"
    using wp_conflict_failure [OF inv(5) in_use_lt [OF inv(1) assms(5)] in_use_lt [OF inv(1) assms(6)]] rec by (simp add: wp_Inr)
  moreover have "dangerous s (recorded s) r w \<longleftrightarrow> (SxactIsCommitted (sx s w) \<and> SxactHasConflictOut (sx s w)) \<or> completes s (recorded s) r w"
    by (rule dangerous_completes [OF inv(2) assms(5,6) _ assms(4) live])
      (use historyD(4) [OF inv(3)] inv(3) in \<open>auto simp: rec conflicts_ok_def\<close>)
  moreover have "\<not> risky s a b c" if "(a, b) \<in> insert (r, w) H" "(b, c) \<in> insert (r, w) H" "\<not> dangerous s (recorded s) r w" for a b c
  proof -
    have "\<not> risky s a b c" if "(a, b) \<in> H" "(b, c) \<in> H" using inv(4) that unfolding history_ok_def by blast
    moreover have "\<not> risky s r w c" if "(w, c) \<in> H"
      using safe_out [OF inv(4,2) assms(7) that] historyD(2) [OF inv(3) that] \<open>\<not> dangerous s (recorded s) r w\<close> rec by simp
    moreover have "\<not> risky s a r w" if "(a, r) \<in> H"
      using safe_in [OF inv(4,2) historyD(4) [OF inv(3) that] live that assms(6)] \<open>\<not> dangerous s (recorded s) r w\<close> rec by simp
    ultimately show ?thesis using that(1,2) assms(4) by blast
  qed
  ultimately show ?thesis by blast
qed

theorem conflict_check_decides_witness:
  "conflict_failure 1 2 ssi_example = (Inr (completes ssi_example (recorded ssi_example) 1 2), ssi_example)"
proof -
  have n: "flags (new_sxact 0 5 1 1) = 0" by (simp add: new_sxact_def)
  have i: "in_use ssi_example 1" "in_use ssi_example 2" by (simp_all add: in_use_def ssi_example_fields)
  have "running ssi_example {} 1" "\<not> SxactIsReadOnly (sx ssi_example 2)" "\<not> SxactIsCommitted (sx ssi_example 2)"
    using i by (simp_all add: running_def ssi_example_fields SxactIsPrepared_def SxactIsReadOnly_def SxactIsCommitted_def n InvalidSerCommitSeqNo_def)
  with conflict_check_decides [OF ssi_example_reachable _ _ _ i, of 1] show ?thesis by auto
qed

end
