(* ===== verification/MigrateConflict.thy ===== *)
theory MigrateConflict
  imports PredicateAlone
begin

text \<open>
  Migration queries in serializable transactions: a query whose plan has run and that then meets a read/write
  conflict which makes a dangerous structure, seen from the writer (\<open>txn_error_handling\<close> is called) and from the
  reader (it is not).
\<close>

subsection \<open>A query that meets a conflict\<close>

definition conflicting_query where
  "conflicting_query qs fuel estate node ts reader writer =
     thenp (bind_migration qs)
     (bindp (run_plan fuel estate node ts) (\<lambda>(estate, node, dest).
     thenp (LWLockAcquire SerializableXactHashLock LW_EXCLUSIVE)
     (FlagRWConflict reader writer)))"

lemma claims_taken [simp]: "claims (taken i s) b es0 es1 = claims s b es0 es1"
  by (simp add: claims_def local_lists_def list_elems_ok_def locked_def taken_def set_word_def set_lock_def)

lemma sets_taken [simp]: "locked (taken i s) = locked s" "migrated (taken i s) = migrated s" "migrateflag (taken i s) = migrateflag s"
  by (simp_all add: locked_def migrated_def fun_eq_iff taken_def set_word_def set_lock_def)

lemma lock_ready_heap:
  "lock_ready i (s\<lparr>heap := h, migrateflag := f, tuplemigratecount := n, InProgLocalList0 := l0, InProgLocalList1 := l1\<rparr>) = lock_ready i s"
  by (simp add: lock_ready_def)

text \<open>The cleanup of a cancelled query, made while a lock is held, and the release of the lock.\<close>

lemma wp_cleanup_release:
  assumes r: "lock_ready i s" and c: "claims s b es0 es1" and flag: "migrateflag s" and ne: "es0 \<noteq> []"
    and Q: "\<And>t. query_over s t \<Longrightarrow> locked t b = locked s b - set es0 \<Longrightarrow> migrated t b = migrated s b \<Longrightarrow> Q () t"
  shows "wp (thenp txn_error_handling (LWLockRelease i)) Q E (taken i s)"
proof -
  obtain t where t: "txn_error_handling (taken i s) = (Inr (), t)" "query_over (taken i s) t"
      "locked t b = locked s b - set es0" "migrated t b = migrated s b"
    using txn_error_sets [of "taken i s" b es0 es1] c flag ne by auto
  then obtain m h where eq: "t = (with_bitmap m (taken i s))\<lparr>heap := h, migrateflag := False, tuplemigratecount := 0, InProgLocalList0 := 0,
      InProgLocalList1 := 0\<rparr>" unfolding query_over_def by blast
  let ?s = "s\<lparr>heap := h, migrateflag := False, tuplemigratecount := 0, InProgLocalList0 := 0, InProgLocalList1 := 0\<rparr>"
  have eq': "t = with_bitmap m (taken i ?s)"
    unfolding eq by (rule backend.equality) (simp_all add: taken_def with_bitmap_def set_word_def set_lock_def)
  let ?t = "with_bitmap m ?s"
  have "query_over s ?t" "locked ?t b = locked t b" "migrated ?t b = migrated t b"
    using t(2) unfolding eq' by (simp_all add: query_over_def local_lists_def locked_def migrated_def taken_def set_word_def set_lock_def)
      (simp add: with_bitmap_def)
  with Q t(3,4) have "Q () ?t" by simp
  moreover have "wp (LWLockRelease i) Q E t = Q () ?t"
    unfolding eq' by (rule wp_release_taken) (simp add: lock_ready_heap r)
  ultimately show ?thesis by (simp add: wp_thenp wp_of_eq [where m = txn_error_handling, OF t(1)])
qed

text \<open>A conflict that makes a dangerous structure, flagged by the writer, and by the reader when the writer is prepared.\<close>

lemma flag_dangerous:
  assumes r: "lock_ready SerializableXactHashLock s" and q: "queues_ok (PredXact (shm s)) E U A"
    and rw: "reader < length (element (PredXact (shm s)))" "writer < length (element (PredXact (shm s)))" "reader \<noteq> writer"
    and d: "dangerous (PredXact (shm s)) (recorded (PredXact (shm s))) reader writer"
  shows "MySerializableXact s = Some writer \<Longrightarrow>
     wp (FlagRWConflict reader writer) Q Er (taken SerializableXactHashLock s) =
       wp (thenp txn_error_handling (LWLockRelease SerializableXactHashLock))
         (\<lambda>_. Er (serialization_failure ''Canceled on identification as a pivot, during write.'')) Er (taken SerializableXactHashLock s)"
    and "MySerializableXact s = Some reader \<Longrightarrow> SxactIsPrepared (element (PredXact (shm s)) ! writer) \<Longrightarrow>
     wp (FlagRWConflict reader writer) Q Er (taken SerializableXactHashLock s) =
       Er (serialization_failure ''Canceled on conflict out to pivot, during read.'') s"
proof -
  let ?p = "PredXact (shm s)" and ?L = SerializableXactHashLock
  have e: "env (taken ?L s) = []" using r by (simp add: lock_ready_def)
  have s: "taken ?L s = with_ssi ?p (taken ?L s)" "with_ssi ?p s = s" by (simp_all add: with_ssi_def taken_def set_word_def set_lock_def)
  have check: "wp (conflict_failure reader writer) Q Er ?p = Q True ?p" for Q Er
    using wp_conflict_failure [OF q rw(1,2)] d recorded_edges [OF q] by simp
  have throw: "wp (throw err) Q Er = Er err" for err and Q :: "unit \<Rightarrow> backend \<Rightarrow> bool" and Er by (simp add: fun_eq_iff wp_throw)
  note run = FlagRWConflict_def OnConflict_CheckForSerializationFailure_def LWLockHeldByMe_def wp_thenp wp_bindp wp_gets wp_assertp
    wp_in_ssi_alone [OF e] check wp_whenp wp_if wp_get_sxact wp_release_ssi [OF r] throw s(2) rw
  show "wp (FlagRWConflict reader writer) Q Er (taken ?L s) = wp (thenp txn_error_handling (LWLockRelease ?L))
      (\<lambda>_. Er (serialization_failure ''Canceled on identification as a pivot, during write.'')) Er (taken ?L s)"
    if "MySerializableXact s = Some writer"
    by (subst (1 2) s(1)) (simp add: run that)
  show "wp (FlagRWConflict reader writer) Q Er (taken ?L s) = Er (serialization_failure ''Canceled on conflict out to pivot, during read.'') s"
    if "MySerializableXact s = Some reader" "SxactIsPrepared (element ?p ! writer)"
    by (subst s(1)) (simp add: run that)
qed

text \<open>A scan leaves the shared data of transactions, the locks and the transaction alone.\<close>

lemma scanned_ssi:
  assumes "scanned (bound num b s) t"
  shows "PredXact (shm t) = PredXact (shm s)" "MySerializableXact t = MySerializableXact s" "lock_ready i t = lock_ready i s"
proof -
  obtain m h c l0 l1 where t: "t = (with_bitmap m (bound num b s))\<lparr>heap := h, tuplemigratecount := c,
      InProgLocalList0 := l0, InProgLocalList1 := l1\<rparr>"
    using assms unfolding scanned_def by blast
  show "PredXact (shm t) = PredXact (shm s)" "MySerializableXact t = MySerializableXact s" "lock_ready i t = lock_ready i s"
    by (simp_all add: t with_bitmap_def bound_def lock_ready_def)
qed

lemma conflicting_query_ends:
  assumes q: "binds qs num b" and s: "idle s num" and i: "scan_input s b fuel estate node ts"
    and c: "claim_all (passes node) (locked s b) (migrated s b) ts = (cs, ws)"
    and r: "lock_ready SerializableXactHashLock s" and p: "queues_ok (PredXact (shm s)) E U A"
    and rw: "reader < length (element (PredXact (shm s)))" "writer < length (element (PredXact (shm s)))" "reader \<noteq> writer"
    and d: "dangerous (PredXact (shm s)) (recorded (PredXact (shm s))) reader writer"
  shows "MySerializableXact s = Some writer \<Longrightarrow> cs \<noteq> [] \<Longrightarrow>
     wp (conflicting_query qs fuel estate node ts reader writer) (\<lambda>_ _. False)
       (\<lambda>err t. err = serialization_failure ''Canceled on identification as a pivot, during write.'' \<and> query_over (bound num b s) t \<and>
          locked t b = locked s b \<and> migrated t b = migrated s b) s"
    and "MySerializableXact s = Some reader \<Longrightarrow> SxactIsPrepared (element (PredXact (shm s)) ! writer) \<Longrightarrow>
     wp (conflicting_query qs fuel estate node ts reader writer) (\<lambda>_ _. False)
       (\<lambda>err t. err = serialization_failure ''Canceled on conflict out to pivot, during read.'' \<and> migrateflag t \<and>
          locked t b = locked s b \<union> elem_of ` set cs \<and> migrated t b = migrated s b) s"
proof -
  let ?L = SerializableXactHashLock
  have new: "locked s b \<union> elem_of ` set cs - elem_of ` set cs = locked s b" using claim_all_new [OF c] by blast
  have flag: "wp (thenp (LWLockAcquire ?L LW_EXCLUSIVE) (FlagRWConflict reader writer)) Q Er t = wp (FlagRWConflict reader writer) Q Er (taken ?L t)"
    if "scanned (bound num b s) t" for t Q Er
    using scanned_ssi(3) [OF that, of ?L] r by (simp add: wp_thenp wp_acquire_ready)
  have dang: "lock_ready ?L t" "queues_ok (PredXact (shm t)) E U A" "reader < length (element (PredXact (shm t)))"
      "writer < length (element (PredXact (shm t)))" "dangerous (PredXact (shm t)) (recorded (PredXact (shm t))) reader writer"
    if "scanned (bound num b s) t" for t
    using scanned_ssi(1) [OF that] scanned_ssi(3) [OF that, of ?L] r p rw d by simp_all
  note meets = flag_dangerous [OF dang(1-4) rw(3) dang(5)]
  show "wp (conflicting_query qs fuel estate node ts reader writer) (\<lambda>_ _. False)
       (\<lambda>err t. err = serialization_failure ''Canceled on identification as a pivot, during write.'' \<and> query_over (bound num b s) t \<and>
          locked t b = locked s b \<and> migrated t b = migrated s b) s" if "MySerializableXact s = Some writer" "cs \<noteq> []"
    unfolding conflicting_query_def
  proof (rule query_then [OF q s i c])
    fix t
    assume t: "scanned (bound num b s) t" "claims t b (map elem_of cs) ws" "migrateflag t"
        "locked t b = locked s b \<union> elem_of ` set cs" "migrated t b = migrated s b"
    show "wp (thenp (LWLockAcquire SerializableXactHashLock LW_EXCLUSIVE) (FlagRWConflict reader writer)) (\<lambda>_ _. False)
       (\<lambda>err t. err = serialization_failure ''Canceled on identification as a pivot, during write.'' \<and> query_over (bound num b s) t \<and>
          locked t b = locked s b \<and> migrated t b = migrated s b) t"
      unfolding flag [OF t(1)] meets(1) [OF t(1) t(1) t(1) t(1) t(1) scanned_ssi(2) [OF t(1), unfolded that(1)]]
      by (rule wp_cleanup_release [OF _ t(2,3)]) (use t new that r query_over_trans [OF t(1)] scanned_ssi(3) [OF t(1)] in auto)
  qed
  show "wp (conflicting_query qs fuel estate node ts reader writer) (\<lambda>_ _. False)
       (\<lambda>err t. err = serialization_failure ''Canceled on conflict out to pivot, during read.'' \<and> migrateflag t \<and>
          locked t b = locked s b \<union> elem_of ` set cs \<and> migrated t b = migrated s b) s"
    if "MySerializableXact s = Some reader" "SxactIsPrepared (element (PredXact (shm s)) ! writer)"
    unfolding conflicting_query_def
    by (rule query_then [OF q s i c]) (simp add: flag meets(2) scanned_ssi(1,2) that)
qed

subsection \<open>An instance\<close>

text \<open>
  Three transactions: 1 has read what 2 has written, and 2 is prepared. The flags of 1 are given. A reader 3 of what 1
  writes makes 1 a pivot.
\<close>

definition pivot_example :: "uint32 \<Rightarrow> ssi" where
  "pivot_example f = (InitPredicateLocks 1)
     \<lparr>element := [blank_sxact\<lparr>flags := SXACT_FLAG_COMMITTED\<rparr>,
                  (new_sxact 0 5 1 1)\<lparr>outConflicts := [OutLink 0], flags := f\<rparr>,
                  (new_sxact 0 5 2 1)\<lparr>inConflicts := [InLink 0], prepareSeqNo := 2, flags := SXACT_FLAG_PREPARED\<rparr>,
                  new_sxact 0 5 3 1],
      activeList := [0, 1, 2, 3], availableList := [], pool := [\<lparr>sxactOut = 1, sxactIn = 2\<rparr>], poolAvailable := []\<rparr>"

definition serializable_backend :: "ssi \<Rightarrow> nat \<Rightarrow> backend" where
  "serializable_backend p me = (with_ssi p fresh_backend)\<lparr>MySerializableXact := Some me\<rparr>"

lemma pivot_example_queues: "queues_ok (pivot_example f) {0} {} {}"
  by (auto simp: queues_ok_def pivot_example_def less_Suc_eq numeral_eq_Suc blank_sxact_def new_sxact_def intro!: gr0I)

lemma pivot_example_length: "length (element (pivot_example f)) = 4"
  by (simp add: pivot_example_def)

lemma pivot_example_dangerous:
  assumes "f = 0 \<or> f = SXACT_FLAG_PREPARED"
  shows "dangerous (pivot_example f) (recorded (pivot_example f)) 3 (Suc 0)"
  unfolding recorded_edges [OF pivot_example_queues] using assms
  by (auto simp add: dangerous_def pivot_example_def edge_of_def pivot_out_def new_sxact_def SxactIsPrepared_def SxactIsCommitted_def
      SxactIsReadOnly_def SXACT_FLAG_PREPARED_def SXACT_FLAG_COMMITTED_def SXACT_FLAG_READ_ONLY_def)

lemma pivot_example_prepared: "SxactIsPrepared (element (pivot_example SXACT_FLAG_PREPARED) ! Suc 0)"
  by (simp add: pivot_example_def SxactIsPrepared_def SXACT_FLAG_PREPARED_def)

lemma serializable_backend_like_fresh:
  "idle (serializable_backend p me) num = idle fresh_backend num"
  "scan_input (serializable_backend p me) = scan_input fresh_backend"
  "locked (serializable_backend p me) = locked fresh_backend" "migrated (serializable_backend p me) = migrated fresh_backend"
  "lock_ready i (serializable_backend p me) = lock_ready i fresh_backend"
  "PredXact (shm (serializable_backend p me)) = p" "MySerializableXact (serializable_backend p me) = Some me"
  by (simp_all add: serializable_backend_def with_ssi_def idle_def lock_ready_def scan_input_def locked_def migrated_def fun_eq_iff)

end
