(* ===== verification/ShmQueue.thy ===== *)
theory ShmQueue
  imports LinkQueue
begin

text \<open>
  The doubly linked queues in shared memory of \<open>src/backend/storage/ipc/shmqueue.c\<close>. A queue is a ring of links, one of
  which is its head; the other links are fields of the structures in the queue.

  An address is a 64-bit word. The segment has a link at every address at which the code has one; links do not overlap.
\<close>

subsection \<open>Operations\<close>

record SHM_QUEUE =
  prev_link :: uint64
  next_link :: uint64

record shm_segment =
  ShmemBase :: uint64
  ShmemEnd :: uint64
  link_at :: "uint64 \<Rightarrow> SHM_QUEUE"

definition ShmemAddrIsValid :: "shm_segment \<Rightarrow> uint64 \<Rightarrow> bool" where
  "ShmemAddrIsValid m addr \<longleftrightarrow> addr \<ge> ShmemBase m \<and> addr < ShmemEnd m"

definition deref :: "shm_segment \<Rightarrow> uint64 \<Rightarrow> SHM_QUEUE result" where
  "deref m a = (if a = 0 then Inl NullDeref else if \<not> ShmemAddrIsValid m a then Inl BadAddr else Inr (link_at m a))"

definition assign :: "uint64 \<Rightarrow> (SHM_QUEUE \<Rightarrow> SHM_QUEUE) \<Rightarrow> shm_segment \<Rightarrow> shm_segment result" where
  "assign a f m = bind_res (deref m a) (\<lambda>l. Inr (m\<lparr>link_at := (link_at m)(a := f l)\<rparr>))"

definition SHMQueueInit :: "uint64 \<Rightarrow> shm_segment \<Rightarrow> shm_segment result" where
  "SHMQueueInit queue m =
     bind_res (Assert (ShmemAddrIsValid m queue)) (\<lambda>_.
     assign queue (\<lambda>q. q\<lparr>prev_link := queue, next_link := queue\<rparr>) m)"

definition SHMQueueIsDetached :: "uint64 \<Rightarrow> shm_segment \<Rightarrow> bool result" where
  "SHMQueueIsDetached queue m =
     bind_res (Assert (ShmemAddrIsValid m queue)) (\<lambda>_.
     bind_res (deref m queue) (\<lambda>q. Inr (prev_link q = 0)))"

definition SHMQueueElemInit :: "uint64 \<Rightarrow> shm_segment \<Rightarrow> shm_segment result" where
  "SHMQueueElemInit queue m =
     bind_res (Assert (ShmemAddrIsValid m queue)) (\<lambda>_.
     assign queue (\<lambda>q. q\<lparr>prev_link := 0, next_link := 0\<rparr>) m)"

definition SHMQueueDelete :: "uint64 \<Rightarrow> shm_segment \<Rightarrow> shm_segment result" where
  "SHMQueueDelete queue m =
     bind_res (deref m queue) (\<lambda>q.
     let nextElem = next_link q; prevElem = prev_link q in
     bind_res (Assert (ShmemAddrIsValid m queue)) (\<lambda>_.
     bind_res (Assert (ShmemAddrIsValid m nextElem)) (\<lambda>_.
     bind_res (Assert (ShmemAddrIsValid m prevElem)) (\<lambda>_.
     bind_res (assign prevElem (\<lambda>p. p\<lparr>next_link := next_link q\<rparr>) m) (\<lambda>m.
     bind_res (deref m queue) (\<lambda>q.
     bind_res (assign nextElem (\<lambda>n. n\<lparr>prev_link := prev_link q\<rparr>) m) (\<lambda>m.
     assign queue (\<lambda>q. q\<lparr>prev_link := 0, next_link := 0\<rparr>) m)))))))"

definition SHMQueueInsertBefore :: "uint64 \<Rightarrow> uint64 \<Rightarrow> shm_segment \<Rightarrow> shm_segment result" where
  "SHMQueueInsertBefore queue elem m =
     bind_res (deref m queue) (\<lambda>q.
     let prevPtr = prev_link q in
     bind_res (Assert (ShmemAddrIsValid m queue)) (\<lambda>_.
     bind_res (Assert (ShmemAddrIsValid m elem)) (\<lambda>_.
     bind_res (deref m prevPtr) (\<lambda>p.
     bind_res (assign elem (\<lambda>e. e\<lparr>next_link := next_link p\<rparr>) m) (\<lambda>m.
     bind_res (deref m queue) (\<lambda>q.
     bind_res (assign elem (\<lambda>e. e\<lparr>prev_link := prev_link q\<rparr>) m) (\<lambda>m.
     bind_res (assign queue (\<lambda>q. q\<lparr>prev_link := elem\<rparr>) m) (\<lambda>m.
     assign prevPtr (\<lambda>p. p\<lparr>next_link := elem\<rparr>) m))))))))"

definition SHMQueueInsertAfter :: "uint64 \<Rightarrow> uint64 \<Rightarrow> shm_segment \<Rightarrow> shm_segment result" where
  "SHMQueueInsertAfter queue elem m =
     bind_res (deref m queue) (\<lambda>q.
     let nextPtr = next_link q in
     bind_res (Assert (ShmemAddrIsValid m queue)) (\<lambda>_.
     bind_res (Assert (ShmemAddrIsValid m elem)) (\<lambda>_.
     bind_res (deref m nextPtr) (\<lambda>n.
     bind_res (assign elem (\<lambda>e. e\<lparr>prev_link := prev_link n\<rparr>) m) (\<lambda>m.
     bind_res (deref m queue) (\<lambda>q.
     bind_res (assign elem (\<lambda>e. e\<lparr>next_link := next_link q\<rparr>) m) (\<lambda>m.
     bind_res (assign queue (\<lambda>q. q\<lparr>next_link := elem\<rparr>) m) (\<lambda>m.
     assign nextPtr (\<lambda>n. n\<lparr>prev_link := elem\<rparr>) m))))))))"

definition SHMQueueNext :: "uint64 \<Rightarrow> uint64 \<Rightarrow> uint64 \<Rightarrow> shm_segment \<Rightarrow> uint64 result" where
  "SHMQueueNext queue curElem linkOffset m =
     bind_res (deref m curElem) (\<lambda>c.
     let elemPtr = next_link c in
     bind_res (Assert (ShmemAddrIsValid m curElem)) (\<lambda>_.
     if elemPtr = queue then Inr 0 else Inr (elemPtr - linkOffset)))"

definition SHMQueuePrev :: "uint64 \<Rightarrow> uint64 \<Rightarrow> uint64 \<Rightarrow> shm_segment \<Rightarrow> uint64 result" where
  "SHMQueuePrev queue curElem linkOffset m =
     bind_res (deref m curElem) (\<lambda>c.
     let elemPtr = prev_link c in
     bind_res (Assert (ShmemAddrIsValid m curElem)) (\<lambda>_.
     if elemPtr = queue then Inr 0 else Inr (elemPtr - linkOffset)))"

definition SHMQueueEmpty :: "uint64 \<Rightarrow> shm_segment \<Rightarrow> bool result" where
  "SHMQueueEmpty queue m =
     bind_res (Assert (ShmemAddrIsValid m queue)) (\<lambda>_.
     bind_res (deref m queue) (\<lambda>q.
     if prev_link q = queue then bind_res (Assert (next_link q = queue)) (\<lambda>_. Inr True) else Inr False))"



subsection \<open>Rings\<close>

text \<open>The links from \<open>a\<close> through \<open>xs\<close> to \<open>b\<close>, both ways.\<close>

fun links :: "shm_segment \<Rightarrow> uint64 \<Rightarrow> uint64 list \<Rightarrow> uint64 \<Rightarrow> bool" where
  "links m a [] b \<longleftrightarrow> next_link (link_at m a) = b \<and> prev_link (link_at m b) = a"
| "links m a (x # xs) b \<longleftrightarrow> next_link (link_at m a) = x \<and> prev_link (link_at m x) = a \<and> links m x xs b"

definition cell_ok :: "shm_segment \<Rightarrow> uint64 \<Rightarrow> bool" where
  "cell_ok m a \<longleftrightarrow> a \<noteq> 0 \<and> ShmemAddrIsValid m a"

text \<open>The queue with head \<open>q\<close> is the sequence \<open>xs\<close> of links.\<close>

definition ring :: "shm_segment \<Rightarrow> uint64 \<Rightarrow> uint64 list \<Rightarrow> bool" where
  "ring m q xs \<longleftrightarrow> distinct (q # xs) \<and> (\<forall>a \<in> set (q # xs). cell_ok m a) \<and> links m q xs q"

lemma links_append: "links m a (xs @ x # ys) b \<longleftrightarrow> links m a xs x \<and> links m x ys b"
  by (induction xs arbitrary: a) auto

lemma links_frame:
  assumes "\<forall>x \<in> set (a # xs). next_link (link_at m' x) = next_link (link_at m x)"
    and "\<forall>x \<in> set (xs @ [b]). prev_link (link_at m' x) = prev_link (link_at m x)"
  shows "links m' a xs b \<longleftrightarrow> links m a xs b"
  using assms by (induction xs arbitrary: a) auto

lemma links_last:
  assumes "links m a xs b" and "\<forall>x \<in> set (butlast (a # xs)). next_link (link_at m' x) = next_link (link_at m x)"
    and "\<forall>x \<in> set xs. prev_link (link_at m' x) = prev_link (link_at m x)"
    and "next_link (link_at m' (last (a # xs))) = c" "prev_link (link_at m' c) = last (a # xs)"
  shows "links m' a xs c"
  using assms by (induction xs arbitrary: a) (auto split: if_splits)

lemma links_ends: "links m a xs b \<Longrightarrow> next_link (link_at m a) = hd (xs @ [b]) \<and> prev_link (link_at m b) = last (a # xs)"
  by (induction xs arbitrary: a) auto

lemma deref_ok [simp]: "cell_ok m a \<Longrightarrow> deref m a = Inr (link_at m a)"
  by (simp add: deref_def cell_ok_def)

lemma assign_ok [simp]: "cell_ok m a \<Longrightarrow> assign a f m = Inr (m\<lparr>link_at := (link_at m)(a := f (link_at m a))\<rparr>)"
  by (simp add: assign_def)

lemma cell_ok_links [simp]: "cell_ok (m\<lparr>link_at := f\<rparr>) a = cell_ok m a" "ShmemAddrIsValid (m\<lparr>link_at := f\<rparr>) a = ShmemAddrIsValid m a"
  by (simp_all add: cell_ok_def ShmemAddrIsValid_def)

lemma cell_ok_valid [simp]: "cell_ok m a \<Longrightarrow> ShmemAddrIsValid m a"
  by (simp add: cell_ok_def)

text \<open>
  Links that are changed at one place of the ring, between \<open>A\<close> and \<open>B\<close>: \<open>e\<close> goes between \<open>ys\<close> and \<open>zs\<close>, or leaves.
\<close>

lemma place_in_ring:
  assumes "distinct (q # ys @ zs)" and "A = last (q # ys)" and "B = hd (zs @ [q])"
  shows "A \<in> set (q # ys)" "B \<in> set (zs @ [q])" "A \<notin> set zs" "B \<notin> set ys" "A \<notin> set (butlast (q # ys))"
proof -
  show A: "A \<in> set (q # ys)" and B: "B \<in> set (zs @ [q])" using assms(2,3) by (simp_all add: hd_append)
  show "A \<notin> set zs" "B \<notin> set ys" using A B assms(1) by auto
  have "distinct (butlast (q # ys) @ [A])" using assms(1) unfolding assms(2) by (subst append_butlast_last_id) auto
  then show "A \<notin> set (butlast (q # ys))" by simp
qed

lemma ring_insert:
  assumes r: "ring m q (ys @ zs)" and e: "cell_ok m e" "e \<notin> set (q # ys @ zs)" and ok: "\<And>x. cell_ok m' x = cell_ok m x"
    and A: "A = last (q # ys)" and B: "B = hd (zs @ [q])"
    and nxt: "\<And>x. next_link (link_at m' x) = (if x = A then e else if x = e then B else next_link (link_at m x))"
    and prv: "\<And>x. prev_link (link_at m' x) = (if x = B then e else if x = e then A else prev_link (link_at m x))"
  shows "ring m' q (ys @ e # zs)"
proof -
  have d: "distinct (q # ys @ zs)" and c: "\<forall>a \<in> set (q # ys @ zs). cell_ok m a" and l: "links m q (ys @ zs) q"
    using r by (simp_all add: ring_def)
  note p = place_in_ring [OF d A B]
  have ne: "A \<noteq> e" "B \<noteq> e" using p(1,2) e(2) by auto
  have be: "e \<notin> set (butlast (q # ys))" using e(2) in_set_butlastD [of e "q # ys"] by auto
  have first: "links m' q ys e" if "links m q ys b" for b
  proof (rule links_last [OF that])
    show "\<forall>x \<in> set (butlast (q # ys)). next_link (link_at m' x) = next_link (link_at m x)" using p(5) be unfolding nxt by metis
    show "\<forall>x \<in> set ys. prev_link (link_at m' x) = prev_link (link_at m x)" using p(4) e(2) unfolding prv by auto
    show "next_link (link_at m' (last (q # ys))) = e" "prev_link (link_at m' e) = last (q # ys)"
      using ne nxt [of A] prv [of e] by (simp_all only: A [symmetric] if_True if_False not_sym simp_thms split: if_split_asm)
  qed
  have "links m' q ys e \<and> links m' e zs q"
  proof (cases zs)
    case Nil
    with B ne first [of q] l show ?thesis by (simp add: nxt prv)
  next
    case (Cons z xs)
    then have *: "links m q ys z" "links m z xs q" and z: "B = z" using l B by (simp_all add: links_append)
    have "links m' z xs q" using *(2) e(2) p(3) d Cons z by (subst links_frame [of z xs m' m q]) (auto simp: nxt prv)
    then show ?thesis using Cons ne first [OF *(1)] z by (simp add: nxt prv)
  qed
  then show ?thesis using d c e ok by (auto simp: ring_def links_append)
qed

lemma ring_delete:
  assumes r: "ring m q (ys @ e # zs)" and ok: "\<And>x. cell_ok m' x = cell_ok m x"
    and A: "A = last (q # ys)" and B: "B = hd (zs @ [q])"
    and nxt: "\<And>x. next_link (link_at m' x) = (if x = e then 0 else if x = A then B else next_link (link_at m x))"
    and prv: "\<And>x. prev_link (link_at m' x) = (if x = e then 0 else if x = B then A else prev_link (link_at m x))"
  shows "ring m' q (ys @ zs)"
proof -
  have d: "distinct (q # ys @ zs)" "e \<notin> set (q # ys @ zs)" and c: "\<forall>a \<in> set (q # ys @ zs). cell_ok m a" and l: "links m q ys e" "links m e zs q"
    using r by (auto simp: ring_def links_append)
  note p = place_in_ring [OF d(1) A B]
  have ne: "A \<noteq> e" "B \<noteq> e" using p(1,2) d(2) by auto
  have be: "e \<notin> set (butlast (q # ys))" using d(2) in_set_butlastD [of e "q # ys"] by auto
  have first: "links m' q ys B"
  proof (rule links_last [OF l(1)])
    show "\<forall>x \<in> set (butlast (q # ys)). next_link (link_at m' x) = next_link (link_at m x)" using be p(5) nxt by metis
    have "\<forall>x \<in> set ys. x \<noteq> e \<and> x \<noteq> B" using p(4) d(2) by auto
    then show "\<forall>x \<in> set ys. prev_link (link_at m' x) = prev_link (link_at m x)" using prv by simp
    show "next_link (link_at m' (last (q # ys))) = B" "prev_link (link_at m' B) = last (q # ys)"
      using ne nxt [of A] prv [of B] by (simp_all only: A [symmetric] if_True if_False simp_thms)
  qed
  have "links m' q (ys @ zs) q"
  proof (cases zs)
    case Nil
    then show ?thesis using first B by simp
  next
    case (Cons z xs)
    then have *: "links m z xs q" "B = z" using l(2) B by simp_all
    have "links m' z xs q" using *(1) p(3) d Cons *(2) by (subst links_frame [of z xs m' m q]) (auto simp: nxt prv)
    then show ?thesis using Cons first *(2) by (simp add: links_append)
  qed
  then show ?thesis using d c ok by (auto simp: ring_def)
qed

subsection \<open>What the operations do to a ring\<close>

lemma ring_cells: "ring m q xs \<Longrightarrow> a \<in> set (q # xs) \<Longrightarrow> cell_ok m a"
  by (auto simp: ring_def)

lemma ring_place:
  assumes "ring m q (ys @ zs)"
  shows "next_link (link_at m (last (q # ys))) = hd (zs @ [q])" "prev_link (link_at m (hd (zs @ [q]))) = last (q # ys)"
    "cell_ok m (last (q # ys))" "cell_ok m (hd (zs @ [q]))"
proof -
  have l: "links m q (ys @ zs) q" and c: "\<forall>a \<in> set (q # ys @ zs). cell_ok m a" using assms by (simp_all add: ring_def)
  show "next_link (link_at m (last (q # ys))) = hd (zs @ [q])" "prev_link (link_at m (hd (zs @ [q]))) = last (q # ys)"
    using l by (induction ys arbitrary: q rule: rev_induct; cases zs; simp add: links_append; fail)+
  show "cell_ok m (last (q # ys))" "cell_ok m (hd (zs @ [q]))" using c by (auto simp: hd_append)
qed

text \<open>A link outside of every queue.\<close>

definition detached :: "shm_segment \<Rightarrow> uint64 \<Rightarrow> bool" where
  "detached m e \<longleftrightarrow> cell_ok m e \<and> link_at m e = \<lparr>prev_link = 0, next_link = 0\<rparr>"

lemma detached_notin:
  assumes "ring m q xs" and "detached m e"
  shows "e \<notin> set (q # xs)"
proof
  assume e: "e \<in> set (q # xs)"
  have "prev_link (link_at m e) \<in> set (q # xs)"
  proof (cases "e = q")
    case True
    then show ?thesis using ring_place(2) [of m q xs "[]"] assms(1) by simp
  next
    case False
    then obtain ys zs where xs: "xs = ys @ e # zs" using e by (auto simp: in_set_conv_decomp)
    then show ?thesis using ring_place(2) [of m q ys "e # zs"] assms(1) by auto
  qed
  moreover have "0 \<notin> set (q # xs)" using ring_cells [OF assms(1), of 0] by (auto simp: cell_ok_def)
  ultimately show False using assms(2) by (simp add: detached_def)
qed

definition changed_only :: "uint64 set \<Rightarrow> shm_segment \<Rightarrow> shm_segment \<Rightarrow> bool" where
  "changed_only X m m' \<longleftrightarrow> (\<forall>a. cell_ok m' a = cell_ok m a) \<and> (\<forall>a. a \<notin> X \<longrightarrow> link_at m' a = link_at m a)"

definition spliced :: "uint64 \<Rightarrow> uint64 \<Rightarrow> uint64 \<Rightarrow> shm_segment \<Rightarrow> shm_segment" where
  "spliced A e B m = m\<lparr>link_at := (\<lambda>x. \<lparr>prev_link = (if x = B then e else if x = e then A else prev_link (link_at m x)),
     next_link = (if x = A then e else if x = e then B else next_link (link_at m x))\<rparr>)\<rparr>"

lemma ring_spliced:
  assumes r: "ring m q (ys @ zs)" and e: "detached m e"
  shows "ring (spliced (last (q # ys)) e (hd (zs @ [q])) m) q (ys @ e # zs)"
    and "changed_only (set (e # q # ys @ zs)) m (spliced (last (q # ys)) e (hd (zs @ [q])) m)"
proof -
  show "ring (spliced (last (q # ys)) e (hd (zs @ [q])) m) q (ys @ e # zs)"
    using e detached_notin [OF r e] by (intro ring_insert [OF r]) (simp_all add: spliced_def detached_def)
  have "last (q # ys) \<in> set (q # ys)" "hd (zs @ [q]) \<in> set (zs @ [q])" by (simp_all add: hd_append)
  then show "changed_only (set (e # q # ys @ zs)) m (spliced (last (q # ys)) e (hd (zs @ [q])) m)"
    by (auto simp: changed_only_def spliced_def)
qed

lemma insert_spliced:
  assumes r: "ring m q (ys @ zs)" and e: "detached m e"
  shows "SHMQueueInsertBefore (hd (zs @ [q])) e m = Inr (spliced (last (q # ys)) e (hd (zs @ [q])) m)"
    and "SHMQueueInsertAfter (last (q # ys)) e m = Inr (spliced (last (q # ys)) e (hd (zs @ [q])) m)"
proof -
  define A B where "A = last (q # ys)" and "B = hd (zs @ [q])"
  have "A \<in> set (q # ys)" "B \<in> set (zs @ [q])" by (simp_all add: hd_append A_def B_def)
  then have ne: "A \<noteq> e" "B \<noteq> e" using detached_notin [OF r e] by auto
  have p: "next_link (link_at m A) = B" "prev_link (link_at m B) = A" "cell_ok m A" "cell_ok m B" "cell_ok m e"
    using ring_place [OF r] e by (simp_all only: A_def B_def detached_def)
  show "SHMQueueInsertBefore (hd (zs @ [q])) e m = Inr (spliced (last (q # ys)) e (hd (zs @ [q])) m)"
    unfolding A_def [symmetric] B_def [symmetric]
    using p ne by (auto simp: SHMQueueInsertBefore_def Let_def spliced_def fun_eq_iff intro!: shm_segment.equality)
  show "SHMQueueInsertAfter (last (q # ys)) e m = Inr (spliced (last (q # ys)) e (hd (zs @ [q])) m)"
    unfolding A_def [symmetric] B_def [symmetric]
    using p ne by (auto simp: SHMQueueInsertAfter_def Let_def spliced_def fun_eq_iff intro!: shm_segment.equality)
qed

lemma delete_spliced:
  assumes r: "ring m q (ys @ zs)" and e: "detached m e"
  shows "SHMQueueDelete e (spliced (last (q # ys)) e (hd (zs @ [q])) m) = Inr m"
proof -
  define A B where "A = last (q # ys)" and "B = hd (zs @ [q])"
  have "A \<in> set (q # ys)" "B \<in> set (zs @ [q])" by (simp_all add: hd_append A_def B_def)
  then have ne: "A \<noteq> e" "B \<noteq> e" using detached_notin [OF r e] by auto
  have p: "next_link (link_at m A) = B" "prev_link (link_at m B) = A" "cell_ok m A" "cell_ok m B" "cell_ok m e"
      "link_at m e = \<lparr>prev_link = 0, next_link = 0\<rparr>"
    using ring_place [OF r] e by (simp_all only: A_def B_def detached_def)
  show ?thesis
    unfolding A_def [symmetric] B_def [symmetric]
    using p ne by (auto simp: SHMQueueDelete_def Let_def spliced_def fun_eq_iff intro!: shm_segment.equality SHM_QUEUE.equality)
qed

lemma delete_ring:
  assumes r: "ring m q (ys @ e # zs)"
  shows "\<exists>m'. SHMQueueDelete e m = Inr m' \<and> ring m' q (ys @ zs) \<and> detached m' e \<and> changed_only (set (q # ys @ e # zs)) m m'"
proof -
  define A B where AB: "A = last (q # ys)" "B = hd (zs @ [q])"
  have in_ring: "A \<in> set (q # ys)" "B \<in> set (zs @ [q])" by (simp_all add: hd_append AB)
  have d: "e \<notin> set (q # ys @ zs)" using r by (auto simp: ring_def)
  then have ne: "A \<noteq> e" "B \<noteq> e" using in_ring by auto
  have p: "prev_link (link_at m e) = A" "next_link (link_at m e) = B" "cell_ok m A" "cell_ok m B" "cell_ok m e"
    using ring_place [of m q ys "e # zs"] ring_place [of m q "ys @ [e]" zs] r by (simp_all add: AB)
  let ?m = "m\<lparr>link_at := (\<lambda>x. \<lparr>prev_link = (if x = e then 0 else if x = B then A else prev_link (link_at m x)),
     next_link = (if x = e then 0 else if x = A then B else next_link (link_at m x))\<rparr>)\<rparr>"
  have "SHMQueueDelete e m = Inr ?m"
    using p ne by (auto simp: SHMQueueDelete_def Let_def fun_eq_iff intro!: shm_segment.equality)
  moreover have "ring ?m q (ys @ zs)" by (rule ring_delete [OF r _ AB]) simp_all
  moreover have "detached ?m e" using p by (simp add: detached_def)
  moreover have "changed_only (set (q # ys @ e # zs)) m ?m" using in_ring by (auto simp: changed_only_def)
  ultimately show ?thesis by blast
qed

lemma ring_head:
  assumes "ring m q xs"
  shows "prev_link (link_at m q) = last (q # xs)" "next_link (link_at m q) = hd (xs @ [q])" "cell_ok m q" "q \<notin> set xs"
  using links_ends [of m q xs q] assms by (simp_all add: ring_def del: last.simps)

lemma empty_ring:
  assumes "ring m q xs"
  shows "SHMQueueEmpty q m = Inr (xs = [])"
proof (cases "xs = []")
  case True
  then show ?thesis using ring_head [OF assms] by (simp add: SHMQueueEmpty_def)
next
  case False
  then have "last xs \<noteq> q" using ring_head(4) [OF assms] last_in_set by metis
  then show ?thesis using False ring_head(1,3) [OF assms] by (simp add: SHMQueueEmpty_def)
qed

lemma detached_ring:
  assumes "ring m q xs" and "e \<in> set xs \<or> detached m e"
  shows "SHMQueueIsDetached e m = Inr (e \<notin> set xs)"
proof (cases "e \<in> set xs")
  case True
  then obtain ys zs where "xs = ys @ e # zs" by (auto simp: in_set_conv_decomp)
  then have "prev_link (link_at m e) = last (q # ys)" "cell_ok m (last (q # ys))" "cell_ok m e"
    using ring_place [of m q ys "e # zs"] assms(1) by simp_all
  then have "prev_link (link_at m e) \<noteq> 0" "cell_ok m e" by (simp_all only: cell_ok_def simp_thms)
  then show ?thesis using True by (simp add: SHMQueueIsDetached_def)
next
  case False
  then show ?thesis using assms(2) by (simp add: SHMQueueIsDetached_def detached_def)
qed

lemma init_ring: "cell_ok m q \<Longrightarrow> \<exists>m'. SHMQueueInit q m = Inr m' \<and> ring m' q [] \<and> changed_only {q} m m'"
  by (auto simp: SHMQueueInit_def ring_def changed_only_def)

lemma next_ring:
  assumes "ring m q (ys @ zs)"
  shows "SHMQueueNext q (last (q # ys)) off m = Inr (case zs of [] \<Rightarrow> 0 | z # _ \<Rightarrow> z - off)"
proof -
  have "q \<notin> set zs" using assms by (simp add: ring_def)
  then show ?thesis using ring_place [OF assms] by (cases zs) (auto simp: SHMQueueNext_def Let_def simp del: last.simps)
qed

lemma prev_ring:
  assumes "ring m q (ys @ zs)"
  shows "SHMQueuePrev q (hd (zs @ [q])) off m = Inr (if ys = [] then 0 else last ys - off)"
proof -
  have "q \<notin> set ys" using assms by (auto simp: ring_def)
  then show ?thesis using ring_place [OF assms] by (cases ys rule: rev_cases) (auto simp: SHMQueuePrev_def Let_def)
qed

interpretation shm_queue: link_queue "\<lambda>m. ring m q" detached "SHMQueueInsertBefore q" SHMQueueDelete for q
proof
  fix m :: shm_segment and xs e
  assume r: "ring m q xs" and e: "detached m e"
  have "changed_only (set (e # q # xs)) m (spliced (last (q # xs)) e q m)" and r': "ring (spliced (last (q # xs)) e q m) q (xs @ [e])"
    and i: "SHMQueueInsertBefore q e m = Inr (spliced (last (q # xs)) e q m)"
    using ring_spliced [of m q xs "[]" e] insert_spliced [of m q xs "[]" e] r e by simp_all
  moreover have "\<forall>a. detached m a \<longrightarrow> a \<notin> set (q # xs)" using detached_notin [OF r] by blast
  ultimately show "\<exists>m'. SHMQueueInsertBefore q e m = Inr m' \<and> ring m' q (xs @ [e]) \<and> (\<forall>a. detached m a \<longrightarrow> a \<noteq> e \<longrightarrow> detached m' a)"
    by (auto simp: changed_only_def detached_def)
next
  fix m :: shm_segment and ys e zs
  assume r: "ring m q (ys @ e # zs)"
  from delete_ring [OF r] obtain m' where
    m': "SHMQueueDelete e m = Inr m'" "ring m' q (ys @ zs)" "detached m' e" "changed_only (set (q # ys @ e # zs)) m m'" by blast
  have "\<forall>a. detached m a \<longrightarrow> a \<notin> set (q # ys @ e # zs)" using detached_notin [OF r] by blast
  with m' show "\<exists>m'. SHMQueueDelete e m = Inr m' \<and> ring m' q (ys @ zs) \<and> (\<forall>a. detached m a \<or> a = e \<longrightarrow> detached m' a)"
    unfolding changed_only_def detached_def by (intro exI [of _ m']) auto
qed



subsection \<open>Properties\<close>

text \<open>
  C20: the queues in shared memory are sequences. Let a queue hold the links \<open>ys @ zs\<close> and let \<open>e\<close> be in no queue. Putting \<open>e\<close> before
  the link that follows \<open>ys\<close>, or after the one that precedes \<open>zs\<close> (the head counts as both ends), is the same: the queue holds \<open>e\<close>
  between them, no assertion fails, no link outside of the queue changes, and \<open>SHMQueueDelete\<close> of \<open>e\<close> gives back the memory as it was. The other
  operations answer what they say: whether the queue is empty, and the structures after and before a place.
\<close>

theorem shm_queue_refines:
  assumes "ring m q (ys @ zs)" and "detached m e"
  shows "\<exists>m'. SHMQueueInsertBefore (hd (zs @ [q])) e m = Inr m' \<and> SHMQueueInsertAfter (last (q # ys)) e m = Inr m' \<and>
      ring m' q (ys @ e # zs) \<and> (\<forall>a. a \<notin> set (e # q # ys @ zs) \<longrightarrow> link_at m' a = link_at m a) \<and> SHMQueueDelete e m' = Inr m \<and>
      SHMQueueIsDetached e m = Inr True \<and> SHMQueueIsDetached e m' = Inr False \<and>
      SHMQueueEmpty q m = Inr (ys @ zs = []) \<and>
      SHMQueueNext q (last (q # ys)) off m = Inr (case zs of [] \<Rightarrow> 0 | z # _ \<Rightarrow> z - off) \<and>
      SHMQueuePrev q (hd (zs @ [q])) off m = Inr (if ys = [] then 0 else last ys - off)"
proof -
  let ?m = "spliced (last (q # ys)) e (hd (zs @ [q])) m"
  have r: "ring ?m q (ys @ e # zs)" by (rule ring_spliced [OF assms])
  have "e \<notin> set (ys @ zs)" using detached_notin [OF assms] by simp
  then have "SHMQueueIsDetached e m = Inr True" "SHMQueueIsDetached e ?m = Inr False"
    using detached_ring [OF assms(1), of e] detached_ring [OF r, of e] assms(2) by auto
  with r ring_spliced(2) [OF assms] insert_spliced [OF assms] delete_spliced [OF assms] empty_ring [OF assms(1)]
    next_ring [OF assms(1)] prev_ring [OF assms(1)]
  show ?thesis unfolding changed_only_def by (intro exI [of _ ?m]) blast
qed

definition three_links :: shm_segment where
  "three_links = \<lparr>ShmemBase = 100, ShmemEnd = 200,
     link_at = (\<lambda>_. \<lparr>prev_link = 0, next_link = 0\<rparr>)
       (100 := \<lparr>prev_link = 132, next_link = 116\<rparr>, 116 := \<lparr>prev_link = 100, next_link = 132\<rparr>, 132 := \<lparr>prev_link = 116, next_link = 100\<rparr>)\<rparr>"

lemma three_links_ring: "ring three_links 100 [116, 132]" "detached three_links 148"
  by (simp_all add: ring_def three_links_def cell_ok_def ShmemAddrIsValid_def detached_def)

theorem shm_queue_refines_witness:
  "\<exists>m'. SHMQueueInsertBefore 132 148 three_links = Inr m' \<and> ring m' 100 [116, 148, 132] \<and> SHMQueueDelete 148 m' = Inr three_links"
  using shm_queue_refines [of three_links 100 "[116]" "[132]" 148] three_links_ring by auto



end
