(* ===== verification/PredicateQueues.thy ===== *)
theory PredicateQueues
  imports ShmQueue PredicateFacts PredicateEnd
begin

text \<open>
  The queues of serializable transactions in memory. The theories on serializable transactions have a queue as
  the sequence of what is in it; here the functions of \<open>src/backend/storage/lmgr/predicate.c\<close> that work on queues are
  given on links in shared memory, as the code has them, and shown to implement those on sequences.
\<close>

subsection \<open>Operations on links\<close>

text \<open>The heads of queues and the links of structures; a layout says where they are and at which offsets in their structures.\<close>

datatype place = AvailableHead | ActiveHead | PoolHead | OutHead nat | InHead nat | UnsafeHead nat | XactLink nat | ConflictLink rwlink

record layout =
  addr :: "place \<Rightarrow> uint64"
  link_offset :: uint64
  sxact_offset :: uint64
  outLink_offset :: uint64
  inLink_offset :: uint64

definition CreatePredXact_links :: "layout \<Rightarrow> shm_segment \<Rightarrow> (uint64 \<times> shm_segment) result" where
  "CreatePredXact_links L m =
     bind_res (SHMQueueNext (addr L AvailableHead) (addr L AvailableHead) (link_offset L) m) (\<lambda>ptle.
     if ptle = 0 then Inr (0, m)
     else
       bind_res (SHMQueueDelete (ptle + link_offset L) m) (\<lambda>m.
       bind_res (SHMQueueInsertBefore (addr L ActiveHead) (ptle + link_offset L) m) (\<lambda>m.
       Inr (ptle + sxact_offset L, m))))"

definition ReleasePredXact_links :: "layout \<Rightarrow> uint64 \<Rightarrow> shm_segment \<Rightarrow> shm_segment result" where
  "ReleasePredXact_links L sxact m =
     bind_res (Assert (ShmemAddrIsValid m sxact)) (\<lambda>_.
     let ptle = sxact - sxact_offset L + link_offset L in
     bind_res (SHMQueueDelete (ptle + link_offset L) m) (\<lambda>m.
     SHMQueueInsertBefore (addr L AvailableHead) (ptle + link_offset L) m))"

definition FirstPredXact_links :: "layout \<Rightarrow> shm_segment \<Rightarrow> uint64 result" where
  "FirstPredXact_links L m =
     bind_res (SHMQueueNext (addr L ActiveHead) (addr L ActiveHead) (link_offset L) m) (\<lambda>ptle.
     if ptle = 0 then Inr 0 else Inr (ptle + sxact_offset L))"

definition NextPredXact_links :: "layout \<Rightarrow> uint64 \<Rightarrow> shm_segment \<Rightarrow> uint64 result" where
  "NextPredXact_links L sxact m =
     bind_res (Assert (ShmemAddrIsValid m sxact)) (\<lambda>_.
     let ptle = sxact - sxact_offset L + link_offset L in
     bind_res (SHMQueueNext (addr L ActiveHead) (ptle + link_offset L) (link_offset L) m) (\<lambda>ptle.
     if ptle = 0 then Inr 0 else Inr (ptle + sxact_offset L)))"

text \<open>
  The part of \<open>SetRWConflict\<close> and of \<open>SetPossibleUnsafeConflict\<close> that takes a conflict from the pool and puts it into two queues, at \<open>out\<close> and \<open>inn\<close>;
  the fields of the conflict that are no links are not in this memory.
\<close>

definition record_conflict_links :: "layout \<Rightarrow> string \<Rightarrow> uint64 \<Rightarrow> uint64 \<Rightarrow> shm_segment \<Rightarrow> (uint64 \<times> shm_segment) result" where
  "record_conflict_links L msg out inn m =
     bind_res (SHMQueueNext (addr L PoolHead) (addr L PoolHead) (outLink_offset L) m) (\<lambda>conflict.
     if conflict = 0 then Inl (Ereport msg)
     else
       bind_res (SHMQueueDelete (conflict + outLink_offset L) m) (\<lambda>m.
       bind_res (SHMQueueInsertBefore out (conflict + outLink_offset L) m) (\<lambda>m.
       bind_res (SHMQueueInsertBefore inn (conflict + inLink_offset L) m) (\<lambda>m.
       Inr (conflict, m)))))"

definition ReleaseRWConflict_links :: "layout \<Rightarrow> uint64 \<Rightarrow> shm_segment \<Rightarrow> shm_segment result" where
  "ReleaseRWConflict_links L conflict m =
     bind_res (SHMQueueDelete (conflict + inLink_offset L) m) (\<lambda>m.
     bind_res (SHMQueueDelete (conflict + outLink_offset L) m) (\<lambda>m.
     SHMQueueInsertBefore (addr L PoolHead) (conflict + outLink_offset L) m))"

subsection \<open>Queues in memory\<close>

definition heads :: "nat \<Rightarrow> place set" where
  "heads n = {AvailableHead, ActiveHead, PoolHead} \<union> OutHead ` {..<n} \<union> InHead ` {..<n} \<union> UnsafeHead ` {..<n}"

definition elems :: "nat \<Rightarrow> nat \<Rightarrow> place set" where
  "elems n k = XactLink ` {..<n} \<union> (\<lambda>c. ConflictLink (OutLink c)) ` {..<k} \<union> (\<lambda>c. ConflictLink (InLink c)) ` {..<k}"

lemma heads_elems: "heads n \<inter> elems n k = {}"
  by (auto simp: heads_def elems_def)

text \<open>
  The memory \<open>m\<close> holds the queues \<open>Q\<close> of \<open>n\<close> transactions and \<open>k\<close> conflicts: the links are where the layout says, no two at
  one address, each queue is a ring, no link is in two queues, and a link in no queue is detached.
\<close>

definition queues_at :: "(place \<Rightarrow> uint64) \<Rightarrow> nat \<Rightarrow> nat \<Rightarrow> shm_segment \<Rightarrow> (place \<Rightarrow> place list) \<Rightarrow> bool" where
  "queues_at A n k m Q \<longleftrightarrow> inj_on A (heads n \<union> elems n k) \<and>
     (\<forall>h \<in> heads n. set (Q h) \<subseteq> elems n k \<and> ring m (A h) (map A (Q h))) \<and>
     (\<forall>h \<in> heads n. \<forall>h' \<in> heads n. h \<noteq> h' \<longrightarrow> set (Q h) \<inter> set (Q h') = {}) \<and>
     (\<forall>x \<in> elems n k. (\<forall>h \<in> heads n. x \<notin> set (Q h)) \<longrightarrow> detached m (A x))"

lemma queues_atD:
  assumes "queues_at A n k m Q"
  shows "inj_on A (heads n \<union> elems n k)" and "h \<in> heads n \<Longrightarrow> set (Q h) \<subseteq> elems n k" and "h \<in> heads n \<Longrightarrow> ring m (A h) (map A (Q h))"
    and "h \<in> heads n \<Longrightarrow> h' \<in> heads n \<Longrightarrow> x \<in> set (Q h) \<Longrightarrow> x \<in> set (Q h') \<Longrightarrow> h = h'"
    and "x \<in> elems n k \<Longrightarrow> \<forall>h \<in> heads n. x \<notin> set (Q h) \<Longrightarrow> detached m (A x)"
  using assms unfolding queues_at_def by blast+

lemma ring_changed:
  assumes "ring m q xs" and "changed_only X m m'" and "X \<inter> set (q # xs) = {}"
  shows "ring m' q xs"
proof -
  have "\<forall>x \<in> set (q # xs). link_at m' x = link_at m x" using assms(2,3) by (auto simp: changed_only_def)
  then have "links m' q xs q = links m q xs q" by (intro links_frame) auto
  then show ?thesis using assms(1,2) by (auto simp: ring_def changed_only_def)
qed

lemma detached_changed: "detached m e \<Longrightarrow> changed_only X m m' \<Longrightarrow> e \<notin> X \<Longrightarrow> detached m' e"
  by (simp add: detached_def changed_only_def)

text \<open>The addresses of two queues do not meet, nor do those of a queue and of a link in no queue.\<close>

lemma queues_apart:
  assumes "queues_at A n k m Q" and "h \<in> heads n"
  shows "h' \<in> heads n \<Longrightarrow> h \<noteq> h' \<Longrightarrow> A ` set (h # Q h) \<inter> A ` set (h' # Q h') = {}"
    and "x \<in> elems n k \<Longrightarrow> x \<notin> set (Q h) \<Longrightarrow> A x \<notin> A ` set (h # Q h)"
proof -
  have i: "inj_on A (heads n \<union> elems n k)" and Q: "\<forall>h \<in> heads n. set (Q h) \<subseteq> elems n k"
    using queues_atD(1,2) [OF assms(1)] by blast+
  have sub: "set (h # Q h) \<subseteq> heads n \<union> elems n k" if "h \<in> heads n" for h using Q that by auto
  show "A ` set (h # Q h) \<inter> A ` set (h' # Q h') = {}" if h': "h' \<in> heads n" "h \<noteq> h'"
  proof -
    have "set (Q h) \<inter> set (Q h') = {}" using queues_atD(4) [OF assms(1) assms(2) h'(1)] h'(2) by blast
    moreover have "h \<notin> set (Q h')" "h' \<notin> set (Q h)" using Q heads_elems [of n k] assms(2) h'(1) by blast+
    ultimately have "set (h # Q h) \<inter> set (h' # Q h') = {}" using h'(2) by simp
    then show ?thesis using inj_on_image_Int [OF i sub [OF assms(2)] sub [OF h'(1)]] by simp
  qed
  show "A x \<notin> A ` set (h # Q h)" if x: "x \<in> elems n k" "x \<notin> set (Q h)"
    using inj_on_image_mem_iff [OF i _ sub [OF assms(2)], of x] x assms(2) heads_elems [of n k] by auto
qed

lemma queues_delete:
  assumes q: "queues_at A n k m Q" and h: "h \<in> heads n" and x: "x \<in> set (Q h)"
  shows "\<exists>m'. SHMQueueDelete (A x) m = Inr m' \<and> queues_at A n k m' (\<lambda>h. removeAll x (Q h))"
proof -
  obtain ys zs where xs: "Q h = ys @ x # zs" using x by (auto simp: in_set_conv_decomp)
  have r: "ring m (A h) (map A (Q h))" and sub: "set (Q h) \<subseteq> elems n k" using queues_atD(2,3) [OF q h] by blast+
  from delete_ring [of m "A h" "map A ys" "A x" "map A zs"] r xs obtain m' where
    m': "SHMQueueDelete (A x) m = Inr m'" "ring m' (A h) (map A (ys @ zs))" "detached m' (A x)" and
    c: "changed_only (A ` set (h # Q h)) m m'" by (auto simp: image_Un)
  have "distinct (map A (Q h))" using r by (simp add: ring_def)
  then have "distinct (Q h)" by (simp add: distinct_map)
  then have rm: "removeAll x (Q h) = ys @ zs" using xs by simp
  have others: "x \<notin> set (Q h')" if "h' \<in> heads n" "h' \<noteq> h" for h' using queues_atD(4) [OF q h that(1) x] that(2) by blast
  have "queues_at A n k m' (\<lambda>h. removeAll x (Q h))"
    unfolding queues_at_def
  proof (intro conjI ballI impI)
    show "inj_on A (heads n \<union> elems n k)" by (rule queues_atD(1) [OF q])
    fix h' assume h': "h' \<in> heads n"
    show "set (removeAll x (Q h')) \<subseteq> elems n k" using queues_atD(2) [OF q h'] by auto
    show "ring m' (A h') (map A (removeAll x (Q h')))"
    proof (cases "h' = h")
      case True
      then show ?thesis using m'(2) rm by simp
    next
      case False
      then have "ring m' (A h') (map A (Q h'))"
        using queues_apart(1) [OF q h h'] by (intro ring_changed [OF queues_atD(3) [OF q h'] c]) simp
      then show ?thesis using others [OF h' False] by simp
    qed
    fix h'' assume h'': "h'' \<in> heads n" "h' \<noteq> h''"
    then show "set (removeAll x (Q h')) \<inter> set (removeAll x (Q h'')) = {}" using queues_atD(4) [OF q h' h''(1)] by auto
  next
    fix y assume y: "y \<in> elems n k" "\<forall>h \<in> heads n. y \<notin> set (removeAll x (Q h))"
    show "detached m' (A y)"
    proof (cases "y = x")
      case False
      then have n: "\<forall>h \<in> heads n. y \<notin> set (Q h)" using y(2) by simp
      then have "detached m (A y)" by (rule queues_atD(5) [OF q y(1)])
      then show ?thesis using queues_apart(2) [OF q h y(1)] n h by (intro detached_changed [OF _ c]) auto
    qed (simp add: m'(3))
  qed
  with m'(1) show ?thesis by blast
qed

lemma queues_put:
  assumes q: "queues_at A n k m Q" and h: "h \<in> heads n" and x: "x \<in> elems n k" and out: "\<forall>h \<in> heads n. x \<notin> set (Q h)"
  shows "\<exists>m'. SHMQueueInsertBefore (A h) (A x) m = Inr m' \<and> queues_at A n k m' (Q(h := Q h @ [x]))"
proof -
  have r: "ring m (A h) (map A (Q h))" and sub: "set (Q h) \<subseteq> elems n k" and d: "detached m (A x)"
    using queues_atD(2,3) [OF q h] queues_atD(5) [OF q x out] by blast+
  define m' where "m' = spliced (last (A h # map A (Q h))) (A x) (A h) m"
  have m': "SHMQueueInsertBefore (A h) (A x) m = Inr m'" "ring m' (A h) (map A (Q h) @ [A x])"
    and c: "changed_only (insert (A x) (A ` set (h # Q h))) m m'"
    using insert_spliced(1) [of m "A h" "map A (Q h)" "[]" "A x"] ring_spliced [of m "A h" "map A (Q h)" "[]" "A x"] r d
    by (simp_all add: m'_def)
  have "queues_at A n k m' (Q(h := Q h @ [x]))"
    unfolding queues_at_def
  proof (intro conjI ballI impI)
    show "inj_on A (heads n \<union> elems n k)" by (rule queues_atD(1) [OF q])
    fix h' assume h': "h' \<in> heads n"
    show "set ((Q(h := Q h @ [x])) h') \<subseteq> elems n k" using queues_atD(2) [OF q h'] x by (cases "h' = h") auto
    show "ring m' (A h') (map A ((Q(h := Q h @ [x])) h'))"
    proof (cases "h' = h")
      case True
      then show ?thesis using m'(2) by simp
    next
      case False
      have "A x \<notin> A ` set (h' # Q h')" using queues_apart(2) [OF q h' x] out h' by blast
      then show ?thesis
        using False queues_apart(1) [OF q h h'] by (simp, intro ring_changed [OF queues_atD(3) [OF q h'] c]) simp
    qed
    fix h'' assume h'': "h'' \<in> heads n" "h' \<noteq> h''"
    then show "set ((Q(h := Q h @ [x])) h') \<inter> set ((Q(h := Q h @ [x])) h'') = {}" using queues_atD(4) [OF q h' h''(1)] out h' by auto
  next
    fix y assume y: "y \<in> elems n k" "\<forall>h' \<in> heads n. y \<notin> set ((Q(h := Q h @ [x])) h')"
    then have ne: "y \<noteq> x" "\<forall>h \<in> heads n. y \<notin> set (Q h)" using h by (auto split: if_splits)
    have "A y \<noteq> A x" using inj_onD [OF queues_atD(1) [OF q], of y x] x y(1) ne(1) by blast
    then show "detached m' (A y)"
      using ne queues_apart(2) [OF q h y(1)] h by (intro detached_changed [OF queues_atD(5) [OF q y(1) ne(2)] c]) simp
  qed
  with m'(1) show ?thesis by blast
qed

subsection \<open>The queues of the model\<close>

fun queue_of :: "ssi \<Rightarrow> place \<Rightarrow> place list" where
  "queue_of s AvailableHead = map XactLink (availableList s)"
| "queue_of s ActiveHead = map XactLink (activeList s)"
| "queue_of s PoolHead = map ConflictLink (poolAvailable s)"
| "queue_of s (OutHead i) = (if i < length (element s) then map ConflictLink (outConflicts (element s ! i)) else [])"
| "queue_of s (InHead i) = (if i < length (element s) then map ConflictLink (inConflicts (element s ! i)) else [])"
| "queue_of s (UnsafeHead i) = (if i < length (element s) then map ConflictLink (possibleUnsafeConflicts (element s ! i)) else [])"
| "queue_of s _ = []"

definition xact_addr :: "layout \<Rightarrow> nat \<Rightarrow> uint64" where
  "xact_addr L x = addr L (XactLink x) - link_offset L + sxact_offset L"

definition conflict_addr :: "layout \<Rightarrow> nat \<Rightarrow> uint64" where
  "conflict_addr L c = addr L (ConflictLink (OutLink c)) - outLink_offset L"

text \<open>
  What the code relies on in the layout: \<open>link\<close> is the first field of its structure, no structure is at address zero, the two links of a conflict
  are in one structure, and structures are in shared memory.
\<close>

definition laid_out :: "layout \<Rightarrow> nat \<Rightarrow> nat \<Rightarrow> shm_segment \<Rightarrow> bool" where
  "laid_out L n k m \<longleftrightarrow> link_offset L = 0 \<and> (\<forall>x < n. addr L (XactLink x) \<noteq> 0 \<and> ShmemAddrIsValid m (xact_addr L x)) \<and>
     (\<forall>c < k. conflict_addr L c \<noteq> 0 \<and> addr L (ConflictLink (InLink c)) = conflict_addr L c + inLink_offset L)"

definition in_memory :: "layout \<Rightarrow> shm_segment \<Rightarrow> ssi \<Rightarrow> bool" where
  "in_memory L m s \<longleftrightarrow> laid_out L (length (element s)) (length (pool s)) m \<and>
     queues_at (addr L) (length (element s)) (length (pool s)) m (queue_of s)"

lemma queues_cong:
  assumes "queues_at A n k m Q" and "\<And>h. h \<in> heads n \<Longrightarrow> Q h = Q' h"
  shows "queues_at A n k m Q'"
  using assms unfolding queues_at_def by simp

lemma queue_distinct: "queues_at A n k m Q \<Longrightarrow> h \<in> heads n \<Longrightarrow> distinct (Q h)"
  using queues_atD(3) [of A n k m Q h] by (auto simp: ring_def distinct_map)

lemma addr_valid:
  assumes "SHMQueueDelete a m = Inr m' \<or> SHMQueueInsertBefore b a m = Inr m'"
  shows "ShmemAddrIsValid m' x = ShmemAddrIsValid m x"
  using assms by (auto simp: SHMQueueDelete_def SHMQueueInsertBefore_def assign_def Let_def res_simps ShmemAddrIsValid_def)

lemma laid_out_valid: "laid_out L n k m \<Longrightarrow> (\<And>x. ShmemAddrIsValid m' x = ShmemAddrIsValid m x) \<Longrightarrow> laid_out L n k m'"
  by (simp add: laid_out_def)

text \<open>A link is moved from where it is to the end of a queue.\<close>

lemma queues_move:
  assumes q: "queues_at A n k m Q" and h: "h \<in> heads n" "x \<in> set (Q h)" and h': "h' \<in> heads n"
  shows "\<exists>m1 m2. SHMQueueDelete (A x) m = Inr m1 \<and> SHMQueueInsertBefore (A h') (A x) m1 = Inr m2 \<and>
    queues_at A n k m2 (\<lambda>g. removeAll x (Q g) @ (if g = h' then [x] else [])) \<and> (\<forall>a. ShmemAddrIsValid m2 a = ShmemAddrIsValid m a)"
proof -
  from queues_delete [OF q h] obtain m1 where m1: "SHMQueueDelete (A x) m = Inr m1" "queues_at A n k m1 (\<lambda>g. removeAll x (Q g))" by blast
  have "x \<in> elems n k" using queues_atD(2) [OF q h(1)] h(2) by blast
  from queues_put [OF m1(2) h' this] obtain m2 where m2: "SHMQueueInsertBefore (A h') (A x) m1 = Inr m2"
      "queues_at A n k m2 ((\<lambda>g. removeAll x (Q g))(h' := removeAll x (Q h') @ [x]))" by auto
  from m2(2) have "queues_at A n k m2 (\<lambda>g. removeAll x (Q g) @ (if g = h' then [x] else []))" by (rule queues_cong) simp
  moreover have "ShmemAddrIsValid m2 a = ShmemAddrIsValid m a" for a
    using addr_valid [OF disjI1 [OF m1(1)], of a] addr_valid [OF disjI2 [OF m2(1)], of a] by simp
  ultimately show ?thesis using m1(1) m2(1) by blast
qed

lemma heads_simps [simp]: "AvailableHead \<in> heads n" "ActiveHead \<in> heads n" "PoolHead \<in> heads n"
  "OutHead i \<in> heads n \<longleftrightarrow> i < n" "InHead i \<in> heads n \<longleftrightarrow> i < n" "UnsafeHead i \<in> heads n \<longleftrightarrow> i < n"
  "XactLink i \<notin> heads n" "ConflictLink l \<notin> heads n"
  by (auto simp: heads_def)

lemma elems_simps [simp]: "XactLink i \<in> elems n k \<longleftrightarrow> i < n" "ConflictLink (OutLink c) \<in> elems n k \<longleftrightarrow> c < k" "ConflictLink (InLink c) \<in> elems n k \<longleftrightarrow> c < k"
  by (auto simp: elems_def)

lemma removeAll_links [simp]: "removeAll (XactLink x) (map XactLink xs) = map XactLink (removeAll x xs)"
  "removeAll (ConflictLink l) (map ConflictLink ls) = map ConflictLink (removeAll l ls)"
  "removeAll (XactLink x) (map ConflictLink ls) = map ConflictLink ls" "removeAll (ConflictLink l) (map XactLink xs) = map XactLink xs"
     apply (induction xs; auto)
    apply (induction ls; auto)
   apply (induction ls; auto)
  apply (induction xs; auto)
  done

subsection \<open>The lists of transactions\<close>

lemma create_refines:
  assumes "in_memory L m s"
  shows "\<exists>m' r. CreatePredXact s = (Inr r, snd (CreatePredXact s)) \<and>
    CreatePredXact_links L m = Inr (case r of None \<Rightarrow> 0 | Some x \<Rightarrow> xact_addr L x, m') \<and> in_memory L m' (snd (CreatePredXact s))"
proof -
  let ?n = "length (element s)" and ?k = "length (pool s)" and ?A = "addr L"
  have l: "laid_out L ?n ?k m" and q: "queues_at ?A ?n ?k m (queue_of s)" using assms by (simp_all add: in_memory_def)
  have r: "ring m (?A AvailableHead) ([] @ map ?A (map XactLink (availableList s)))"
    using queues_atD(3) [OF q, of AvailableHead] by simp
  note nx = next_ring [OF r, of "link_offset L"]
  show ?thesis
  proof (cases "availableList s")
    case Nil
    then show ?thesis using nx assms by (simp add: CreatePredXact_links_def CreatePredXact_def bindp_def gets_def ret_def)
  next
    case (Cons x xs)
    let ?s = "s\<lparr>availableList := xs, activeList := activeList s @ [x]\<rparr>"
    have run: "CreatePredXact s = (Inr (Some x), ?s)"
      using Cons by (simp add: CreatePredXact_def bindp_def gets_def ret_def thenp_def modify_def)
    have x: "XactLink x \<in> set (queue_of s AvailableHead)" using Cons by simp
    then have xn: "x < ?n" using queues_atD(2) [OF q, of AvailableHead] by auto
    from queues_move [OF q _ x, of ActiveHead] obtain m1 m2 where m: "SHMQueueDelete (?A (XactLink x)) m = Inr m1"
        "SHMQueueInsertBefore (?A ActiveHead) (?A (XactLink x)) m1 = Inr m2"
        "queues_at ?A ?n ?k m2 (\<lambda>g. removeAll (XactLink x) (queue_of s g) @ (if g = ActiveHead then [XactLink x] else []))"
        "\<forall>a. ShmemAddrIsValid m2 a = ShmemAddrIsValid m a" by auto
    have "distinct (availableList s)" using queue_distinct [OF q, of AvailableHead] by (auto simp: distinct_map)
    moreover have "x \<notin> set (activeList s)" using queues_atD(4) [OF q, of AvailableHead ActiveHead "XactLink x"] x by auto
    ultimately have "queues_at ?A ?n ?k m2 (queue_of ?s)"
      using Cons by (intro queues_cong [OF m(3)]) (auto simp: heads_def)
    then have "in_memory L m2 ?s" using laid_out_valid [OF l] m(4) by (simp add: in_memory_def)
    moreover have "CreatePredXact_links L m = Inr (xact_addr L x, m2)"
      using nx m(1,2) Cons l xn by (simp add: CreatePredXact_links_def laid_out_def xact_addr_def)
    ultimately show ?thesis using run by auto
  qed
qed

lemma release_refines:
  assumes "in_memory L m s" and "x \<in> set (activeList s) \<or> x \<in> set (availableList s)"
  shows "\<exists>m'. ReleasePredXact_links L (xact_addr L x) m = Inr m' \<and>
    ReleasePredXact x s = (Inr (), snd (ReleasePredXact x s)) \<and> in_memory L m' (snd (ReleasePredXact x s))"
proof -
  let ?n = "length (element s)" and ?k = "length (pool s)" and ?A = "addr L"
  let ?s = "s\<lparr>activeList := removeAll x (activeList s), availableList := removeAll x (availableList s) @ [x]\<rparr>"
  have l: "laid_out L ?n ?k m" and q: "queues_at ?A ?n ?k m (queue_of s)" using assms(1) by (simp_all add: in_memory_def)
  have run: "ReleasePredXact x s = (Inr (), ?s)"
    using assms(2) by (simp add: ReleasePredXact_def bindp_def gets_def assertp_def ret_def thenp_def modify_def)
  obtain h where h: "h \<in> heads ?n" "XactLink x \<in> set (queue_of s h)"
    using assms(2) heads_simps(1,2) by (metis queue_of.simps(1,2) image_eqI list.set_map)
  then have xn: "x < ?n" using queues_atD(2) [OF q h(1)] by auto
  from queues_move [OF q h, of AvailableHead] obtain m1 m2 where m: "SHMQueueDelete (?A (XactLink x)) m = Inr m1"
      "SHMQueueInsertBefore (?A AvailableHead) (?A (XactLink x)) m1 = Inr m2"
      "queues_at ?A ?n ?k m2 (\<lambda>g. removeAll (XactLink x) (queue_of s g) @ (if g = AvailableHead then [XactLink x] else []))"
      "\<forall>a. ShmemAddrIsValid m2 a = ShmemAddrIsValid m a" by auto
  have "queues_at ?A ?n ?k m2 (queue_of ?s)" by (rule queues_cong [OF m(3)]) (auto simp: heads_def)
  then have "in_memory L m2 ?s" using laid_out_valid [OF l] m(4) by (simp add: in_memory_def)
  moreover have "ReleasePredXact_links L (xact_addr L x) m = Inr m2"
    using m(1,2) l xn by (auto simp: ReleasePredXact_links_def laid_out_def xact_addr_def)
  ultimately show ?thesis using run by auto
qed

lemma next_refines:
  assumes "in_memory L m s"
  shows "FirstPredXact_links L m = Inr (case activeList s of [] \<Rightarrow> 0 | x # _ \<Rightarrow> xact_addr L x)"
    and "activeList s = ys @ x # zs \<Longrightarrow> NextPredXact_links L (xact_addr L x) m = Inr (case zs of [] \<Rightarrow> 0 | y # _ \<Rightarrow> xact_addr L y)"
proof -
  let ?n = "length (element s)" and ?k = "length (pool s)" and ?A = "addr L"
  have l: "laid_out L ?n ?k m" and q: "queues_at ?A ?n ?k m (queue_of s)" using assms by (simp_all add: in_memory_def)
  have r: "ring m (?A ActiveHead) (map (\<lambda>x. ?A (XactLink x)) (activeList s))"
    using queues_atD(3) [OF q, of ActiveHead] by (simp add: comp_def)
  have n: "\<forall>x \<in> set (activeList s). x < ?n" using queues_atD(2) [OF q, of ActiveHead] by auto
  show "FirstPredXact_links L m = Inr (case activeList s of [] \<Rightarrow> 0 | x # _ \<Rightarrow> xact_addr L x)"
    using next_ring [of m "?A ActiveHead" "[]" "map (\<lambda>x. ?A (XactLink x)) (activeList s)" "link_offset L"] r l n
    by (cases "activeList s") (auto simp: FirstPredXact_links_def laid_out_def xact_addr_def)
  show "NextPredXact_links L (xact_addr L x) m = Inr (case zs of [] \<Rightarrow> 0 | y # _ \<Rightarrow> xact_addr L y)" if "activeList s = ys @ x # zs"
    using next_ring [of m "?A ActiveHead" "map (\<lambda>x. ?A (XactLink x)) (ys @ [x])" "map (\<lambda>x. ?A (XactLink x)) zs" "link_offset L"] r l n that
    by (cases zs) (auto simp: NextPredXact_links_def laid_out_def xact_addr_def)
qed

subsection \<open>The pool of conflicts\<close>

lemma linked_head:
  "linked l s \<longleftrightarrow> (\<exists>h \<in> heads (length (element s)). ConflictLink l \<in> set (queue_of s h))"
  by (auto simp: linked_def list_ex_length heads_def image_iff bex_Un)

lemma queue_of_unlink:
  "h \<in> heads (length (element s)) \<Longrightarrow>
    queue_of (s\<lparr>element := map (unlink_from l) (element s), poolAvailable := removeAll l (poolAvailable s)\<rparr>) h = removeAll (ConflictLink l) (queue_of s h)"
  by (cases h) (auto simp: unlink_from_def)

lemma delete_link_refines:
  assumes "in_memory L m s" and "SHMQueueDelete_link l s = (Inr (), s')"
  shows "\<exists>m'. SHMQueueDelete (addr L (ConflictLink l)) m = Inr m' \<and> in_memory L m' s' \<and> \<not> linked l s'"
proof -
  let ?n = "length (element s)" and ?k = "length (pool s)"
  have q: "queues_at (addr L) ?n ?k m (queue_of s)" using assms(1) by (simp add: in_memory_def)
  have lk: "linked l s" and s': "s' = s\<lparr>element := map (unlink_from l) (element s), poolAvailable := removeAll l (poolAvailable s)\<rparr>"
    using assms(2) by (auto simp: SHMQueueDelete_link_def bindp_def gets_def thenp_def assertp_def ret_def throw_def modify_def split: if_splits)
  from lk obtain h where h: "h \<in> heads ?n" "ConflictLink l \<in> set (queue_of s h)" by (auto simp: linked_head)
  from queues_delete [OF q h] obtain m' where m': "SHMQueueDelete (addr L (ConflictLink l)) m = Inr m'"
      "queues_at (addr L) ?n ?k m' (\<lambda>h. removeAll (ConflictLink l) (queue_of s h))" by blast
  have "queues_at (addr L) ?n ?k m' (queue_of s')" unfolding s' by (rule queues_cong [OF m'(2)]) (rule queue_of_unlink [symmetric])
  moreover have "laid_out L ?n ?k m'"
    by (rule laid_out_valid [of L ?n ?k m]) (use assms(1) addr_valid [OF disjI1 [OF m'(1)]] in \<open>simp_all add: in_memory_def\<close>)
  moreover have "\<not> linked l s'" unfolding linked_head using queue_of_unlink [of _ s l] by (auto simp: s')
  ultimately show ?thesis using m'(1) by (auto simp: in_memory_def s')
qed

lemma put_link_refines:
  assumes "in_memory L m s" and "h \<in> heads (length (element s))" and l: "ConflictLink l \<in> elems (length (element s)) (length (pool s))" "\<not> linked l s"
    and s': "length (element s') = length (element s)" "length (pool s') = length (pool s)"
      "\<And>g. g \<in> heads (length (element s)) \<Longrightarrow> queue_of s' g = queue_of s g @ (if g = h then [ConflictLink l] else [])"
  shows "\<exists>m'. SHMQueueInsertBefore (addr L h) (addr L (ConflictLink l)) m = Inr m' \<and> in_memory L m' s'"
proof -
  let ?n = "length (element s)" and ?k = "length (pool s)"
  have q: "queues_at (addr L) ?n ?k m (queue_of s)" using assms(1) by (simp add: in_memory_def)
  from queues_put [OF q assms(2) l(1)] l(2) obtain m' where m': "SHMQueueInsertBefore (addr L h) (addr L (ConflictLink l)) m = Inr m'"
      "queues_at (addr L) ?n ?k m' ((queue_of s)(h := queue_of s h @ [ConflictLink l]))" by (auto simp: linked_head)
  have "queues_at (addr L) ?n ?k m' (queue_of s')" by (rule queues_cong [OF m'(2)]) (simp add: s'(3))
  moreover have "laid_out L ?n ?k m'"
    by (rule laid_out_valid [of L ?n ?k m]) (use assms(1) addr_valid [OF disjI2 [OF m'(1)]] in \<open>simp_all add: in_memory_def\<close>)
  ultimately show ?thesis using m'(1) s'(1,2) by (auto simp: in_memory_def)
qed

lemma conflict_links:
  assumes "in_memory L m s" and "c < length (pool s)"
  shows "conflict_addr L c + outLink_offset L = addr L (ConflictLink (OutLink c))"
    "conflict_addr L c + inLink_offset L = addr L (ConflictLink (InLink c))" "conflict_addr L c \<noteq> 0"
  using assms by (simp_all add: in_memory_def laid_out_def) (simp add: conflict_addr_def)

lemma linked_pool: "in_memory L m s \<Longrightarrow> linked l s \<Longrightarrow> (case l of OutLink c \<Rightarrow> c | InLink c \<Rightarrow> c) < length (pool s)"
  using queues_atD(2) [of "addr L" "length (element s)" "length (pool s)" m "queue_of s"]
  by (cases l) (fastforce simp: in_memory_def linked_head)+

lemma release_conflict_refines:
  assumes "in_memory L m s" and "ReleaseRWConflict c s = (Inr (), s')"
  shows "\<exists>m'. ReleaseRWConflict_links L (conflict_addr L c) m = Inr m' \<and> in_memory L m' s'"
proof -
  obtain s1 s2 where s1: "SHMQueueDelete_link (InLink c) s = (Inr (), s1)" and s2: "SHMQueueDelete_link (OutLink c) s1 = (Inr (), s2)"
    and s': "s' = s2\<lparr>poolAvailable := poolAvailable s2 @ [OutLink c]\<rparr>"
    using assms(2) by (auto simp: ReleaseRWConflict_def thenp_def bindp_def modify_def split: prod.splits sum.splits)
  from delete_link_refines [OF assms(1) s1] obtain m1 where m1: "SHMQueueDelete (addr L (ConflictLink (InLink c))) m = Inr m1" "in_memory L m1 s1" by blast
  from delete_link_refines [OF m1(2) s2] obtain m2 where m2: "SHMQueueDelete (addr L (ConflictLink (OutLink c))) m1 = Inr m2" "in_memory L m2 s2"
    "\<not> linked (OutLink c) s2" by blast
  have len: "length (pool s1) = length (pool s)" "length (pool s2) = length (pool s1)" and lk: "linked (InLink c) s"
    using s1 s2 by (auto simp: SHMQueueDelete_link_def bindp_def gets_def thenp_def assertp_def ret_def throw_def modify_def split: if_splits)
  have c: "c < length (pool s)" using linked_pool [OF assms(1) lk] by simp
  have "\<exists>m'. SHMQueueInsertBefore (addr L PoolHead) (addr L (ConflictLink (OutLink c))) m2 = Inr m' \<and> in_memory L m' s'"
    by (rule put_link_refines [OF m2(2) _ _ m2(3)]) (use c len in \<open>auto simp: s' heads_def\<close>)
  then show ?thesis using m1(1) m2(1) conflict_links [OF assms(1) c] by (auto simp: ReleaseRWConflict_links_def)
qed

lemma run_Inr:
  "bindp p f s = (Inr y, t) \<longleftrightarrow> (\<exists>x u. p s = (Inr x, u) \<and> f x u = (Inr y, t))" "thenp p r s = (Inr y, t) \<longleftrightarrow> (\<exists>x u. p s = (Inr x, u) \<and> r u = (Inr y, t))"
  "gets g s = (Inr z, t) \<longleftrightarrow> z = g s \<and> t = s" "modify h s = (Inr u, t) \<longleftrightarrow> t = h s" "ret v s = (Inr w, t) \<longleftrightarrow> w = v \<and> t = s"
  "assertp b s = (Inr u, t) \<longleftrightarrow> b \<and> t = s" "liftp r' s = (Inr a, t) \<longleftrightarrow> r' = Inr a \<and> t = s"
  by (auto simp: thenp_def bindp_def gets_def modify_def ret_def assertp_def liftp_def throw_def split: prod.splits sum.splits)

lemma take_refines:
  assumes "in_memory L m s" and "take_conflict msg out inn s = (Inr c, s2)"
  shows "SHMQueueNext (addr L PoolHead) (addr L PoolHead) (outLink_offset L) m = Inr (conflict_addr L c)"
    and "\<exists>m1. SHMQueueDelete (addr L (ConflictLink (OutLink c))) m = Inr m1 \<and> in_memory L m1 s2"
    and "\<not> linked (OutLink c) s2" "c < length (pool s)" "length (pool s2) = length (pool s)" "length (element s2) = length (element s)"
    and "linked l s2 \<Longrightarrow> linked l s" "OutLink c \<in> set (poolAvailable s)"
proof -
  from assms(2) obtain ls s1 where av: "poolAvailable s = OutLink c # ls" and d: "SHMQueueDelete_link (OutLink c) s = (Inr (), s1)"
      and c: "c < length (pool s1)" and s2: "s2 = s1\<lparr>pool := (pool s1)[c := \<lparr>sxactOut = out, sxactIn = inn\<rparr>]\<rparr>"
    by (auto simp: take_conflict_def run_Inr get_conflict_def aload_def throw_def split: list.splits if_splits elim!: outLink_conflict.elims)
  have s1: "s1 = s\<lparr>element := map (unlink_from (OutLink c)) (element s), poolAvailable := removeAll (OutLink c) (poolAvailable s)\<rparr>"
    using d by (auto simp: SHMQueueDelete_link_def run_Inr)
  show "c < length (pool s)" "length (pool s2) = length (pool s)" "length (element s2) = length (element s)" "OutLink c \<in> set (poolAvailable s)"
    using c by (simp_all add: s1 s2 av)
  have same: "linked l s2 = linked l s1" "queue_of s2 h = queue_of s1 h" for l h by (simp add: s2 linked_def, cases h) (simp_all add: s2)
  from delete_link_refines [OF assms(1) d] obtain m1 where m1: "SHMQueueDelete (addr L (ConflictLink (OutLink c))) m = Inr m1" "in_memory L m1 s1"
      "\<not> linked (OutLink c) s1" by blast
  have "queue_of s2 = queue_of s1" using same(2) by (simp add: fun_eq_iff)
  then have "in_memory L m1 s2" using m1(2) by (simp add: in_memory_def s2)
  with m1 same show "\<exists>m1. SHMQueueDelete (addr L (ConflictLink (OutLink c))) m = Inr m1 \<and> in_memory L m1 s2" "\<not> linked (OutLink c) s2" by auto
  show "linked l s" if "linked l s2" using that unfolding same(1) by (auto simp: s1 linked_def list_ex_iff unlink_from_def)
  have "ring m (addr L PoolHead) ([] @ map (addr L) (map ConflictLink (poolAvailable s)))"
    using assms(1) queues_atD(3) [of "addr L" _ _ m "queue_of s" PoolHead] by (auto simp: in_memory_def)
  from next_ring [OF this, of "outLink_offset L"] show "SHMQueueNext (addr L PoolHead) (addr L PoolHead) (outLink_offset L) m = Inr (conflict_addr L c)"
    by (simp add: av conflict_addr_def)
qed

lemma record_refines:
  assumes mem: "in_memory L m s" and tk: "take_conflict msg out inn s = (Inr c, s2)" and free: "\<not> linked (InLink c) s"
    and h: "ho \<in> heads (length (element s))" "hi \<in> heads (length (element s))"
    and s3: "length (element s3) = length (element s)" "length (pool s3) = length (pool s)"
      "\<And>g. g \<in> heads (length (element s)) \<Longrightarrow> queue_of s3 g = queue_of s2 g @ (if g = ho then [ConflictLink (OutLink c)] else [])"
    and s4: "length (element s4) = length (element s)" "length (pool s4) = length (pool s)"
      "\<And>g. g \<in> heads (length (element s)) \<Longrightarrow> queue_of s4 g = queue_of s3 g @ (if g = hi then [ConflictLink (InLink c)] else [])"
  shows "\<exists>m'. record_conflict_links L msg (addr L ho) (addr L hi) m = Inr (conflict_addr L c, m') \<and> in_memory L m' s4"
proof -
  note t = take_refines [OF mem tk]
  obtain m1 where m1: "SHMQueueDelete (addr L (ConflictLink (OutLink c))) m = Inr m1" "in_memory L m1 s2" using t(2) by blast
  have "\<exists>m'. SHMQueueInsertBefore (addr L ho) (addr L (ConflictLink (OutLink c))) m1 = Inr m' \<and> in_memory L m' s3"
    by (rule put_link_refines [OF m1(2) _ _ t(3)]) (use t(4-6) h s3 in simp_all)
  then obtain m2 where m2: "SHMQueueInsertBefore (addr L ho) (addr L (ConflictLink (OutLink c))) m1 = Inr m2" "in_memory L m2 s3" by blast
  have nl: "\<not> linked (InLink c) s3" using free t(6) t(7) [of "InLink c"] s3(1,3) unfolding linked_head by (auto split: if_splits)
  have "\<exists>m'. SHMQueueInsertBefore (addr L hi) (addr L (ConflictLink (InLink c))) m2 = Inr m' \<and> in_memory L m' s4"
    by (rule put_link_refines [OF m2(2) _ _ nl]) (use t(4) h s3(1,2) s4 in simp_all)
  then show ?thesis using t(1) m1(1) m2(1) conflict_links [OF mem t(4)] by (auto simp: record_conflict_links_def)
qed

lemma pool_in_free: "queues_ok s E U F \<Longrightarrow> OutLink c \<in> set (poolAvailable s) \<Longrightarrow> \<not> linked (InLink c) s"
  unfolding queues_ok_def linked_def list_ex_length by fastforce

lemma set_refines:
  assumes mem: "in_memory L m s" and q: "queues_ok s E U F" and rw: "r < length (element s)" "w < length (element s)"
    and run: "SetRWConflict r w s = (Inr (), s')"
  shows "\<exists>m' c. record_conflict_links L ''not enough elements in RWConflictPool to record a read/write conflict''
      (addr L (OutHead r)) (addr L (InHead w)) m = Inr (conflict_addr L c, m') \<and> in_memory L m' s'"
proof -
  from run have ne: "r \<noteq> w" by (simp add: SetRWConflict_def run_Inr)
  obtain x where ex: "RWConflictExists r w s = (Inr x, s)" using wp_RWConflictExists [OF q rw ne] by (simp add: wp_Inr)
  from run ex obtain c s2 where tk: "take_conflict ''not enough elements in RWConflictPool to record a read/write conflict'' r w s = (Inr c, s2)"
      and s': "\<exists>s3. upd_sxact r (\<lambda>r. r\<lparr>outConflicts := outConflicts r @ [OutLink c]\<rparr>) s2 = (Inr (), s3) \<and>
        upd_sxact w (\<lambda>w. w\<lparr>inConflicts := inConflicts w @ [InLink c]\<rparr>) s3 = (Inr (), s')"
    by (auto simp: SetRWConflict_def run_Inr)
  note t = take_refines [OF mem tk]
  define s3 where "s3 = s2\<lparr>element := (element s2)[r := (element s2 ! r)\<lparr>outConflicts := outConflicts (element s2 ! r) @ [OutLink c]\<rparr>]\<rparr>"
  have s4: "s' = s3\<lparr>element := (element s3)[w := (element s3 ! w)\<lparr>inConflicts := inConflicts (element s3 ! w) @ [InLink c]\<rparr>]\<rparr>"
    using s' by (auto simp: s3_def upd_sxact_def get_sxact_def run_Inr aload_def split: if_splits)
  have "\<exists>m'. record_conflict_links L ''not enough elements in RWConflictPool to record a read/write conflict''
      (addr L (OutHead r)) (addr L (InHead w)) m = Inr (conflict_addr L c, m') \<and> in_memory L m' s'"
  proof (rule record_refines [OF mem tk pool_in_free [OF q t(8)], where ?s3.0 = s3])
    show "queue_of s3 g = queue_of s2 g @ (if g = OutHead r then [ConflictLink (OutLink c)] else [])" for g
      using rw t(6) by (cases g) (auto simp: s3_def nth_list_update)
    show "queue_of s' g = queue_of s3 g @ (if g = InHead w then [ConflictLink (InLink c)] else [])" for g
      using rw t(6) by (cases g) (auto simp: s4 s3_def nth_list_update)
  qed (use rw t(5,6) in \<open>simp_all add: s4 s3_def\<close>)
  then show ?thesis by blast
qed

subsection \<open>Properties\<close>

text \<open>
  C8: the queues of links implement the queues of the model. Let the links in memory hold the queues of the shared data \<open>s\<close>. Then each function that changes
  queues, run on the links, returns without a failed assertion or a bad address, and its links hold the queues that the model
  has after the same call: giving out and taking back the structure of a transaction, recording a conflict in the queues of its reader and
  its writer, and releasing it. The addresses returned are those of the structures that the model names by their index.
\<close>

theorem ssi_queues_refine:
  assumes "in_memory L m s" and "queues_ok s E U F"
  shows "(\<exists>m' r. CreatePredXact s = (Inr r, snd (CreatePredXact s)) \<and>
        CreatePredXact_links L m = Inr (case r of None \<Rightarrow> 0 | Some x \<Rightarrow> xact_addr L x, m') \<and> in_memory L m' (snd (CreatePredXact s))) \<and>
    (\<forall>x \<in> set (activeList s). \<exists>m'. ReleasePredXact_links L (xact_addr L x) m = Inr m' \<and>
        ReleasePredXact x s = (Inr (), snd (ReleasePredXact x s)) \<and> in_memory L m' (snd (ReleasePredXact x s))) \<and>
    (\<forall>r < length (element s). \<forall>w < length (element s). \<forall>s'. SetRWConflict r w s = (Inr (), s') \<longrightarrow>
        (\<exists>m' c. record_conflict_links L ''not enough elements in RWConflictPool to record a read/write conflict''
           (addr L (OutHead r)) (addr L (InHead w)) m = Inr (conflict_addr L c, m') \<and> in_memory L m' s')) \<and>
    (\<forall>c s'. ReleaseRWConflict c s = (Inr (), s') \<longrightarrow>
        (\<exists>m'. ReleaseRWConflict_links L (conflict_addr L c) m = Inr m' \<and> in_memory L m' s'))"
  using create_refines [OF assms(1)] release_refines [OF assms(1)] set_refines [OF assms] release_conflict_refines [OF assms(1)]
  by (intro conjI ballI allI impI) blast+

text \<open>Two free transactions and one free conflict, the links in a row.\<close>

fun row_addr :: "place \<Rightarrow> uint64" where
  "row_addr AvailableHead = 100" | "row_addr ActiveHead = 116" | "row_addr PoolHead = 132"
| "row_addr (OutHead i) = 148 + 16 * of_nat i" | "row_addr (InHead i) = 180 + 16 * of_nat i" | "row_addr (UnsafeHead i) = 212 + 16 * of_nat i"
| "row_addr (XactLink i) = 244 + 100 * of_nat i" | "row_addr (ConflictLink (OutLink c)) = 500 + 100 * of_nat c"
| "row_addr (ConflictLink (InLink c)) = 516 + 100 * of_nat c"

definition row_layout :: layout where
  "row_layout = \<lparr>addr = row_addr, link_offset = 0, sxact_offset = 16, outLink_offset = 0, inLink_offset = 16\<rparr>"

definition row_memory :: shm_segment where
  "row_memory = \<lparr>ShmemBase = 100, ShmemEnd = 1000, link_at = (\<lambda>a.
     if a = 100 then \<lparr>prev_link = 344, next_link = 244\<rparr> else if a = 244 then \<lparr>prev_link = 100, next_link = 344\<rparr>
     else if a = 344 then \<lparr>prev_link = 244, next_link = 100\<rparr> else if a = 132 then \<lparr>prev_link = 500, next_link = 500\<rparr>
     else if a = 500 then \<lparr>prev_link = 132, next_link = 132\<rparr> else if a = 516 then \<lparr>prev_link = 0, next_link = 0\<rparr>
     else \<lparr>prev_link = a, next_link = a\<rparr>)\<rparr>"

definition row_ssi :: ssi where
  "row_ssi = (InitPredicateLocks 1)\<lparr>element := [blank_sxact, blank_sxact], availableList := [0, 1], activeList := [],
     pool := [\<lparr>sxactOut = 0, sxactIn = 0\<rparr>], poolAvailable := [OutLink 0]\<rparr>"

lemma row_in_memory: "in_memory row_layout row_memory row_ssi"
proof -
  have two: "{..<2 :: nat} = {0, 1}" "{..<1 :: nat} = {0}" by auto
  have "inj_on row_addr (heads 2 \<union> elems 2 1)" unfolding heads_def elems_def two by (rule inj_onI) auto
  moreover have "h \<in> heads 2 \<Longrightarrow> set (queue_of row_ssi h) \<subseteq> elems 2 1 \<and> ring row_memory (row_addr h) (map row_addr (queue_of row_ssi h))" for h
    unfolding heads_def two by (auto simp: row_ssi_def ring_def row_memory_def cell_ok_def ShmemAddrIsValid_def blank_sxact_def)
  moreover have "h \<in> heads 2 \<Longrightarrow> h' \<in> heads 2 \<Longrightarrow> h \<noteq> h' \<Longrightarrow> set (queue_of row_ssi h) \<inter> set (queue_of row_ssi h') = {}" for h h'
    by (cases h; cases h') (auto simp: heads_def two row_ssi_def blank_sxact_def)
  moreover have "x \<in> elems 2 1 \<Longrightarrow> \<forall>h \<in> heads 2. x \<notin> set (queue_of row_ssi h) \<Longrightarrow> detached row_memory (row_addr x)" for x
    unfolding heads_def elems_def two by (auto simp: row_ssi_def detached_def row_memory_def cell_ok_def ShmemAddrIsValid_def)
  ultimately have "queues_at row_addr 2 1 row_memory (queue_of row_ssi)" unfolding queues_at_def by blast
  moreover have "laid_out row_layout 2 1 row_memory"
    by (auto simp: laid_out_def row_layout_def xact_addr_def conflict_addr_def ShmemAddrIsValid_def row_memory_def less_2_cases_iff)
  moreover have "length (element row_ssi) = 2" "length (pool row_ssi) = 1" by (simp_all add: row_ssi_def)
  ultimately show ?thesis by (simp add: in_memory_def row_layout_def)
qed

lemma row_queues: "queues_ok row_ssi {} {} {0}"
  by (auto simp: queues_ok_def row_ssi_def less_Suc_eq blank_sxact_def)

theorem ssi_queues_refine_witness:
  "\<exists>m'. CreatePredXact_links row_layout row_memory = Inr (xact_addr row_layout 0, m') \<and> in_memory row_layout m' (snd (CreatePredXact row_ssi))"
proof -
  have "fst (CreatePredXact row_ssi) = Inr (Some 0)"
    by (simp add: CreatePredXact_def row_ssi_def bindp_def gets_def thenp_def modify_def ret_def)
  then show ?thesis using ssi_queues_refine [OF row_in_memory row_queues] by (metis fst_conv option.simps(5) sum.inject(2))
qed

end
