(* ===== verification/PredLocks.thy ===== *)
theory PredLocks
  imports PredicateCheck LWLockInit
begin

text \<open>
  Taking predicate locks, with promotion to coarser ones, dropping them, and the check on writes:
  \<open>PredicateLockAcquire\<close>, \<open>CheckForSerializableConflictIn\<close> and what they call, of
  \<open>src/backend/storage/lmgr/predicate.c\<close>. The hash function of the tables, \<open>hash\<close>, is an argument. A loop
  over a queue runs its body on what the queue has when the loop starts.
\<close>

subsection \<open>Access\<close>

definition SerializablePredicateLockListLock :: nat where "SerializablePredicateLockListLock = 30"

definition PredicateLockHashPartition :: "uint32 \<Rightarrow> nat" where
  "PredicateLockHashPartition hashcode = unat hashcode mod NUM_PREDICATELOCK_PARTITIONS"

definition PredicateLockHashPartitionLock :: "uint32 \<Rightarrow> nat" where
  "PredicateLockHashPartitionLock hashcode = PREDICATELOCK_MANAGER_LWLOCK_OFFSET + PredicateLockHashPartition hashcode"

definition in_locks :: "(predlocks, 'a) prog \<Rightarrow> (backend, 'a) prog" where
  "in_locks m = thenp interfere (\<lambda>s. case m (PredLocks (shm s)) of (r, p) \<Rightarrow> (r, s\<lparr>shm := (shm s)\<lparr>PredLocks := p\<rparr>\<rparr>))"

text \<open>The backend's own table.\<close>

definition local_table :: "(backend, PREDICATELOCKTARGETTAG \<Rightarrow> LOCALPREDICATELOCK option) prog" where
  "local_table = bindp (gets LocalPredicateLockHash) (\<lambda>local. case local of None \<Rightarrow> throw NullDeref | Some table \<Rightarrow> ret table)"

definition set_local :: "PREDICATELOCKTARGETTAG \<Rightarrow> LOCALPREDICATELOCK option \<Rightarrow> (backend, unit) prog" where
  "set_local tag e = bindp local_table (\<lambda>table. modify (\<lambda>s. s\<lparr>LocalPredicateLockHash := Some (table(tag := e))\<rparr>))"

subsection \<open>Granularity\<close>

definition TargetTagIsCoveredBy :: "PREDICATELOCKTARGETTAG \<Rightarrow> PREDICATELOCKTARGETTAG \<Rightarrow> bool" where
  "TargetTagIsCoveredBy covered_target covering_target \<longleftrightarrow>
     GET_PREDICATELOCKTARGETTAG_RELATION covered_target = GET_PREDICATELOCKTARGETTAG_RELATION covering_target
     \<and> GET_PREDICATELOCKTARGETTAG_OFFSET covering_target = InvalidOffsetNumber
     \<and> ((GET_PREDICATELOCKTARGETTAG_OFFSET covered_target \<noteq> InvalidOffsetNumber
         \<and> GET_PREDICATELOCKTARGETTAG_PAGE covering_target = GET_PREDICATELOCKTARGETTAG_PAGE covered_target)
        \<or> (GET_PREDICATELOCKTARGETTAG_PAGE covering_target = InvalidBlockNumber
           \<and> GET_PREDICATELOCKTARGETTAG_PAGE covered_target \<noteq> InvalidBlockNumber))
     \<and> GET_PREDICATELOCKTARGETTAG_DB covered_target = GET_PREDICATELOCKTARGETTAG_DB covering_target"

definition GetParentPredicateLockTag :: "PREDICATELOCKTARGETTAG \<Rightarrow> PREDICATELOCKTARGETTAG option" where
  "GetParentPredicateLockTag tag = (case GET_PREDICATELOCKTARGETTAG_TYPE tag of
       PREDLOCKTAG_RELATION \<Rightarrow> None
     | PREDLOCKTAG_PAGE \<Rightarrow>
         Some (SET_PREDICATELOCKTARGETTAG_RELATION (GET_PREDICATELOCKTARGETTAG_DB tag) (GET_PREDICATELOCKTARGETTAG_RELATION tag))
     | PREDLOCKTAG_TUPLE \<Rightarrow>
         Some (SET_PREDICATELOCKTARGETTAG_PAGE (GET_PREDICATELOCKTARGETTAG_DB tag) (GET_PREDICATELOCKTARGETTAG_RELATION tag)
                 (GET_PREDICATELOCKTARGETTAG_PAGE tag)))"

text \<open>The tags that the loops \<open>while (GetParentPredicateLockTag(...))\<close> visit, the finest first; the parent of a tag is of a coarser type.\<close>

fun coarseness :: "PredicateLockTargetType \<Rightarrow> nat" where
  "coarseness PREDLOCKTAG_TUPLE = 2"
| "coarseness PREDLOCKTAG_PAGE = 1"
| "coarseness PREDLOCKTAG_RELATION = 0"

lemma parent_coarser:
  "GetParentPredicateLockTag tag = Some parent \<Longrightarrow>
     coarseness (GET_PREDICATELOCKTARGETTAG_TYPE parent) < coarseness (GET_PREDICATELOCKTARGETTAG_TYPE tag)"
  by (auto simp: GetParentPredicateLockTag_def GET_PREDICATELOCKTARGETTAG_TYPE_def SET_PREDICATELOCKTARGETTAG_RELATION_def
      SET_PREDICATELOCKTARGETTAG_PAGE_def split: if_splits)

function parent_tags :: "PREDICATELOCKTARGETTAG \<Rightarrow> PREDICATELOCKTARGETTAG list" where
  "parent_tags tag = (case GetParentPredicateLockTag tag of None \<Rightarrow> [] | Some parent \<Rightarrow> parent # parent_tags parent)"
  by auto

termination parent_tags
  by (relation "measure (coarseness \<circ> GET_PREDICATELOCKTARGETTAG_TYPE)") (simp_all add: parent_coarser)

declare parent_tags.simps [simp del]

definition PredicateLockExists :: "PREDICATELOCKTARGETTAG \<Rightarrow> (backend, bool) prog" where
  "PredicateLockExists targettag =
     bindp local_table (\<lambda>table. case table targettag of None \<Rightarrow> ret False | Some lock \<Rightarrow> ret (lock_held lock))"

definition CoarserLockCovers :: "PREDICATELOCKTARGETTAG \<Rightarrow> (backend, bool) prog" where
  "CoarserLockCovers newtargettag = anyp PredicateLockExists (parent_tags newtargettag)"

text \<open>The parameters \<open>max_predicate_locks_per_xact\<close>, \<open>..._per_relation\<close> and \<open>..._per_page\<close>.\<close>

record predlock_limits =
  per_xact :: int
  per_relation :: int
  per_page :: int

definition MaxPredicateChildLocks :: "predlock_limits \<Rightarrow> PREDICATELOCKTARGETTAG \<Rightarrow> int result" where
  "MaxPredicateChildLocks lim tag = (case GET_PREDICATELOCKTARGETTAG_TYPE tag of
       PREDLOCKTAG_RELATION \<Rightarrow> Inr (if per_relation lim < 0 then per_xact lim div (- per_relation lim) - 1 else per_relation lim)
     | PREDLOCKTAG_PAGE \<Rightarrow> Inr (per_page lim)
     | PREDLOCKTAG_TUPLE \<Rightarrow> Inl AssertFail)"

subsection \<open>The shared tables\<close>

text \<open>\<open>hash_search\<close> with \<open>HASH_ENTER_NULL\<close>: the answer is whether the entry was there.\<close>

definition enter_target :: "PREDICATELOCKTARGETTAG \<Rightarrow> (predlocks, bool) prog" where
  "enter_target tag =
     bindp (gets (\<lambda>p. (PredicateLockTargetHash p tag, target_room p))) (\<lambda>(entry, room).
     if entry \<noteq> None then ret True
     else if room = 0 then throw (Ereport ''out of shared memory'')
     else thenp (modify (\<lambda>p. p\<lparr>PredicateLockTargetHash := (PredicateLockTargetHash p)(tag \<mapsto> []), target_room := target_room p - 1\<rparr>)) (ret False))"

definition enter_lock :: "PREDICATELOCKTARGETTAG \<Rightarrow> nat \<Rightarrow> SerCommitSeqNo \<Rightarrow> (predlocks, bool) prog" where
  "enter_lock tag x seqno =
     bindp (gets (\<lambda>p. (PredicateLockHash p (tag, x), lock_room p))) (\<lambda>(entry, room).
     if entry \<noteq> None then ret True
     else if room = 0 then throw (Ereport ''out of shared memory'')
     else
       thenp (modify (\<lambda>p. p\<lparr>PredicateLockHash := (PredicateLockHash p)((tag, x) \<mapsto> seqno), lock_room := lock_room p - 1\<rparr>)) (ret False))"

definition queue_lock :: "PREDICATELOCKTARGETTAG \<Rightarrow> nat \<Rightarrow> (predlocks, unit) prog" where
  "queue_lock tag x =
     modify (\<lambda>p. p\<lparr>PredicateLockTargetHash := (PredicateLockTargetHash p)(tag := map_option (\<lambda>xs. xs @ [x]) (PredicateLockTargetHash p tag)),
                  predicateLocks := (predicateLocks p)(x := predicateLocks p x @ [tag])\<rparr>)"

text \<open>A lock leaves its two queues and the table; removing it from a table without it is the failed assertion of the callers.\<close>

definition remove_lock :: "PREDICATELOCKTARGETTAG \<Rightarrow> nat \<Rightarrow> (predlocks, unit) prog" where
  "remove_lock tag x =
     bindp (gets (\<lambda>p. PredicateLockHash p (tag, x))) (\<lambda>entry.
     thenp (assertp (entry \<noteq> None))
     (modify (\<lambda>p. p\<lparr>PredicateLockTargetHash := (PredicateLockTargetHash p)(tag := map_option (removeAll x) (PredicateLockTargetHash p tag)),
                    predicateLocks := (predicateLocks p)(x := removeAll tag (predicateLocks p x)),
                    PredicateLockHash := (PredicateLockHash p)((tag, x) := None), lock_room := lock_room p + 1\<rparr>)))"

definition remove_unused :: "PREDICATELOCKTARGETTAG \<Rightarrow> (predlocks, unit) prog" where
  "remove_unused tag =
     bindp (gets (\<lambda>p. PredicateLockTargetHash p tag)) (\<lambda>target. case target of
       None \<Rightarrow> throw BadAddr
     | Some xs \<Rightarrow> whenp (xs = [])
         (modify (\<lambda>p. p\<lparr>PredicateLockTargetHash := (PredicateLockTargetHash p)(tag := None), target_room := target_room p + 1\<rparr>)))"

definition RemoveTargetIfNoLongerUsed :: "PREDICATELOCKTARGETTAG \<Rightarrow> (backend, unit) prog" where
  "RemoveTargetIfNoLongerUsed tag =
     bindp (LWLockHeldByMe SerializablePredicateLockListLock) (\<lambda>is_held.
     thenp (assertp is_held)
     (in_locks (remove_unused tag)))"

definition CreatePredicateLock :: "(PREDICATELOCKTARGETTAG \<Rightarrow> uint32) \<Rightarrow> PREDICATELOCKTARGETTAG \<Rightarrow> nat \<Rightarrow> (backend, unit) prog" where
  "CreatePredicateLock hash targettag x =
     (let partitionLock = PredicateLockHashPartitionLock (hash targettag) in
     thenp (LWLockAcquire SerializablePredicateLockListLock LW_SHARED)
     (thenp (LWLockAcquire partitionLock LW_EXCLUSIVE)
     (thenp (in_locks (enter_target targettag))
     (bindp (in_locks (enter_lock targettag x InvalidSerCommitSeqNo)) (\<lambda>found.
     thenp (whenp (\<not> found) (in_locks (queue_lock targettag x)))
     (thenp (LWLockRelease partitionLock)
     (LWLockRelease SerializablePredicateLockListLock)))))))"

subsection \<open>Taking a lock\<close>

definition DecrementParentLock :: "PREDICATELOCKTARGETTAG \<Rightarrow> (backend, unit) prog" where
  "DecrementParentLock parenttag =
     bindp local_table (\<lambda>table. case table parenttag of
       None \<Rightarrow> ret ()
     | Some parentlock \<Rightarrow>
         let n = childLocks parentlock - 1 in
         thenp (assertp (n < 0 \<longrightarrow> lock_held parentlock))
         (let n = (if n < 0 then 0 else n) in
          if n = 0 \<and> \<not> lock_held parentlock then set_local parenttag None
          else set_local parenttag (Some (parentlock\<lparr>childLocks := n\<rparr>))))"

definition DecrementParentLocks :: "PREDICATELOCKTARGETTAG \<Rightarrow> (backend, unit) prog" where
  "DecrementParentLocks targettag = eachp DecrementParentLock (parent_tags targettag)"

definition delete_child :: "(PREDICATELOCKTARGETTAG \<Rightarrow> uint32) \<Rightarrow> nat \<Rightarrow> PREDICATELOCKTARGETTAG \<Rightarrow> PREDICATELOCKTARGETTAG \<Rightarrow> (backend, unit) prog" where
  "delete_child hash me newtargettag oldtargettag =
     whenp (TargetTagIsCoveredBy oldtargettag newtargettag)
       (let partitionLock = PredicateLockHashPartitionLock (hash oldtargettag) in
        thenp (LWLockAcquire partitionLock LW_EXCLUSIVE)
        (thenp (in_locks (remove_lock oldtargettag me))
        (thenp (RemoveTargetIfNoLongerUsed oldtargettag)
        (thenp (LWLockRelease partitionLock)
        (DecrementParentLocks oldtargettag)))))"

definition DeleteChildTargetLocks :: "(PREDICATELOCKTARGETTAG \<Rightarrow> uint32) \<Rightarrow> nat \<Rightarrow> PREDICATELOCKTARGETTAG \<Rightarrow> (backend, unit) prog" where
  "DeleteChildTargetLocks hash me newtargettag =
     thenp (LWLockAcquire SerializablePredicateLockListLock LW_SHARED)
     (bindp (in_locks (gets (\<lambda>p. predicateLocks p me))) (\<lambda>locks.
     thenp (eachp (delete_child hash me newtargettag) locks)
     (LWLockRelease SerializablePredicateLockListLock)))"

text \<open>The loop of \<open>CheckAndPromotePredicateLockRequest\<close>; it answers the coarsest tag that has too many locks below it.\<close>

fun count_in_parents :: "predlock_limits \<Rightarrow> PREDICATELOCKTARGETTAG list \<Rightarrow> PREDICATELOCKTARGETTAG option \<Rightarrow> (backend, PREDICATELOCKTARGETTAG option) prog" where
  "count_in_parents lim [] promotion = ret promotion"
| "count_in_parents lim (tag # tags) promotion =
     bindp local_table (\<lambda>table.
     let parentlock = (case table tag of None \<Rightarrow> \<lparr>lock_held = False, childLocks = 1\<rparr>
                       | Some lock \<Rightarrow> lock\<lparr>childLocks := childLocks lock + 1\<rparr>) in
     thenp (set_local tag (Some parentlock))
     (bindp (liftp (MaxPredicateChildLocks lim tag)) (\<lambda>limit.
      count_in_parents lim tags (if childLocks parentlock > limit then Some tag else promotion))))"

text \<open>
  \<open>PredicateLockAcquire\<close> and \<open>CheckAndPromotePredicateLockRequest\<close> call each other; every call is for a coarser target, so
  \<open>n\<close> need not be more than the number of granularities.
\<close>

fun acquire_promote :: "nat \<Rightarrow> (PREDICATELOCKTARGETTAG \<Rightarrow> uint32) \<Rightarrow> predlock_limits \<Rightarrow> nat \<Rightarrow> PREDICATELOCKTARGETTAG \<Rightarrow> (backend, unit) prog" where
  "acquire_promote 0 hash lim me targettag = throw Diverges"
| "acquire_promote (Suc n) hash lim me targettag =
     bindp (PredicateLockExists targettag) (\<lambda>exists.
     if exists then ret ()
     else
       bindp (CoarserLockCovers targettag) (\<lambda>covered.
       if covered then ret ()
       else
         bindp local_table (\<lambda>table.
         thenp (set_local targettag (Some (case table targettag of None \<Rightarrow> \<lparr>lock_held = True, childLocks = 0\<rparr>
                                            | Some locallock \<Rightarrow> locallock\<lparr>lock_held := True\<rparr>)))
         (thenp (CreatePredicateLock hash targettag me)
         (bindp (count_in_parents lim (parent_tags targettag) None) (\<lambda>promotion. case promotion of
           Some promotiontag \<Rightarrow> acquire_promote n hash lim me promotiontag
         | None \<Rightarrow>
             whenp (GET_PREDICATELOCKTARGETTAG_TYPE targettag \<noteq> PREDLOCKTAG_TUPLE) (DeleteChildTargetLocks hash me targettag)))))))"

definition PredicateLockAcquire :: "(PREDICATELOCKTARGETTAG \<Rightarrow> uint32) \<Rightarrow> predlock_limits \<Rightarrow> nat \<Rightarrow> PREDICATELOCKTARGETTAG \<Rightarrow> (backend, unit) prog" where
  "PredicateLockAcquire hash lim me targettag = acquire_promote 3 hash lim me targettag"

end
