(* ===== verification/PredLockCheck.thy ===== *)
theory PredLockCheck
  imports PredLocks
begin

text \<open>
  The entry points on predicate locks of \<open>src/backend/storage/lmgr/predicate.c\<close>: locking what is read, checking what is
  written, and releasing the locks of a transaction.
\<close>

subsection \<open>Reading\<close>

definition my_xact :: "(backend, nat) prog" where
  "my_xact = bindp (gets MySerializableXact) (\<lambda>mine. case mine of None \<Rightarrow> throw NullDeref | Some me \<Rightarrow> ret me)"

definition PageIsPredicateLocked :: "(PREDICATELOCKTARGETTAG \<Rightarrow> uint32) \<Rightarrow> relation_info \<Rightarrow> BlockNumber \<Rightarrow> (backend, bool) prog" where
  "PageIsPredicateLocked hash rel blkno =
     (let targettag = SET_PREDICATELOCKTARGETTAG_PAGE (dbNode rel) (rd_id rel) blkno;
          partitionLock = PredicateLockHashPartitionLock (hash targettag) in
      thenp (LWLockAcquire partitionLock LW_SHARED)
      (bindp (in_locks (gets (\<lambda>p. PredicateLockTargetHash p targettag))) (\<lambda>target.
      thenp (LWLockRelease partitionLock)
      (ret (target \<noteq> None)))))"

text \<open>\<open>needed\<close> is the call of \<open>SerializationNeededForRead\<close>.\<close>

definition PredicateLockRelation ::
  "(PREDICATELOCKTARGETTAG \<Rightarrow> uint32) \<Rightarrow> predlock_limits \<Rightarrow> (backend, bool) prog \<Rightarrow> relation_info \<Rightarrow> (backend, unit) prog"
where
  "PredicateLockRelation hash lim needed rel =
     bindp needed (\<lambda>go.
     whenp go (bindp my_xact (\<lambda>me. PredicateLockAcquire hash lim me (SET_PREDICATELOCKTARGETTAG_RELATION (dbNode rel) (rd_id rel)))))"

definition PredicateLockPage ::
  "(PREDICATELOCKTARGETTAG \<Rightarrow> uint32) \<Rightarrow> predlock_limits \<Rightarrow> (backend, bool) prog \<Rightarrow> relation_info \<Rightarrow> BlockNumber \<Rightarrow> (backend, unit) prog"
where
  "PredicateLockPage hash lim needed rel blkno =
     bindp needed (\<lambda>go.
     whenp go (bindp my_xact (\<lambda>me. PredicateLockAcquire hash lim me (SET_PREDICATELOCKTARGETTAG_PAGE (dbNode rel) (rd_id rel) blkno))))"

text \<open>
  \<open>tid\<close> is the tuple's item pointer and \<open>rd\<close> has, as for the check on reads, the id of the transaction that inserted it, the
  backend's own id and \<open>TransactionXmin\<close>.
\<close>

definition wrote_it :: "relation_info \<Rightarrow> reading \<Rightarrow> bool" where
  "wrote_it rel rd \<longleftrightarrow> \<not> is_index rel \<and> TransactionIdIsValid (my_xid rd)
     \<and> TransactionIdFollowsOrEquals (tuple_xmin rd) (TransactionXmin rd) \<and> topmost rd (tuple_xmin rd) = my_xid rd"

definition tuple_tag :: "relation_info \<Rightarrow> ItemPointerData \<Rightarrow> PREDICATELOCKTARGETTAG result" where
  "tuple_tag rel tid =
     bind_res (ItemPointerGetBlockNumber tid) (\<lambda>blk.
     bind_res (ItemPointerGetOffsetNumber tid) (\<lambda>off.
     Inr (SET_PREDICATELOCKTARGETTAG_TUPLE (dbNode rel) (rd_id rel) blk off)))"

definition PredicateLockTuple ::
  "(PREDICATELOCKTARGETTAG \<Rightarrow> uint32) \<Rightarrow> predlock_limits \<Rightarrow> (backend, bool) prog \<Rightarrow> relation_info \<Rightarrow> ItemPointerData \<Rightarrow> reading \<Rightarrow> (backend, unit) prog"
where
  "PredicateLockTuple hash lim needed rel tid rd =
     bindp needed (\<lambda>go.
     whenp (go \<and> \<not> wrote_it rel rd)
       (bindp (PredicateLockExists (SET_PREDICATELOCKTARGETTAG_RELATION (dbNode rel) (rd_id rel))) (\<lambda>whole.
        whenp (\<not> whole)
          (bindp (liftp (tuple_tag rel tid)) (\<lambda>tag.
           bindp my_xact (\<lambda>me. PredicateLockAcquire hash lim me tag))))))"

subsection \<open>Writing\<close>

text \<open>Whether the transaction \<open>x\<close>, which has read the target, is one to flag a conflict with; \<open>snapshot_xmin\<close> is \<open>GetTransactionSnapshot()->xmin\<close>.\<close>

definition conflict_in_needed :: "TransactionId \<Rightarrow> nat \<Rightarrow> nat \<Rightarrow> (ssi, bool) prog" where
  "conflict_in_needed snapshot_xmin me x =
     bindp (get_sxact x) (\<lambda>sxact.
     if SxactIsDoomed sxact then ret False
     else if SxactIsCommitted sxact \<and> \<not> TransactionIdPrecedes snapshot_xmin (finishedBefore sxact) then ret False
     else bindp (RWConflictExists x me) (\<lambda>exists. ret (\<not> exists)))"

definition flag_reader :: "TransactionId \<Rightarrow> nat \<Rightarrow> nat \<Rightarrow> (backend, unit) prog" where
  "flag_reader snapshot_xmin me x =
     whenp (x \<noteq> me)
       (bindp (in_ssi (conflict_in_needed snapshot_xmin me x)) (\<lambda>go.
        whenp go
          (thenp (LWLockRelease SerializableXactHashLock)
          (thenp (LWLockAcquire SerializableXactHashLock LW_EXCLUSIVE)
          (bindp (in_ssi (conflict_in_needed snapshot_xmin me x)) (\<lambda>go.
          thenp (whenp go (FlagRWConflict x me))
          (thenp (LWLockRelease SerializableXactHashLock)
          (thenp (LWLockAcquire SerializableXactHashLock LW_SHARED) (ret ())))))))))"

definition drop_own_lock :: "(PREDICATELOCKTARGETTAG \<Rightarrow> uint32) \<Rightarrow> nat \<Rightarrow> PREDICATELOCKTARGETTAG \<Rightarrow> (backend, unit) prog" where
  "drop_own_lock hash me targettag =
     (let partitionLock = PredicateLockHashPartitionLock (hash targettag) in
      thenp (LWLockAcquire SerializablePredicateLockListLock LW_SHARED)
      (thenp (LWLockAcquire partitionLock LW_EXCLUSIVE)
      (thenp (LWLockAcquire SerializableXactHashLock LW_EXCLUSIVE)
      (bindp (in_locks (gets (\<lambda>p. PredicateLockHash p (targettag, me)))) (\<lambda>rmpredlock.
      thenp (whenp (rmpredlock \<noteq> None)
              (thenp (in_locks (remove_lock targettag me)) (RemoveTargetIfNoLongerUsed targettag)))
      (thenp (LWLockRelease SerializableXactHashLock)
      (thenp (LWLockRelease partitionLock)
      (thenp (LWLockRelease SerializablePredicateLockListLock)
      (whenp (rmpredlock \<noteq> None)
        (thenp (set_local targettag None)
        (DecrementParentLocks targettag)))))))))))"

definition CheckTargetForConflictsIn ::
  "(PREDICATELOCKTARGETTAG \<Rightarrow> uint32) \<Rightarrow> TransactionId \<Rightarrow> bool \<Rightarrow> PREDICATELOCKTARGETTAG \<Rightarrow> (backend, unit) prog"
where
  "CheckTargetForConflictsIn hash snapshot_xmin IsSubTransaction targettag =
     (let partitionLock = PredicateLockHashPartitionLock (hash targettag) in
      bindp my_xact (\<lambda>me.
      thenp (LWLockAcquire partitionLock LW_SHARED)
      (bindp (in_locks (gets (\<lambda>p. PredicateLockTargetHash p targettag))) (\<lambda>target. case target of
        None \<Rightarrow> LWLockRelease partitionLock
      | Some xs \<Rightarrow>
          thenp (LWLockAcquire SerializableXactHashLock LW_SHARED)
          (thenp (eachp (flag_reader snapshot_xmin me) xs)
          (thenp (LWLockRelease SerializableXactHashLock)
          (thenp (LWLockRelease partitionLock)
          (whenp (me \<in> set xs \<and> \<not> IsSubTransaction \<and> GET_PREDICATELOCKTARGETTAG_OFFSET targettag \<noteq> 0)
            (drop_own_lock hash me targettag)))))))))"

text \<open>\<open>tid\<close> is the item pointer of the tuple, if there is one, and \<open>blkno\<close> the block of the buffer, if there is one.\<close>

definition CheckForSerializableConflictIn ::
  "(PREDICATELOCKTARGETTAG \<Rightarrow> uint32) \<Rightarrow> TransactionId \<Rightarrow> bool \<Rightarrow> relation_info \<Rightarrow> ItemPointerData option \<Rightarrow> BlockNumber option \<Rightarrow> (backend, unit) prog"
where
  "CheckForSerializableConflictIn hash snapshot_xmin IsSubTransaction rel tid blkno =
     bindp (SerializationNeededForWrite rel) (\<lambda>needed.
     whenp needed
       (bindp my_xact (\<lambda>me.
        bindp (in_ssi (get_sxact me)) (\<lambda>sxact.
        if SxactIsDoomed sxact then
          throw (serialization_failure ''Canceled on identification as a pivot, during conflict in checking.'')
        else
          thenp (modify (\<lambda>s. s\<lparr>MyXactDidWrite := True\<rparr>))
          (thenp (case tid of None \<Rightarrow> ret ()
                  | Some tid \<Rightarrow> bindp (liftp (tuple_tag rel tid)) (CheckTargetForConflictsIn hash snapshot_xmin IsSubTransaction))
          (thenp (case blkno of None \<Rightarrow> ret ()
                  | Some blk \<Rightarrow>
                      CheckTargetForConflictsIn hash snapshot_xmin IsSubTransaction (SET_PREDICATELOCKTARGETTAG_PAGE (dbNode rel) (rd_id rel) blk))
          (CheckTargetForConflictsIn hash snapshot_xmin IsSubTransaction (SET_PREDICATELOCKTARGETTAG_RELATION (dbNode rel) (rd_id rel)))))))))"

subsection \<open>The locks of a transaction are released\<close>

text \<open>The links of the locks of a released transaction in its own queue are not deleted one by one; the queue is reset at the end.\<close>

definition take_from_target :: "PREDICATELOCKTARGETTAG \<Rightarrow> nat \<Rightarrow> (predlocks, unit) prog" where
  "take_from_target tag x =
     modify (\<lambda>p. p\<lparr>PredicateLockTargetHash := (PredicateLockTargetHash p)(tag := map_option (removeAll x) (PredicateLockTargetHash p tag)),
       PredicateLockHash := (PredicateLockHash p)((tag, x) := None),
       lock_room := lock_room p + (if PredicateLockHash p (tag, x) = None then 0 else 1)\<rparr>)"

definition summarize_lock :: "PREDICATELOCKTARGETTAG \<Rightarrow> nat \<Rightarrow> SerCommitSeqNo \<Rightarrow> (predlocks, unit) prog" where
  "summarize_lock tag old seqno =
     bindp (gets (\<lambda>p. PredicateLockHash p (tag, old))) (\<lambda>before.
     bindp (enter_lock tag old seqno) (\<lambda>found.
     if found then
       (case before of None \<Rightarrow> throw NullDeref
        | Some n \<Rightarrow>
            thenp (assertp (n \<noteq> 0))
            (thenp (assertp (n \<noteq> InvalidSerCommitSeqNo))
            (whenp (n < seqno) (modify (\<lambda>p. p\<lparr>PredicateLockHash := (PredicateLockHash p)((tag, old) \<mapsto> seqno)\<rparr>)))))
     else queue_lock tag old))"

definition release_lock :: "(PREDICATELOCKTARGETTAG \<Rightarrow> uint32) \<Rightarrow> nat \<Rightarrow> bool \<Rightarrow> PREDICATELOCKTARGETTAG \<Rightarrow> (backend, unit) prog" where
  "release_lock hash x summarize tag =
     (let partitionLock = PredicateLockHashPartitionLock (hash tag) in
      thenp (LWLockAcquire partitionLock LW_EXCLUSIVE)
      (thenp (in_locks (take_from_target tag x))
      (thenp (if summarize then
                bindp (in_ssi (bindp (get_sxact x) (\<lambda>sxact. gets (\<lambda>s. (OldCommittedSxact s, commitSeqNo sxact))))) (\<lambda>(old, seqno).
                in_locks (summarize_lock tag old seqno))
              else RemoveTargetIfNoLongerUsed tag)
      (LWLockRelease partitionLock))))"

definition release_all_locks :: "(PREDICATELOCKTARGETTAG \<Rightarrow> uint32) \<Rightarrow> nat \<Rightarrow> bool \<Rightarrow> (backend, unit) prog" where
  "release_all_locks hash x summarize =
     thenp (LWLockAcquire SerializablePredicateLockListLock LW_SHARED)
     (bindp (in_locks (gets (\<lambda>p. predicateLocks p x))) (\<lambda>tags.
     thenp (eachp (release_lock hash x summarize) tags)
     (thenp (in_locks (modify (\<lambda>p. p\<lparr>predicateLocks := (predicateLocks p)(x := [])\<rparr>)))
     (LWLockRelease SerializablePredicateLockListLock))))"

text \<open>The loop of \<open>ClearOldPredicateLocks\<close> over the locks of the dummy transaction.\<close>

definition clear_old_lock :: "(PREDICATELOCKTARGETTAG \<Rightarrow> uint32) \<Rightarrow> nat \<Rightarrow> PREDICATELOCKTARGETTAG \<Rightarrow> (backend, unit) prog" where
  "clear_old_lock hash old tag =
     thenp (LWLockAcquire SerializableXactHashLock LW_SHARED)
     (bindp (in_locks (gets (\<lambda>p. PredicateLockHash p (tag, old)))) (\<lambda>entry.
     bindp (in_ssi (gets CanPartialClearThrough)) (\<lambda>through. case entry of
       None \<Rightarrow> throw BadAddr
     | Some seqno \<Rightarrow>
         thenp (assertp (seqno \<noteq> 0))
         (thenp (assertp (seqno \<noteq> InvalidSerCommitSeqNo))
         (thenp (LWLockRelease SerializableXactHashLock)
         (whenp (seqno \<le> through)
           (let partitionLock = PredicateLockHashPartitionLock (hash tag) in
            thenp (LWLockAcquire partitionLock LW_EXCLUSIVE)
            (thenp (in_locks (remove_lock tag old))
            (thenp (RemoveTargetIfNoLongerUsed tag)
            (LWLockRelease partitionLock))))))))))"

definition clear_old_locks :: "(PREDICATELOCKTARGETTAG \<Rightarrow> uint32) \<Rightarrow> (backend, unit) prog" where
  "clear_old_locks hash =
     thenp (LWLockAcquire SerializablePredicateLockListLock LW_SHARED)
     (bindp (in_ssi (gets OldCommittedSxact)) (\<lambda>old.
     bindp (in_locks (gets (\<lambda>p. predicateLocks p old))) (\<lambda>tags.
     thenp (eachp (clear_old_lock hash old) tags)
     (LWLockRelease SerializablePredicateLockListLock))))"

text \<open>The end of a transaction with its predicate locks.\<close>

definition end_transaction :: "(PREDICATELOCKTARGETTAG \<Rightarrow> uint32) \<Rightarrow> bool \<Rightarrow> (backend, unit) prog" where
  "end_transaction hash isCommit = ReleasePredicateLocks (release_all_locks hash) (clear_old_locks hash) isCommit"

end
