(* ===== verification/PredLockAlone.thy ===== *)
theory PredLockAlone
  imports PredLockCheck MigrateScanFacts
begin

text \<open>
  A backend that runs alone and finds the locks it needs free: taking and releasing them, nested, and access to the tables under them.
\<close>

subsection \<open>Locks in both modes\<close>

definition taken_in :: "LWLockMode \<Rightarrow> nat \<Rightarrow> backend \<Rightarrow> backend" where
  "taken_in mode i s = (set_word i (word_of i s + lock_value mode) s)
     \<lparr>held_lwlocks := held_lwlocks s @ [(i, mode)], InterruptHoldoffCount := InterruptHoldoffCount s + 1\<rparr>"

text \<open>\<open>put q p l\<close> sets the shared data of transactions, the tables of predicate locks and the backend's own table.\<close>

definition put :: "ssi \<Rightarrow> predlocks \<Rightarrow> (PREDICATELOCKTARGETTAG \<Rightarrow> LOCALPREDICATELOCK option) \<Rightarrow> backend \<Rightarrow> backend" where
  "put q p l b = b\<lparr>shm := (shm b)\<lparr>PredXact := q, PredLocks := p\<rparr>, LocalPredicateLockHash := Some l\<rparr>"

text \<open>The locks of \<open>L\<close> are free, and the backend can take \<open>n\<close> locks more.\<close>

definition ready :: "nat \<Rightarrow> nat set \<Rightarrow> backend \<Rightarrow> bool" where
  "ready n L s \<longleftrightarrow> env s = [] \<and> MyProc s \<noteq> None \<and> length (held_lwlocks s) + n \<le> MAX_SIMUL_LWLOCKS \<and>
     unat (InterruptHoldoffCount s) + n < 2 ^ 32 \<and>
     (\<forall>i \<in> L. i < length (locks s) \<and> lock_free LW_EXCLUSIVE (word_of i s) \<and> \<not> must_wake (word_of i s))"

lemma put_locks_simps [simp]:
  "put q' p' l' (put q p l b) = put q' p' l' b" "taken_in m i (put q p l b) = put q p l (taken_in m i b)"
  "ready n L (put q p l b) = ready n L b" "env (put q p l b) = env b" "PredLocks (shm (put q p l b)) = p" "PredXact (shm (put q p l b)) = q"
  "LocalPredicateLockHash (put q p l b) = Some l" "MySerializableXact (put q p l b) = MySerializableXact b"
  "held_lwlocks (put q p l b) = held_lwlocks b"
  by (simp_all add: put_def taken_in_def set_word_def set_lock_def ready_def)

lemma taken_in_simps [simp]:
  "env (taken_in m i b) = env b" "held_lwlocks (taken_in m i b) = held_lwlocks b @ [(i, m)]" "MySerializableXact (taken_in m i b) = MySerializableXact b"
  by (simp_all add: taken_in_def set_word_def set_lock_def)

lemma lock_free_any:
  assumes "lock_free LW_EXCLUSIVE w"
  shows "lock_free mode w"
proof -
  have "LW_LOCK_MASK AND LW_VAL_EXCLUSIVE = LW_VAL_EXCLUSIVE"
    by (simp add: LW_LOCK_MASK_def LW_VAL_EXCLUSIVE_def push_bit_eq_mult)
  then have "w AND LW_VAL_EXCLUSIVE = (w AND LW_LOCK_MASK) AND LW_VAL_EXCLUSIVE" by (simp only: and.assoc)
  with assms show ?thesis by (simp add: lock_free_def)
qed

lemma ready_taken:
  assumes "ready (Suc n) L s" and "i \<in> L"
  shows "ready n (L - {i}) (taken_in m i s)"
proof -
  have "unat (InterruptHoldoffCount s + 1) = Suc (unat (InterruptHoldoffCount s))"
    using assms(1) by (auto simp: ready_def unat_word_ariths)
  then show ?thesis using assms by (auto simp: ready_def taken_in_def set_word_def set_lock_def)
qed

lemma wp_take:
  assumes "ready (Suc n) L s" and "i \<in> L" and "mode \<noteq> LW_WAIT_UNTIL_FREE"
  shows "wp (LWLockAcquire i mode) Q E s = Q True (taken_in mode i s)"
proof -
  have "LWLockAcquire i mode s = (Inr True, taken_in mode i s)"
    unfolding taken_in_def using assms by (intro acquire_free_alone) (auto simp: ready_def lock_free_any)
  then show ?thesis by (simp add: wp_def)
qed

lemma wp_give:
  assumes "ready (Suc n) L s" and "i \<in> L"
  shows "wp (LWLockRelease i) Q E (put q p l (taken_in mode i s)) = Q () (put q p l s)"
proof -
  let ?t = "put q p l (taken_in mode i s)"
  have i: "i < length (locks s)" and f: "lock_free LW_EXCLUSIVE (word_of i s)" and e: "env s = []" and mw: "\<not> must_wake (word_of i s)"
    using assms by (auto simp: ready_def)
  have w: "released_word i mode ?t = word_of i s" using i by (simp add: released_word_def put_def taken_in_def set_word_def set_lock_def)
  have c: "InterruptHoldoffCount ?t = InterruptHoldoffCount s + 1" by (simp add: put_def taken_in_def set_word_def set_lock_def)
  have "unat (InterruptHoldoffCount s + 1) = Suc (unat (InterruptHoldoffCount s))"
    using assms(1) by (auto simp: ready_def unat_word_ariths)
  then have pos: "0 < InterruptHoldoffCount ?t" unfolding c by (simp add: word_less_nat_alt)
  have "LWLockRelease i ?t = (Inr (), (set_word i (word_of i s) ?t)\<lparr>held_lwlocks := held_lwlocks s, InterruptHoldoffCount := InterruptHoldoffCount ?t - 1\<rparr>)"
    using release_quiet [of ?t i "held_lwlocks s" mode] e i f mw w pos lock_free_exclusive_bit [OF f]
    by (simp add: put_def taken_in_def set_word_def set_lock_def)
  also have "(set_word i (word_of i s) ?t)\<lparr>held_lwlocks := held_lwlocks s, InterruptHoldoffCount := InterruptHoldoffCount ?t - 1\<rparr> = put q p l s"
    using i by (simp add: put_def taken_in_def set_word_def set_lock_def)
  finally show ?thesis by (simp add: wp_def)
qed

lemma put_again:
  "(put q p l b)\<lparr>shm := (shm (put q p l b))\<lparr>PredLocks := p'\<rparr>\<rparr> = put q p' l b"
  "(put q p l b)\<lparr>shm := (shm (put q p l b))\<lparr>PredXact := q'\<rparr>\<rparr> = put q' p l b"
  by (simp_all add: put_def backend.equality shmem.equality)

lemma wp_in_locks_alone: "env b = [] \<Longrightarrow> wp (in_locks m) Q E (put q p l b) = wp m (\<lambda>x p'. Q x (put q p' l b)) (\<lambda>e p'. E e (put q p' l b)) p"
  by (simp add: in_locks_def wp_simps) (simp add: wp_def put_again split: prod.splits sum.splits)

lemma wp_in_ssi_put: "env b = [] \<Longrightarrow> wp (in_ssi m) Q E (put q p l b) = wp m (\<lambda>x q'. Q x (put q' p l b)) (\<lambda>e q'. E e (put q' p l b)) q"
  by (simp add: in_ssi_def wp_simps) (simp add: wp_def put_again split: prod.splits sum.splits)

lemma wp_local_table: "wp local_table Q E (put q p l b) = Q l (put q p l b)"
  by (simp add: local_table_def wp_simps)

lemma wp_set_local: "wp (set_local tag e) Q E (put q p l b) = Q () (put q p (l(tag := e)) b)"
  by (simp add: set_local_def wp_bindp wp_local_table wp_modify) (simp add: put_def)

text \<open>The locks that protect the tables and the shared data of transactions.\<close>

definition predicate_locks :: "nat set" where
  "predicate_locks = {SerializablePredicateLockListLock, SerializableXactHashLock} \<union> range PredicateLockHashPartitionLock"

lemma partition_lock_neq:
  "PredicateLockHashPartitionLock h \<noteq> SerializablePredicateLockListLock" "PredicateLockHashPartitionLock h \<noteq> SerializableXactHashLock"
  "SerializablePredicateLockListLock \<noteq> SerializableXactHashLock"
  by (simp_all add: PredicateLockHashPartitionLock_def SerializablePredicateLockListLock_def SerializableXactHashLock_def
      PREDICATELOCK_MANAGER_LWLOCK_OFFSET_def LOCK_MANAGER_LWLOCK_OFFSET_def BUFFER_MAPPING_LWLOCK_OFFSET_def NUM_INDIVIDUAL_LWLOCKS_def
      NUM_BUFFER_PARTITIONS_def NUM_LOCK_PARTITIONS_def)

lemma predicate_locks_mem [simp]:
  "SerializablePredicateLockListLock \<in> predicate_locks" "SerializableXactHashLock \<in> predicate_locks" "PredicateLockHashPartitionLock h \<in> predicate_locks"
  by (simp_all add: predicate_locks_def)

end
