(* ===== verification/PredLockInv.thy ===== *)
theory PredLockInv
  imports PredLocks
begin

text \<open>
  What the tables of predicate locks satisfy, and what a transaction's locks cover.
\<close>

subsection \<open>Tags\<close>

text \<open>The last field of a tag is an offset number.\<close>

definition tag_ok :: "PREDICATELOCKTARGETTAG \<Rightarrow> bool" where
  "tag_ok tag \<longleftrightarrow> locktag_field4 tag = ucast (GET_PREDICATELOCKTARGETTAG_OFFSET tag)"

lemmas tag_defs = GET_PREDICATELOCKTARGETTAG_TYPE_def SET_PREDICATELOCKTARGETTAG_RELATION_def SET_PREDICATELOCKTARGETTAG_PAGE_def
  SET_PREDICATELOCKTARGETTAG_TUPLE_def GET_PREDICATELOCKTARGETTAG_DB_def GET_PREDICATELOCKTARGETTAG_RELATION_def
  GET_PREDICATELOCKTARGETTAG_PAGE_def GET_PREDICATELOCKTARGETTAG_OFFSET_def

lemma offset_up_down: "ucast (ucast (off :: OffsetNumber) :: uint32) = off"
  by (simp add: unsigned_ucast_eq take_bit_word_eq_self)

lemma set_tags_ok [simp]:
  "tag_ok (SET_PREDICATELOCKTARGETTAG_RELATION db rel)" "tag_ok (SET_PREDICATELOCKTARGETTAG_PAGE db rel blk)"
  "tag_ok (SET_PREDICATELOCKTARGETTAG_TUPLE db rel blk off)"
  by (simp_all add: tag_ok_def tag_defs offset_up_down)

lemma parent_tags_relation: "GET_PREDICATELOCKTARGETTAG_TYPE tag = PREDLOCKTAG_RELATION \<Longrightarrow> parent_tags tag = []"
  by (simp add: parent_tags.simps [of tag] GetParentPredicateLockTag_def)

lemma parent_tags_page:
  "GET_PREDICATELOCKTARGETTAG_TYPE tag = PREDLOCKTAG_PAGE \<Longrightarrow>
     parent_tags tag = [SET_PREDICATELOCKTARGETTAG_RELATION (GET_PREDICATELOCKTARGETTAG_DB tag) (GET_PREDICATELOCKTARGETTAG_RELATION tag)]"
  by (simp add: parent_tags.simps [of tag] GetParentPredicateLockTag_def) (simp add: parent_tags_relation tag_defs)

lemma parent_tags_tuple:
  "GET_PREDICATELOCKTARGETTAG_TYPE tag = PREDLOCKTAG_TUPLE \<Longrightarrow>
     parent_tags tag =
       (let page = SET_PREDICATELOCKTARGETTAG_PAGE (GET_PREDICATELOCKTARGETTAG_DB tag) (GET_PREDICATELOCKTARGETTAG_RELATION tag)
                     (GET_PREDICATELOCKTARGETTAG_PAGE tag) in page # parent_tags page)"
  by (simp add: parent_tags.simps [of tag] GetParentPredicateLockTag_def Let_def)

lemma parent_tags_coarser:
  "a \<in> set (parent_tags tag) \<Longrightarrow> coarseness (GET_PREDICATELOCKTARGETTAG_TYPE a) < coarseness (GET_PREDICATELOCKTARGETTAG_TYPE tag)"
proof (induction tag rule: parent_tags.induct)
  case (1 tag)
  show ?case
  proof (cases "GetParentPredicateLockTag tag")
    case (Some parent)
    then have "a = parent \<or> a \<in> set (parent_tags parent)" using 1(2) by (simp add: parent_tags.simps [of tag])
    then show ?thesis using 1(1) [OF Some] parent_coarser [OF Some] by force
  qed (use 1(2) in \<open>simp add: parent_tags.simps [of tag]\<close>)
qed

lemma parent_tags_ok: "a \<in> set (parent_tags tag) \<Longrightarrow> tag_ok a"
proof (induction tag rule: parent_tags.induct)
  case (1 tag)
  show ?case
  proof (cases "GetParentPredicateLockTag tag")
    case (Some parent)
    then have "tag_ok parent" by (auto simp: GetParentPredicateLockTag_def split: PredicateLockTargetType.splits)
    moreover have "a = parent \<or> a \<in> set (parent_tags parent)" using 1(2) Some by (simp add: parent_tags.simps [of tag])
    ultimately show ?thesis using 1(1) [OF Some] by blast
  qed (use 1(2) in \<open>simp add: parent_tags.simps [of tag]\<close>)
qed

lemma parent_tags_trans: "a \<in> set (parent_tags b) \<Longrightarrow> b \<in> set (parent_tags c) \<Longrightarrow> a \<in> set (parent_tags c)"
proof (induction c rule: parent_tags.induct)
  case (1 c)
  then show ?case by (cases "GetParentPredicateLockTag c") (auto simp: parent_tags.simps [of c])
qed

lemma parent_tags_distinct: "distinct (parent_tags tag)"
proof (induction tag rule: parent_tags.induct)
  case (1 tag)
  show ?case
  proof (cases "GetParentPredicateLockTag tag")
    case (Some parent)
    then show ?thesis using 1(1) [OF Some] parent_tags_coarser [of parent parent] by (auto simp: parent_tags.simps [of tag])
  qed (simp add: parent_tags.simps [of tag])
qed

lemma parent_not_tuple: "a \<in> set (parent_tags tag) \<Longrightarrow> GET_PREDICATELOCKTARGETTAG_TYPE a \<noteq> PREDLOCKTAG_TUPLE"
  using parent_tags_coarser [of a tag] by (cases "GET_PREDICATELOCKTARGETTAG_TYPE tag") auto

lemma parent_not_self: "tag \<notin> set (parent_tags tag)"
  using parent_tags_coarser [of tag tag] by blast

text \<open>The macro \<open>TargetTagIsCoveredBy\<close> finds just the tags that \<open>GetParentPredicateLockTag\<close> reaches.\<close>

lemma tag_ok_offset: "tag_ok t \<Longrightarrow> locktag_field4 t = 0 \<longleftrightarrow> GET_PREDICATELOCKTARGETTAG_OFFSET t = InvalidOffsetNumber"
  by (auto simp: tag_ok_def InvalidOffsetNumber_def GET_PREDICATELOCKTARGETTAG_OFFSET_def)

lemma tag_eq_page:
  "a = SET_PREDICATELOCKTARGETTAG_PAGE db rel blk \<longleftrightarrow>
     locktag_field1 a = db \<and> locktag_field2 a = rel \<and> locktag_field3 a = blk \<and> locktag_field4 a = 0"
  by (cases a) (simp add: SET_PREDICATELOCKTARGETTAG_PAGE_def InvalidOffsetNumber_def)

lemma relation_is_page: "SET_PREDICATELOCKTARGETTAG_RELATION db rel = SET_PREDICATELOCKTARGETTAG_PAGE db rel InvalidBlockNumber"
  by (simp add: SET_PREDICATELOCKTARGETTAG_PAGE_def SET_PREDICATELOCKTARGETTAG_RELATION_def)

lemma tag_type:
  "tag_ok t \<Longrightarrow> GET_PREDICATELOCKTARGETTAG_TYPE t =
     (if GET_PREDICATELOCKTARGETTAG_OFFSET t \<noteq> InvalidOffsetNumber then PREDLOCKTAG_TUPLE
      else if GET_PREDICATELOCKTARGETTAG_PAGE t \<noteq> InvalidBlockNumber then PREDLOCKTAG_PAGE else PREDLOCKTAG_RELATION)"
  using tag_ok_offset [of t] by (simp add: GET_PREDICATELOCKTARGETTAG_TYPE_def GET_PREDICATELOCKTARGETTAG_PAGE_def InvalidOffsetNumber_def)

lemma parent_tags_of_page:
  "parent_tags (SET_PREDICATELOCKTARGETTAG_PAGE db rel blk) =
     (if blk = InvalidBlockNumber then [] else [SET_PREDICATELOCKTARGETTAG_RELATION db rel])"
  by (auto simp: parent_tags_page parent_tags_relation tag_defs)

lemma covered_iff_parent:
  assumes "tag_ok t" and "tag_ok a"
  shows "TargetTagIsCoveredBy t a \<longleftrightarrow> a \<in> set (parent_tags t)"
proof (cases "GET_PREDICATELOCKTARGETTAG_TYPE t")
  case PREDLOCKTAG_RELATION
  then show ?thesis using tag_type [OF assms(1)] by (auto simp: parent_tags_relation TargetTagIsCoveredBy_def split: if_splits)
next
  case PREDLOCKTAG_PAGE
  then show ?thesis using tag_type [OF assms(1)] tag_ok_offset [OF assms(2)]
    by (auto simp: parent_tags_page TargetTagIsCoveredBy_def relation_is_page tag_eq_page GET_PREDICATELOCKTARGETTAG_DB_def
        GET_PREDICATELOCKTARGETTAG_RELATION_def GET_PREDICATELOCKTARGETTAG_PAGE_def split: if_splits)
next
  case PREDLOCKTAG_TUPLE
  then show ?thesis using tag_type [OF assms(1)] tag_ok_offset [OF assms(2)]
    by (auto simp: parent_tags_tuple parent_tags_of_page Let_def TargetTagIsCoveredBy_def relation_is_page tag_eq_page
        GET_PREDICATELOCKTARGETTAG_DB_def GET_PREDICATELOCKTARGETTAG_RELATION_def GET_PREDICATELOCKTARGETTAG_PAGE_def split: if_splits)
qed

subsection \<open>The shared tables\<close>

text \<open>The queue of a target, the queue of a transaction and the table of locks have the same locks.\<close>

definition holders :: "predlocks \<Rightarrow> PREDICATELOCKTARGETTAG \<Rightarrow> nat list" where
  "holders p t = (case PredicateLockTargetHash p t of None \<Rightarrow> [] | Some xs \<Rightarrow> xs)"

definition locks_wf :: "predlocks \<Rightarrow> bool" where
  "locks_wf p \<longleftrightarrow>
     (\<forall>t x. x \<in> set (holders p t) \<longleftrightarrow> t \<in> set (predicateLocks p x)) \<and>
     (\<forall>t x. PredicateLockHash p (t, x) \<noteq> None \<longleftrightarrow> t \<in> set (predicateLocks p x)) \<and>
     (\<forall>t. distinct (holders p t)) \<and> (\<forall>x. distinct (predicateLocks p x)) \<and> (\<forall>x. \<forall>t \<in> set (predicateLocks p x). tag_ok t)"

lemma locks_wf_init: "locks_wf (InitPredicateLockTables n)"
  by (simp add: locks_wf_def holders_def InitPredicateLockTables_def)

lemma locks_wf_D:
  assumes "locks_wf p"
  shows "x \<in> set (holders p t) \<longleftrightarrow> t \<in> set (predicateLocks p x)" "PredicateLockHash p (t, x) = None \<longleftrightarrow> t \<notin> set (predicateLocks p x)"
    "distinct (holders p t)" "distinct (predicateLocks p x)" "t \<in> set (predicateLocks p x) \<Longrightarrow> tag_ok t"
  using assms unfolding locks_wf_def by blast+

text \<open>The tables with a lock more, and with a lock less.\<close>

definition add_lock :: "PREDICATELOCKTARGETTAG \<Rightarrow> nat \<Rightarrow> predlocks \<Rightarrow> predlocks" where
  "add_lock t x p = p\<lparr>PredicateLockTargetHash := (PredicateLockTargetHash p)(t \<mapsto> holders p t @ [x]),
     PredicateLockHash := (PredicateLockHash p)((t, x) \<mapsto> InvalidSerCommitSeqNo), predicateLocks := (predicateLocks p)(x := predicateLocks p x @ [t]),
     target_room := (if PredicateLockTargetHash p t = None then target_room p - 1 else target_room p), lock_room := lock_room p - 1\<rparr>"

definition del_lock :: "PREDICATELOCKTARGETTAG \<Rightarrow> nat \<Rightarrow> predlocks \<Rightarrow> predlocks" where
  "del_lock t x p = p\<lparr>PredicateLockTargetHash := (PredicateLockTargetHash p)(t := (if removeAll x (holders p t) = [] then None else Some (removeAll x (holders p t)))),
     PredicateLockHash := (PredicateLockHash p)((t, x) := None), predicateLocks := (predicateLocks p)(x := removeAll t (predicateLocks p x)),
     target_room := (if removeAll x (holders p t) = [] then target_room p + 1 else target_room p), lock_room := lock_room p + 1\<rparr>"

lemma lock_changes [simp]:
  "predicateLocks (add_lock t x p) = (predicateLocks p)(x := predicateLocks p x @ [t])"
  "predicateLocks (del_lock t x p) = (predicateLocks p)(x := removeAll t (predicateLocks p x))"
  "holders (add_lock t x p) u = (if u = t then holders p t @ [x] else holders p u)"
  "holders (del_lock t x p) u = (if u = t then removeAll x (holders p t) else holders p u)"
  "PredicateLockHash (add_lock t x p) = (PredicateLockHash p)((t, x) \<mapsto> InvalidSerCommitSeqNo)"
  "PredicateLockHash (del_lock t x p) = (PredicateLockHash p)((t, x) := None)"
  by (simp_all add: add_lock_def del_lock_def holders_def)

lemma add_lock_wf: "locks_wf p \<Longrightarrow> t \<notin> set (predicateLocks p x) \<Longrightarrow> tag_ok t \<Longrightarrow> locks_wf (add_lock t x p)"
  unfolding locks_wf_def by auto

lemma del_lock_wf: "locks_wf p \<Longrightarrow> locks_wf (del_lock t x p)"
  unfolding locks_wf_def by (auto simp: distinct_removeAll)

subsection \<open>Cover\<close>

text \<open>A transaction's locks cover a target when one of them is on it or on a coarser target that contains it.\<close>

definition covered :: "predlocks \<Rightarrow> nat \<Rightarrow> PREDICATELOCKTARGETTAG \<Rightarrow> bool" where
  "covered p x t \<longleftrightarrow> (\<exists>a \<in> set (t # parent_tags t). a \<in> set (predicateLocks p x))"

lemma covered_add: "covered (add_lock t x p) x u \<longleftrightarrow> covered p x u \<or> u = t \<or> t \<in> set (parent_tags u)"
  by (auto simp: covered_def)

lemma covered_del:
  assumes "covered p x u" and "a \<in> set (parent_tags t)" and "a \<in> set (predicateLocks p x)"
  shows "covered (del_lock t x p) x u"
proof -
  from assms(1) obtain c where c: "c = u \<or> c \<in> set (parent_tags u)" "c \<in> set (predicateLocks p x)" by (auto simp: covered_def)
  have "a \<noteq> t" using assms(2) parent_not_self by blast
  show ?thesis
  proof (cases "c = t")
    case True
    then have "a \<in> set (parent_tags u)" using c(1) assms(2) parent_tags_trans by blast
    then show ?thesis using assms(3) \<open>a \<noteq> t\<close> by (auto simp: covered_def)
  next
    case False
    then show ?thesis using c by (auto simp: covered_def)
  qed
qed

lemma covered_other [simp]:
  "y \<noteq> x \<Longrightarrow> covered (add_lock t x p) y u = covered p y u" "y \<noteq> x \<Longrightarrow> covered (del_lock t x p) y u = covered p y u"
  by (simp_all add: covered_def)

subsection \<open>The local table\<close>

definition below :: "predlocks \<Rightarrow> nat \<Rightarrow> PREDICATELOCKTARGETTAG \<Rightarrow> nat" where
  "below p x a = length (filter (\<lambda>t. a \<in> set (parent_tags t)) (predicateLocks p x))"

lemma below_add: "below (add_lock t x p) x a = below p x a + (if a \<in> set (parent_tags t) then 1 else 0)"
  by (simp add: below_def)

lemma below_del:
  assumes "locks_wf p" and "t \<in> set (predicateLocks p x)"
  shows "below p x a = below (del_lock t x p) x a + (if a \<in> set (parent_tags t) then 1 else 0)"
proof -
  from assms(2) obtain us vs where e: "predicateLocks p x = us @ t # vs" by (meson split_list)
  then have "t \<notin> set us" "t \<notin> set vs" using locks_wf_D(4) [OF assms(1), of x] by auto
  then show ?thesis by (simp add: below_def e)
qed

text \<open>
  The backend's own table agrees with the shared ones: it has each lock of the transaction as held, what it has as
  held is covered, and it counts the locks below a target.
\<close>

definition local_ok :: "predlocks \<Rightarrow> nat \<Rightarrow> (PREDICATELOCKTARGETTAG \<Rightarrow> LOCALPREDICATELOCK option) \<Rightarrow> bool" where
  "local_ok p x l \<longleftrightarrow>
     (\<forall>t \<in> set (predicateLocks p x). \<exists>e. l t = Some e \<and> lock_held e) \<and>
     (\<forall>a e. l a = Some e \<longrightarrow> childLocks e = int (below p x a) \<and> (lock_held e \<longrightarrow> covered p x a)) \<and>
     (\<forall>a. 0 < below p x a \<longrightarrow> l a \<noteq> None)"

lemma local_ok_empty: "predicateLocks p x = [] \<Longrightarrow> local_ok p x (\<lambda>_. None)"
  by (simp add: local_ok_def below_def)

definition count_up :: "PREDICATELOCKTARGETTAG list \<Rightarrow> (PREDICATELOCKTARGETTAG \<Rightarrow> LOCALPREDICATELOCK option) \<Rightarrow> PREDICATELOCKTARGETTAG \<Rightarrow> LOCALPREDICATELOCK option" where
  "count_up ts l = (\<lambda>a. if a \<in> set ts then Some (case l a of None \<Rightarrow> \<lparr>lock_held = False, childLocks = 1\<rparr>
                                              | Some e \<Rightarrow> e\<lparr>childLocks := childLocks e + 1\<rparr>) else l a)"

definition count_down :: "PREDICATELOCKTARGETTAG list \<Rightarrow> (PREDICATELOCKTARGETTAG \<Rightarrow> LOCALPREDICATELOCK option) \<Rightarrow> PREDICATELOCKTARGETTAG \<Rightarrow> LOCALPREDICATELOCK option" where
  "count_down ts l = (\<lambda>a. if a \<in> set ts then (case l a of None \<Rightarrow> None
      | Some e \<Rightarrow> if childLocks e = 1 \<and> \<not> lock_held e then None else Some (e\<lparr>childLocks := childLocks e - 1\<rparr>)) else l a)"

definition hold_local :: "PREDICATELOCKTARGETTAG \<Rightarrow> (PREDICATELOCKTARGETTAG \<Rightarrow> LOCALPREDICATELOCK option) \<Rightarrow> PREDICATELOCKTARGETTAG \<Rightarrow> LOCALPREDICATELOCK option" where
  "hold_local t l = l(t := Some (case l t of None \<Rightarrow> \<lparr>lock_held = True, childLocks = 0\<rparr> | Some e \<Rightarrow> e\<lparr>lock_held := True\<rparr>))"

lemma local_ok_add:
  assumes "local_ok p x l"
  shows "local_ok (add_lock t x p) x (count_up (parent_tags t) (hold_local t l))"
  unfolding local_ok_def
proof (intro conjI allI ballI impI)
  fix u assume "u \<in> set (predicateLocks (add_lock t x p) x)"
  then show "\<exists>e. count_up (parent_tags t) (hold_local t l) u = Some e \<and> lock_held e"
    using assms by (force simp: local_ok_def count_up_def hold_local_def split: option.splits)
next
  fix a e assume "count_up (parent_tags t) (hold_local t l) a = Some e"
  moreover have "l a = None \<Longrightarrow> below p x a = 0" using assms unfolding local_ok_def by blast
  moreover have "l a = Some e' \<Longrightarrow> childLocks e' = int (below p x a)" for e' using assms unfolding local_ok_def by blast
  ultimately show "childLocks e = int (below (add_lock t x p) x a)"
    using parent_not_self [of t] by (auto simp: count_up_def hold_local_def below_add split: if_splits option.splits)
next
  fix a e assume "count_up (parent_tags t) (hold_local t l) a = Some e" and "lock_held e"
  then have "a = t \<or> (\<exists>e'. l a = Some e' \<and> lock_held e')"
    by (auto simp: count_up_def hold_local_def split: if_splits option.splits)
  then show "covered (add_lock t x p) x a" using assms unfolding local_ok_def covered_add by blast
next
  fix a assume "0 < below (add_lock t x p) x a"
  then show "count_up (parent_tags t) (hold_local t l) a \<noteq> None"
    using assms by (auto simp: local_ok_def below_add count_up_def hold_local_def split: if_splits)
qed

lemma local_ok_del:
  assumes l: "local_ok p x l" and wf: "locks_wf p" and t: "t \<in> set (predicateLocks p x)"
    and a: "a \<in> set (parent_tags t)" "a \<in> set (predicateLocks p x)"
  shows "local_ok (del_lock t x p) x (count_down (parent_tags t) l)"
  unfolding local_ok_def
proof (intro conjI allI ballI impI)
  fix u assume "u \<in> set (predicateLocks (del_lock t x p) x)"
  then show "\<exists>e. count_down (parent_tags t) l u = Some e \<and> lock_held e"
    using l by (force simp: local_ok_def count_down_def split: option.splits)
next
  fix u e assume "count_down (parent_tags t) l u = Some e"
  moreover have "l u = Some e' \<Longrightarrow> childLocks e' = int (below p x u)" for e' using l unfolding local_ok_def by blast
  ultimately show "childLocks e = int (below (del_lock t x p) x u)"
    using below_del [OF wf t, of u] by (auto simp: count_down_def split: if_splits option.splits)
next
  fix u e assume "count_down (parent_tags t) l u = Some e" and "lock_held e"
  then have "\<exists>e'. l u = Some e' \<and> lock_held e'" by (auto simp: count_down_def split: if_splits option.splits)
  then show "covered (del_lock t x p) x u" using l covered_del [OF _ a] unfolding local_ok_def by blast
next
  fix u assume "0 < below (del_lock t x p) x u"
  moreover have "0 < below p x u \<Longrightarrow> \<exists>e. l u = Some e \<and> childLocks e = int (below p x u)"
    using l unfolding local_ok_def by blast
  ultimately show "count_down (parent_tags t) l u \<noteq> None"
    using below_del [OF wf t, of u] by (auto simp: count_down_def split: if_splits option.splits)
qed

end
