(* ===== verification/PredLockTake.thy ===== *)
theory PredLockTake
  imports PredLockAlone PredLockInv PredicateFacts Startup
begin

text \<open>
  \<open>PredicateLockAcquire\<close> on a backend that runs alone: it returns, or reports that shared memory is used up, and the
  target is covered afterwards.
\<close>

abbreviation out_of_memory :: cerror where "out_of_memory \<equiv> Ereport ''out of shared memory''"

subsection \<open>One lock\<close>

lemma wp_enter_target:
  "(target_room p = 0 \<Longrightarrow> E out_of_memory p) \<Longrightarrow>
   Q (PredicateLockTargetHash p t \<noteq> None) (if PredicateLockTargetHash p t = None
      then p\<lparr>PredicateLockTargetHash := (PredicateLockTargetHash p)(t \<mapsto> []), target_room := target_room p - 1\<rparr> else p) \<Longrightarrow>
   wp (enter_target t) Q E p"
  by (auto simp: enter_target_def wp_simps split: if_splits)

lemma wp_enter_lock:
  "(lock_room p = 0 \<Longrightarrow> E out_of_memory p) \<Longrightarrow> PredicateLockHash p (t, x) = None \<Longrightarrow>
   Q False (p\<lparr>PredicateLockHash := (PredicateLockHash p)((t, x) \<mapsto> seqno), lock_room := lock_room p - 1\<rparr>) \<Longrightarrow>
   wp (enter_lock t x seqno) Q E p"
  by (auto simp: enter_lock_def wp_simps)

lemma wp_create:
  assumes r: "ready 2 predicate_locks b" and wf: "locks_wf p" and t: "t \<notin> set (predicateLocks p x)"
    and ok: "Q () (put q (add_lock t x p) l b)" and err: "\<And>s. target_room p = 0 \<or> lock_room p = 0 \<Longrightarrow> E out_of_memory s"
  shows "wp (CreatePredicateLock hash t x) Q E (put q p l b)"
proof -
  let ?h = "PredicateLockHashPartitionLock (hash t)" and ?i = SerializablePredicateLockListLock
  let ?b1 = "taken_in LW_SHARED ?i b" and ?L1 = "predicate_locks - {?i}"
  let ?b2 = "taken_in LW_EXCLUSIVE ?h ?b1"
  have r0: "ready (Suc 1) predicate_locks b" using r by (simp add: numeral_2_eq_2)
  have r1: "ready (Suc 0) ?L1 ?b1" using ready_taken [OF r0, of ?i LW_SHARED] by simp
  have h: "?h \<in> ?L1" using partition_lock_neq by simp
  have e: "env b = []" using r by (simp add: ready_def)
  have none: "PredicateLockHash p (t, x) = None" using locks_wf_D(2) [OF wf] t by blast
  show ?thesis
    unfolding CreatePredicateLock_def Let_def wp_thenp wp_bindp
    apply (simp add: wp_take [OF iffD2 [OF put_locks_simps(3)], OF r0] wp_take [OF iffD2 [OF put_locks_simps(3)], OF r1 h] wp_in_locks_alone e)
    apply (rule wp_enter_target)
     apply (simp add: err)
    apply (rule wp_enter_lock)
      apply (rule err, simp split: if_splits)
     apply (simp add: none)
    apply (simp add: whenp_def wp_in_locks_alone e queue_lock_def wp_modify wp_give [OF r1 h] wp_give [OF r0])
    apply (intro conjI impI)
     apply (rule back_subst [where P = "\<lambda>p. Q () (put q p l b)", OF ok], rule predlocks.equality; auto simp: add_lock_def holders_def)
    apply (rule back_subst [where P = "\<lambda>p. Q () (put q p l b)", OF ok], rule predlocks.equality; auto simp: add_lock_def holders_def)
    done
qed

lemma wp_take_out:
  assumes e: "env b = []" and h: "(SerializablePredicateLockListLock, m) \<in> set (held_lwlocks b)"
    and wf: "locks_wf p" and t: "t \<in> set (predicateLocks p x)" and ok: "Q () (put q (del_lock t x p) l b)"
  shows "wp (in_locks (remove_lock t x)) (\<lambda>_. wp (RemoveTargetIfNoLongerUsed t) Q E) E (put q p l b)"
proof -
  have some: "PredicateLockHash p (t, x) \<noteq> None" using locks_wf_D(2) [OF wf] t by blast
  have "x \<in> set (holders p t)" using locks_wf_D(1) [OF wf] t by blast
  then obtain xs where xs: "PredicateLockTargetHash p t = Some xs" by (cases "PredicateLockTargetHash p t") (auto simp: holders_def)
  let ?p1 = "p\<lparr>PredicateLockTargetHash := (PredicateLockTargetHash p)(t \<mapsto> removeAll x xs),
                    predicateLocks := (predicateLocks p)(x := removeAll t (predicateLocks p x)),
                    PredicateLockHash := (PredicateLockHash p)((t, x) := None), lock_room := lock_room p + 1\<rparr>"
  have "wp (remove_unused t) (\<lambda>_ p'. Q () (put q p' l b)) F ?p1" for F
    apply (simp add: remove_unused_def wp_simps whenp_def)
    apply (intro conjI impI)
     apply (rule back_subst [where P = "\<lambda>p. Q () (put q p l b)", OF ok], rule predlocks.equality; auto simp: del_lock_def holders_def xs)
    apply (rule back_subst [where P = "\<lambda>p. Q () (put q p l b)", OF ok], rule predlocks.equality; auto simp: del_lock_def holders_def xs)
    done
  moreover have "list_ex (\<lambda>(i, mode). i = SerializablePredicateLockListLock) (held_lwlocks b)" using h by (auto simp: list_ex_iff)
  ultimately show ?thesis
    by (simp add: wp_thenp wp_bindp wp_in_locks_alone e remove_lock_def RemoveTargetIfNoLongerUsed_def wp_simps some xs LWLockHeldByMe_def)
qed

lemma wp_remove:
  assumes r: "ready 2 predicate_locks b0" and b: "b = taken_in LW_SHARED SerializablePredicateLockListLock b0"
    and wf: "locks_wf p" and t: "t \<in> set (predicateLocks p x)"
    and ok: "wp (DecrementParentLocks t) Q E (put q (del_lock t x p) l b)" and cov: "TargetTagIsCoveredBy t a"
  shows "wp (delete_child hash x a t) Q E (put q p l b)"
proof -
  let ?h = "PredicateLockHashPartitionLock (hash t)" and ?i = SerializablePredicateLockListLock
  have r0: "ready (Suc 1) predicate_locks b0" using r by (simp add: numeral_2_eq_2)
  have r1: "ready (Suc 0) (predicate_locks - {?i}) b" using ready_taken [OF r0, of ?i LW_SHARED] b by simp
  have h: "?h \<in> predicate_locks - {?i}" using partition_lock_neq by simp
  have e: "env b = []" and hb: "(?i, LW_SHARED) \<in> set (held_lwlocks b)" using r1 b by (simp_all add: ready_def)
  have "wp (in_locks (remove_lock t x)) (\<lambda>_. wp (RemoveTargetIfNoLongerUsed t) (\<lambda>_. wp (LWLockRelease ?h) (\<lambda>_. wp (DecrementParentLocks t) Q E) E) E) E
      (put q p l (taken_in LW_EXCLUSIVE ?h b))"
    by (rule wp_take_out [where m = LW_SHARED, OF _ _ wf t]) (use e ok hb in \<open>simp_all add: wp_give [OF r1 h]\<close>)
  then show ?thesis
    unfolding delete_child_def Let_def using cov
    by (simp add: whenp_def wp_thenp wp_take [OF iffD2 [OF put_locks_simps(3)], OF r1 h])
qed

subsection \<open>The counts\<close>

lemma wp_decrement:
  "distinct ts \<Longrightarrow> (\<And>a. a \<in> set ts \<Longrightarrow> \<exists>e. l a = Some e \<and> 1 \<le> childLocks e) \<Longrightarrow>
     wp (eachp DecrementParentLock ts) Q E (put q p l b) = Q () (put q p (count_down ts l) b)"
proof (induction ts arbitrary: l)
  case Nil
  then show ?case by (simp add: wp_simps count_down_def)
next
  case (Cons t ts)
  from Cons.prems(2) [of t] obtain e where e: "l t = Some e" "1 \<le> childLocks e" by auto
  define e' where "e' = (if childLocks e = 1 \<and> \<not> lock_held e then None else Some (e\<lparr>childLocks := childLocks e - 1\<rparr>))"
  let ?l = "l(t := e')"
  have step: "wp (DecrementParentLock t) R E (put q p l b) = R () (put q p ?l b)" for R
    using e by (simp add: DecrementParentLock_def wp_simps wp_local_table wp_set_local Let_def e'_def)
  have "wp (eachp DecrementParentLock ts) Q E (put q p ?l b) = Q () (put q p (count_down ts ?l) b)"
    using Cons.prems by (intro Cons.IH) auto
  moreover have "count_down ts ?l = count_down (t # ts) l"
    using Cons.prems(1) e(1) by (auto simp: count_down_def fun_eq_iff e'_def)
  ultimately show ?case by (simp add: wp_thenp step)
qed

lemma count_in_parents_spec:
  "distinct ts \<Longrightarrow> (\<And>a. a \<in> set ts \<Longrightarrow> GET_PREDICATELOCKTARGETTAG_TYPE a \<noteq> PREDLOCKTAG_TUPLE) \<Longrightarrow>
   (\<And>r. r = promotion \<or> r \<in> Some ` set ts \<Longrightarrow> Q r (put q p (count_up ts l) b)) \<Longrightarrow>
     wp (count_in_parents lim ts promotion) Q E (put q p l b)"
proof (induction ts arbitrary: l promotion)
  case Nil
  then show ?case by (simp add: wp_simps count_up_def)
next
  case (Cons t ts)
  define e where "e = (case l t of None \<Rightarrow> \<lparr>lock_held = False, childLocks = 1\<rparr> | Some e \<Rightarrow> e\<lparr>childLocks := childLocks e + 1\<rparr>)"
  obtain n where n: "MaxPredicateChildLocks lim t = Inr n"
    using Cons.prems(2) [of t] by (cases "GET_PREDICATELOCKTARGETTAG_TYPE t") (auto simp: MaxPredicateChildLocks_def)
  have up: "count_up ts (l(t \<mapsto> e)) = count_up (t # ts) l"
    using Cons.prems(1) by (auto simp: count_up_def fun_eq_iff e_def)
  have "wp (count_in_parents lim ts (if childLocks e > n then Some t else promotion)) Q E (put q p (l(t \<mapsto> e)) b)"
  proof (rule Cons.IH)
    fix r assume "r = (if childLocks e > n then Some t else promotion) \<or> r \<in> Some ` set ts"
    then show "Q r (put q p (count_up ts (l(t \<mapsto> e))) b)" unfolding up by (intro Cons.prems(3)) (auto split: if_splits)
  qed (use Cons.prems in auto)
  then show ?case by (simp add: wp_simps wp_local_table wp_set_local Let_def n e_def)
qed

subsection \<open>Dropping the locks below a target\<close>

definition consistent :: "nat \<Rightarrow> predlocks \<Rightarrow> (PREDICATELOCKTARGETTAG \<Rightarrow> LOCALPREDICATELOCK option) \<Rightarrow> bool" where
  "consistent x p l \<longleftrightarrow> locks_wf p \<and> local_ok p x l"

text \<open>Transaction \<open>x\<close> covers all that it covered, and no other transaction's locks changed.\<close>

definition keeps_cover :: "nat \<Rightarrow> predlocks \<Rightarrow> predlocks \<Rightarrow> bool" where
  "keeps_cover x p p' \<longleftrightarrow> (\<forall>u. covered p x u \<longrightarrow> covered p' x u) \<and> (\<forall>y. y \<noteq> x \<longrightarrow> predicateLocks p' y = predicateLocks p y)"

lemma keeps_cover_refl [simp]: "keeps_cover x p p"
  by (simp add: keeps_cover_def)

lemma keeps_cover_trans: "keeps_cover x p p' \<Longrightarrow> keeps_cover x p' p'' \<Longrightarrow> keeps_cover x p p''"
  by (simp add: keeps_cover_def)

lemma keeps_cover_add: "keeps_cover x p (add_lock t x p)"
  by (simp add: keeps_cover_def covered_add)

lemma del_lock_below:
  assumes "consistent x p l" and "t \<in> set (predicateLocks p x)" and "a \<in> set (parent_tags t)" and "a \<in> set (predicateLocks p x)"
  shows "consistent x (del_lock t x p) (count_down (parent_tags t) l)" and "keeps_cover x p (del_lock t x p)"
    and "a \<in> set (predicateLocks (del_lock t x p) x)" and "\<And>u. u \<in> set (parent_tags t) \<Longrightarrow> \<exists>e. l u = Some e \<and> 1 \<le> childLocks e"
proof -
  have wf: "locks_wf p" and l: "local_ok p x l" using assms(1) by (simp_all add: consistent_def)
  show "consistent x (del_lock t x p) (count_down (parent_tags t) l)"
    unfolding consistent_def using del_lock_wf [OF wf] local_ok_del [OF l wf assms(2-4)] by blast
  show "keeps_cover x p (del_lock t x p)" unfolding keeps_cover_def using covered_del [OF _ assms(3,4)] by simp
  show "a \<in> set (predicateLocks (del_lock t x p) x)" using assms(3,4) parent_not_self [of t] by auto
  fix u assume "u \<in> set (parent_tags t)"
  then have "1 \<le> below p x u" using below_del [OF wf assms(2), of u] by simp
  then show "\<exists>e. l u = Some e \<and> 1 \<le> childLocks e" using l unfolding local_ok_def by force
qed

lemma wp_delete_children:
  assumes r: "ready 2 predicate_locks b0" and b: "b = taken_in LW_SHARED SerializablePredicateLockListLock b0" and a: "tag_ok a"
  shows "consistent x p l \<Longrightarrow> a \<in> set (predicateLocks p x) \<Longrightarrow> distinct ts \<Longrightarrow> set ts \<subseteq> set (predicateLocks p x) \<Longrightarrow>
    (\<And>p' l'. consistent x p' l' \<Longrightarrow> keeps_cover x p p' \<Longrightarrow>
       set (predicateLocks p' x) = {t \<in> set (predicateLocks p x). t \<in> set ts \<longrightarrow> a \<notin> set (parent_tags t)} \<Longrightarrow> Q () (put q p' l' b)) \<Longrightarrow>
    wp (eachp (delete_child hash x a) ts) Q E (put q p l b)"
proof (induction ts arbitrary: p l)
  case Nil
  then show ?case by (simp add: wp_simps)
next
  case (Cons t ts)
  have wf: "locks_wf p" and t: "t \<in> set (predicateLocks p x)" using Cons.prems by (simp_all add: consistent_def)
  have par: "TargetTagIsCoveredBy t a \<longleftrightarrow> a \<in> set (parent_tags t)" by (rule covered_iff_parent [OF locks_wf_D(5) [OF wf t] a])
  show ?case
  proof (cases "a \<in> set (parent_tags t)")
    case True
    note d = del_lock_below [OF Cons.prems(1) t True Cons.prems(2)]
    have "wp (eachp (delete_child hash x a) ts) Q E (put q (del_lock t x p) (count_down (parent_tags t) l) b)"
    proof (rule Cons.IH [OF d(1,3)])
      fix p' l' assume 1: "consistent x p' l'" "keeps_cover x (del_lock t x p) p'"
        and 2: "set (predicateLocks p' x) = {u \<in> set (predicateLocks (del_lock t x p) x). u \<in> set ts \<longrightarrow> a \<notin> set (parent_tags u)}"
      show "Q () (put q p' l' b)"
        by (rule Cons.prems(5) [OF 1(1) keeps_cover_trans [OF d(2) 1(2)]]) (use 2 True in auto)
    qed (use Cons.prems in auto)
    then have "wp (DecrementParentLocks t) (\<lambda>_. wp (eachp (delete_child hash x a) ts) Q E) E (put q (del_lock t x p) l b)"
      unfolding DecrementParentLocks_def using wp_decrement [OF parent_tags_distinct d(4)] by simp
    then show ?thesis using wp_remove [OF r b wf t] True par by (simp add: wp_thenp)
  next
    case False
    have "wp (eachp (delete_child hash x a) ts) Q E (put q p l b)"
    proof (rule Cons.IH [OF Cons.prems(1,2)])
      fix p' l' assume 1: "consistent x p' l'" "keeps_cover x p p'"
        and 2: "set (predicateLocks p' x) = {u \<in> set (predicateLocks p x). u \<in> set ts \<longrightarrow> a \<notin> set (parent_tags u)}"
      show "Q () (put q p' l' b)" by (rule Cons.prems(5) [OF 1]) (use 2 False in auto)
    qed (use Cons.prems in auto)
    then show ?thesis using False par by (simp add: wp_simps delete_child_def [of hash x a t] whenp_def)
  qed
qed

lemma wp_delete_child_locks:
  assumes r: "ready 2 predicate_locks b" and c: "consistent x p l" and a: "a \<in> set (predicateLocks p x)"
    and ok: "\<And>p' l'. consistent x p' l' \<Longrightarrow> keeps_cover x p p' \<Longrightarrow>
       set (predicateLocks p' x) = {t \<in> set (predicateLocks p x). a \<notin> set (parent_tags t)} \<Longrightarrow> Q () (put q p' l' b)"
  shows "wp (DeleteChildTargetLocks hash x a) Q E (put q p l b)"
proof -
  let ?i = SerializablePredicateLockListLock and ?b = "taken_in LW_SHARED SerializablePredicateLockListLock b"
  have r0: "ready (Suc 1) predicate_locks b" using r by (simp add: numeral_2_eq_2)
  have e: "env b = []" using r by (simp add: ready_def)
  have wf: "locks_wf p" using c by (simp add: consistent_def)
  have "wp (eachp (delete_child hash x a) (predicateLocks p x)) (\<lambda>_. wp (LWLockRelease ?i) Q E) E (put q p l ?b)"
    by (rule wp_delete_children [OF r refl locks_wf_D(5) [OF wf a] c a locks_wf_D(4) [OF wf] order_refl])
      (auto simp: wp_give [OF r0] intro!: ok)
  then show ?thesis
    by (simp add: DeleteChildTargetLocks_def wp_simps wp_take [OF iffD2 [OF put_locks_simps(3)], OF r0] wp_in_locks_alone e)
qed

subsection \<open>Acquiring\<close>

definition local_held :: "(PREDICATELOCKTARGETTAG \<Rightarrow> LOCALPREDICATELOCK option) \<Rightarrow> PREDICATELOCKTARGETTAG \<Rightarrow> bool" where
  "local_held l t \<longleftrightarrow> (\<exists>e. l t = Some e \<and> lock_held e)"

lemma wp_exists: "wp (PredicateLockExists t) Q E (put q p l b) = Q (local_held l t) (put q p l b)"
  by (cases "l t") (simp_all add: PredicateLockExists_def wp_simps wp_local_table local_held_def)

lemma wp_coarser: "wp (CoarserLockCovers t) Q E (put q p l b) = Q (\<exists>a \<in> set (parent_tags t). local_held l a) (put q p l b)"
  unfolding CoarserLockCovers_def by (rule wp_anyp) (simp add: wp_exists)

lemma local_held_covered: "consistent x p l \<Longrightarrow> local_held l t \<Longrightarrow> covered p x t"
  unfolding consistent_def local_ok_def local_held_def by blast

lemma lock_local_held: "consistent x p l \<Longrightarrow> t \<in> set (predicateLocks p x) \<Longrightarrow> local_held l t"
  unfolding consistent_def local_ok_def local_held_def by blast

lemma covered_parent: "covered p x a \<Longrightarrow> a \<in> set (parent_tags t) \<Longrightarrow> covered p x t"
  using parent_tags_trans by (auto simp: covered_def)

lemma local_held_after: "local_held (count_up ts (hold_local t l)) a \<longleftrightarrow> a = t \<or> local_held l a"
  by (auto simp: local_held_def count_up_def hold_local_def split: option.splits)

text \<open>A lock that is below another one of the same transaction is redundant.\<close>

definition redundant :: "predlocks \<Rightarrow> nat \<Rightarrow> PREDICATELOCKTARGETTAG set" where
  "redundant p x = {t \<in> set (predicateLocks p x). \<exists>a \<in> set (parent_tags t). a \<in> set (predicateLocks p x)}"

text \<open>What an acquisition of \<open>t\<close> leaves.\<close>

definition acquired :: "nat \<Rightarrow> PREDICATELOCKTARGETTAG \<Rightarrow> predlocks \<Rightarrow> predlocks \<Rightarrow> bool" where
  "acquired x t p p' \<longleftrightarrow> covered p' x t \<and> keeps_cover x p p' \<and> redundant p' x = {}"

lemma acquired_parent:
  "acquired x a (add_lock t x p) p' \<Longrightarrow> a \<in> set (parent_tags t) \<Longrightarrow> acquired x t p p'"
  unfolding acquired_def using covered_parent keeps_cover_trans [OF keeps_cover_add] by blast

lemma redundant_add: "redundant (add_lock t x p) x \<subseteq> redundant p x \<union> {u. t \<in> set (parent_tags u)} \<union> (if covered p x t then {t} else {})"
  using parent_not_self [of t] by (auto simp: redundant_def covered_def)

lemma wp_finish_acquire:
  assumes r: "ready 2 predicate_locks b" and c: "consistent x (add_lock t x p) l"
    and red: "\<And>u. u \<in> redundant (add_lock t x p) x \<Longrightarrow> t \<in> set (parent_tags u)"
    and ok: "\<And>p' l'. consistent x p' l' \<Longrightarrow> acquired x t p p' \<Longrightarrow> Q () (put q p' l' b)"
  shows "wp (whenp (GET_PREDICATELOCKTARGETTAG_TYPE t \<noteq> PREDLOCKTAG_TUPLE) (DeleteChildTargetLocks hash x t)) Q E (put q (add_lock t x p) l b)"
proof (cases "GET_PREDICATELOCKTARGETTAG_TYPE t = PREDLOCKTAG_TUPLE")
  case True
  have "redundant (add_lock t x p) x = {}" using red parent_not_tuple True by blast
  then have "acquired x t p (add_lock t x p)" by (simp add: acquired_def keeps_cover_add covered_add)
  with True c show ?thesis by (simp add: whenp_def wp_simps ok)
next
  case False
  have "wp (DeleteChildTargetLocks hash x t) Q E (put q (add_lock t x p) l b)"
  proof (rule wp_delete_child_locks [OF r c])
    fix p' l' assume 1: "consistent x p' l'" "keeps_cover x (add_lock t x p) p'"
      and 2: "set (predicateLocks p' x) = {u \<in> set (predicateLocks (add_lock t x p) x). t \<notin> set (parent_tags u)}"
    have "redundant p' x \<subseteq> redundant (add_lock t x p) x \<inter> {u. t \<notin> set (parent_tags u)}" unfolding redundant_def 2 by auto
    then have "redundant p' x = {}" using red by blast
    moreover have "covered p' x t" using 1(2) by (auto simp: keeps_cover_def covered_add)
    ultimately have "acquired x t p p'" using keeps_cover_trans [OF keeps_cover_add 1(2)] by (simp add: acquired_def)
    then show "Q () (put q p' l' b)" by (rule ok [OF 1(1)])
  qed simp
  with False show ?thesis by (simp add: whenp_def)
qed

lemma wp_acquire_new:
  assumes r: "ready 2 predicate_locks b"
  shows "coarseness (GET_PREDICATELOCKTARGETTAG_TYPE t) < n \<Longrightarrow> consistent x p l \<Longrightarrow> tag_ok t \<Longrightarrow>
    \<not> local_held l t \<Longrightarrow> (\<forall>a \<in> set (parent_tags t). \<not> local_held l a) \<Longrightarrow>
    (\<forall>u \<in> redundant p x. t \<in> set (parent_tags u)) \<Longrightarrow>
    (\<And>s. target_room p < n \<or> lock_room p < n \<Longrightarrow> E out_of_memory s) \<Longrightarrow>
    (\<And>p' l'. consistent x p' l' \<Longrightarrow> acquired x t p p' \<Longrightarrow> Q () (put q p' l' b)) \<Longrightarrow>
    wp (acquire_promote n hash lim x t) Q E (put q p l b)"
proof (induction n arbitrary: t p l)
  case 0
  then show ?case by simp
next
  case (Suc n)
  let ?p = "add_lock t x p" and ?l = "count_up (parent_tags t) (hold_local t l)"
  have wf: "locks_wf p" and lo: "local_ok p x l" using Suc.prems(2) by (simp_all add: consistent_def)
  have t: "t \<notin> set (predicateLocks p x)" using Suc.prems(4) lock_local_held [OF Suc.prems(2)] by blast
  have nc: "\<not> covered p x t" using Suc.prems(4,5) lock_local_held [OF Suc.prems(2)] by (auto simp: covered_def)
  have c: "consistent x ?p ?l" using add_lock_wf [OF wf t Suc.prems(3)] local_ok_add [OF lo] by (simp add: consistent_def)
  have red: "t \<in> set (parent_tags u)" if "u \<in> redundant ?p x" for u
    using redundant_add [of t x p] nc that Suc.prems(6) by auto
  have promote: "wp (acquire_promote n hash lim x a) Q E (put q ?p ?l b)" if a: "a \<in> set (parent_tags t)" for a
  proof (rule Suc.IH [OF _ c])
    show "coarseness (GET_PREDICATELOCKTARGETTAG_TYPE a) < n" using parent_tags_coarser [OF a] Suc.prems(1) by simp
    show "tag_ok a" by (rule parent_tags_ok [OF a])
    show "\<not> local_held ?l a" using Suc.prems(5) a parent_not_self [of t] by (auto simp: local_held_after)
    show "\<forall>c \<in> set (parent_tags a). \<not> local_held ?l c"
      using Suc.prems(5) parent_tags_trans [OF _ a] parent_not_self [of t] by (auto simp: local_held_after)
    show "\<forall>u \<in> redundant ?p x. a \<in> set (parent_tags u)" using red parent_tags_trans [OF a] by blast
    show "E out_of_memory s" if "target_room ?p < n \<or> lock_room ?p < n" for s
      by (rule Suc.prems(7)) (use that in \<open>auto simp: add_lock_def split: if_splits\<close>)
    fix p' l' assume "consistent x p' l'" "acquired x a ?p p'"
    then show "Q () (put q p' l' b)" using Suc.prems(8) acquired_parent [OF _ a] by blast
  qed
  have finish: "wp (whenp (GET_PREDICATELOCKTARGETTAG_TYPE t \<noteq> PREDLOCKTAG_TUPLE) (DeleteChildTargetLocks hash x t)) Q E (put q ?p ?l b)"
    by (rule wp_finish_acquire [OF r c], erule red, rule Suc.prems(8))
  have "wp (count_in_parents lim (parent_tags t) None)
      (\<lambda>promotion. wp (case promotion of Some promotiontag \<Rightarrow> acquire_promote n hash lim x promotiontag
         | None \<Rightarrow> whenp (GET_PREDICATELOCKTARGETTAG_TYPE t \<noteq> PREDLOCKTAG_TUPLE) (DeleteChildTargetLocks hash x t)) Q E)
      E (put q ?p (hold_local t l) b)"
    by (rule count_in_parents_spec [OF parent_tags_distinct parent_not_tuple]) (use promote finish in auto)
  then have "wp (CreatePredicateLock hash t x) (\<lambda>_. wp (count_in_parents lim (parent_tags t) None)
      (\<lambda>promotion. wp (case promotion of Some promotiontag \<Rightarrow> acquire_promote n hash lim x promotiontag
         | None \<Rightarrow> whenp (GET_PREDICATELOCKTARGETTAG_TYPE t \<noteq> PREDLOCKTAG_TUPLE) (DeleteChildTargetLocks hash x t)) Q E) E)
      E (put q p (hold_local t l) b)"
    by (rule wp_create [OF r wf t]) (rule Suc.prems(7), auto)
  then show ?case
    using Suc.prems(4,5) by (simp add: wp_bindp wp_thenp wp_exists wp_coarser wp_local_table wp_set_local hold_local_def)
qed

text \<open>The calls in \<open>PredicateLockAcquire\<close> that find the target covered return at once.\<close>

lemma wp_acquire:
  assumes r: "ready 2 predicate_locks b" and c: "consistent x p l" and t: "tag_ok t" and red: "redundant p x = {}"
    and err: "\<And>s. target_room p < 3 \<or> lock_room p < 3 \<Longrightarrow> E out_of_memory s"
    and ok: "\<And>p' l'. consistent x p' l' \<Longrightarrow> acquired x t p p' \<Longrightarrow> Q () (put q p' l' b)"
  shows "wp (PredicateLockAcquire hash lim x t) Q E (put q p l b)"
proof (cases "local_held l t \<or> (\<exists>a \<in> set (parent_tags t). local_held l a)")
  case True
  then have "covered p x t" using local_held_covered [OF c] covered_parent by blast
  then have "Q () (put q p l b)" by (intro ok [OF c]) (simp add: acquired_def red)
  with True show ?thesis
    by (auto simp: PredicateLockAcquire_def numeral_3_eq_3 wp_simps wp_exists wp_coarser)
next
  case False
  have "coarseness (GET_PREDICATELOCKTARGETTAG_TYPE t) < 3" by (cases "GET_PREDICATELOCKTARGETTAG_TYPE t") simp_all
  then show ?thesis
    unfolding PredicateLockAcquire_def by (rule wp_acquire_new [OF r _ c t]) (use False red err ok in auto)
qed

lemma put_same: "LocalPredicateLockHash b = Some l \<Longrightarrow> put (PredXact (shm b)) (PredLocks (shm b)) l b = b"
  by (simp add: put_def)

text \<open>
  C5: \<open>PredicateLockAcquire\<close> on a backend that finds the locks free, with tables that agree and no redundant lock, ends. Its locks
  then cover the target and all they covered before, none of them is below another, the tables still agree, other transactions have
  the same locks, and the backend has released the locks it took. It fails only to report that shared memory is used up, when the
  shared tables have room for less than three entries.
\<close>

theorem acquire_covers:
  assumes "ready 2 predicate_locks b" and "LocalPredicateLockHash b = Some l" and "consistent x (PredLocks (shm b)) l"
    and "redundant (PredLocks (shm b)) x = {}" and "tag_ok t"
  shows "\<exists>r b'. PredicateLockAcquire hash lim x t b = (r, b') \<and>
    (r = Inr () \<and> (\<exists>p' l'. b' = put (PredXact (shm b)) p' l' b \<and> consistent x p' l' \<and> acquired x t (PredLocks (shm b)) p') \<or>
     r = Inl (Ereport ''out of shared memory'') \<and> (target_room (PredLocks (shm b)) < 3 \<or> lock_room (PredLocks (shm b)) < 3))"
proof -
  let ?p = "PredLocks (shm b)" and ?q = "PredXact (shm b)"
  have "wp (PredicateLockAcquire hash lim x t)
     (\<lambda>_ b'. \<exists>p' l'. b' = put ?q p' l' b \<and> consistent x p' l' \<and> acquired x t ?p p')
     (\<lambda>e _. e = out_of_memory \<and> (target_room ?p < 3 \<or> lock_room ?p < 3)) (put ?q ?p l b)"
    by (rule wp_acquire [OF assms(1,3,5,4)]) auto
  then show ?thesis
    unfolding put_same [OF assms(2)] by (auto simp: wp_def split: prod.splits sum.splits)
qed

text \<open>A backend that has just begun a serializable transaction.\<close>

definition reading_backend :: backend where
  "reading_backend = put (InitPredicateLocks 2) (InitPredicateLockTables (64 * 2)) (\<lambda>_. None) fresh_backend"

lemma predicate_locks_lt: "i \<in> predicate_locks \<Longrightarrow> i < NUM_FIXED_LWLOCKS"
proof -
  have "PredicateLockHashPartitionLock h < NUM_FIXED_LWLOCKS" for h
  proof -
    have "PredicateLockHashPartition h < 16" by (simp add: PredicateLockHashPartition_def NUM_PREDICATELOCK_PARTITIONS_def)
    then show ?thesis by (simp add: PredicateLockHashPartitionLock_def layout_defs)
  qed
  then show "i \<in> predicate_locks \<Longrightarrow> i < NUM_FIXED_LWLOCKS"
    by (auto simp: predicate_locks_def SerializablePredicateLockListLock_def SerializableXactHashLock_def NUM_FIXED_LWLOCKS_eq)
qed

lemma fresh_ready: "n \<le> 3 \<Longrightarrow> ready n predicate_locks fresh_backend"
  by (auto simp: ready_def fresh_backend_def fresh_quiet predicate_locks_lt MAX_SIMUL_LWLOCKS_def)

theorem acquire_covers_witness:
  "\<exists>b'. PredicateLockAcquire (\<lambda>_. 7) \<lparr>per_xact = 64, per_relation = - 2, per_page = 2\<rparr> 1 (SET_PREDICATELOCKTARGETTAG_TUPLE 5 16384 0 1) reading_backend
     = (Inr (), b') \<and> covered (PredLocks (shm b')) 1 (SET_PREDICATELOCKTARGETTAG_TUPLE 5 16384 0 1)"
proof -
  have "redundant (InitPredicateLockTables 128) 1 = {}" by (simp add: redundant_def InitPredicateLockTables_def)
  moreover have "consistent 1 (InitPredicateLockTables 128) (\<lambda>_. None)"
    by (simp add: consistent_def locks_wf_init) (simp add: local_ok_empty InitPredicateLockTables_def)
  moreover have "target_room (InitPredicateLockTables 128) = 127" "lock_room (InitPredicateLockTables 128) = 256"
    by (simp_all add: InitPredicateLockTables_def)
  ultimately show ?thesis
    using acquire_covers [of reading_backend "\<lambda>_. None" 1 "SET_PREDICATELOCKTARGETTAG_TUPLE 5 16384 0 1" "\<lambda>_. 7"
        "\<lparr>per_xact = 64, per_relation = - 2, per_page = 2\<rparr>"]
    by (auto simp: reading_backend_def fresh_ready acquired_def)
qed

end
