(* ===== verification/PredLockWrite.thy ===== *)
theory PredLockWrite
  imports PredLockTake PredicateAlone
begin

text \<open>
  The check on writes of a backend that runs alone: \<open>CheckForSerializableConflictIn\<close> flags a dependency from every
  transaction that has read what is written, wherever the lock on it is.
\<close>

subsection \<open>One dependency\<close>

text \<open>A transaction that writes: it is in use, not read-only, and has neither prepared nor been doomed.\<close>

definition writing :: "ssi \<Rightarrow> nat \<Rightarrow> bool" where
  "writing q me \<longleftrightarrow> in_use q me \<and> \<not> SxactIsReadOnly (sx q me) \<and> \<not> SxactIsPrepared (sx q me) \<and> \<not> SxactIsDoomed (sx q me)"

text \<open>The transactions whose reads concern a transaction with the given \<open>xmin\<close>.\<close>

definition overlapping :: "ssi \<Rightarrow> TransactionId \<Rightarrow> nat \<Rightarrow> bool" where
  "overlapping q snapshot_xmin x \<longleftrightarrow> \<not> SxactIsDoomed (sx q x) \<and>
     (SxactIsCommitted (sx q x) \<longrightarrow> TransactionIdPrecedes snapshot_xmin (finishedBefore (sx q x)))"

text \<open>The number of conflicts that can still be recorded.\<close>

definition pool_room :: "ssi \<Rightarrow> nat" where
  "pool_room q = card (set (poolAvailable q))"

lemma wp_flag_write:
  assumes b: "env b = []" "(SerializableXactHashLock, m) \<in> set (held_lwlocks b)"
    and inv: "ssi_inv q H" and w: "writing q w" and r: "in_use q r" "r \<noteq> w" "(r, w) \<notin> recorded q"
    and nd: "\<not> dangerous q (recorded q) r w" and av: "poolAvailable q \<noteq> []"
    and ok: "\<And>q'. ssi_inv q' (insert (r, w) H) \<Longrightarrow> same_xacts q q' \<Longrightarrow> recorded q' = insert (r, w) (recorded q) \<Longrightarrow>
       pool_room q \<le> Suc (pool_room q') \<Longrightarrow> Q () (put q' p l b)"
  shows "wp (FlagRWConflict r w) Q E (put q p l b)"
proof -
  from inv obtain EE U A where i: "slots_ok q" "numbers_ok q" "conflicts_ok q EE U H" "history_ok q (edge_of q ` EE) H" and qu: "queues_ok q EE U A"
    by (rule ssi_invE)
  have rec: "recorded q = edge_of q ` EE" by (rule recorded_edges [OF qu])
  have wu: "in_use q w" "\<not> SxactIsReadOnly (sx q w)" "\<not> SxactIsPrepared (sx q w)" using w by (simp_all add: writing_def)
  have lt: "r < length (element q)" "w < length (element q)" using in_use_lt [OF i(1)] r wu by simp_all
  have nc: "\<not> SxactIsCommitted (sx q w)" using numbersD(5) [OF i(2) wu(1)] wu(3) by blast
  have old: "OldCommittedSxact q \<noteq> r" "OldCommittedSxact q \<noteq> w" using r(1) wu(1) by (auto simp: in_use_def)
  have edge: "Q () (put (with_edge c r w q) p l b)" if c: "poolAvailable q = OutLink c # ls" "c \<in> A" for c ls
  proof (rule ok)
    show "ssi_inv (with_edge c r w q) (insert (r, w) H)"
      using flag_inv [OF i r(1) wu(1) r(2) wu(2) _ _ dooms_refl _ qu c(2)] wu(3) nc nd rec by simp
    show "same_xacts q (with_edge c r w q)" by (rule with_edge_same [OF lt r(2)])
    show "recorded (with_edge c r w q) = insert (r, w) (recorded q)"
      using recorded_edges [OF with_edge_queues [OF qu c(2) lt r(2)]] with_edge_edges [OF qu c(2)] rec by simp
    have "set (poolAvailable (with_edge c r w q)) = set (poolAvailable q) - {OutLink c}"
      by (simp add: with_edge_def Let_def)
    moreover have "Suc (card (set (poolAvailable q) - {OutLink c})) = card (set (poolAvailable q))"
      by (rule card_Suc_Diff1) (simp_all add: c(1))
    ultimately show "pool_room q \<le> Suc (pool_room (with_edge c r w q))" by (simp only: pool_room_def)
  qed
  have "wp (SetRWConflict r w) (\<lambda>x q'. Q x (put q' p l b)) F q" for F
  proof -
    have "wp (take_conflict msg r w) (\<lambda>c. wp (thenp (upd_sxact r (\<lambda>r. r\<lparr>outConflicts := outConflicts r @ [OutLink c]\<rparr>))
       (upd_sxact w (\<lambda>w. w\<lparr>inConflicts := inConflicts w @ [InLink c]\<rparr>))) (\<lambda>x q'. Q x (put q' p l b)) F) F q" for msg
      by (rule wp_take_conflict [OF qu])
        (use edge av lt r(2) in \<open>auto simp: wp_simps with_edge_def Let_def nth_list_update\<close>)
    then show ?thesis using r(2,3) by (simp add: SetRWConflict_def wp_simps wp_RWConflictExists [OF qu lt] rec)
  qed
  then show ?thesis
    using b r(2) old nd
    by (auto simp: FlagRWConflict_def OnConflict_CheckForSerializationFailure_def LWLockHeldByMe_def wp_thenp wp_bindp wp_gets wp_assertp
        wp_in_ssi_put wp_conflict_failure [OF qu lt] rec wp_whenp wp_if list_ex_iff)
qed

subsection \<open>The readers of a target\<close>

definition safe :: "nat \<Rightarrow> TransactionId \<Rightarrow> nat set \<Rightarrow> ssi \<Rightarrow> bool" where
  "safe me snapshot_xmin X q \<longleftrightarrow>
     (\<forall>x \<in> X. in_use q x \<and> (x \<noteq> me \<and> overlapping q snapshot_xmin x \<and> (x, me) \<notin> recorded q \<longrightarrow> \<not> dangerous q (recorded q) x me))"

text \<open>
  The check of the readers \<open>X\<close> has led from \<open>q\<close>, with the dependencies \<open>H\<close>, to \<open>q'\<close> with \<open>H'\<close>, and has recorded at most \<open>n\<close> conflicts.
\<close>

definition checked :: "nat \<Rightarrow> TransactionId \<Rightarrow> nat set \<Rightarrow> nat \<Rightarrow> ssi \<Rightarrow> (nat \<times> nat) set \<Rightarrow> ssi \<Rightarrow> (nat \<times> nat) set \<Rightarrow> bool" where
  "checked me snapshot_xmin X n q H q' H' \<longleftrightarrow> same_xacts q q' \<and> ssi_inv q' H' \<and> H \<subseteq> H' \<and>
     recorded q \<subseteq> recorded q' \<and> (\<forall>(x, y) \<in> recorded q' - recorded q. x \<noteq> me \<and> y = me) \<and> pool_room q \<le> pool_room q' + n \<and>
     (\<forall>x \<in> X. x \<noteq> me \<longrightarrow> overlapping q snapshot_xmin x \<longrightarrow> (x, me) \<in> H')"

lemma checked_refl: "ssi_inv q H \<Longrightarrow> checked me snapshot_xmin {} 0 q H q H"
  by (simp add: checked_def same_xacts_def)

lemma same_xacts_nth:
  assumes "same_xacts q q'" and "x < length (element q)"
  shows "strip (sx q' x) = strip (sx q x)"
  using assms unfolding same_xacts_def by (metis length_map nth_map)

lemma same_xacts_tests:
  assumes "same_xacts q q'" and "x < length (element q)"
  shows "SxactIsDoomed (sx q' x) = SxactIsDoomed (sx q x)" "SxactIsCommitted (sx q' x) = SxactIsCommitted (sx q x)"
    "SxactIsPrepared (sx q' x) = SxactIsPrepared (sx q x)" "SxactIsReadOnly (sx q' x) = SxactIsReadOnly (sx q x)"
    "SxactHasConflictOut (sx q' x) = SxactHasConflictOut (sx q x)" "SxactHasSummaryConflictOut (sx q' x) = SxactHasSummaryConflictOut (sx q x)"
    "overlapping q' snapshot_xmin x = overlapping q snapshot_xmin x"
  using strip_eq [OF same_xacts_nth [OF assms]]
  by (simp_all add: overlapping_def SxactIsDoomed_def SxactIsCommitted_def SxactIsPrepared_def SxactIsReadOnly_def SxactHasConflictOut_def
      SxactHasSummaryConflictOut_def)

lemma same_xacts_in_use: "same_xacts q q' \<Longrightarrow> in_use q' x = in_use q x"
  by (simp add: in_use_def same_xacts_fields)

lemma ssi_inv_lt: "ssi_inv q H \<Longrightarrow> in_use q x \<Longrightarrow> x < length (element q)"
  using in_use_lt by (auto simp: ssi_inv_def)

lemma recorded_history:
  assumes "ssi_inv q H"
  shows "recorded q \<subseteq> H" and "(x, y) \<in> recorded q \<Longrightarrow> in_use q x \<and> in_use q y"
proof -
  from assms obtain EE U A where i: "conflicts_ok q EE U H" and qu: "queues_ok q EE U A" by (rule ssi_invE)
  show "recorded q \<subseteq> H" using i unfolding recorded_edges [OF qu] conflicts_ok_def by blast
  then show "(x, y) \<in> recorded q \<Longrightarrow> in_use q x \<and> in_use q y" using historyD(1,2) [OF i] by blast
qed

lemma checked_writing: "ssi_inv q H \<Longrightarrow> checked me snapshot_xmin X n q H q' H' \<Longrightarrow> writing q' x = writing q x"
  using ssi_inv_lt [of q H x] unfolding writing_def checked_def by (auto simp: same_xacts_tests same_xacts_in_use)

lemma checked_dangerous:
  assumes inv: "ssi_inv q H" and w: "writing q me" and x: "in_use q x" and c: "checked me snapshot_xmin X n q H q' H'"
  shows "dangerous q' (recorded q') x me = dangerous q (recorded q) x me"
proof -
  have same: "same_xacts q q'" and rec: "recorded q \<subseteq> recorded q'" "\<forall>(x, y) \<in> recorded q' - recorded q. x \<noteq> me \<and> y = me"
    using c by (simp_all add: checked_def)
  have me: "me < length (element q)" "x < length (element q)" "\<not> SxactIsPrepared (sx q me)" using w x ssi_inv_lt [OF inv] by (auto simp: writing_def)
  have out: "(me, t) \<in> recorded q' \<longleftrightarrow> (me, t) \<in> recorded q" for t using rec by auto
  have t: "t < length (element q)" if "(me, t) \<in> recorded q" for t using recorded_history(2) [OF inv that] ssi_inv_lt [OF inv] by blast
  have "pivot_out (sx q' x) (sx q' me) (sx q' t) = pivot_out (sx q x) (sx q me) (sx q t)" if "(me, t) \<in> recorded q" for t
    using same_xacts_flags(2-4) [OF same] same_xacts_tests [OF same] me t [OF that] by (simp add: pivot_out_def)
  then show ?thesis
    using me same_xacts_tests [OF same] unfolding dangerous_def out by auto
qed

lemma checked_safe:
  assumes "ssi_inv q H" and "writing q me" and "safe me snapshot_xmin Y q" and "checked me snapshot_xmin X n q H q' H'"
  shows "safe me snapshot_xmin Y q'"
proof -
  have same: "same_xacts q q'" and "recorded q \<subseteq> recorded q'" using assms(4) by (simp_all add: checked_def)
  then show ?thesis
    using assms(3) checked_dangerous [OF assms(1,2) _ assms(4)] same_xacts_in_use [OF same] same_xacts_tests(7) [OF same] ssi_inv_lt [OF assms(1)]
    unfolding safe_def by blast
qed

lemma checked_trans:
  assumes inv: "ssi_inv q H" and Y: "\<And>y. y \<in> Y \<Longrightarrow> in_use q y"
    and c: "checked me snapshot_xmin X m q H q1 H1" and d: "checked me snapshot_xmin Y n q1 H1 q' H'"
  shows "checked me snapshot_xmin (X \<union> Y) (m + n) q H q' H'"
proof -
  have s: "same_xacts q q1" "same_xacts q1 q'" using c d by (simp_all add: checked_def)
  have o: "overlapping q1 snapshot_xmin y = overlapping q snapshot_xmin y" if "y \<in> Y" for y
    using same_xacts_tests(7) [OF s(1) ssi_inv_lt [OF inv Y [OF that]]] .
  have sub: "H \<subseteq> H1" "H1 \<subseteq> H'" "recorded q \<subseteq> recorded q1" "recorded q1 \<subseteq> recorded q'" using c d by (simp_all add: checked_def)
  have new: "\<forall>(x, y) \<in> recorded q1 - recorded q. x \<noteq> me \<and> y = me" "\<forall>(x, y) \<in> recorded q' - recorded q1. x \<noteq> me \<and> y = me"
    using c d by (simp_all add: checked_def)
  have X: "\<forall>x \<in> X. x \<noteq> me \<longrightarrow> overlapping q snapshot_xmin x \<longrightarrow> (x, me) \<in> H1"
    and Y': "\<forall>x \<in> Y. x \<noteq> me \<longrightarrow> overlapping q1 snapshot_xmin x \<longrightarrow> (x, me) \<in> H'" using c d by (simp_all add: checked_def)
  show ?thesis
    unfolding checked_def
  proof (intro conjI)
    show "same_xacts q q'" using s by (simp add: same_xacts_def)
    show "ssi_inv q' H'" using d by (simp add: checked_def)
    show "H \<subseteq> H'" "recorded q \<subseteq> recorded q'" using sub by blast+
    show "\<forall>(x, y) \<in> recorded q' - recorded q. x \<noteq> me \<and> y = me" using new by blast
    show "pool_room q \<le> pool_room q' + (m + n)" using c d by (simp add: checked_def)
    show "\<forall>x \<in> X \<union> Y. x \<noteq> me \<longrightarrow> overlapping q snapshot_xmin x \<longrightarrow> (x, me) \<in> H'" using X Y' o sub(2) by blast
  qed
qed

lemma wp_conflict_in_needed:
  assumes inv: "ssi_inv q H" and w: "writing q me" and x: "in_use q x" "x \<noteq> me"
  shows "wp (conflict_in_needed snapshot_xmin me x) Q E q = Q (overlapping q snapshot_xmin x \<and> (x, me) \<notin> recorded q) q"
proof -
  from inv obtain EE U A where qu: "queues_ok q EE U A" by (rule ssi_invE)
  have lt: "x < length (element q)" "me < length (element q)" "\<not> SxactIsDoomed (sx q me)" using w x(1) ssi_inv_lt [OF inv] by (auto simp: writing_def)
  show ?thesis
    using lt by (auto simp: conflict_in_needed_def wp_simps wp_RWConflictExists [OF qu lt(1,2) x(2)] recorded_edges [OF qu] overlapping_def)
qed

lemma wp_flag_reader:
  assumes r: "ready (Suc n) L b" "SerializableXactHashLock \<in> L"
    and inv: "ssi_inv q H" and w: "writing q me" and sf: "safe me snapshot_xmin {x} q" and room: "0 < pool_room q"
    and ok: "\<And>q' H'. checked me snapshot_xmin {x} 1 q H q' H' \<Longrightarrow> Q () (put q' p l (taken_in LW_SHARED SerializableXactHashLock b))"
  shows "wp (flag_reader snapshot_xmin me x) Q E (put q p l (taken_in LW_SHARED SerializableXactHashLock b))"
proof -
  let ?i = SerializableXactHashLock
  have e: "env b = []" using r by (simp add: ready_def)
  have x: "in_use q x" using sf by (simp add: safe_def)
  note run = flag_reader_def whenp_def wp_thenp wp_bindp wp_in_ssi_put e wp_give [OF r] wp_take [OF iffD2 [OF put_locks_simps(3)], OF r] wp_ret
  show ?thesis
  proof (cases "x \<noteq> me \<and> overlapping q snapshot_xmin x \<and> (x, me) \<notin> recorded q")
    case True
    have "wp (FlagRWConflict x me) (\<lambda>_. wp (LWLockRelease ?i) (\<lambda>_. wp (LWLockAcquire ?i LW_SHARED) (\<lambda>_. wp (ret ()) Q E) E) E) E (put q p l (taken_in LW_EXCLUSIVE ?i b))"
    proof (rule wp_flag_write [OF _ _ inv w x])
      fix q' assume "ssi_inv q' (insert (x, me) H)" "same_xacts q q'" "recorded q' = insert (x, me) (recorded q)" "pool_room q \<le> Suc (pool_room q')"
      then have "checked me snapshot_xmin {x} 1 q H q' (insert (x, me) H)" using True by (auto simp: checked_def)
      then show "wp (LWLockRelease ?i) (\<lambda>_. wp (LWLockAcquire ?i LW_SHARED) (\<lambda>_. wp (ret ()) Q E) E) E (put q' p l (taken_in LW_EXCLUSIVE ?i b))"
        using ok by (simp add: wp_give [OF r] wp_take [OF iffD2 [OF put_locks_simps(3)], OF r] wp_ret)
    qed (use True sf room e in \<open>auto simp: safe_def pool_room_def\<close>)
    then show ?thesis using True by (simp add: run wp_conflict_in_needed [OF inv w x])
  next
    case False
    have "checked me snapshot_xmin {x} 1 q H q H"
      using False inv recorded_history(1) [OF inv] by (auto simp: checked_def same_xacts_def)
    then have "Q () (put q p l (taken_in LW_SHARED ?i b))" by (rule ok)
    then show ?thesis using False by (auto simp: run wp_conflict_in_needed [OF inv w x])
  qed
qed

lemma safe_subset: "safe me snapshot_xmin X q \<Longrightarrow> Y \<subseteq> X \<Longrightarrow> safe me snapshot_xmin Y q"
  by (auto simp: safe_def)

lemma wp_flag_readers:
  assumes r: "ready (Suc n) L b" "SerializableXactHashLock \<in> L"
  shows "ssi_inv q H \<Longrightarrow> writing q me \<Longrightarrow> safe me snapshot_xmin (set xs) q \<Longrightarrow> length xs \<le> pool_room q \<Longrightarrow>
    (\<And>q' H'. checked me snapshot_xmin (set xs) (length xs) q H q' H' \<Longrightarrow> Q () (put q' p l (taken_in LW_SHARED SerializableXactHashLock b))) \<Longrightarrow>
    wp (eachp (flag_reader snapshot_xmin me) xs) Q E (put q p l (taken_in LW_SHARED SerializableXactHashLock b))"
proof (induction xs arbitrary: q H)
  case Nil
  then show ?case using Nil.prems(5) [of q H] checked_refl [OF Nil.prems(1)] by (simp add: wp_simps)
next
  case (Cons x xs)
  note sf = safe_subset [OF Cons.prems(3)]
  have "wp (flag_reader snapshot_xmin me x) (\<lambda>_. wp (eachp (flag_reader snapshot_xmin me) xs) Q E) E
     (put q p l (taken_in LW_SHARED SerializableXactHashLock b))"
  proof (rule wp_flag_reader [OF r Cons.prems(1,2) sf])
    fix q1 H1 assume c: "checked me snapshot_xmin {x} 1 q H q1 H1"
    show "wp (eachp (flag_reader snapshot_xmin me) xs) Q E (put q1 p l (taken_in LW_SHARED SerializableXactHashLock b))"
    proof (rule Cons.IH)
      show "ssi_inv q1 H1" "length xs \<le> pool_room q1" using c Cons.prems(4) by (simp_all add: checked_def)
      show "writing q1 me" using checked_writing [OF Cons.prems(1) c] Cons.prems(2) by simp
      show "safe me snapshot_xmin (set xs) q1" by (rule checked_safe [OF Cons.prems(1,2) sf c]) auto
      fix q' H' assume d: "checked me snapshot_xmin (set xs) (length xs) q1 H1 q' H'"
      have "checked me snapshot_xmin ({x} \<union> set xs) (1 + length xs) q H q' H'"
        by (rule checked_trans [OF Cons.prems(1) _ c d]) (use Cons.prems(3) in \<open>auto simp: safe_def\<close>)
      then show "Q () (put q' p l (taken_in LW_SHARED SerializableXactHashLock b))" using Cons.prems(5) by simp
    qed
  qed (use Cons.prems(4) in auto)
  then show ?case by (simp add: wp_thenp)
qed

subsection \<open>The backend's own lock on the tuple\<close>

lemma tuple_no_child: "GET_PREDICATELOCKTARGETTAG_TYPE t = PREDLOCKTAG_TUPLE \<Longrightarrow> t \<notin> set (parent_tags u)"
  using parent_not_tuple by blast

lemma drop_tuple_lock:
  assumes c: "consistent me p l" and t: "t \<in> set (predicateLocks p me)" "GET_PREDICATELOCKTARGETTAG_TYPE t = PREDLOCKTAG_TUPLE"
  shows "consistent me (del_lock t me p) (count_down (parent_tags t) (l(t := None)))"
    and "\<And>u. u \<in> set (parent_tags t) \<Longrightarrow> \<exists>e. (l(t := None)) u = Some e \<and> 1 \<le> childLocks e"
proof -
  have wf: "locks_wf p" and lo: "local_ok p me l" using c by (simp_all add: consistent_def)
  have bel: "l u = Some e \<Longrightarrow> childLocks e = int (below p me u)" "0 < below p me u \<Longrightarrow> l u \<noteq> None"
      "l u = Some e \<Longrightarrow> lock_held e \<Longrightarrow> covered p me u" for u e
    using lo unfolding local_ok_def by blast+
  have ne: "u \<noteq> t" if "u \<in> set (parent_tags t)" for u using that parent_not_self by blast
  show one: "\<exists>e. (l(t := None)) u = Some e \<and> 1 \<le> childLocks e" if "u \<in> set (parent_tags t)" for u
  proof -
    have "1 \<le> below p me u" using below_del [OF wf t(1), of u] that by simp
    then show ?thesis using bel(1,2) [of u] ne [OF that] by force
  qed
  have zero: "below p me t = 0" using tuple_no_child [OF t(2)] by (simp add: below_def)
  have "local_ok (del_lock t me p) me (count_down (parent_tags t) (l(t := None)))"
    unfolding local_ok_def
  proof (intro conjI allI ballI impI)
    fix u assume "u \<in> set (predicateLocks (del_lock t me p) me)"
    then show "\<exists>e. count_down (parent_tags t) (l(t := None)) u = Some e \<and> lock_held e"
      using lo by (force simp: local_ok_def count_down_def split: option.splits)
  next
    fix u e assume "count_down (parent_tags t) (l(t := None)) u = Some e"
    then show "childLocks e = int (below (del_lock t me p) me u)"
      using below_del [OF wf t(1), of u] bel(1) [of u] by (auto simp: count_down_def split: if_splits option.splits)
  next
    fix u e assume "count_down (parent_tags t) (l(t := None)) u = Some e" and "lock_held e"
    then have "u \<noteq> t \<and> (\<exists>e'. l u = Some e' \<and> lock_held e')"
      using ne by (auto simp: count_down_def split: if_splits option.splits)
    then have "u \<noteq> t" "covered p me u" using bel(3) by blast+
    then show "covered (del_lock t me p) me u" using tuple_no_child [OF t(2), of u] by (auto simp: covered_def)
  next
    fix u assume "0 < below (del_lock t me p) me u"
    then show "count_down (parent_tags t) (l(t := None)) u \<noteq> None"
      using below_del [OF wf t(1), of u] zero bel(1,2) [of u] by (auto simp: count_down_def split: if_splits option.splits)
  qed
  then show "consistent me (del_lock t me p) (count_down (parent_tags t) (l(t := None)))"
    using del_lock_wf [OF wf] by (simp add: consistent_def)
qed

lemma wp_drop_own_lock:
  assumes r: "ready 3 predicate_locks b" and c: "consistent me p l"
    and t: "t \<in> set (predicateLocks p me)" "GET_PREDICATELOCKTARGETTAG_TYPE t = PREDLOCKTAG_TUPLE"
    and ok: "Q () (put q (del_lock t me p) (count_down (parent_tags t) (l(t := None))) b)"
  shows "wp (drop_own_lock hash me t) Q E (put q p l b)"
proof -
  let ?h = "PredicateLockHashPartitionLock (hash t)" and ?i = SerializablePredicateLockListLock and ?j = SerializableXactHashLock
  let ?b1 = "taken_in LW_SHARED ?i b"
  let ?b2 = "taken_in LW_EXCLUSIVE ?h ?b1"
  let ?b3 = "taken_in LW_EXCLUSIVE ?j ?b2"
  let ?L1 = "predicate_locks - {?i}"
  have wf: "locks_wf p" using c by (simp add: consistent_def)
  have some: "\<exists>n. PredicateLockHash p (t, me) = Some n" using locks_wf_D(2) [OF wf, of t me] t(1) by blast
  have r0: "ready (Suc 2) predicate_locks b" using r by (simp add: numeral_3_eq_3 numeral_2_eq_2)
  have r1: "ready (Suc 1) ?L1 ?b1" using ready_taken [OF r0, of ?i LW_SHARED] by (simp add: numeral_2_eq_2)
  have h: "?h \<in> ?L1" using partition_lock_neq by simp
  have r2: "ready (Suc 0) (?L1 - {?h}) ?b2" using ready_taken [OF r1 h, of LW_EXCLUSIVE] by simp
  have j: "?j \<in> ?L1 - {?h}" using partition_lock_neq [symmetric] by simp
  have e: "env b = []" using r by (simp add: ready_def)
  have dec: "wp (eachp DecrementParentLock (parent_tags t)) Q E (put q p' (l(t := None)) b) = Q () (put q p' (count_down (parent_tags t) (l(t := None))) b)" for p'
    by (rule wp_decrement [OF parent_tags_distinct]) (rule drop_tuple_lock(2) [OF c t])
  have "wp (in_locks (remove_lock t me)) (\<lambda>_. wp (RemoveTargetIfNoLongerUsed t) (\<lambda>_.
      wp (LWLockRelease ?j) (\<lambda>_. wp (LWLockRelease ?h) (\<lambda>_. wp (LWLockRelease ?i) (\<lambda>_.
      wp (set_local t None) (\<lambda>_. wp (DecrementParentLocks t) Q E) E) E) E) E) E) E (put q p l ?b3)"
    by (rule wp_take_out [where m = LW_SHARED, OF _ _ wf t(1)])
      (use e ok in \<open>simp_all add: wp_give [OF r2 j] wp_give [OF r1 h] wp_give [OF r0] wp_set_local DecrementParentLocks_def dec\<close>)
  then show ?thesis
    using some
    by (auto simp: drop_own_lock_def Let_def wp_thenp wp_bindp wp_take [OF iffD2 [OF put_locks_simps(3)], OF r0]
        wp_take [OF iffD2 [OF put_locks_simps(3)], OF r1 h] wp_take [OF iffD2 [OF put_locks_simps(3)], OF r2 j] wp_in_locks_alone e wp_gets whenp_def)
qed

subsection \<open>A target\<close>

lemma wp_check_target:
  assumes r: "ready 3 predicate_locks b" and m: "MySerializableXact b = Some me" and c: "consistent me p l"
    and inv: "ssi_inv q H" and w: "writing q me" and sf: "safe me snapshot_xmin (set (holders p t)) q" and room: "length (holders p t) \<le> pool_room q"
    and ok: "\<And>q' H' p' l'. checked me snapshot_xmin (set (holders p t)) (length (holders p t)) q H q' H' \<Longrightarrow> consistent me p' l' \<Longrightarrow>
       p' = p \<or> p' = del_lock t me p \<and> GET_PREDICATELOCKTARGETTAG_TYPE t = PREDLOCKTAG_TUPLE \<Longrightarrow> Q () (put q' p' l' b)"
  shows "wp (CheckTargetForConflictsIn hash snapshot_xmin IsSubTransaction t) Q E (put q p l b)"
proof -
  let ?h = "PredicateLockHashPartitionLock (hash t)" and ?j = SerializableXactHashLock
  let ?b1 = "taken_in LW_SHARED ?h b"
  let ?drop = "\<lambda>xs. me \<in> set xs \<and> \<not> IsSubTransaction \<and> GET_PREDICATELOCKTARGETTAG_OFFSET t \<noteq> 0"
  have wf: "locks_wf p" using c by (simp add: consistent_def)
  have r0: "ready (Suc 2) predicate_locks b" using r by (simp add: numeral_3_eq_3 numeral_2_eq_2)
  have r1: "ready (Suc 1) (predicate_locks - {?h}) ?b1" using ready_taken [OF r0, of ?h LW_SHARED] by (simp add: numeral_2_eq_2)
  have j: "?j \<in> predicate_locks - {?h}" using partition_lock_neq [symmetric] by simp
  have e: "env b = []" using r by (simp add: ready_def)
  have last: "wp (whenp (?drop (holders p t)) (drop_own_lock hash me t)) Q E (put q' p l b)"
    if d: "checked me snapshot_xmin (set (holders p t)) (length (holders p t)) q H q' H'" for q' H'
  proof (cases "?drop (holders p t)")
    case True
    then have t: "t \<in> set (predicateLocks p me)" "GET_PREDICATELOCKTARGETTAG_TYPE t = PREDLOCKTAG_TUPLE"
      using locks_wf_D(1) [OF wf, of me t] by (auto simp: GET_PREDICATELOCKTARGETTAG_TYPE_def GET_PREDICATELOCKTARGETTAG_OFFSET_def InvalidOffsetNumber_def)
    have "wp (drop_own_lock hash me t) Q E (put q' p l b)"
      by (rule wp_drop_own_lock [OF r c t], rule ok [OF d]) (use t drop_tuple_lock(1) [OF c t] in simp_all)
    with True show ?thesis by (simp add: whenp_def)
  qed (use ok [OF d c] in \<open>auto simp: whenp_def wp_simps\<close>)
  have run: "wp (eachp (flag_reader snapshot_xmin me) (holders p t)) (\<lambda>_. wp (LWLockRelease ?j) (\<lambda>_. wp (LWLockRelease ?h)
      (\<lambda>_. wp (whenp (?drop (holders p t)) (drop_own_lock hash me t)) Q E) E) E) E (put q p l (taken_in LW_SHARED ?j ?b1))"
    by (rule wp_flag_readers [OF r1 j inv w sf room]) (simp add: wp_give [OF r1 j] wp_give [OF r0] last)
  note steps = CheckTargetForConflictsIn_def my_xact_def Let_def wp_thenp wp_bindp wp_gets wp_ret m wp_in_locks_alone e
    wp_take [OF iffD2 [OF put_locks_simps(3)], OF r0] wp_give [OF r0]
  show ?thesis
  proof (cases "PredicateLockTargetHash p t")
    case None
    then have "Q () (put q p l b)" using ok [of q H, OF _ c] checked_refl [OF inv, of me snapshot_xmin] by (simp add: holders_def)
    with None show ?thesis by (simp add: steps)
  next
    case (Some xs)
    then show ?thesis using run by (simp add: steps wp_take [OF iffD2 [OF put_locks_simps(3)], OF r1 j] holders_def)
  qed
qed

text \<open>The targets are checked one after the other; a lock that is dropped at one of them is on no other.\<close>

lemma wp_check_targets:
  assumes r: "ready 3 predicate_locks b" and m: "MySerializableXact b = Some me"
  shows "distinct ts \<Longrightarrow> consistent me p l \<Longrightarrow> ssi_inv q H \<Longrightarrow> writing q me \<Longrightarrow> safe me snapshot_xmin (\<Union>t \<in> set ts. set (holders p t)) q \<Longrightarrow>
    (\<Sum>t \<leftarrow> ts. length (holders p t)) \<le> pool_room q \<Longrightarrow>
    (\<And>q' H' p' l'. checked me snapshot_xmin (\<Union>t \<in> set ts. set (holders p t)) (\<Sum>t \<leftarrow> ts. length (holders p t)) q H q' H' \<Longrightarrow>
       consistent me p' l' \<Longrightarrow> (\<forall>y. y \<noteq> me \<longrightarrow> predicateLocks p' y = predicateLocks p y) \<Longrightarrow> Q () (put q' p' l' b)) \<Longrightarrow>
    wp (eachp (CheckTargetForConflictsIn hash snapshot_xmin IsSubTransaction) ts) Q E (put q p l b)"
proof (induction ts arbitrary: q H p l)
  case Nil
  then show ?case using Nil.prems(7) [of q H p l] checked_refl [OF Nil.prems(3)] by (simp add: wp_simps)
next
  case (Cons t ts)
  let ?X = "\<lambda>p ts. \<Union>t \<in> set ts. set (holders p t)" and ?n = "\<lambda>p ts. \<Sum>t \<leftarrow> ts. length (holders p t)"
  note sf = safe_subset [OF Cons.prems(5)]
  have "wp (CheckTargetForConflictsIn hash snapshot_xmin IsSubTransaction t)
      (\<lambda>_. wp (eachp (CheckTargetForConflictsIn hash snapshot_xmin IsSubTransaction) ts) Q E) E (put q p l b)"
  proof (rule wp_check_target [OF r m Cons.prems(2-4) sf])
    fix q1 H1 p1 l1 assume c: "checked me snapshot_xmin (set (holders p t)) (length (holders p t)) q H q1 H1" and p1: "consistent me p1 l1"
      and or: "p1 = p \<or> p1 = del_lock t me p \<and> GET_PREDICATELOCKTARGETTAG_TYPE t = PREDLOCKTAG_TUPLE"
    have same: "holders p1 u = holders p u" if "u \<in> set ts" for u using or Cons.prems(1) that by auto
    then have X: "?X p1 ts = ?X p ts" and n: "?n p1 ts = ?n p ts" by (simp_all cong: map_cong)
    have others: "\<forall>y. y \<noteq> me \<longrightarrow> predicateLocks p1 y = predicateLocks p y" using or by auto
    show "wp (eachp (CheckTargetForConflictsIn hash snapshot_xmin IsSubTransaction) ts) Q E (put q1 p1 l1 b)"
    proof (rule Cons.IH [OF _ p1])
      show "distinct ts" using Cons.prems(1) by simp
      show "ssi_inv q1 H1" using c by (simp add: checked_def)
      show "?n p1 ts \<le> pool_room q1" using c Cons.prems(6) unfolding n by (simp add: checked_def)
      show "writing q1 me" using checked_writing [OF Cons.prems(3) c] Cons.prems(4) by simp
      show "safe me snapshot_xmin (?X p1 ts) q1" unfolding X by (rule checked_safe [OF Cons.prems(3,4) sf c]) auto
      fix q' H' p' l' assume d: "checked me snapshot_xmin (?X p1 ts) (?n p1 ts) q1 H1 q' H'"
        and p': "consistent me p' l'" "\<forall>y. y \<noteq> me \<longrightarrow> predicateLocks p' y = predicateLocks p1 y"
      have "checked me snapshot_xmin (set (holders p t) \<union> ?X p ts) (length (holders p t) + ?n p ts) q H q' H'"
        by (rule checked_trans [OF Cons.prems(3) _ c d [unfolded X n]]) (use Cons.prems(5) in \<open>auto simp: safe_def\<close>)
      then show "Q () (put q' p' l' b)" using Cons.prems(7) [OF _ p'(1)] p'(2) others by simp
    qed
  qed (use Cons.prems(6) in auto)
  then show ?case by (simp add: wp_thenp)
qed

subsection \<open>A write\<close>

lemma tuple_tag_parents:
  assumes "tuple_tag rel tid = Inr t" and "ItemPointerGetBlockNumber tid = Inr blk" and "blk \<noteq> InvalidBlockNumber"
  shows "parent_tags t = [SET_PREDICATELOCKTARGETTAG_PAGE (dbNode rel) (rd_id rel) blk, SET_PREDICATELOCKTARGETTAG_RELATION (dbNode rel) (rd_id rel)]"
proof -
  obtain off where off: "ItemPointerGetOffsetNumber tid = Inr off" and t: "t = SET_PREDICATELOCKTARGETTAG_TUPLE (dbNode rel) (rd_id rel) blk off"
    using assms by (auto simp: tuple_tag_def bind_res_eq_Inr)
  have "off \<noteq> 0" using off by (auto simp: ItemPointerGetOffsetNumber_def ItemPointerIsValid_def ItemPointerGetOffsetNumberNoCheck_def bind_res_eq_Inr split: if_splits)
  moreover have "tag_ok t" by (simp add: t)
  moreover have "GET_PREDICATELOCKTARGETTAG_OFFSET t = off" by (simp add: t tag_defs offset_up_down)
  ultimately have ty: "GET_PREDICATELOCKTARGETTAG_TYPE t = PREDLOCKTAG_TUPLE"
    using tag_type [of t] by (simp add: InvalidOffsetNumber_def)
  have "GET_PREDICATELOCKTARGETTAG_DB t = dbNode rel" "GET_PREDICATELOCKTARGETTAG_RELATION t = rd_id rel" "GET_PREDICATELOCKTARGETTAG_PAGE t = blk"
    by (simp_all add: t tag_defs)
  with assms(3) show ?thesis by (simp add: parent_tags_tuple [OF ty] Let_def parent_tags_of_page)
qed

lemma put_wrote: "(put q p l b)\<lparr>MyXactDidWrite := w\<rparr> = put q p l (b\<lparr>MyXactDidWrite := w\<rparr>)"
  by (simp add: put_def)

lemma ready_wrote: "ready n L (b\<lparr>MyXactDidWrite := w\<rparr>) = ready n L b"
  by (simp add: ready_def)

lemma covered_holders: "locks_wf p \<Longrightarrow> covered p x t \<longleftrightarrow> x \<in> (\<Union>a \<in> set (t # parent_tags t). set (holders p a))"
  unfolding covered_def using locks_wf_D(1) by auto

lemma wp_check_write:
  assumes r: "ready 3 predicate_locks b" and m: "MySerializableXact b = Some me" and c: "consistent me p l"
    and inv: "ssi_inv q H" and w: "writing q me" and rel: "PredicateLockingNeededForRelation rel"
    and t: "tuple_tag rel tid = Inr t" "ItemPointerGetBlockNumber tid = Inr blk" "blk \<noteq> InvalidBlockNumber"
    and sf: "safe me snapshot_xmin {x. covered p x t} q" and room: "(\<Sum>a \<leftarrow> t # parent_tags t. length (holders p a)) \<le> pool_room q"
    and ok: "\<And>q' H' p' l'. checked me snapshot_xmin {x. covered p x t} (\<Sum>a \<leftarrow> t # parent_tags t. length (holders p a)) q H q' H' \<Longrightarrow>
       consistent me p' l' \<Longrightarrow> (\<forall>y. y \<noteq> me \<longrightarrow> predicateLocks p' y = predicateLocks p y) \<Longrightarrow> Q () (put q' p' l' (b\<lparr>MyXactDidWrite := True\<rparr>))"
  shows "wp (CheckForSerializableConflictIn hash snapshot_xmin IsSubTransaction rel (Some tid) (Some blk)) Q E (put q p l b)"
proof -
  let ?b = "b\<lparr>MyXactDidWrite := True\<rparr>" and ?check = "CheckTargetForConflictsIn hash snapshot_xmin IsSubTransaction"
  have wf: "locks_wf p" using c by (simp add: consistent_def)
  have X: "(\<Union>a \<in> set (t # parent_tags t). set (holders p a)) = {x. covered p x t}" using covered_holders [OF wf] by blast
  have e: "env b = []" using r by (simp add: ready_def)
  have me: "me < length (element q)" "\<not> SxactIsDoomed (sx q me)" using w ssi_inv_lt [OF inv] by (simp_all add: writing_def)
  have "distinct (t # parent_tags t)" using parent_tags_distinct parent_not_self by simp
  moreover have "ready 3 predicate_locks ?b" "MySerializableXact ?b = Some me" using r m by (simp_all add: ready_wrote)
  ultimately have "wp (eachp ?check (t # parent_tags t)) Q E (put q p l ?b)"
    using ok sf room by (intro wp_check_targets [OF _ _ _ c inv w]) (simp_all only: X)
  moreover have "(\<lambda>_. wp (ret ()) Q E) = Q" by (simp add: fun_eq_iff wp_ret)
  ultimately show ?thesis
    using m me by (simp add: CheckForSerializableConflictIn_def SerializationNeededForWrite_def my_xact_def whenp_def wp_simps wp_in_ssi_put e rel t
        put_wrote tuple_tag_parents [OF t])
qed

text \<open>
  C6: a write finds the reads that it conflicts with. A serializable transaction writes a tuple; each transaction whose locks cover the tuple, by a lock on the
  tuple, its page or its relation, is in use, and a dependency from it would make no dangerous structure; there is room to record the dependencies.
  Then \<open>CheckForSerializableConflictIn\<close> returns, and the dependencies of all those transactions that overlap the writer are flagged. The shared data
  keep their invariant, so that the new dependencies are part of the structures that later checks look for; locks of other transactions stay.
\<close>

theorem write_finds_readers:
  assumes "ready 3 predicate_locks b" and "MySerializableXact b = Some me" and "LocalPredicateLockHash b = Some l"
    and "consistent me (PredLocks (shm b)) l" and "ssi_inv (PredXact (shm b)) H" and "writing (PredXact (shm b)) me"
    and "PredicateLockingNeededForRelation rel" and "tuple_tag rel tid = Inr t" and "ItemPointerGetBlockNumber tid = Inr blk"
    and "blk \<noteq> InvalidBlockNumber" and "safe me snapshot_xmin {x. covered (PredLocks (shm b)) x t} (PredXact (shm b))"
    and "(\<Sum>a \<leftarrow> t # parent_tags t. length (holders (PredLocks (shm b)) a)) \<le> pool_room (PredXact (shm b))"
  shows "\<exists>b' H'. CheckForSerializableConflictIn hash snapshot_xmin IsSubTransaction rel (Some tid) (Some blk) b = (Inr (), b') \<and>
    ssi_inv (PredXact (shm b')) H' \<and> H \<subseteq> H' \<and> MyXactDidWrite b' \<and> held_lwlocks b' = held_lwlocks b \<and>
    {x. x \<noteq> me \<and> covered (PredLocks (shm b)) x t \<and> overlapping (PredXact (shm b)) snapshot_xmin x} \<times> {me} \<subseteq> H' \<and>
    (\<exists>l'. LocalPredicateLockHash b' = Some l' \<and> consistent me (PredLocks (shm b')) l') \<and>
    (\<forall>y. y \<noteq> me \<longrightarrow> predicateLocks (PredLocks (shm b')) y = predicateLocks (PredLocks (shm b)) y)"
    (is "\<exists>b' H'. ?run = (Inr (), b') \<and> ?post b' H'")
proof -
  let ?p = "PredLocks (shm b)" and ?q = "PredXact (shm b)"
  have "wp (CheckForSerializableConflictIn hash snapshot_xmin IsSubTransaction rel (Some tid) (Some blk)) (\<lambda>_ b'. \<exists>H'. ?post b' H') (\<lambda>_ _. False) (put ?q ?p l b)"
  proof (rule wp_check_write [OF assms(1,2,4-12)])
    fix q' H' p' l' assume c: "checked me snapshot_xmin {x. covered ?p x t} (\<Sum>a \<leftarrow> t # parent_tags t. length (holders ?p a)) ?q H q' H'"
      and p': "consistent me p' l'" "\<forall>y. y \<noteq> me \<longrightarrow> predicateLocks p' y = predicateLocks ?p y"
    have "{x. x \<noteq> me \<and> covered ?p x t \<and> overlapping ?q snapshot_xmin x} \<times> {me} \<subseteq> H'" using c unfolding checked_def by blast
    moreover have "ssi_inv q' H'" "H \<subseteq> H'" using c by (simp_all add: checked_def)
    ultimately have "?post (put q' p' l' (b\<lparr>MyXactDidWrite := True\<rparr>)) H'" using p' by (simp add: put_wrote [symmetric])
    then show "\<exists>H'. ?post (put q' p' l' (b\<lparr>MyXactDidWrite := True\<rparr>)) H'" by blast
  qed
  then show ?thesis unfolding put_same [OF assms(3)] by (auto simp: wp_def split: prod.splits sum.splits)
qed

text \<open>Transaction 1 has read the page that transaction 2 writes a tuple of.\<close>

definition page_read :: predlocks where
  "page_read = add_lock (SET_PREDICATELOCKTARGETTAG_PAGE 5 16384 0) 1 (InitPredicateLockTables 128)"

definition some_table :: relation_info where
  "some_table = \<lparr>dbNode = 5, rd_id = 16384, is_index = False, uses_local_buffers = False, is_matview = False\<rparr>"

definition writing_backend :: backend where
  "writing_backend = put ssi_example page_read (\<lambda>_. None) (fresh_backend\<lparr>MySerializableXact := Some 2\<rparr>)"

lemma page_read_locks:
  "predicateLocks page_read x = (if x = 1 then [SET_PREDICATELOCKTARGETTAG_PAGE 5 16384 0] else [])"
  "holders page_read u = (if u = SET_PREDICATELOCKTARGETTAG_PAGE 5 16384 0 then [1] else [])"
  by (simp_all add: page_read_def) (simp_all add: InitPredicateLockTables_def holders_def)

lemma some_table_tag:
  "tuple_tag some_table (ItemPointerSet 0 1) = Inr (SET_PREDICATELOCKTARGETTAG_TUPLE 5 16384 0 1)" "ItemPointerGetBlockNumber (ItemPointerSet 0 1) = Inr 0"
  by (simp_all add: tuple_tag_def some_table_def ItemPointerGetBlockNumber_def ItemPointerGetOffsetNumber_def ItemPointerIsValid_def ItemPointerSet_def
      ItemPointerGetBlockNumberNoCheck_def ItemPointerGetOffsetNumberNoCheck_def BlockIdGet_Set)

lemma some_table_parents:
  "parent_tags (SET_PREDICATELOCKTARGETTAG_TUPLE 5 16384 0 1) = [SET_PREDICATELOCKTARGETTAG_PAGE 5 16384 0, SET_PREDICATELOCKTARGETTAG_RELATION 5 16384]"
  using tuple_tag_parents [OF some_table_tag] by (simp add: InvalidBlockNumber_def some_table_def)

lemma page_read_covered: "{x. covered page_read x (SET_PREDICATELOCKTARGETTAG_TUPLE 5 16384 0 1)} = {1}"
  by (auto simp: covered_def some_table_parents page_read_locks)

lemma writing_example:
  "writing ssi_example 2" "safe 2 5 {1} ssi_example" "overlapping ssi_example 5 1" "pool_room ssi_example = 50" "ssi_inv ssi_example {}"
proof -
  show inv: "ssi_inv ssi_example {}" using ssi_reachable_inv [OF ssi_example_reachable] by simp
  have rec: "recorded ssi_example = {}" using recorded_history(1) [OF inv] by blast
  have n: "flags (new_sxact 0 5 1 1) = 0" by (simp add: new_sxact_def)
  note tests = SxactIsDoomed_def SxactIsCommitted_def SxactIsPrepared_def SxactIsReadOnly_def SxactHasConflictOut_def SxactHasSummaryConflictOut_def
  show "writing ssi_example 2" by (simp add: writing_def in_use_def ssi_example_fields tests n)
  show "safe 2 5 {1} ssi_example" by (simp add: safe_def in_use_def ssi_example_fields dangerous_def rec tests n)
  show "overlapping ssi_example 5 1" by (simp add: overlapping_def ssi_example_fields tests n)
  show "pool_room ssi_example = 50" by (simp add: pool_room_def ssi_example_fields card_image inj_on_def)
qed

theorem write_finds_readers_witness:
  "\<exists>b' H'. CheckForSerializableConflictIn (\<lambda>_. 7) 5 False some_table (Some (ItemPointerSet 0 1)) (Some 0) writing_backend = (Inr (), b') \<and>
     ssi_inv (PredXact (shm b')) H' \<and> (1, 2) \<in> H'"
proof -
  let ?t = "SET_PREDICATELOCKTARGETTAG_TUPLE 5 16384 0 1"
  have b: "PredLocks (shm writing_backend) = page_read" "PredXact (shm writing_backend) = ssi_example"
      "LocalPredicateLockHash writing_backend = Some (\<lambda>_. None)" "MySerializableXact writing_backend = Some 2"
    by (simp_all add: writing_backend_def)
  have c: "consistent 2 page_read (\<lambda>_. None)"
    unfolding consistent_def page_read_def by (intro conjI add_lock_wf locks_wf_init local_ok_empty) (simp_all add: InitPredicateLockTables_def)
  have rel: "PredicateLockingNeededForRelation some_table"
    by (simp add: PredicateLockingNeededForRelation_def some_table_def FirstBootstrapObjectId_def)
  have r: "ready 3 predicate_locks writing_backend" using fresh_ready [of 3] by (simp add: writing_backend_def) (simp add: ready_def)
  have n: "(\<Sum>a \<leftarrow> ?t # parent_tags ?t. length (holders page_read a)) \<le> pool_room ssi_example"
    unfolding writing_example(4) by (simp add: some_table_parents page_read_locks)
  have 1: "covered page_read 1 ?t" using page_read_covered by blast
  obtain b' H' where run: "CheckForSerializableConflictIn (\<lambda>_. 7) 5 False some_table (Some (ItemPointerSet 0 1)) (Some 0) writing_backend = (Inr (), b')"
      "ssi_inv (PredXact (shm b')) H'" "{x. x \<noteq> 2 \<and> covered page_read x ?t \<and> overlapping ssi_example 5 x} \<times> {2} \<subseteq> H'"
    using write_finds_readers [OF r b(4,3), unfolded b, OF c writing_example(5,1) rel some_table_tag _ _ n, unfolded page_read_covered, OF _ writing_example(2),
        of "\<lambda>_. 7" False]
    by (simp add: InvalidBlockNumber_def) blast
  have "(1, 2) \<in> H'" by (rule subsetD [OF run(3)]) (use 1 writing_example(3) in simp)
  with run(1,2) show ?thesis by blast
qed

end
