(* ===== verification/Spec2Isabelle.thy ===== *)
theory Spec2Isabelle
  imports ListProps LockProps MigrateRace MigrateWait SsiProps MigrateConflict PredicateQueues PredLockWrite
begin

text \<open>
  A verification development for BullFrog, PostgreSQL 11.0 extended with lazy, online schema migration. All
  paths below are under \<open>src/postgresql-11.0/src/\<close>.

  \<^bold>\<open>The program.\<close> A client sends a query that copies rows of an old table into a new one. The backend that
  binds it recognises the query by its text and switches into migration mode. While the mode is on, every
  tuple that a sequential scan returns is looked up in a bitmap in shared memory that has two bits per
  tuple: a lock bit (some backend is migrating the tuple) and a migrate bit (it has been migrated). A tuple
  with neither is claimed by setting its lock bit under a partition lock; the scan returns only claimed tuples.
  At the end of the query the backend sets the migrate bits of its claims and waits until the tuples
  that others had claimed are migrated too. When the transaction is cancelled by a serialization failure
  the lock bits of its claims are reset.

  \<^bold>\<open>Theories and the code they model.\<close>

  \<^item> \<open>Prelude\<close>, \<open>Prog\<close>: C integer types as words, ways of not returning (a null pointer, an index out of bounds,
    a failed assertion, no memory, \<open>ereport\<close>, waiting for ever, running for ever) as the error type \<open>cerror\<close>,
    sequencing, and a weakest-precondition calculus \<open>wp\<close> for programs over a state.
  \<^item> \<open>PgList\<close>: \<open>include/nodes/pg_list.h\<close> and \<open>backend/nodes/list.c\<close>, with the operations \<open>pg_...\<close> that the migration
    adds, over a store of headers and cells with the two allocators \<open>palloc\<close> and \<open>malloc\<close>. \<open>PgListRep\<close>: the sequence
    a list represents and what each operation does to it; \<open>PgListOps\<close>: the operations that compare elements,
    proved once in the locale \<open>list_kind\<close> and interpreted for node, integer and oid lists; \<open>ListProps\<close>: their properties.
  \<^item> \<open>ItemPtr\<close>: \<open>include/storage/block.h\<close>, \<open>off.h\<close>, \<open>itemptr.h\<close>, \<open>backend/storage/page/itemptr.c\<close>; the comparison is an
    instance of the locale \<open>three_way\<close>.
  \<^item> \<open>MigrateBitmap\<close>: \<open>include/utils/migrate_schema.h\<close> and \<open>backend/utils/migrate_schema.c\<close>; the three kinds of bits are
    instances of the locales \<open>flag_array\<close> and \<open>flag_array_clear\<close>.
  \<^item> \<open>Backend\<close>: the state: shared memory (the array of locks, the process table, the bitmap) and the globals of a
    backend. \<open>env\<close> is a list of moves of the other backends: functions on shared memory, one of which runs
    before each access of this backend to shared memory. A backend that runs alone has only
    moves that change nothing.
  \<^item> \<open>LWLock\<close>: \<open>backend/storage/lmgr/lwlock.c\<close>, every operation that takes, waits for or releases a lock.
    \<open>LWLockFacts\<close>: weakest preconditions of these; \<open>LWLockProtocol\<close>: all backends on one lock as an inductive step
    relation \<open>lw_step\<close> on the state word and the list of holders; \<open>LWLockInit\<close>: layout and initialisation of the
    lock array, tranche names, sizes with overflow checks (\<open>backend/storage/ipc/shmem.c\<close>).
  \<^item> \<open>ProcList\<close>, \<open>ProcListFacts\<close>: \<open>include/storage/proclist.h\<close>, the doubly linked wait queues, and the loop of
    \<open>LWLockWakeup\<close> over them, which \<open>LWLock\<close> has on sequences. \<open>LockProps\<close>: the properties of locks and queues.
  \<^item> \<open>MigrateScan\<close>: \<open>backend/executor/execScan.c\<close> (\<open>MigrateTuple\<close>, \<open>ExecScanFetch\<close>, \<open>ExecScan\<close>); \<open>MigrateScanFacts\<close>: its branches.
  \<^item> \<open>Executor\<close>: \<open>backend/executor/nodeSeqscan.c\<close> and \<open>ExecutePlan\<close> of \<open>execMain.c\<close>, with the flags of parallel mode of
    \<open>backend/access/transam/xact.c\<close>.
  \<^item> \<open>MigrateQuery\<close>: the start of a migration in \<open>exec_bind_message\<close> and its end in \<open>post_query_tasks\<close>
    (\<open>backend/tcop/postgres.c\<close>), its cancellation \<open>txn_error_handling\<close> (\<open>backend/storage/lmgr/predicate.c\<close>);
    \<open>MigrateQueryFacts\<close>: what these do.
  \<^item> \<open>MigrateRun\<close>, \<open>MigratePlan\<close>: the whole query. The specification is the function \<open>claim_all\<close> on sets of claimed and of
    migrated elements; scan, executor loop, end and cancellation are shown to implement it.
  \<^item> \<open>PredicateData\<close>, \<open>PredicateConflict\<close>, \<open>PredicateEnd\<close>, \<open>PredicateBegin\<close>, \<open>PredicateCheck\<close>: serializable transactions,
    \<open>backend/storage/lmgr/predicate.c\<close>, whose detection of a conflict is what cancels a migration: the shared structures
    (record \<open>ssi\<close>), the queues of read/write conflicts with the checks on a new conflict and before commit, the end of
    a transaction, its begin, and the check on a tuple that is read.
    \<open>PredicateFacts\<close>, \<open>PredicateRelease\<close>, \<open>PredicateEndFacts\<close>: what the operations on the queues do to the relation of recorded
    dependencies; \<open>LWLockView\<close>: programs that leave a part of the state alone, so that a part that a lock protects
    can be followed through calls; \<open>PredicateInv\<close>: the invariant \<open>ssi_inv\<close>, which \<open>PredicateCommit\<close>, \<open>PredicateOpen\<close>,
    \<open>PredicateFinish\<close> and \<open>PredicateStart\<close> show each operation to keep; \<open>PredicateOps\<close>: the operations as calls of a backend;
    \<open>PredicateRuns\<close>: runs of many transactions as the inductive relation \<open>ssi_step\<close>; \<open>PredicateAlone\<close>: a backend
    that begins a transaction and flags a conflict; \<open>SsiProps\<close>: the properties.
  \<^item> \<open>PredLockData\<close>, \<open>PredLocks\<close>, \<open>PredLockCheck\<close>: predicate locks, by which \<open>predicate.c\<close> remembers what serializable transactions have
    read: the shared tables (record \<open>predlocks\<close>) and the table of each backend, acquisition with promotion to coarser locks, the
    check on writes and the release of the locks. \<open>PredLockAlone\<close>: nested locks of a backend that runs alone; \<open>PredLockInv\<close>: the invariants
    of the tables and what the locks of a transaction cover; \<open>PredLockTake\<close>: acquisition; \<open>PredLockWrite\<close>: the check on writes.
  \<^item> \<open>LinkQueue\<close>: what linked queues promise, as the locale \<open>link_queue\<close>; \<open>ProcListFacts\<close> and \<open>ShmQueue\<close> interpret it. \<open>ShmQueue\<close>:
    \<open>backend/storage/ipc/shmqueue.c\<close>, rings of links in shared memory, and the loops over them. \<open>PredicateQueues\<close>: the functions of \<open>predicate.c\<close> on
    such rings implement those on sequences.
  \<^item> \<open>MigrateConflict\<close>: a migration query whose transaction meets a dangerous structure.
  \<^item> \<open>MigrateRace\<close>: two backends that claim tuples at the same time. \<open>Startup\<close>: a started backend, for the instances
    of the theorems.

  \<^bold>\<open>What is shown.\<close> For a backend that runs alone, a migration query returns every tuple that nobody has
  claimed, exactly once, and leaves every tuple it has seen migrated (\<open>migration_query_completes\<close>);
  cancelling it restores the bitmap (\<open>cancelled_query_restores\<close>). Both rest on the branches of \<open>MigrateTuple\<close>, on the
  independence of the bits and on the list package. Lightweight locks exclude each other in every interleaving of
  their atomic steps, and what \<open>LWLockAttemptLock\<close> does is one such step whatever the other backends do meanwhile.
  Serializable transactions: in every state that runs of \<open>ssi_step\<close> reach, no three committed transactions form the dangerous structure that
  every anomaly of snapshot isolation contains (\<open>ssi_no_dangerous_structure\<close>), the queues of conflicts are well-formed, and the walk
  over them decides the condition it stands for. A step of \<open>ssi_step\<close> is one call, made while its lock is held; the runs are those
  in which no transaction is cleared from the shared structures or summarised: a structure is free when a transaction begins, an older transaction is active when one
  ends, and the commit counter does not wrap. Predicate locks: an acquisition by a backend that runs alone leaves what is read covered by a lock, whatever promotions it
  makes (\<open>acquire_covers\<close>), and a write flags a dependency from every overlapping transaction whose locks cover the tuple
  (\<open>write_finds_readers\<close>), if none of them makes a dangerous structure and no reader has been summarised.
  Several theorems show what the code does where it does not do what it means to: claims
  under different partition locks that share a word of the bitmap overwrite each other (\<open>concurrent_claim_lost\<close>),
  so do claims and the marking at the end of a query (\<open>marking_loses_claim\<close>), the partition locks of the
  second bitmap are never initialised (\<open>second_bitmap_locks_uninitialised\<close>), a scan without
  qualification ends in a null pointer (\<open>bare_scan_crashes\<close>), two tuples of a page with more than
  fifteen line pointers share an element (\<open>element_numbers_collide\<close>), and a query waits for ever for a claim that its
  owner has abandoned (\<open>migration_query_waits\<close>).

  \<^bold>\<open>Bounds and fuel.\<close> A loop that ends for a reason visible in the code is a structural recursion. A loop that waits for
  other backends gets one round more than there are moves left in \<open>env\<close>: every round
  accesses shared memory and so uses up a move, and when all moves are used up nothing
  changes any more, so a loop that is still running then runs for ever; its result is then \<open>Blocked\<close>. The walk over a wait queue gets
  one step more than there are processes, and \<open>wakeup_walk_refines\<close> shows that this is enough. \<open>ExecutePlan\<close> has its fuel as an
  argument; the theorems on it say how much is enough: more than the number of tuples. Sizes are those of the code: 32-bit element numbers and
  bitmap words, 64-bit sizes, 200 locks per backend.

  \<^bold>\<open>Arguments of the model.\<close> The heap access method, the qualification and projection of a plan, the destination
  of tuples, equality of nodes, the results of the allocators, what the heap says of a tuple, the hash function of the tables of predicate locks, and for the end of a transaction the
  work on predicate locks and on the store of summarised transactions are arguments; the properties hold for all of
  them, or state what they assume of them.

  \<^bold>\<open>Not modelled.\<close> Memory contexts, buffer pins and the interpreter of expressions under the scan; debugging
  output, statistics and trace probes of the locks; the placement of the lock array in the segment
  (\<open>CreateLWLocks\<close>), which is pointer arithmetic on an address from the operating system; memory ordering weaker than
  sequential consistency: the accesses of the model happen one after the other. Of serializable transactions: moving predicate locks to other targets when
  a page is split or combined or a table is dropped or rewritten, and the check for a whole table; the store of summarised transactions on disk;
  deferrable snapshots and two-phase commit. The parser, planner,
  storage manager, replication, client tools and procedural languages are those of PostgreSQL and take no part in the migration.
\<close>

unbundle bit_operations_syntax

section \<open>A migration query\<close>

text \<open>
  C1: a migration query migrates every tuple it finds, each once. The query is bound, its plan is run to
  the end over the tuples \<open>ts\<close>, and the tasks after the query are done. If all elements that the scan
  found claimed by somebody else have been migrated, the run ends, the tuples it has returned
  are those that pass the qualification and that nobody had claimed or migrated, no two of them with the
  same element, and afterwards every element that passes is migrated.
\<close>

theorem migration_query_completes:
  assumes "binds qs num b" and "idle s num" and "scan_input s b fuel estate node ts"
    and "claim_all (passes node) (locked s b) (migrated s b) ts = (cs, ws)"
    and "set ws \<subseteq> migrated s b \<union> elem_of ` set cs"
  shows "\<exists>t. migration_query qs fuel estate node ts s =
           (Inr (map (\<lambda>tup. project node (Some (holding tup))) cs), t) \<and>
         distinct (map elem_of cs) \<and>
         elem_of ` set cs = elem_of ` {tup \<in> set ts. passes node tup} - locked s b - migrated s b \<and>
         elem_of ` {tup \<in> set ts. passes node tup} \<subseteq> migrated t b \<and>
         migrated t b = migrated s b \<union> elem_of ` set cs \<and> \<not> migrateflag t"
proof -
  from migration_query_sets [OF assms(1-4)] assms(5) obtain t where
    run: "migration_query qs fuel estate node ts s = (Inr (map (\<lambda>tup. project node (Some (holding tup))) cs), t)"
    and t: "query_over (bound num b s) t" "migrated t b = migrated s b \<union> elem_of ` set cs"
    by (auto simp: wp_result)
  have "elem_of ` {tup \<in> set ts. passes node tup} \<subseteq> migrated t b"
    using claim_all_all [OF assms(4)] assms(5) t(2) by blast
  with run t claim_all_set [OF assms(4)] claim_all_new [OF assms(4)] show ?thesis by (auto simp: query_over_def)
qed

definition some_tuples :: "HeapTupleData list" where
  "some_tuples = [heap_tuple 0 1, heap_tuple 0 2, heap_tuple 0 1]"

abbreviation some_query :: string where
  "some_query \<equiv> '' insert into customer_proj1 select''"

lemma some_query_binds: "binds some_query 0 0"
  by (simp add: binds_def strncmp_eq_def)

lemma some_tuples_input: "scan_input fresh_backend 0 10 plan_estate plan_node some_tuples"
  using fresh_scan_input [of "[(0, 1), (0, 2), (0, 1)]" 10]
  by (simp add: some_tuples_def elem_of_heap_tuple NUMTUPLES_def)

lemma some_tuples_claim:
  "claim_all (passes plan_node) (locked fresh_backend 0) (migrated fresh_backend 0) some_tuples =
     ([heap_tuple 0 1, heap_tuple 0 2], [0])"
  by (simp add: some_tuples_def plan_node_ok fresh_backend_sets elem_of_heap_tuple)

theorem migration_query_completes_witness:
  "\<exists>t. migration_query some_query 10 plan_estate plan_node some_tuples fresh_backend =
     (Inr (map (\<lambda>tup. Some (holding tup)) [heap_tuple 0 1, heap_tuple 0 2]), t) \<and> migrated t 0 = {0, 1}"
  using migration_query_completes [OF some_query_binds fresh_backend_idle some_tuples_input some_tuples_claim]
  by (auto simp: elem_of_heap_tuple fresh_backend_sets plan_node_ok)

text \<open>
  C15: a query waits for the claims of others, and has no way out if they are not kept. Take an element that
  the scan found claimed and that is neither migrated nor claimed by the query itself. Let the other backends make any number of moves
  after the plan has run, which may change the shared memory in any way but never migrate that element. The run then never ends:
  the loop in \<open>post_query_tasks\<close> is still waiting after all the moves and after as many passes over its list. A loop that gave
  up after a fixed number of passes would return once there are more moves than that.
\<close>

theorem migration_query_waits:
  assumes "binds qs num b" and "idle s num" and "scan_input s b fuel estate node ts"
    and "claim_all (passes node) (locked s b) (migrated s b) ts = (cs, ws)"
    and "w \<in> set ws" and "w \<notin> migrated s b" and "w \<notin> elem_of ` set cs"
    and "\<forall>f \<in> set fs. leaves_unmigrated b w f"
  shows "fst (query_among fs qs fuel estate node ts s) = Inl Blocked"
  using query_among_never [OF assms] by (auto simp: wp_result)

definition abandoned_backend :: backend where
  "abandoned_backend = with_bitmap ((replicate (2 * BITMAPSIZE) 0)[0 := 1]) fresh_backend"

lemma abandoned_sets: "0 \<in> locked abandoned_backend 0" "migrated abandoned_backend 0 = {}"
proof -
  have len: "0 < 2 * BITMAPSIZE" by (simp add: size_defs)
  have w: "getwordid 0 = 0" "getlockbitid 0 = 0" by (simp_all add: getwordid_def getlockbitid_def size_defs LOCKBITPOS_def)
  show "0 \<in> locked abandoned_backend 0"
    using len by (simp add: locked_def abandoned_backend_def getlockbit_eq elem_ok_def w)
  have "\<not> bit (1 :: uint64) (unat (getmigratebitid e))" for e by (simp add: unat_bitids bit_1_iff)
  then show "migrated abandoned_backend 0 = {}"
    by (auto simp: migrated_def abandoned_backend_def getmigratebit_eq elem_ok_def nth_list_update split: if_splits)
qed

lemma abandoned_idle: "idle abandoned_backend 0"
  using fresh_backend_idle [of 0] by (simp add: idle_def lock_ready_def abandoned_backend_def)

lemma abandoned_input: "scan_input abandoned_backend 0 10 plan_estate plan_node [heap_tuple 0 1]"
  using fresh_scan_input [of "[(0, 1)]" 10]
  by (simp add: scan_input_def elem_of_heap_tuple NUMTUPLES_def abandoned_backend_def tuple_ok_def elem_ok_def fresh_backend_def)

theorem migration_query_waits_witness:
  "fst (query_among (replicate 100 id) some_query 10 plan_estate plan_node [heap_tuple 0 1] abandoned_backend) = Inl Blocked"
  by (rule migration_query_waits [OF some_query_binds abandoned_idle abandoned_input, where cs = "[]" and ws = "[0]" and w = 0])
    (simp_all add: plan_node_ok abandoned_sets elem_of_heap_tuple leaves_unmigrated_def)

text \<open>
  C14: cancelling a query undoes its claims. If the transaction is cancelled by a serialization failure after
  the plan has run, the sets of claimed and of migrated elements are what they were before the query,
  so that another query can claim the tuples; the lists are empty and the migration flag is off,
  provided that the query had claimed something.
\<close>

theorem cancelled_query_restores:
  assumes "binds qs num b" and "idle s num" and "scan_input s b fuel estate node ts"
    and "claim_all (passes node) (locked s b) (migrated s b) ts = (cs, ws)" and "cs \<noteq> []"
  shows "\<exists>t. cancelled_query qs fuel estate node ts s = (Inr (), t) \<and>
           locked t b = locked s b \<and> migrated t b = migrated s b \<and>
           \<not> migrateflag t \<and> local_lists t [] []"
  using cancelled_query_sets [OF assms(1-4)] assms(5) by (auto simp: wp_total query_over_def)

theorem cancelled_query_restores_witness:
  "\<exists>t. cancelled_query some_query 10 plan_estate plan_node some_tuples fresh_backend = (Inr (), t) \<and>
     locked t 0 = {} \<and> migrated t 0 = {} \<and> \<not> migrateflag t \<and> local_lists t [] []"
  using cancelled_query_restores [OF some_query_binds fresh_backend_idle some_tuples_input some_tuples_claim]
  by (simp add: fresh_backend_sets)

text \<open>
  C36: cancelling a query that claimed nothing. \<open>txn_error_handling\<close> does nothing at all if the first list is
  empty: the run ends in the very state that the plan has left, with the migration flag on and the second
  list still holding the elements that the scan found claimed. The flag stays on for the statements that follow in the session.
\<close>

theorem cancelled_query_stays_on:
  assumes "binds qs num b" and "idle s num" and "scan_input s b fuel estate node ts"
    and "claim_all (passes node) (locked s b) (migrated s b) ts = ([], ws)"
  shows "\<exists>r t. thenp (bind_migration qs) (run_plan fuel estate node ts) s = (Inr r, t) \<and>
           txn_error_handling t = (Inr (), t) \<and> cancelled_query qs fuel estate node ts s = (Inr (), t) \<and>
           migrateflag t \<and> local_lists t [] ws \<and> locked t b = locked s b \<and> migrated t b = migrated s b"
  using cancelled_query_nothing [OF assms] .

theorem cancelled_query_stays_on_witness:
  "\<exists>r t. thenp (bind_migration some_query) (run_plan 10 plan_estate plan_node [heap_tuple 0 1]) abandoned_backend = (Inr r, t) \<and>
     txn_error_handling t = (Inr (), t) \<and>
     cancelled_query some_query 10 plan_estate plan_node [heap_tuple 0 1] abandoned_backend = (Inr (), t) \<and>
     migrateflag t \<and> local_lists t [] [0] \<and> locked t 0 = locked abandoned_backend 0 \<and> migrated t 0 = migrated abandoned_backend 0"
  by (rule cancelled_query_stays_on [OF some_query_binds abandoned_idle abandoned_input])
    (simp add: plan_node_ok abandoned_sets elem_of_heap_tuple)

text \<open>
  C7: a query cancelled as the writer of a conflict. The plan of the query has run, and its transaction then flags a
  dependency, of another transaction on itself, that makes a dangerous structure with those recorded in the shared
  queues. The call reports a serialization failure, and the bitmap, the migration flag and the lists are as before the query:
  the claims can be made again.
\<close>

theorem conflict_on_write_restores:
  assumes "binds qs num b" and "idle s num" and "scan_input s b fuel estate node ts"
    and "claim_all (passes node) (locked s b) (migrated s b) ts = (cs, ws)" and "cs \<noteq> []"
    and "lock_ready SerializableXactHashLock s" and "queues_ok (PredXact (shm s)) E U A"
    and "reader < length (element (PredXact (shm s)))" "writer < length (element (PredXact (shm s)))" "reader \<noteq> writer"
    and "dangerous (PredXact (shm s)) (recorded (PredXact (shm s))) reader writer"
    and "MySerializableXact s = Some writer"
  shows "\<exists>t. conflicting_query qs fuel estate node ts reader writer s =
           (Inl (serialization_failure ''Canceled on identification as a pivot, during write.''), t) \<and>
         locked t b = locked s b \<and> migrated t b = migrated s b \<and> \<not> migrateflag t \<and> local_lists t [] []"
  using conflicting_query_ends(1) [OF assms(1-4,6-12,5)] by (auto simp: wp_def query_over_def split: prod.splits sum.splits)

theorem conflict_on_write_restores_witness:
  "\<exists>t. conflicting_query some_query 10 plan_estate plan_node some_tuples 3 1 (serializable_backend (pivot_example 0) 1) =
           (Inl (serialization_failure ''Canceled on identification as a pivot, during write.''), t) \<and>
         locked t 0 = {} \<and> migrated t 0 = {} \<and> \<not> migrateflag t \<and> local_lists t [] []"
  using conflict_on_write_restores [OF some_query_binds, of "serializable_backend (pivot_example 0) 1" 10 plan_estate plan_node some_tuples
      "[heap_tuple 0 1, heap_tuple 0 2]" "[0]" "{0}" "{}" "{}" 3 1]
  by (simp add: serializable_backend_like_fresh fresh_backend_idle some_tuples_input some_tuples_claim [unfolded fresh_backend_sets]
      fresh_ssi_ready pivot_example_queues pivot_example_length pivot_example_dangerous fresh_backend_sets)

text \<open>
  C9: a query cancelled as the reader of a conflict. If the query is the reader of the new dependency and the writer is already
  prepared, the query is the one to be cancelled, and nothing undoes its claims: the migration flag stays
  on, and every element that it had claimed keeps its lock bit without being migrated.
\<close>

theorem conflict_on_read_leaks:
  assumes "binds qs num b" and "idle s num" and "scan_input s b fuel estate node ts"
    and "claim_all (passes node) (locked s b) (migrated s b) ts = (cs, ws)"
    and "lock_ready SerializableXactHashLock s" and "queues_ok (PredXact (shm s)) E U A"
    and "reader < length (element (PredXact (shm s)))" "writer < length (element (PredXact (shm s)))" "reader \<noteq> writer"
    and "dangerous (PredXact (shm s)) (recorded (PredXact (shm s))) reader writer"
    and "MySerializableXact s = Some reader" and "SxactIsPrepared (element (PredXact (shm s)) ! writer)"
  shows "\<exists>t. conflicting_query qs fuel estate node ts reader writer s =
           (Inl (serialization_failure ''Canceled on conflict out to pivot, during read.''), t) \<and>
         migrateflag t \<and> locked t b = locked s b \<union> elem_of ` set cs \<and> migrated t b = migrated s b"
  using conflicting_query_ends(2) [OF assms] by (auto simp: wp_def split: prod.splits sum.splits)

theorem conflict_on_read_leaks_witness:
  "\<exists>t. conflicting_query some_query 10 plan_estate plan_node some_tuples 3 1
           (serializable_backend (pivot_example SXACT_FLAG_PREPARED) 3) =
           (Inl (serialization_failure ''Canceled on conflict out to pivot, during read.''), t) \<and>
         migrateflag t \<and> locked t 0 = {0, 1} \<and> migrated t 0 = {}"
  using conflict_on_read_leaks [OF some_query_binds, of "serializable_backend (pivot_example SXACT_FLAG_PREPARED) 3" 10 plan_estate plan_node
      some_tuples "[heap_tuple 0 1, heap_tuple 0 2]" "[0]" "{0}" "{}" "{}" 3 1]
  by (simp add: serializable_backend_like_fresh fresh_backend_idle some_tuples_input some_tuples_claim [unfolded fresh_backend_sets]
      fresh_ssi_ready pivot_example_queues pivot_example_length pivot_example_dangerous pivot_example_prepared fresh_backend_sets
      elem_of_heap_tuple)

section \<open>Claiming a tuple\<close>

text \<open>
  C4: what \<open>MigrateTuple\<close> does, on every branch, while others change the bitmap. The call makes at most eight accesses to
  shared memory before it gives its lock back; \<open>bm k\<close> is the bitmap after \<open>k\<close> of the moves of the others, which are
  arbitrary. An empty tuple is let through. The word is read twice without the lock: if the tuple is migrated at the first read, it is
  skipped, and if it is claimed at the second, it is skipped and its element remembered in the second list. Otherwise both bits
  are read again under the lock, with the same two outcomes. Only if both are still clear there
  is the tuple claimed: the answer is true, the word that was read last is written with the lock bit, and the element is
  appended to the first list. No other branch writes the bitmap, and on all branches the locks are as before.
\<close>

theorem MigrateTuple_claims:
  assumes "lock_ready (MigrateBitmapPartitionLock e (BitmapNum s)) s" and "PartialBitmap s = Some b"
    and lists: "local_lists s es0 es1" and room: "2 \<le> room (heap s)"
    and "tts_tuple slot = Some tup" and eid: "tuple_eid (t_self tup) = Inr e" and "elem_ok (bitmap_of s) b e"
    and "length gs = 8" and "\<forall>g \<in> set gs. keeps_size g"
  defines "bm \<equiv> bitmap_after gs (bitmap_of s)" and "j \<equiv> b + unat (getwordid e)"
  shows "\<exists>r t. MigrateTuple (Some slot) (s\<lparr>env := map on_bitmap gs\<rparr>) = (Inr r, t) \<and>
    locks t = locks s \<and> held_lwlocks t = held_lwlocks s \<and> InterruptHoldoffCount t = InterruptHoldoffCount s \<and>
    (if t_len tup = 0 then r \<and> bitmap_of t = bm 0 \<and> local_lists t es0 es1
     else if getmigratebit (bm 1) b e = Inr True then \<not> r \<and> bitmap_of t = bm 1 \<and> local_lists t es0 es1
     else if getlockbit (bm 2) b e = Inr True then \<not> r \<and> bitmap_of t = bm 2 \<and> local_lists t es0 (es1 @ [e])
     else if getmigratebit (bm 5) b e = Inr True then \<not> r \<and> bitmap_of t = bm 6 \<and> local_lists t es0 es1
     else if getlockbit (bm 6) b e = Inr True then \<not> r \<and> bitmap_of t = bm 7 \<and> local_lists t es0 (es1 @ [e])
     else r \<and> bitmap_of t = (bm 8)[j := bm 7 ! j OR push_bit (unat (getlockbitid e)) 1] \<and> local_lists t (es0 @ [e]) es1)"
    (is "\<exists>r t. _ \<and> ?P r t")
proof (cases "t_len tup = 0")
  case True
  then show ?thesis
    using lists assms(5) by (intro exI [of _ True]) (simp add: MigrateTuple_def ret_def bm_def bitmap_after_def local_lists_def)
next
  case False
  have "wp (MigrateTuple (Some slot)) ?P (\<lambda>_ _. False) (amid (bitmap_of s) gs s)"
    using lists
    by (simp add: wp_migrate_tuple_amid [OF assms(1,2,5) False eid assms(7-9)] bm_def [symmetric] j_def [symmetric]
        wp_append_amid [OF lists room] False)
  then show ?thesis by (simp add: wp_total amid_def)
qed

lemma bound_backend_claims: "claims bound_backend 0 [] []" "ready_backend bound_backend"
  using idle_bound [OF fresh_backend_idle, of 0 0]
  by (simp_all add: bound_backend_def bind_migration_binds [OF some_query_binds])

lemma bound_backend_sets: "locked bound_backend 0 = {}" "migrated bound_backend 0 = {}"
  by (simp_all add: bound_backend_def bind_migration_binds [OF some_query_binds] fresh_backend_sets)

text \<open>Nobody interferes, or somebody claims the element right before the lock is taken.\<close>

abbreviation claim_zero :: "uint64 list \<Rightarrow> uint64 list" where
  "claim_zero \<equiv> \<lambda>m. m[0 := m ! 0 OR 1]"

lemma zero_word: "getwordid 0 = 0" "getlockbitid 0 = 0" "0 < 2 * BITMAPSIZE"
  by (simp_all add: getwordid_def getlockbitid_def size_defs LOCKBITPOS_def)

lemma zero_bits:
  defines "m \<equiv> replicate (2 * BITMAPSIZE) 0"
  shows "getmigratebit m 0 0 = Inr False" "getlockbit m 0 0 = Inr False" "getmigratebit (m[0 := 1]) 0 0 = Inr False"
    "getlockbit (m[0 := 1]) 0 0 = Inr True" "claim_zero m = m[0 := 1]" "m ! 0 = 0" "elem_ok m 0 0"
proof -
  have "\<not> bit (1 :: uint64) (unat (getmigratebitid 0))" by (simp add: unat_bitids bit_1_iff)
  then show "getmigratebit m 0 0 = Inr False" "getlockbit m 0 0 = Inr False" "getmigratebit (m[0 := 1]) 0 0 = Inr False"
    "getlockbit (m[0 := 1]) 0 0 = Inr True" "claim_zero m = m[0 := 1]" "m ! 0 = 0" "elem_ok m 0 0"
    using zero_word by (simp_all add: m_def getmigratebit_eq getlockbit_eq elem_ok_def)
qed

theorem MigrateTuple_claims_witness:
  "(\<exists>t. MigrateTuple (Some (holding (heap_tuple 0 1))) (bound_backend\<lparr>env := map on_bitmap [id, id, id, id, id, id, id, id]\<rparr>) = (Inr True, t) \<and>
      bitmap_of t = (replicate (2 * BITMAPSIZE) 0)[0 := 1] \<and> local_lists t [0] []) \<and>
   (\<exists>t. MigrateTuple (Some (holding (heap_tuple 0 1)))
          (bound_backend\<lparr>env := map on_bitmap [id, id, claim_zero, id, id, id, id, id]\<rparr>) = (Inr False, t) \<and>
      bitmap_of t = (replicate (2 * BITMAPSIZE) 0)[0 := 1] \<and> local_lists t [] [0])"
proof -
  obtain m :: "uint64 list" where m: "m = replicate (2 * BITMAPSIZE) 0" by blast
  note bits = zero_bits [folded m]
  have bm: "bitmap_of bound_backend = m" by (simp add: bound_backend_bitmap m)
  have ok: "elem_ok (bitmap_of bound_backend) 0 0" using bits(7) by (simp add: bm)
  have eid: "tuple_eid (t_self (heap_tuple 0 1)) = Inr 0" by (simp add: tuple_eid_eq ItemPointerSet_def BlockIdGet_Set)
  have r: "lock_ready (MigrateBitmapPartitionLock 0 (BitmapNum bound_backend)) bound_backend" "2 \<le> room (heap bound_backend)"
    and sl: "tts_tuple (holding (heap_tuple 0 1)) = Some (heap_tuple 0 1)"
    by (simp_all add: bound_backend_ready bound_backend_lists holding_def)
  note f = MigrateTuple_claims [OF r(1) bound_backend_ready(2) bound_backend_lists(1) r(2) sl eid ok, unfolded bm]
  show ?thesis
    unfolding m [symmetric]
    using f [of "[id, id, id, id, id, id, id, id]"] f [of "[id, id, claim_zero, id, id, id, id, id]"]
    by (simp add: keeps_size_def bitmap_after_def bits(1-4,6) zero_word) auto
qed

text \<open>
  C16: a claim is exclusive. Take any sequence of complete calls of \<open>MigrateTuple\<close>, by any backends that work on the same
  bitmap, and between the calls any changes of the bitmap that keep the bits that are set. Every call returns, no two calls that
  answer true are for the same element, a call never answers true for an element that was claimed or migrated at
  the start, and at the end every element that was called for is claimed or migrated.
  The calls do not overlap; what overlapping calls can do to each other is shown below.
\<close>

theorem MigrateTuple_once:
  assumes "\<forall>ev \<in> set evs. event_ok b m ev"
  shows "\<exists>rs m'. run_events evs m = Inr (rs, m') \<and> map fst rs = called evs \<and> distinct (map fst (filter snd rs)) \<and>
    (\<forall>e. (e, True) \<in> set rs \<longrightarrow> getlockbit (GlobalBitmap m) b e \<noteq> Inr True \<and> getmigratebit (GlobalBitmap m) b e \<noteq> Inr True) \<and>
    (\<forall>e \<in> set (called evs). getlockbit (GlobalBitmap m') b e = Inr True \<or> getmigratebit (GlobalBitmap m') b e = Inr True) \<and>
    MainLWLockArray m' = MainLWLockArray m"
  using run_events_once [OF assms] by (fastforce simp: once_def bits_grow_def)

lemma bound_event_ok:
  assumes "k \<noteq> 0" and "unat (elem_of (heap_tuple p k)) < NUMTUPLES"
  shows "event_ok 0 (shm bound_backend) (Call bound_backend (holding (heap_tuple p k)))"
  using fresh_tuple_ok [OF assms] bound_backend_lists(1)
  by (auto simp: bound_backend_ready bound_backend_lists(2) bound_backend_bitmap holding_def fresh_backend_def)

theorem MigrateTuple_once_witness:
  "\<exists>rs m'. run_events [Call bound_backend (holding (heap_tuple 0 1)), Change id, Call bound_backend (holding (heap_tuple 0 1)),
       Call bound_backend (holding (heap_tuple 0 2))] (shm bound_backend) = Inr (rs, m') \<and>
     map fst rs = [0, 0, 1] \<and> distinct (map fst (filter snd rs))"
proof -
  let ?c = "\<lambda>k. Call bound_backend (holding (heap_tuple 0 k))"
  have "event_ok 0 (shm bound_backend) (?c 1)" "event_ok 0 (shm bound_backend) (?c 2)"
    by (rule bound_event_ok; simp add: elem_of_heap_tuple NUMTUPLES_def)+
  then have "\<forall>ev \<in> set [?c 1, Change id, ?c 1, ?c 2]. event_ok 0 (shm bound_backend) ev"
    by (simp add: keeps_bits_def keeps_size_def del: event_ok.simps(1))
  from MigrateTuple_once [OF this] have "\<exists>rs m'. run_events [?c 1, Change id, ?c 1, ?c 2] (shm bound_backend) = Inr (rs, m') \<and>
     map fst rs = called [?c 1, Change id, ?c 1, ?c 2] \<and> distinct (map fst (filter snd rs))" by blast
  moreover have "called [?c 1, Change id, ?c 1, ?c 2] = [0, 0, 1]" by (simp add: slot_elem_def holding_def elem_of_heap_tuple)
  ultimately show ?thesis by metis
qed

text \<open>
  C29: an empty slot crashes the backend. \<open>MigrateTuple\<close> tests \<open>tts_tuple == NULL | tts_tuple->t_len == 0\<close> with
  the operator that evaluates both sides, so a slot without a tuple makes it dereference the null
  pointer; and a plan without qualification and projection hands it exactly such a slot when the scan is at
  its end.
\<close>

theorem bare_scan_crashes:
  assumes "migrateflag s" and "es_epqTuple node = None" and "qual node = None" and "ps_ProjInfo node = None"
    and "remaining ts node = []"
  shows "ExecSeqScan k (ret ()) ts next_of node s = (Inl NullDeref, s)"
proof -
  have null: "wp (MigrateTuple (Some (ExecClearTuple (ss_ScanTupleSlot node)))) Q E s = E NullDeref s" for Q E
    by (simp add: wp_def MigrateTuple_null ExecClearTuple_def)
  from assms show ?thesis
    by (simp add: wp_Inl ExecSeqScan_def ExecScan_def wp_bindp wp_case_prod_fun seq_fetch wp_gets null)
qed

theorem bare_scan_crashes_witness:
  "ExecSeqScan 10 (ret ()) [] next_of (plan_node\<lparr>qual := None\<rparr>) bound_backend = (Inl NullDeref, bound_backend)"
  by (rule bare_scan_crashes) (simp_all add: bound_backend_eq plan_node_def remaining_def)

text \<open>
  C3: a concurrent claim can be lost. Backend \<open>A\<close> claims the element \<open>e\<close> and holds its partition lock; between its
  read and its write of the word, backend \<open>B\<close> claims the element \<open>e'\<close> of the same word, which has another
  partition lock. Both calls answer true, and afterwards the lock bit of \<open>e'\<close> is not set, so that a third query
  can claim it again.
\<close>

theorem concurrent_claim_lost:
  assumes A: "ready_to_claim A b slot e" and B: "ready_to_claim B b slot' e'"
    and shm: "shm B = shm A" and num: "BitmapNum B = BitmapNum A" and word: "getwordid e = getwordid e'" "e \<noteq> e'"
  shows "\<exists>t. MigrateTuple (Some slot) (A\<lparr>env := [id, id, id, id, id, id, id, claim_by B slot']\<rparr>) = (Inr True, t) \<and>
     fst (MigrateTuple (Some slot') (B\<lparr>shm := shm (taken (MigrateBitmapPartitionLock e (BitmapNum A)) A)\<rparr>)) = Inr True \<and>
     e \<in> locked t b \<and> e' \<notin> locked t b"
proof -
  let ?i = "MigrateBitmapPartitionLock e (BitmapNum A)"
  from A obtain es0 es1 tup where r: "lock_ready ?i A" and b: "PartialBitmap A = Some b" and free: "free_elem (shm A) b e"
    and l: "local_lists A es0 es1" and rm: "2 \<le> room (heap A)"
    and sl: "tts_tuple slot = Some tup" "t_len tup \<noteq> 0" "tuple_eid (t_self tup) = Inr e"
    by (auto simp: ready_to_claim_def)
  have free': "free_elem (shm A) b e'" using B shm by (simp add: ready_to_claim_def)
  then obtain m where m: "setlockbit (bitmap_of A) b e' = Inr m" by (auto simp: free_elem_def setlockbit_eq_Inr)
  have i: "?i \<noteq> MigrateBitmapPartitionLock e' (BitmapNum B)" using partition_locks_differ [OF word] num by simp
  from claim_overwrites [where f = "claim_by B slot'", OF r b free claim_by_other(2) [OF B i shm m] lock_bits.put_length [OF m] l rm sl refl]
  obtain t where t: "MigrateTuple (Some slot) (A\<lparr>env := [id, id, id, id, id, id, id, claim_by B slot']\<rparr>) = (Inr True, t)"
    and bm: "bitmap_of t = m[b + unat (getwordid e) := bitmap_of A ! (b + unat (getwordid e)) OR push_bit (unat (getlockbitid e)) 1]"
    by blast
  have "setlockbit (bitmap_of A) b e = Inr (bitmap_of t)"
    using m free word(1) by (simp add: bm setlockbit_eq_Inr free_elem_def)
  then have "e \<in> locked t b" "e' \<notin> locked t b"
    using free' word(2) by (simp_all add: locked_def lock_bits.get_put free_elem_def)
  with t claim_by_other(1) [OF B i shm m] show ?thesis by blast
qed

lemma bound_ready_to_claim:
  assumes "k \<noteq> 0" and "unat (elem_of (heap_tuple p k)) < NUMTUPLES"
  shows "ready_to_claim bound_backend 0 (holding (heap_tuple p k)) (elem_of (heap_tuple p k))"
  using fresh_tuple_ok [OF assms] fresh_bits [OF assms(2), of 0] bound_backend_lists(1) tuple_ok_eid [OF fresh_tuple_ok [OF assms]]
  by (auto simp: ready_to_claim_def bound_backend_ready free_elem_def bound_backend_bitmap bound_backend_lists(2))

theorem concurrent_claim_lost_witness:
  "\<exists>t. MigrateTuple (Some (holding (heap_tuple 0 1)))
         (bound_backend\<lparr>env := [id, id, id, id, id, id, id, claim_by bound_backend (holding (heap_tuple 0 2))]\<rparr>) = (Inr True, t) \<and>
     0 \<in> locked t 0 \<and> 1 \<notin> locked t 0"
  using concurrent_claim_lost [OF bound_ready_to_claim [of 1 0] bound_ready_to_claim [of 2 0]]
  by (simp add: elem_of_heap_tuple NUMTUPLES_def getwordid_def size_defs) blast

text \<open>
  C30: marking a tuple can lose a claim. The end of a query sets migrate bits without taking a lock; a claim on
  another element of the same word that falls between the read and the write of such an update answers true
  and leaves no trace in the bitmap.
\<close>

theorem marking_loses_claim:
  assumes b: "PartialBitmap A = Some b" and B: "ready_to_claim B b slot e'"
    and shm: "shm B = shm A" and word: "getwordid e = getwordid e'"
  shows "\<exists>t. set_migrate_bit e (A\<lparr>env := [id, claim_by B slot]\<rparr>) = (Inr (), t) \<and>
           fst (MigrateTuple (Some slot) B) = Inr True \<and> e' \<notin> locked t b"
proof -
  have free: "free_elem (shm A) b e'" using B shm by (simp add: ready_to_claim_def)
  then obtain m where m: "setlockbit (bitmap_of B) b e' = Inr m" using shm by (auto simp: free_elem_def setlockbit_eq_Inr)
  have cb: "claim_by B slot (shm A) = (shm A)\<lparr>GlobalBitmap := m\<rparr>"
    using claim_by_self(2) [OF B m] by (simp add: claim_by_def shm [symmetric])
  let ?j = "b + unat (getwordid e)"
  let ?t = "with_bitmap (m[?j := bitmap_of A ! ?j OR push_bit (unat (getmigratebitid e)) 1])
              (A\<lparr>shm := (shm A)\<lparr>GlobalBitmap := m\<rparr>, env := []\<rparr>)"
  have ok: "elem_ok (bitmap_of A) b e" "elem_ok m b e"
    using free word lock_bits.put_length [OF m] shm by (simp_all add: free_elem_def elem_ok_def)
  have run: "set_migrate_bit e (A\<lparr>env := [id, claim_by B slot]\<rparr>) = (Inr (), ?t)"
    unfolding wp_Inr using b ok cb by (simp add: set_migrate_bit_def wp_simps wp_read_idle wp_write_moved)
  have "setmigratebit (bitmap_of A) b e = Inr (bitmap_of ?t)"
    using m ok word shm by (simp add: setlockbit_eq_Inr setmigratebit_eq_Inr)
  then have "e' \<notin> locked ?t b" using free by (simp add: locked_def lock_after_setmigrate free_elem_def)
  with run claim_by_self(1) [OF B m] show ?thesis by blast
qed

theorem marking_loses_claim_witness:
  "\<exists>t. set_migrate_bit 0 (bound_backend\<lparr>env := [id, claim_by bound_backend (holding (heap_tuple 0 2))]\<rparr>) = (Inr (), t) \<and>
     fst (MigrateTuple (Some (holding (heap_tuple 0 2))) bound_backend) = Inr True \<and> 1 \<notin> locked t 0"
  using marking_loses_claim [OF bound_backend_ready(2) bound_ready_to_claim [of 2 0] refl, of 0]
  by (simp add: elem_of_heap_tuple NUMTUPLES_def getwordid_def size_defs)

section \<open>Element numbers and the bitmap\<close>

text \<open>
  C24: every tuple of a page with at most fifteen line pointers has an element number of its own. The 32-bit
  computation in \<open>MigrateTuple\<close> does not wrap around for the pages of the table, its result
  lies inside the bitmap, and different tuples get different numbers.
\<close>

theorem element_numbers_distinct:
  assumes "unat p < NUMPAGES" and "1 \<le> unat k" and "unat k \<le> NUMTUPLESPERPAGE"
    and "unat p' < NUMPAGES" and "1 \<le> unat k'" and "unat k' \<le> NUMTUPLESPERPAGE"
  shows "\<exists>e e'. tuple_eid (ItemPointerSet p k) = Inr e \<and> tuple_eid (ItemPointerSet p' k') = Inr e' \<and>
           unat e = unat p * 15 + unat k - 1 \<and> unat e < NUMTUPLES \<and> (e = e' \<longleftrightarrow> p = p' \<and> k = k')"
  using unat_tuple_eid [OF assms(1-3)] unat_tuple_eid [OF assms(4-6)] tuple_eid_inj [OF assms] tuple_eid_in_bitmap [OF assms(1-3)]
  by auto

theorem element_numbers_distinct_witness:
  "\<exists>e e'. tuple_eid (ItemPointerSet 3 15) = Inr e \<and> tuple_eid (ItemPointerSet 4 1) = Inr e' \<and>
     unat e = unat (3 :: BlockNumber) * 15 + unat (15 :: OffsetNumber) - 1 \<and> unat e < NUMTUPLES \<and>
     (e = e' \<longleftrightarrow> (3 :: BlockNumber) = 4 \<and> (15 :: OffsetNumber) = 1)"
  by (rule element_numbers_distinct) (simp_all add: size_defs)

text \<open>
  C39: a sixteenth line pointer collides. A page with more than fifteen line pointers gives its sixteenth tuple the
  number of the first tuple of the next page, so that claiming one claims the other.
\<close>

theorem element_numbers_collide:
  "tuple_eid (ItemPointerSet p 16) = tuple_eid (ItemPointerSet (p + 1) 1)"
proof -
  have a: "tuple_eid (ItemPointerSet p 16) = Inr (p * 15 + 16 - 1)"
    using tuple_eid_eq [of "ItemPointerSet p 16"] by (simp add: ItemPointerSet_def)
  have "tuple_eid (ItemPointerSet (p + 1) 1) = Inr ((p + 1) * 15 + 1 - 1)"
    using tuple_eid_eq [of "ItemPointerSet (p + 1) 1"] by (simp add: ItemPointerSet_def)
  then show ?thesis unfolding a by (simp add: algebra_simps)
qed

text \<open>
  C23: the bits of the bitmap are independent. Setting and clearing lock bits and setting migrate bits through a
  pointer to the bitmap changes exactly the bit it names: the bit of the same kind of every other element and
  every bit of the other kind stay as they are.
\<close>

theorem bitmap_bits_independent:
  assumes "elem_ok m b e"
  shows "\<exists>m1 m2 m3. setlockbit m b e = Inr m1 \<and> resetlockbit m b e = Inr m2 \<and> setmigratebit m b e = Inr m3 \<and>
    (\<forall>e'. getlockbit m1 b e' = (if e' = e then Inr True else getlockbit m b e') \<and> getmigratebit m1 b e' = getmigratebit m b e') \<and>
    (\<forall>e'. getlockbit m2 b e' = (if e' = e then Inr False else getlockbit m b e') \<and> getmigratebit m2 b e' = getmigratebit m b e') \<and>
    (\<forall>e'. getmigratebit m3 b e' = (if e' = e then Inr True else getmigratebit m b e') \<and> getlockbit m3 b e' = getlockbit m b e')"
proof -
  obtain m1 m2 m3 where *: "setlockbit m b e = Inr m1" "resetlockbit m b e = Inr m2" "setmigratebit m b e = Inr m3"
    using lock_bits.put_total [OF assms] lock_bits.clear_total [OF assms] migrate_bits.put_total [OF assms] by blast
  then show ?thesis
    by (intro exI [of _ m1] exI [of _ m2] exI [of _ m3])
      (simp add: lock_bits.get_put lock_bits.get_clear migrate_bits.get_put migrate_after_setlock migrate_after_resetlock
        lock_after_setmigrate)
qed

theorem bitmap_bits_independent_witness:
  "\<exists>m1. setlockbit [0, 0] 0 33 = Inr m1 \<and> getlockbit m1 0 33 = Inr True \<and> getlockbit m1 0 32 = Inr False \<and>
     getmigratebit m1 0 33 = Inr False"
  using bitmap_bits_independent [of "[0, 0]" 0 33]
  by (auto simp: elem_ok_def unat_getwordid getlockbit_eq [of "[0, 0]"] getmigratebit_eq [of "[0, 0]"])

text \<open>
  C28: the two bitmaps share an array and no word. In the array that \<open>InitGlobalBitmap\<close> creates, both bits of every
  element are clear in both bitmaps. In every array of that size, setting or clearing the lock bit or setting the migrate bit
  of any element through one bitmap succeeds and leaves both bits of every element of the other as they were.
\<close>

theorem two_bitmaps:
  assumes "unat e < NUMTUPLES" and "unat e' < NUMTUPLES" and bb: "(b, b') \<in> {(0, BITMAPSIZE), (BITMAPSIZE, 0)}"
    and "upd \<in> {setlockbit, resetlockbit, setmigratebit}" and "length m = length (InitGlobalBitmap None)"
  shows "getlockbit (InitGlobalBitmap None) b e = Inr False \<and> getmigratebit (InitGlobalBitmap None) b e = Inr False \<and>
    (\<exists>m'. upd m b e = Inr m' \<and> length m' = length m \<and>
       getlockbit m' b' e' = getlockbit m b' e' \<and> getmigratebit m' b' e' = getmigratebit m b' e')"
proof -
  have len: "length m = 2 * BITMAPSIZE" using assms(5) by (simp add: InitGlobalBitmap_def)
  have ok: "elem_ok m b e" using bb elem_ok_both [OF len assms(1)] by auto
  have ne: "b' + unat (getwordid e') \<noteq> b + unat (getwordid e)" using other_bitmap_word [OF assms(1,2), of b b'] bb by auto
  obtain w where upd: "upd m b e = Inr (m[b + unat (getwordid e) := w])"
    using ok assms(4) by (auto simp: setlockbit_eq_Inr resetlockbit_eq_Inr setmigratebit_eq_Inr)
  let ?m = "m[b + unat (getwordid e) := w]"
  have "getlockbit ?m b' e' = getlockbit m b' e'" "getmigratebit ?m b' e' = getmigratebit m b' e'"
    using ne by (simp_all add: getlockbit_eq getmigratebit_eq elem_ok_def)
  moreover have "getlockbit (InitGlobalBitmap None) b e = Inr False" "getmigratebit (InitGlobalBitmap None) b e = Inr False"
    using fresh_bits [OF assms(1), of b] bb by (auto simp: InitGlobalBitmap_def)
  ultimately show ?thesis using upd by simp
qed

theorem two_bitmaps_witness:
  "getlockbit (InitGlobalBitmap None) BITMAPSIZE 77 = Inr False \<and> getmigratebit (InitGlobalBitmap None) BITMAPSIZE 77 = Inr False \<and>
   (\<exists>m'. setmigratebit (InitGlobalBitmap None) BITMAPSIZE 77 = Inr m' \<and> length m' = length (InitGlobalBitmap None) \<and>
      getlockbit m' 0 77 = getlockbit (InitGlobalBitmap None) 0 77 \<and> getmigratebit m' 0 77 = getmigratebit (InitGlobalBitmap None) 0 77)"
  by (rule two_bitmaps) (simp_all add: NUMTUPLES_def)

text \<open>
  C40: block numbers survive their split into two halves. Setting an item pointer and reading it back gives the
  block number and the offset that were put in, for all 32-bit block numbers.
\<close>

theorem item_pointer_roundtrip:
  "ItemPointerGetBlockNumberNoCheck (ItemPointerSet p k) = p \<and> ItemPointerGetOffsetNumberNoCheck (ItemPointerSet p k) = k \<and>
   (ItemPointerGetBlockNumber (ItemPointerSet p k) = (if k = 0 then Inl AssertFail else Inr p))"
  by (simp add: ItemPointerGetBlockNumber_def)

text \<open>
  \<open>ItemPointerCompare\<close> orders item pointers by block and then by offset: the comparison is zero exactly on
  equal pointers, antisymmetric and transitive.
\<close>

lemma item_pointer_order:
  "(ItemPointerCompare x y = 0 \<longleftrightarrow> x = y) \<and> (ItemPointerCompare x y < 0 \<longleftrightarrow> 0 < ItemPointerCompare y x) \<and>
   (ItemPointerCompare x y \<le> 0 \<and> ItemPointerCompare y z \<le> 0 \<longrightarrow> ItemPointerCompare x z \<le> 0)"
  using tid_order.cmp_zero tid_order.cmp_anti tid_order.le_trans by blast

end
